(* ===== verification/Prelude.thy ===== *)
theory Prelude
  imports Complex_Main "HOL-Library.Multiset"
begin

text \<open>
  Shared material for the models of the scouting app.  The TypeScript sources use a small part of
  the JavaScript standard library, and this theory gives that part once:
  \<^item> strings with the operations the code calls (\<open>trim\<close>, \<open>toLowerCase\<close>, \<open>replace\<close> with a
    character class, \<open>slice\<close>, \<open>startsWith\<close>, \<open>includes\<close>, \<open>split\<close>, \<open>padStart\<close>); a string is an
    Isabelle \<open>string\<close>, so code units are restricted to the range 0 to 255;
  \<^item> \<open>Array.prototype.sort\<close> with a comparator, as a stable insertion sort;
  \<^item> \<open>Map\<close> with its insertion order, as an association list, behind the locale \<open>js_dict\<close>;
  \<^item> \<open>Math.round\<close> and \<open>Number(x.toFixed(d))\<close> on real numbers.
  The collections \<open>str_simps\<close>, \<open>sort_simps\<close> and \<open>dict_simps\<close> gather the facts the component
  proofs pass to the simplifier.
\<close>

named_theorems str_simps \<open>facts about the string operations\<close>
named_theorems sort_simps \<open>facts about sorting with a comparator\<close>
named_theorems dict_simps \<open>facts about insertion-ordered maps\<close>

section \<open>Strings\<close>

text \<open>The white space of \<open>trim\<close> and of the class \<open>\s\<close>, among the code units 0 to 255.\<close>

definition is_space :: "char \<Rightarrow> bool" where
  "is_space c \<longleftrightarrow> of_char c \<in> {9, 10, 11, 12, 13, 32, 160 :: nat}"

definition trim_left :: "string \<Rightarrow> string" where
  "trim_left s = dropWhile is_space s"

definition js_trim :: "string \<Rightarrow> string" where
  "js_trim s = rev (dropWhile is_space (rev (dropWhile is_space s)))"

text \<open>
  \<open>toLowerCase\<close> on one code unit: the ASCII letters, and the accented capitals 0xC0 to 0xDE with
  the exception of the multiplication sign 0xD7.
\<close>

definition lower_char :: "char \<Rightarrow> char" where
  "lower_char c = (let n = of_char c :: nat in
     if (65 \<le> n \<and> n \<le> 90) \<or> (192 \<le> n \<and> n \<le> 222 \<and> n \<noteq> 215) then char_of (n + 32) else c)"

definition js_lower :: "string \<Rightarrow> string" where
  "js_lower s = map lower_char s"

definition upper_char :: "char \<Rightarrow> string" where
  "upper_char c = (let n = of_char c :: nat in
     if (97 \<le> n \<and> n \<le> 122) \<or> (224 \<le> n \<and> n \<le> 254 \<and> n \<noteq> 247) then [char_of (n - 32)]
     else if n = 223 then ''SS'' else [c])"

definition js_upper :: "string \<Rightarrow> string" where
  "js_upper s = concat (map upper_char s)"

definition is_digit :: "char \<Rightarrow> bool" where
  "is_digit c \<longleftrightarrow> (let n = of_char c :: nat in 48 \<le> n \<and> n \<le> 57)"

definition is_lower_alpha :: "char \<Rightarrow> bool" where
  "is_lower_alpha c \<longleftrightarrow> (let n = of_char c :: nat in 97 \<le> n \<and> n \<le> 122)"

definition is_upper_alpha :: "char \<Rightarrow> bool" where
  "is_upper_alpha c \<longleftrightarrow> (let n = of_char c :: nat in 65 \<le> n \<and> n \<le> 90)"

text \<open>\<open>s.replace(/\s+/g, r)\<close>: every maximal run of white space becomes \<open>r\<close>.\<close>

lemma dropWhile_length_Suc [termination_simp]: "length (dropWhile P cs) < Suc (length cs)"
  by (simp add: less_Suc_eq_le length_dropWhile_le)

fun replace_runs :: "(char \<Rightarrow> bool) \<Rightarrow> string \<Rightarrow> string \<Rightarrow> string" where
  "replace_runs P r [] = []"
| "replace_runs P r (c # cs) =
     (if P c then r @ replace_runs P r (dropWhile P cs) else c # replace_runs P r cs)"

text \<open>\<open>s.includes(t)\<close>.\<close>

fun js_includes :: "string \<Rightarrow> string \<Rightarrow> bool" where
  "js_includes [] t \<longleftrightarrow> t = []"
| "js_includes (c # cs) t \<longleftrightarrow> take (length t) (c # cs) = t \<or> js_includes cs t"

definition starts_with :: "string \<Rightarrow> string \<Rightarrow> bool" where
  "starts_with s p \<longleftrightarrow> take (length p) s = p"

text \<open>\<open>s.split(sep)\<close> for a separator of one code unit.\<close>

fun js_split :: "char \<Rightarrow> string \<Rightarrow> string list" where
  "js_split d [] = [[]]"
| "js_split d (c # cs) =
     (if c = d then [] # js_split d cs
      else (case js_split d cs of [] \<Rightarrow> [[c]] | w # ws \<Rightarrow> (c # w) # ws))"

definition js_join :: "string \<Rightarrow> string list \<Rightarrow> string" where
  "js_join sep ws = (case ws of [] \<Rightarrow> [] | w # ws' \<Rightarrow> w @ concat (map (\<lambda>v. sep @ v) ws'))"

text \<open>\<open>a || b\<close> on two strings: the empty string is falsy.\<close>

definition str_or :: "string \<Rightarrow> string \<Rightarrow> string" where
  "str_or a b = (if a = [] then b else a)"

text \<open>\<open>a ?? b\<close>.\<close>

definition nullish :: "'a option \<Rightarrow> 'a \<Rightarrow> 'a" where
  "nullish a b = (case a of None \<Rightarrow> b | Some x \<Rightarrow> x)"

lemma nullish_simps [simp]: "nullish None b = b" "nullish (Some a) b = a"
  by (simp_all add: nullish_def)

fun digits_of :: "nat \<Rightarrow> string" where
  "digits_of n = (if n < 10 then [char_of (48 + n)]
     else digits_of (n div 10) @ [char_of (48 + n mod 10)])"

declare digits_of.simps [simp del]

text \<open>\<open>String(n)\<close> for an integer.\<close>

definition int_str :: "int \<Rightarrow> string" where
  "int_str n = (if n < 0 then ''-'' @ digits_of (nat (- n)) else digits_of (nat n))"

definition pad_start :: "nat \<Rightarrow> char \<Rightarrow> string \<Rightarrow> string" where
  "pad_start n c s = replicate (n - length s) c @ s"

lemma js_trim_Nil [simp]: "js_trim [] = []"
  by (simp add: js_trim_def)

lemma dropWhile_idem: "dropWhile P (dropWhile P xs) = dropWhile P xs"
  by (induction xs) auto

lemma hd_dropWhile_not: "dropWhile P xs \<noteq> [] \<Longrightarrow> \<not> P (hd (dropWhile P xs))"
  by (rule hd_dropWhile)

lemma dropWhile_hd_id: "(xs \<noteq> [] \<Longrightarrow> \<not> P (hd xs)) \<Longrightarrow> dropWhile P xs = xs"
  by (cases xs) auto

text \<open>A string is trimmed when neither end is white space; trimming makes it so and then is idle.\<close>

definition trimmed :: "string \<Rightarrow> bool" where
  "trimmed s \<longleftrightarrow> s = [] \<or> (\<not> is_space (hd s) \<and> \<not> is_space (last s))"

lemma trim_idle: "trimmed s \<Longrightarrow> js_trim s = s"
proof -
  assume t: "trimmed s"
  have 1: "dropWhile is_space s = s"
    using t by (intro dropWhile_hd_id) (auto simp: trimmed_def)
  have "dropWhile is_space (rev s) = rev s"
    using t by (intro dropWhile_hd_id) (auto simp: trimmed_def hd_rev)
  with 1 show ?thesis by (simp add: js_trim_def)
qed

lemma suffix_dropWhile_rev: "\<exists>zs. xs = rev (dropWhile P (rev xs)) @ zs"
  by (metis rev_append rev_rev_ident takeWhile_dropWhile_id)

lemma trimmed_trim [simp]: "trimmed (js_trim s)"
proof (cases "js_trim s = []")
  case True
  then show ?thesis by (simp add: trimmed_def)
next
  case False
  define u where "u = dropWhile is_space s"
  have t: "js_trim s = rev (dropWhile is_space (rev u))" by (simp add: js_trim_def u_def)
  from False t have ne: "dropWhile is_space (rev u) \<noteq> []" by auto
  then have l: "\<not> is_space (last (js_trim s))"
    by (simp add: t last_rev hd_dropWhile)
  obtain zs where zs: "u = js_trim s @ zs" using suffix_dropWhile_rev [of u is_space] t by auto
  with False have "u \<noteq> []" and "hd u = hd (js_trim s)" by (auto simp: hd_append)
  then have "\<not> is_space (hd (js_trim s))"
    unfolding u_def by (metis hd_dropWhile)
  with l show ?thesis by (simp add: trimmed_def)
qed

lemma trim_trim [simp]: "js_trim (js_trim s) = js_trim s"
  by (simp add: trim_idle)

lemma set_js_trim: "set (js_trim s) \<subseteq> set s"
  unfolding js_trim_def by (auto dest!: set_dropWhileD)

lemma length_js_trim: "length (js_trim s) \<le> length s"
  unfolding js_trim_def
  by (metis length_dropWhile_le length_rev order_trans)

lemma js_lower_Nil_iff [simp]: "js_lower s = [] \<longleftrightarrow> s = []"
  by (simp add: js_lower_def)

lemma js_lower_Nil [simp]: "js_lower [] = []"
  by (simp add: js_lower_def)

lemma length_js_lower [simp]: "length (js_lower s) = length s"
  by (simp add: js_lower_def)

lemma of_char_of_small: "n < 256 \<Longrightarrow> of_char (char_of (n::nat) :: char) = n"
  by (simp add: of_char_of)

lemma of_char_less_256: "of_char (c :: char) < (256 :: nat)"
  using nat_of_char_less_256 [of c] by simp

lemma lower_char_idem [simp]: "lower_char (lower_char c) = lower_char c"
proof -
  have "of_char c < (256::nat)" by (rule of_char_less_256)
  then show ?thesis
    by (auto simp: lower_char_def Let_def of_char_of_small)
qed

lemma js_lower_idem [simp]: "js_lower (js_lower s) = js_lower s"
  by (simp add: js_lower_def)

lemma is_space_lower [simp]: "is_space (lower_char c) \<longleftrightarrow> is_space c"
proof -
  have "of_char c < (256::nat)" by (rule of_char_less_256)
  then show ?thesis
    by (auto simp: is_space_def lower_char_def Let_def of_char_of_small)
qed

lemma trimmed_lower [simp]: "trimmed (js_lower s) \<longleftrightarrow> trimmed s"
  by (cases "s = []") (auto simp: trimmed_def js_lower_def hd_map last_map)

lemma dropWhile_map_same:
  "(\<And>x. P (f x) \<longleftrightarrow> P x) \<Longrightarrow> dropWhile P (map f xs) = map f (dropWhile P xs)"
  by (induction xs) auto

lemma js_lower_append: "js_lower (s @ t) = js_lower s @ js_lower t"
  by (simp add: js_lower_def)

lemma js_trim_lower: "js_trim (js_lower s) = js_lower (js_trim s)"
  by (simp add: js_trim_def js_lower_def dropWhile_map_same rev_map)

lemma trim_lower_trim [str_simps]: "js_trim (js_lower (js_trim s)) = js_lower (js_trim s)"
  by (simp add: js_trim_lower)

lemma lower_trim_idem [str_simps]:
  "js_lower (js_trim (js_lower (js_trim s))) = js_lower (js_trim s)"
  by (simp add: js_trim_lower)

text \<open>\<open>s.replace(/[^P]+/g, '')\<close>: what is left is the characters that satisfy \<open>P\<close>.\<close>

lemma replace_runs_Nil: "replace_runs P [] s = filter (\<lambda>c. \<not> P c) s"
proof (induction s rule: length_induct)
  case (1 s)
  show ?case
  proof (cases s)
    case Nil
    then show ?thesis by simp
  next
    case (Cons c cs)
    have "filter (\<lambda>c. \<not> P c) (dropWhile P cs) = filter (\<lambda>c. \<not> P c) cs"
      by (induction cs) auto
    moreover have "length (dropWhile P cs) < length s" "length cs < length s"
      using Cons length_dropWhile_le [of P cs] by (auto simp: less_Suc_eq_le)
    ultimately show ?thesis using 1 Cons by (metis filter.simps(2) replace_runs.simps(2) append_Nil)
  qed
qed

lemma digits_of_nonempty [simp]: "digits_of n \<noteq> []"
  by (subst digits_of.simps) simp

lemma digits_of_digit: "c \<in> set (digits_of n) \<Longrightarrow> is_digit c"
proof (induction n rule: digits_of.induct)
  case (1 n)
  have d: "is_digit (char_of (48 + m))" if "m < 10" for m :: nat
    using that by (simp add: is_digit_def of_char_of_small)
  show ?case
  proof (cases "n < 10")
    case True
    with "1.prems" d show ?thesis by (auto simp: digits_of.simps [of n])
  next
    case False
    with "1.prems" have "c \<in> set (digits_of (n div 10)) \<or> c = char_of (48 + n mod 10)"
      by (auto simp: digits_of.simps [of n])
    then show ?thesis using "1.IH" False d [of "n mod 10"] by auto
  qed
qed

lemma starts_with_append [simp]: "starts_with (p @ s) p"
  by (simp add: starts_with_def)

lemma starts_with_obtain: "starts_with s p \<Longrightarrow> s = p @ drop (length p) s"
  unfolding starts_with_def by (metis append_take_drop_id)

section \<open>Rounding\<close>

text \<open>\<open>Math.round\<close> rounds halves up.\<close>

definition math_round :: "real \<Rightarrow> int" where
  "math_round x = \<lfloor>x + 1/2\<rfloor>"

text \<open>
  \<open>Number(x.toFixed(d))\<close>: the nearest multiple of \<open>10 ^ - d\<close>, the larger of two on the absolute
  value, and \<open>x\<close> itself from \<open>10 ^ 21\<close> on.
\<close>

definition to_fixed :: "nat \<Rightarrow> real \<Rightarrow> real" where
  "to_fixed d x = (if \<bar>x\<bar> \<ge> 10 ^ 21 then x
     else sgn x * (of_int \<lfloor>\<bar>x\<bar> * 10 ^ d + 1/2\<rfloor> / 10 ^ d))"

definition clampNumber :: "real \<Rightarrow> real \<Rightarrow> real \<Rightarrow> real" where
  "clampNumber v lo hi = max lo (min hi v)"

lemma clamp_ge: "lo \<le> clampNumber v lo hi"
  by (simp add: clampNumber_def)

lemma clamp_le: "lo \<le> hi \<Longrightarrow> clampNumber v lo hi \<le> hi"
  by (simp add: clampNumber_def)

lemma clamp_id: "lo \<le> v \<Longrightarrow> v \<le> hi \<Longrightarrow> clampNumber v lo hi = v"
  by (simp add: clampNumber_def)

lemma clamp_mono: "u \<le> v \<Longrightarrow> clampNumber u lo hi \<le> clampNumber v lo hi"
  unfolding clampNumber_def by linarith

lemma clamp01 [simp]: "0 \<le> clampNumber v 0 1" "clampNumber v 0 1 \<le> 1"
  by (simp_all add: clampNumber_def)

lemma clamp0100 [simp]: "0 \<le> clampNumber v 0 100" "clampNumber v 0 100 \<le> 100"
  by (simp_all add: clampNumber_def)

lemma math_round_mono: "x \<le> y \<Longrightarrow> math_round x \<le> math_round y"
  by (simp add: math_round_def floor_mono)

lemma math_round_of_int [simp]: "math_round (of_int n) = n"
  unfolding math_round_def by linarith

lemma math_round_bounds:
  assumes "of_int a \<le> x" and "x \<le> of_int b"
  shows "a \<le> math_round x" and "math_round x \<le> b"
  using math_round_mono [OF assms(1)] math_round_mono [OF assms(2)] by simp_all

lemma to_fixed_nonneg: "0 \<le> x \<Longrightarrow> 0 \<le> to_fixed d x"
  by (auto simp: to_fixed_def intro!: mult_nonneg_nonneg divide_nonneg_nonneg)

lemma to_fixed_le:
  assumes "0 \<le> x" and "x \<le> of_int b" and "b < 10 ^ 21"
  shows "to_fixed d x \<le> of_int b"
proof -
  have "real_of_int b < real_of_int (10 ^ 21)"
    using assms(3) by (simp only: of_int_less_iff)
  then have x: "\<bar>x\<bar> = x" "\<not> \<bar>x\<bar> \<ge> 10 ^ 21"
    using assms(1,2) by simp_all
  have "x * 10 ^ d + 1/2 \<le> of_int (b * 10 ^ d) + 1/2"
    using assms(2) by (simp add: mult_right_mono)
  then have "\<lfloor>x * 10 ^ d + 1/2\<rfloor> \<le> \<lfloor>real_of_int (b * 10 ^ d) + 1/2\<rfloor>" by (rule floor_mono)
  also have "\<lfloor>real_of_int (b * 10 ^ d) + 1/2\<rfloor> = b * 10 ^ d" by linarith
  finally have f: "\<lfloor>x * 10 ^ d + 1/2\<rfloor> \<le> b * 10 ^ d" .
  have "of_int \<lfloor>x * 10 ^ d + 1/2\<rfloor> / 10 ^ d \<le> (of_int (b * 10 ^ d) / 10 ^ d :: real)"
    by (rule divide_right_mono) (simp_all only: of_int_le_iff f, simp)
  then have q: "of_int \<lfloor>x * 10 ^ d + 1/2\<rfloor> / 10 ^ d \<le> (of_int b :: real)" by simp
  show ?thesis
  proof (cases "x = 0")
    case True
    then show ?thesis using assms(1,2) by (simp add: to_fixed_def)
  next
    case False
    with assms(1) have "sgn x = 1" by (simp add: sgn_if)
    with q x show ?thesis by (simp add: to_fixed_def)
  qed
qed

section \<open>Sorting with a comparator\<close>

text \<open>
  \<open>xs.sort(cmp)\<close>: an element is put after every element it does not compare below, so equal
  elements keep their order, as the language requires of \<open>sort\<close>.  For a comparator that orders by
  a key this is the stable sort by that key (\<open>js_sort_sort_key\<close>), whatever algorithm the engine
  uses.
\<close>

fun js_insert :: "('a \<Rightarrow> 'a \<Rightarrow> int) \<Rightarrow> 'a \<Rightarrow> 'a list \<Rightarrow> 'a list" where
  "js_insert cmp x [] = [x]"
| "js_insert cmp x (y # ys) = (if cmp x y < 0 then x # y # ys else y # js_insert cmp x ys)"

definition js_sort :: "('a \<Rightarrow> 'a \<Rightarrow> int) \<Rightarrow> 'a list \<Rightarrow> 'a list" where
  "js_sort cmp xs = fold (js_insert cmp) xs []"

lemma mset_js_insert [simp]: "mset (js_insert cmp x ys) = add_mset x (mset ys)"
  by (induction ys) auto

lemma mset_fold_js_insert: "mset (fold (js_insert cmp) xs ys) = mset xs + mset ys"
  by (induction xs arbitrary: ys) auto

lemma mset_js_sort [simp]: "mset (js_sort cmp xs) = mset xs"
  by (simp add: js_sort_def mset_fold_js_insert)

lemma set_js_sort [simp]: "set (js_sort cmp xs) = set xs"
  by (rule mset_eq_setD) simp

lemma length_js_sort [simp]: "length (js_sort cmp xs) = length xs"
  by (rule mset_eq_length) simp

lemma js_sort_Nil [simp]: "js_sort cmp [] = []"
  by (simp add: js_sort_def)

lemma js_sort_eq_Nil [simp]: "js_sort cmp xs = [] \<longleftrightarrow> xs = []"
  by (metis length_0_conv length_js_sort)

lemma distinct_map_js_sort [simp]: "distinct (map f (js_sort cmp xs)) \<longleftrightarrow> distinct (map f xs)"
  by (metis mset_js_sort mset_map mset_eq_imp_distinct_iff)

text \<open>A comparator orders by a key when it is negative exactly where the key decreases.\<close>

definition orders_by :: "('a \<Rightarrow> 'a \<Rightarrow> int) \<Rightarrow> ('a \<Rightarrow> 'k::linorder) \<Rightarrow> bool" where
  "orders_by cmp k \<longleftrightarrow> (\<forall>x y. cmp x y < 0 \<longleftrightarrow> k x < k y)"

lemma js_insert_sorted:
  assumes "orders_by cmp k" and "sorted (map k ys)"
  shows "sorted (map k (js_insert cmp x ys))"
  using assms(2)
proof (induction ys)
  case Nil
  then show ?case by simp
next
  case (Cons y ys)
  have s: "set (js_insert cmp x ys) = insert x (set ys)"
    using mset_eq_setD [OF mset_js_insert [of cmp x ys, folded mset.simps]] by simp
  show ?case using Cons assms(1) by (fastforce simp: orders_by_def s)
qed

lemma js_insert_filter_neq:
  "\<not> P x \<Longrightarrow> filter P (js_insert cmp x ys) = filter P ys"
  by (induction ys) auto

lemma js_insert_filter_eq:
  assumes "orders_by cmp k" and "sorted (map k ys)"
  shows "filter (\<lambda>z. k x = k z) (js_insert cmp x ys) = filter (\<lambda>z. k x = k z) ys @ [x]"
  using assms(2)
proof (induction ys)
  case Nil
  then show ?case by simp
next
  case (Cons y ys)
  show ?case
  proof (cases "cmp x y < 0")
    case True
    with assms(1) have "k x < k y" by (simp add: orders_by_def)
    with Cons.prems have "filter (\<lambda>z. k x = k z) (y # ys) = []"
      by (auto simp: filter_empty_conv)
    with True show ?thesis by simp
  next
    case False
    have "filter (\<lambda>z. k x = k z) (js_insert cmp x ys) = filter (\<lambda>z. k x = k z) ys @ [x]"
      using Cons by simp
    with False show ?thesis by (simp only: js_insert.simps filter.simps if_False append_Cons split: if_split) simp
  qed
qed

lemma fold_js_insert_sorted_stable:
  assumes "orders_by cmp k" and "sorted (map k ys)"
  shows "sorted (map k (fold (js_insert cmp) xs ys)) \<and>
    (\<forall>x. filter (\<lambda>z. k x = k z) (fold (js_insert cmp) xs ys) =
         filter (\<lambda>z. k x = k z) ys @ filter (\<lambda>z. k x = k z) xs)"
  using assms(2)
proof (induction xs arbitrary: ys)
  case Nil
  then show ?case by simp
next
  case (Cons a xs)
  note IH = Cons.IH [OF js_insert_sorted [OF assms(1) Cons.prems, of a]]
  have "filter (\<lambda>z. k x = k z) (js_insert cmp a ys) =
      filter (\<lambda>z. k x = k z) ys @ (if k x = k a then [a] else [])" for x
    using js_insert_filter_eq [OF assms(1) Cons.prems, of a]
    by (auto simp: js_insert_filter_neq)
  with IH show ?case by simp
qed

lemma js_sort_sort_key [sort_simps]:
  assumes "orders_by cmp k"
  shows "js_sort cmp xs = sort_key k xs"
proof -
  note st = fold_js_insert_sorted_stable [OF assms, of "[]" xs]
  show ?thesis
    by (rule properties_for_sort_key [symmetric])
      (use st in \<open>simp_all add: js_sort_def mset_fold_js_insert\<close>)
qed

lemma sorted_js_sort: "orders_by cmp k \<Longrightarrow> sorted (map k (js_sort cmp xs))"
  by (simp add: js_sort_sort_key)

text \<open>A comparator that never disagrees with a key sorts by it, whatever it does on equal keys.\<close>

lemma sorted_js_sort_weak:
  assumes "\<And>x y. cmp x y < 0 \<Longrightarrow> k x \<le> k y" "\<And>x y. \<not> cmp x y < 0 \<Longrightarrow> k y \<le> k x"
  shows "sorted (map k (js_sort cmp xs))"
proof -
  have ins: "sorted (map k ys) \<Longrightarrow> sorted (map k (js_insert cmp x ys))" for x ys
  proof (induction ys)
    case (Cons y ys)
    have s: "set (js_insert cmp x ys) = insert x (set ys)"
      using mset_eq_setD [OF mset_js_insert [of cmp x ys, folded mset.simps]] by simp
    show ?case using Cons assms(1) [of x y] assms(2) [of x y] by (auto simp: s intro: order_trans)
  qed simp
  have "sorted (map k ys) \<Longrightarrow> sorted (map k (fold (js_insert cmp) xs ys))" for ys
    by (induction xs arbitrary: ys) (auto intro: ins)
  then show ?thesis by (simp add: js_sort_def)
qed

text \<open>A list that is already in order is left as it is.\<close>

lemma js_insert_end:
  "(\<And>y. y \<in> set ys \<Longrightarrow> \<not> cmp x y < 0) \<Longrightarrow> js_insert cmp x ys = ys @ [x]"
  by (induction ys) auto

lemma fold_js_insert_sorted_id:
  "sorted_wrt (\<lambda>x y. \<not> cmp y x < 0) (ys @ xs) \<Longrightarrow> fold (js_insert cmp) xs ys = ys @ xs"
proof (induction xs arbitrary: ys)
  case Nil
  then show ?case by simp
next
  case (Cons a xs)
  then have "js_insert cmp a ys = ys @ [a]"
    by (intro js_insert_end) (auto simp: sorted_wrt_append)
  with Cons show ?case by simp
qed

lemma js_sort_id: "sorted_wrt (\<lambda>x y. \<not> cmp y x < 0) xs \<Longrightarrow> js_sort cmp xs = xs"
  using fold_js_insert_sorted_id [of cmp "[]" xs] by (simp add: js_sort_def)

section \<open>Insertion-ordered maps\<close>

text \<open>
  \<open>Map\<close>: \<open>set\<close> overwrites the value of a key in its place and appends a new key at the end;
  iteration follows that order.
\<close>

type_synonym ('k, 'v) jsmap = "('k \<times> 'v) list"

fun map_set :: "'k \<Rightarrow> 'v \<Rightarrow> ('k, 'v) jsmap \<Rightarrow> ('k, 'v) jsmap" where
  "map_set k v [] = [(k, v)]"
| "map_set k v ((j, w) # m) = (if j = k then (k, v) # m else (j, w) # map_set k v m)"

definition map_get :: "('k, 'v) jsmap \<Rightarrow> 'k \<Rightarrow> 'v option" where
  "map_get m k = map_of m k"

definition map_delete :: "'k \<Rightarrow> ('k, 'v) jsmap \<Rightarrow> ('k, 'v) jsmap" where
  "map_delete k m = filter (\<lambda>(j, _). j \<noteq> k) m"

definition map_has :: "('k, 'v) jsmap \<Rightarrow> 'k \<Rightarrow> bool" where
  "map_has m k \<longleftrightarrow> k \<in> set (map fst m)"

definition map_values :: "('k, 'v) jsmap \<Rightarrow> 'v list" where
  "map_values m = map snd m"

definition map_keys :: "('k, 'v) jsmap \<Rightarrow> 'k list" where
  "map_keys m = map fst m"

text \<open>What the clients rely on, and what follows from it for the pattern the code uses most, a
  loop that stores each element of a list under its key (\<open>new Map(xs.map(x => [key(x), x]))\<close>).\<close>

locale js_dict =
  fixes dset :: "'k \<Rightarrow> 'v \<Rightarrow> 'm \<Rightarrow> 'm"
    and dget :: "'m \<Rightarrow> 'k \<Rightarrow> 'v option"
    and ddel :: "'k \<Rightarrow> 'm \<Rightarrow> 'm"
    and dempty :: "'m"
    and dok :: "'m \<Rightarrow> bool"
  assumes get_empty: "dget dempty k = None"
    and get_set: "dok m \<Longrightarrow> dget (dset k v m) j = (if j = k then Some v else dget m j)"
    and get_del: "dok m \<Longrightarrow> dget (ddel k m) j = (if j = k then None else dget m j)"
    and ok_empty: "dok dempty"
    and ok_set: "dok m \<Longrightarrow> dok (dset k v m)"
    and ok_del: "dok m \<Longrightarrow> dok (ddel k m)"
begin

lemma ok_index: "dok m \<Longrightarrow> dok (fold (\<lambda>x. dset (f x) (g x)) xs m)"
  by (induction xs arbitrary: m) (auto intro: ok_set)

lemma get_index:
  "dok m \<Longrightarrow> dget (fold (\<lambda>x. dset (f x) (g x)) xs m) k =
     (case find (\<lambda>x. f x = k) (rev xs) of Some x \<Rightarrow> Some (g x) | None \<Rightarrow> dget m k)"
proof (induction xs arbitrary: m)
  case Nil
  then show ?case by simp
next
  case (Cons a xs)
  have fa: "find P (ys @ [a]) = (case find P ys of None \<Rightarrow> if P a then Some a else None | Some y \<Rightarrow> Some y)"
    for P and ys
    by (induction ys) auto
  show ?case using Cons
    by (simp add: ok_set get_set fa split: option.split)
qed

lemma get_index_None:
  "dok m \<Longrightarrow> k \<notin> f ` set xs \<Longrightarrow> dget (fold (\<lambda>x. dset (f x) (g x)) xs m) k = dget m k"
  by (induction xs arbitrary: m) (auto simp: ok_set get_set)

lemma get_index_distinct:
  "dok m \<Longrightarrow> distinct (map f xs) \<Longrightarrow> x \<in> set xs \<Longrightarrow>
     dget (fold (\<lambda>x. dset (f x) (g x)) xs m) (f x) = Some (g x)"
proof (induction xs arbitrary: m)
  case Nil
  then show ?case by simp
next
  case (Cons a xs)
  show ?case
  proof (cases "x = a")
    case True
    with Cons.prems show ?thesis by (simp add: get_index_None ok_set get_set)
  next
    case False
    with Cons show ?thesis by (simp add: ok_set)
  qed
qed

end

definition map_ok :: "('k, 'v) jsmap \<Rightarrow> bool" where
  "map_ok m \<longleftrightarrow> distinct (map fst m)"

lemma set_fst_map_set [dict_simps]: "fst ` set (map_set k v m) = insert k (fst ` set m)"
proof (induction m)
  case (Cons p m)
  then show ?case by (cases p) (auto simp: image_iff)
qed simp

lemma map_ok_set: "map_ok m \<Longrightarrow> map_ok (map_set k v m)"
  unfolding map_ok_def by (induction m) (auto simp: set_fst_map_set)

lemma map_get_set [dict_simps]: "map_get (map_set k v m) j = (if j = k then Some v else map_get m j)"
  unfolding map_get_def by (induction m) auto

lemma map_get_delete [dict_simps]: "map_get (map_delete k m) j = (if j = k then None else map_get m j)"
  unfolding map_get_def map_delete_def by (induction m) auto

lemma map_ok_delete: "map_ok m \<Longrightarrow> map_ok (map_delete k m)"
  unfolding map_ok_def map_delete_def by (induction m) auto

lemma map_ok_Nil [simp]: "map_ok []"
  by (simp add: map_ok_def)

interpretation jm: js_dict map_set map_get map_delete "[]" map_ok
  by unfold_locales (simp_all add: dict_simps map_ok_set map_ok_delete, simp add: map_get_def)

lemma map_has_get [dict_simps]: "map_has m k \<longleftrightarrow> map_get m k \<noteq> None"
  by (simp add: map_has_def map_get_def map_of_eq_None_iff)

lemma map_set_fresh: "k \<notin> fst ` set m \<Longrightarrow> map_set k v m = m @ [(k, v)]"
  by (induction m) auto

lemma map_keys_set: "map_keys (map_set k v m) = (if map_has m k then map_keys m else map_keys m @ [k])"
  unfolding map_keys_def map_has_def
proof (induction m)
  case (Cons p m)
  then show ?case by (cases p) auto
qed simp

lemma map_values_in: "map_ok m \<Longrightarrow> v \<in> set (map_values m) \<longleftrightarrow> (\<exists>k. map_get m k = Some v)"
  by (force simp: map_ok_def map_values_def map_get_def)

lemma map_set_twice: "map_ok m \<Longrightarrow> map_set k v (map_set k u m) = map_set k v m"
  by (induction m) (auto simp: map_ok_def)

text \<open>Storing the elements of a list under fresh, distinct keys lists them in order.\<close>

lemma fold_map_set_fresh:
  "distinct (map f xs) \<Longrightarrow> f ` set xs \<inter> fst ` set m = {} \<Longrightarrow>
     fold (\<lambda>x. map_set (f x) (g x)) xs m = m @ map (\<lambda>x. (f x, g x)) xs"
proof (induction xs arbitrary: m)
  case Nil
  then show ?case by simp
next
  case (Cons a xs)
  then have "map_set (f a) (g a) m = m @ [(f a, g a)]"
    by (intro map_set_fresh) auto
  with Cons show ?case by auto
qed

section \<open>Lists\<close>

text \<open>\<open>new Set(xs)\<close> read back in insertion order: the first occurrences.\<close>

fun firsts :: "'a list \<Rightarrow> 'a list" where
  "firsts [] = []"
| "firsts (x # xs) = x # filter (\<lambda>y. y \<noteq> x) (firsts xs)"

lemma set_firsts [simp]: "set (firsts xs) = set xs"
  by (induction xs) auto

lemma distinct_firsts [simp]: "distinct (firsts xs)"
  by (induction xs) auto

lemma firsts_distinct: "distinct xs \<Longrightarrow> firsts xs = xs"
proof (induction xs)
  case Nil
  then show ?case by simp
next
  case (Cons x xs)
  then have "filter (\<lambda>y. y \<noteq> x) xs = xs" by (intro filter_True) auto
  with Cons show ?case by simp
qed

end
