(* ===== verification/JsValue.thy ===== *)
theory JsValue
  imports Prelude
begin

text \<open>
  Values of type \<open>unknown\<close>: what \<open>JSON.parse\<close> returns and what the readers of stored and received
  data (\<open>src/ScoutingApp/src/pages/centerUtils.ts\<close>) accept.  Finite numbers are real numbers: the
  arithmetic is exact where the engine rounds to 53 bits.  An object is the list of its own
  properties.  The text of a stored JSON document is represented by what \<open>JSON.parse\<close> makes of it
  (\<open>jtext\<close>): the value, or the raw characters of a text that does not parse.
\<close>

section \<open>Values\<close>

datatype num = Fin real | NaN | PosInf | NegInf

datatype jsval = JUndef | JNull | JBool bool | JNum num | JStr string
  | JArr "jsval list" | JObj "(string \<times> jsval) list"

fun truthy :: "jsval \<Rightarrow> bool" where
  "truthy JUndef = False"
| "truthy JNull = False"
| "truthy (JBool b) = b"
| "truthy (JNum (Fin x)) = (x \<noteq> 0)"
| "truthy (JNum NaN) = False"
| "truthy (JNum _) = True"
| "truthy (JStr s) = (s \<noteq> [])"
| "truthy (JArr _) = True"
| "truthy (JObj _) = True"

definition js_or :: "jsval \<Rightarrow> jsval \<Rightarrow> jsval" where
  "js_or a b = (if truthy a then a else b)"

definition js_nullish :: "jsval \<Rightarrow> jsval \<Rightarrow> jsval" where
  "js_nullish a b = (case a of JUndef \<Rightarrow> b | JNull \<Rightarrow> b | _ \<Rightarrow> a)"

text \<open>A property read: \<open>undefined\<close> where the object has no such property.\<close>

definition jget :: "(string \<times> jsval) list \<Rightarrow> string \<Rightarrow> jsval" where
  "jget m k = (case map_of m k of None \<Rightarrow> JUndef | Some v \<Rightarrow> v)"

text \<open>\<open>m?.k\<close> on a record that may be missing.\<close>

definition jget_opt :: "(string \<times> jsval) list option \<Rightarrow> string \<Rightarrow> jsval" where
  "jget_opt m k = (case m of None \<Rightarrow> JUndef | Some r \<Rightarrow> jget r k)"

definition asRecord :: "jsval \<Rightarrow> (string \<times> jsval) list option" where
  "asRecord v = (case v of JObj m \<Rightarrow> Some m | _ \<Rightarrow> None)"

datatype jtext = Json jsval | Raw string

definition json_parse :: "jtext \<Rightarrow> jsval option" where
  "json_parse t = (case t of Json v \<Rightarrow> Some v | Raw _ \<Rightarrow> None)"

text \<open>A string is falsy when it is empty; no JSON document is.\<close>

definition text_empty :: "jtext \<Rightarrow> bool" where
  "text_empty t \<longleftrightarrow> t = Raw []"

section \<open>Strings and numbers\<close>

definition digit_val :: "char \<Rightarrow> nat" where
  "digit_val c = of_char c - 48"

definition dec_val :: "string \<Rightarrow> nat" where
  "dec_val ds = foldl (\<lambda>a c. 10 * a + digit_val c) 0 ds"

definition hex_val :: "char \<Rightarrow> nat option" where
  "hex_val c = (if is_digit c then Some (digit_val c)
     else if is_lower_alpha c \<and> of_char c \<le> (102::nat) then Some (of_char c - 87)
     else if is_upper_alpha c \<and> of_char c \<le> (70::nat) then Some (of_char c - 55) else None)"

text \<open>The digits of a base up to 16, all of them, at least one.\<close>

definition radix_val :: "nat \<Rightarrow> string \<Rightarrow> nat option" where
  "radix_val b ds = (if ds = [] then None
     else foldl (\<lambda>a c. case a of None \<Rightarrow> None | Some n \<Rightarrow>
       (case hex_val c of None \<Rightarrow> None | Some d \<Rightarrow> if d < b then Some (b * n + d) else None)) (Some 0) ds)"

text \<open>The exponent part of a decimal literal; a literal without one has exponent 0.\<close>

definition exponent_val :: "string \<Rightarrow> int option" where
  "exponent_val s = (case s of [] \<Rightarrow> Some 0
     | c # cs \<Rightarrow>
       if c = CHR ''e'' \<or> c = CHR ''E'' then
         (let neg = (cs \<noteq> [] \<and> hd cs = CHR ''-'');
              ds = (if cs \<noteq> [] \<and> (hd cs = CHR ''-'' \<or> hd cs = CHR ''+'') then tl cs else cs)
          in if ds \<noteq> [] \<and> (\<forall>d \<in> set ds. is_digit d)
             then Some (if neg then - int (dec_val ds) else int (dec_val ds)) else None)
       else None)"

definition ten_power :: "int \<Rightarrow> real" where
  "ten_power e = (if 0 \<le> e then 10 ^ nat e else 1 / 10 ^ nat (- e))"

definition unsigned_decimal :: "string \<Rightarrow> real option" where
  "unsigned_decimal s =
     (let ip = takeWhile is_digit s; r = dropWhile is_digit s;
          dot = (r \<noteq> [] \<and> hd r = CHR ''.'');
          fp = (if dot then takeWhile is_digit (tl r) else []);
          r' = (if dot then dropWhile is_digit (tl r) else r)
      in if ip = [] \<and> fp = [] then None
         else (case exponent_val r' of None \<Rightarrow> None
           | Some e \<Rightarrow> Some (real (dec_val (ip @ fp)) * ten_power (e - int (length fp)))))"

text \<open>The largest double is below \<open>2 ^ 1024 - 2 ^ 970\<close>; a literal from there on reads as infinity.\<close>

definition in_range :: "bool \<Rightarrow> real \<Rightarrow> num" where
  "in_range neg x = (if x \<ge> 2 ^ 1024 - 2 ^ 970 then (if neg then NegInf else PosInf)
     else Fin (if neg then - x else x))"

text \<open>\<open>Number(s)\<close>.\<close>

definition js_number :: "string \<Rightarrow> num" where
  "js_number s =
     (let t = js_trim s;
          neg = (t \<noteq> [] \<and> hd t = CHR ''-'');
          u = (if t \<noteq> [] \<and> (hd t = CHR ''-'' \<or> hd t = CHR ''+'') then tl t else t);
          radix = (\<lambda>b. case radix_val b (drop 2 t) of None \<Rightarrow> NaN | Some n \<Rightarrow> in_range False (real n))
      in if t = [] then Fin 0
         else if take 2 t = ''0x'' \<or> take 2 t = ''0X'' then radix 16
         else if take 2 t = ''0o'' \<or> take 2 t = ''0O'' then radix 8
         else if take 2 t = ''0b'' \<or> take 2 t = ''0B'' then radix 2
         else if u = ''Infinity'' then (if neg then NegInf else PosInf)
         else (case unsigned_decimal u of None \<Rightarrow> NaN | Some x \<Rightarrow> in_range neg x))"

text \<open>\<open>String(x)\<close> for a number.  An integer below \<open>10 ^ 21\<close> prints in decimal; what the engine prints
  for any other number (the shortest decimal that reads back as the same double) is the parameter
  \<open>nstr\<close>.\<close>

definition num_str :: "(real \<Rightarrow> string) \<Rightarrow> num \<Rightarrow> string" where
  "num_str nstr n = (case n of NaN \<Rightarrow> ''NaN'' | PosInf \<Rightarrow> ''Infinity'' | NegInf \<Rightarrow> ''-Infinity''
     | Fin x \<Rightarrow> if of_int \<lfloor>x\<rfloor> = x \<and> \<bar>x\<bar> < 10 ^ 21 then int_str \<lfloor>x\<rfloor> else nstr x)"

fun js_string :: "(real \<Rightarrow> string) \<Rightarrow> jsval \<Rightarrow> string" where
  "js_string nstr JUndef = ''undefined''"
| "js_string nstr JNull = ''null''"
| "js_string nstr (JBool b) = (if b then ''true'' else ''false'')"
| "js_string nstr (JNum n) = num_str nstr n"
| "js_string nstr (JStr s) = s"
| "js_string nstr (JArr vs) =
     js_join '','' (map (\<lambda>v. if v = JUndef \<or> v = JNull then [] else js_string nstr v) vs)"
| "js_string nstr (JObj m) = ''[object Object]''"

text \<open>\<open>Number(v)\<close>.\<close>

definition to_number :: "(real \<Rightarrow> string) \<Rightarrow> jsval \<Rightarrow> num" where
  "to_number nstr v = (case v of JNum n \<Rightarrow> n | JBool b \<Rightarrow> Fin (if b then 1 else 0) | JNull \<Rightarrow> Fin 0
     | JUndef \<Rightarrow> NaN | v \<Rightarrow> js_number (js_string nstr v))"

definition parseNumber :: "jsval \<Rightarrow> real option" where
  "parseNumber v = (case v of
       JNum (Fin x) \<Rightarrow> Some x
     | JStr s \<Rightarrow> if js_trim s \<noteq> [] then (case js_number s of Fin x \<Rightarrow> Some x | _ \<Rightarrow> None) else None
     | _ \<Rightarrow> None)"

definition meanNumber :: "real list \<Rightarrow> real" where
  "meanNumber vs = (if vs = [] then 0 else foldl (+) 0 vs / real (length vs))"

section \<open>Facts\<close>

lemma jget_Nil [simp]: "jget [] k = JUndef"
  by (simp add: jget_def)

lemma jget_Cons [simp]: "jget ((j, v) # m) k = (if j = k then v else jget m k)"
  by (simp add: jget_def)

lemma asRecord_simps [simp]: "asRecord (JObj m) = Some m" "asRecord JUndef = None"
  "asRecord JNull = None" "asRecord (JArr vs) = None" "asRecord (JStr s) = None"
  "asRecord (JNum n) = None" "asRecord (JBool b) = None"
  by (simp_all add: asRecord_def)

lemma parseNumber_simps [simp]: "parseNumber (JNum (Fin x)) = Some x" "parseNumber JUndef = None"
  "parseNumber JNull = None" "parseNumber (JArr vs) = None" "parseNumber (JObj m) = None"
  "parseNumber (JBool b) = None"
  by (simp_all add: parseNumber_def)

lemma json_parse_simps [simp]: "json_parse (Json v) = Some v" "json_parse (Raw s) = None"
  by (simp_all add: json_parse_def)

lemma text_empty_simps [simp]: "\<not> text_empty (Json v)" "text_empty (Raw s) \<longleftrightarrow> s = []"
  by (simp_all add: text_empty_def)

lemma dec_val_snoc: "dec_val (ds @ [c]) = 10 * dec_val ds + digit_val c"
  by (simp add: dec_val_def)

lemma dec_val_digits_of [str_simps]: "dec_val (digits_of n) = n"
proof (induction n rule: digits_of.induct)
  case (1 n)
  have d: "digit_val (char_of (48 + m)) = m" if "m < 10" for m :: nat
    using that by (simp add: digit_val_def of_char_of_small)
  show ?case
  proof (cases "n < 10")
    case True
    then show ?thesis by (simp add: digits_of.simps [of n] dec_val_def d)
  next
    case False
    then show ?thesis using "1.IH" d [of "n mod 10"]
      by (simp add: digits_of.simps [of n] dec_val_snoc)
  qed
qed

lemma takeWhile_digits_of: "takeWhile is_digit (digits_of n) = digits_of n"
  by (simp add: takeWhile_eq_all_conv digits_of_digit)

lemma dropWhile_digits_of: "dropWhile is_digit (digits_of n) = []"
  using digits_of_digit by (simp add: dropWhile_eq_Nil_conv)

lemma unsigned_decimal_digits_of: "unsigned_decimal (digits_of n) = Some (real n)"
  by (simp add: unsigned_decimal_def takeWhile_digits_of dropWhile_digits_of exponent_val_def
      ten_power_def dec_val_digits_of)

lemma is_digit_not_space: "is_digit c \<Longrightarrow> \<not> is_space c"
  by (auto simp: is_digit_def is_space_def Let_def)

lemma trimmed_digits_of: "trimmed (digits_of n)"
  using digits_of_digit [of "hd (digits_of n)" n] digits_of_digit [of "last (digits_of n)" n]
  by (simp add: trimmed_def is_digit_not_space)

lemma digits_of_second: "take 2 (digits_of n) \<noteq> [c, d] \<or> is_digit d"
proof -
  have "d \<in> set (digits_of n)" if "take 2 (digits_of n) = [c, d]"
    using that by (metis in_set_takeD list.set_intros)
  then show ?thesis using digits_of_digit by blast
qed

lemma digits_of_hd: "hd (digits_of n) \<noteq> c" if "\<not> is_digit c"
  using that digits_of_digit [of "hd (digits_of n)" n] by auto

lemma digits_of_inj: "digits_of m = digits_of n \<Longrightarrow> m = n"
  by (metis dec_val_digits_of)

lemma digits_of_no_minus: "digits_of n \<noteq> CHR ''-'' # s"
  using digits_of_hd [of "CHR ''-''" n] by (auto simp: is_digit_def)

lemma int_str_inj: "int_str m = int_str n \<Longrightarrow> m = n"
proof -
  have nm: "CHR ''-'' # s \<noteq> digits_of k" for s k using digits_of_no_minus [of k s] by metis
  show "int_str m = int_str n \<Longrightarrow> m = n"
    using digits_of_no_minus nm by (auto simp: int_str_def dest!: digits_of_inj split: if_splits)
qed

lemma int_str_no_colon: "CHR '':'' \<notin> set (int_str n)"
  by (auto simp: int_str_def is_digit_def dest: digits_of_digit)

lemma split_at_colon: "\<lbrakk>d \<notin> set a; d \<notin> set b; a @ d # s = b @ d # t\<rbrakk> \<Longrightarrow> a = b \<and> s = t"
proof (induction a arbitrary: b)
  case Nil
  then show ?case by (cases b) auto
next
  case (Cons x a)
  then show ?case by (cases b) auto
qed

lemma js_number_digits_of:
  assumes "real n < 2 ^ 1024 - 2 ^ 970"
  shows "js_number (digits_of n) = Fin (real n)"
proof -
  have nd: "\<not> is_digit CHR ''-''" "\<not> is_digit CHR ''+''" "\<not> is_digit CHR ''I''" "\<not> is_digit CHR ''x''"
    "\<not> is_digit CHR ''X''" "\<not> is_digit CHR ''o''" "\<not> is_digit CHR ''O''" "\<not> is_digit CHR ''b''"
    "\<not> is_digit CHR ''B''"
    by (simp_all add: is_digit_def)
  have inf: "digits_of n \<noteq> ''Infinity''" using digits_of_hd [OF nd(3), of n] by auto
  have pre: "take 2 (digits_of n) \<noteq> [c, d]" if "\<not> is_digit d" for c d
    using digits_of_second [of n c d] that by blast
  show ?thesis using assms
    by (simp add: js_number_def Let_def trim_idle trimmed_digits_of digits_of_hd nd inf pre
        unsigned_decimal_digits_of in_range_def)
qed

lemma parseNumber_digits_of:
  "real n < 2 ^ 1024 - 2 ^ 970 \<Longrightarrow> parseNumber (JStr (digits_of n)) = Some (real n)"
  by (simp add: parseNumber_def js_number_digits_of trim_idle trimmed_digits_of)

end
