(* ===== verification/ScoutTypes.thy ===== *)
theory ScoutTypes
  imports JsValue
begin

text \<open>
  The data of a scouting report, \<open>src/ScoutingApp/src/pages/scoutingPage.types.ts\<close>: one record per
  object type and one datatype per union of literals.  Counters of the form are integers, its 1-5
  levels are integers or absent, scores and signals are real numbers, times are whole milliseconds.
  Fields that two TypeScript types share carry a prefix of their record.
\<close>

record floating_timer_position =
  tp_x :: real
  tp_y :: real

record floating_timer_bounds =
  minX :: real
  maxX :: real
  minY :: real
  maxY :: real

type_synonym level = "int option"

datatype endgame_mode = EM_none | EM_kept_scoring | EM_parked
  | EM_climb_level_1 | EM_climb_level_2 | EM_climb_level_3

datatype scouting_mode = SM_match | SM_rapid

record scout_form =
  auto_mobility :: bool
  auto_scored :: int
  auto_missed :: int
  auto_pickups :: int
  auto_cycles :: int
  auto_path_quality_1_5 :: level
  teleop_scored :: int
  teleop_missed :: int
  teleop_under_defense_scored :: int
  teleop_under_defense_attempts :: int
  teleop_cycles :: int
  teleop_drops :: int
  intake_failures :: int
  foul_count :: int
  offense_level_1_5 :: level
  defense_level_1_5 :: level
  field_awareness_1_5 :: level
  decision_quality_1_5 :: level
  communication_1_5 :: level
  anti_defense_level_1_5 :: level
  escape_level_1_5 :: level
  reroute_level_1_5 :: level
  hit_recovery_level_1_5 :: level
  bump_crosses :: int
  trench_crosses :: int
  climbed_under_pressure :: bool
  protected_zone_risk :: bool
  endgame_mode :: endgame_mode

record driver_breakdown =
  db_teleop_volume :: real
  db_teleop_accuracy :: real
  db_offense :: real
  db_defense :: real
  db_endgame :: real
  db_discipline :: real

record driver_competency =
  dc_score :: real
  dc_level :: real
  dc_tier :: string
  dc_breakdown :: driver_breakdown

record manual_breakdown =
  mb_auto :: real
  mb_teleop :: real
  mb_endgame :: real
  mb_anti_defense :: real
  mb_execution :: real
  mb_discipline :: real

record manual_rating =
  mr_score :: real
  mr_tier :: string
  mr_breakdown :: manual_breakdown
  mr_pros :: "string list"
  mr_cons :: "string list"

record overall_components =
  oc_manual :: real
  oc_driver :: real
  oc_points :: real
  oc_endgame :: real
  oc_discipline :: real

record overall_rating =
  or_score :: real
  or_tier :: string
  or_components :: overall_components

record api_snapshot =
  as_source_event_key :: "string option"
  as_fetched_at_ms :: int
  as_rating :: "real option"
  as_confidence :: "real option"
  as_reliability :: "real option"
  as_auto_contribution :: "real option"
  as_climb_success_prob :: "real option"
  as_cycle_time_sec :: "real option"
  as_tba_rank :: "real option"
  as_warnings :: "string list"

record api_components =
  ac_manual_weighted :: real
  ac_strength :: real
  ac_reliability :: real
  ac_auto :: real
  ac_climb :: real
  ac_cycle :: real
  ac_freshness_penalty :: real

record api_rating =
  ar_score :: real
  ar_confidence :: real
  ar_tier :: string
  ar_components :: api_components
  ar_pros :: "string list"
  ar_cons :: "string list"

record event_baseline =
  eb_rating :: "real option"
  eb_reliability :: "real option"

record field_override =
  fo_from :: jsval
  fo_to :: jsval

record auto_scout_meta =
  am_draft_id :: int
  am_mapper_version :: string
  am_analysis_version :: string
  am_approved_at_ms :: "int option"

record draft_payload =
  dp_form_patch :: "(string \<times> jsval) list option"
  dp_notes_seed :: string

record scout_points =
  pt_auto :: real
  pt_teleop :: real
  pt_endgame :: real
  pt_total :: real

datatype alliance = Red | Blue

datatype entry_source = Manual | ReviewedAuto

record saved_entry =
  e_id :: string
  e_saved_at_ms :: int
  e_scout_profile :: string
  e_room_key :: "string option"
  e_mode :: scouting_mode
  e_event_key :: string
  e_match_key :: string
  e_match_display :: string
  e_team_key :: string
  e_team_label :: string
  e_alliance :: alliance
  e_station :: "string option"
  e_points :: scout_points
  e_form :: scout_form
  e_driver :: driver_competency
  e_manual :: manual_rating
  e_overall :: overall_rating
  e_api_rating :: "api_rating option"
  e_api_snapshot :: "api_snapshot option"
  e_notes :: string
  e_tags :: "string list"
  e_source :: entry_source
  e_auto_meta :: "auto_scout_meta option"
  e_overrides :: "(string \<times> field_override) list option"
  e_server_synced :: bool

record team_option =
  to_team_key :: string
  to_team_label :: string
  to_alliance :: alliance
  to_station :: "string option"

end
