(* ===== verification/MatchInfo.thy ===== *)
theory MatchInfo
  imports JsValue
begin

text \<open>
  Matches, their keys and their clock: \<open>pages/centerUtils.ts\<close>, \<open>pages/matchStatus.ts\<close>,
  \<open>config/season.ts\<close>, \<open>utils/matchLabel.ts\<close>, \<open>utils/eventKey.ts\<close> and the schedule types of
  \<open>api.ts\<close>.  Times of a schedule are whole Unix seconds or absent (\<open>null\<close> and \<open>undefined\<close> are both
  \<open>None\<close>), the clock \<open>Date.now()\<close> is whole milliseconds and an argument of the functions that read
  it.  Scores and numbers of a match are integers.
\<close>

section \<open>The season and the schedule\<close>

record season =
  year :: int
  fallbackYear :: int
  matchSec :: int
  autoSec :: int
  endgameSec :: int
  fieldLengthM :: real
  fieldWidthM :: real

definition SEASON :: season where
  "SEASON = \<lparr>year = 2026, fallbackYear = 2025, matchSec = 160, autoSec = 20, endgameSec = 30,
     fieldLengthM = 16541 / 1000, fieldWidthM = 80693 / 10000\<rparr>"

definition SEASON_GAMES :: "(int \<times> string) list" where
  "SEASON_GAMES = [(2022, ''RAPID REACT''), (2023, ''CHARGED UP''), (2024, ''CRESCENDO''),
     (2025, ''REEFSCAPE''), (2026, ''REBUILT'')]"

record scale =
  scale_midpoint :: real
  scale_spread :: real

definition SCOUT_SCALE_AUTO :: scale where
  "SCOUT_SCALE_AUTO = \<lparr>scale_midpoint = 9, scale_spread = 55 / 10\<rparr>"

definition SCOUT_SCALE_TELEOP :: scale where
  "SCOUT_SCALE_TELEOP = \<lparr>scale_midpoint = 28, scale_spread = 24\<rparr>"

definition SCOUT_SCALE_TOTAL :: scale where
  "SCOUT_SCALE_TOTAL = \<lparr>scale_midpoint = 37, scale_spread = 30\<rparr>"

definition all_digits :: "string \<Rightarrow> bool" where
  "all_digits s \<longleftrightarrow> s \<noteq> [] \<and> (\<forall>c \<in> set s. is_digit c)"

definition opt_str :: "string option \<Rightarrow> string" where
  "opt_str s = nullish s []"

definition seasonOfEventKey :: "string option \<Rightarrow> int option" where
  "seasonOfEventKey eventKey =
     (let head = take 4 (js_trim (opt_str eventKey))
      in if length head = 4 \<and> all_digits head then Some (int (dec_val head)) else None)"

definition seasonLabel :: "int \<Rightarrow> string" where
  "seasonLabel y = (case map_of SEASON_GAMES y of
       None \<Rightarrow> int_str y
     | Some game \<Rightarrow> int_str y @ [CHR '' '', CHR 0xB7, CHR '' ''] @ game)"

datatype winner = WRed | WBlue | WTie

record schedule_team =
  st_team_key :: string
  st_team_number :: int
  st_nickname :: "string option"
  st_station :: "string option"

record schedule_item =
  m_match_key :: string
  m_display_name :: string
  m_comp_level :: string
  m_set_number :: int
  m_match_number :: int
  m_scheduled_time :: "int option"
  m_predicted_time :: "int option"
  m_actual_time :: "int option"
  m_has_time :: bool
  m_red_score :: "int option"
  m_blue_score :: "int option"
  m_winner_alliance :: "winner option"
  m_is_completed :: bool
  m_winning_score :: "int option"
  m_losing_score :: "int option"
  m_red :: "schedule_team list"
  m_blue :: "schedule_team list"

section \<open>The match clock\<close>

definition fmtTimer :: "int \<Rightarrow> string" where
  "fmtTimer totalSeconds =
     (let safe = max 0 totalSeconds
      in pad_start 2 (CHR ''0'') (int_str (safe div 60)) @ '':'' @
         pad_start 2 (CHR ''0'') (int_str (safe mod 60)))"

definition fmtCountdown :: "int \<Rightarrow> string" where
  "fmtCountdown totalSeconds =
     (let safe = max 0 totalSeconds;
          days = safe div 86400;
          hours = safe mod 86400 div 3600;
          minutes = safe mod 3600 div 60
      in if safe < 3600 then fmtTimer safe
         else if days > 0 then int_str days @ ''d '' @ int_str hours @ ''h''
         else int_str hours @ ''h '' @ pad_start 2 (CHR ''0'') (int_str minutes) @ ''m'')"

text \<open>\<open>a || b\<close> on numbers that may be absent: 0 is falsy.\<close>

definition num_or :: "int option \<Rightarrow> int option \<Rightarrow> int option" where
  "num_or a b = (case a of None \<Rightarrow> b | Some x \<Rightarrow> if x = 0 then b else Some x)"

definition matchStartTime :: "schedule_item option \<Rightarrow> int option" where
  "matchStartTime m = (case m of None \<Rightarrow> None
     | Some r \<Rightarrow> num_or (m_actual_time r) (num_or (m_predicted_time r) (num_or (m_scheduled_time r) None)))"

datatype timer_state = TUnknown | TUpcoming | TLive | TEnded

record timer =
  t_state :: timer_state
  t_label :: string
  t_value :: string

definition liveTimerLabel :: "int option \<Rightarrow> int \<Rightarrow> timer" where
  "liveTimerLabel scheduledUnixSec nowMs =
     (case num_or scheduledUnixSec None of
        None \<Rightarrow> \<lparr>t_state = TUnknown, t_label = ''Timer'', t_value = ''Pending publish''\<rparr>
      | Some startSec \<Rightarrow>
          (let nowSec = nowMs div 1000; endSec = startSec + matchSec SEASON
           in if nowSec < startSec then
                \<lparr>t_state = TUpcoming, t_label = ''Starts In'', t_value = fmtCountdown (startSec - nowSec)\<rparr>
              else if nowSec < endSec then
                \<lparr>t_state = TLive, t_label = ''Time Left'', t_value = fmtTimer (endSec - nowSec)\<rparr>
              else \<lparr>t_state = TEnded, t_label = ''Status'', t_value = ''Likely complete''\<rparr>))"

definition matchHasScores :: "schedule_item option \<Rightarrow> bool" where
  "matchHasScores m = (case m of None \<Rightarrow> False
     | Some r \<Rightarrow> (case (m_red_score r, m_blue_score r) of
           (Some a, Some b) \<Rightarrow> a \<ge> 0 \<and> b \<ge> 0 | _ \<Rightarrow> False))"

definition inferMatchCompleted :: "schedule_item option \<Rightarrow> int \<Rightarrow> bool" where
  "inferMatchCompleted m nowMs = (case m of None \<Rightarrow> False
     | Some r \<Rightarrow> m_is_completed r \<or> m_winner_alliance r = Some WRed \<or> m_winner_alliance r = Some WBlue
         \<or> m_winner_alliance r = Some WTie
         \<or> (matchHasScores m \<and> t_state (liveTimerLabel (matchStartTime m) nowMs) = TEnded))"

definition IN_PLAY_PAST_SEC :: int where
  "IN_PLAY_PAST_SEC = 3 * 3600"

definition IN_PLAY_AHEAD_SEC :: int where
  "IN_PLAY_AHEAD_SEC = 12 * 3600"

text \<open>The bounds \<open>nowMs / 1000 - PAST\<close> and \<open>nowMs / 1000 + AHEAD\<close> are compared in milliseconds.\<close>

definition eventHasMatchesInPlay :: "schedule_item list \<Rightarrow> int \<Rightarrow> bool" where
  "eventHasMatchesInPlay matches nowMs =
     list_ex (\<lambda>r. if inferMatchCompleted (Some r) nowMs then False
       else (case matchStartTime (Some r) of None \<Rightarrow> False
         | Some start \<Rightarrow> 1000 * start \<ge> nowMs - 1000 * IN_PLAY_PAST_SEC
             \<and> 1000 * start \<le> nowMs + 1000 * IN_PLAY_AHEAD_SEC)) matches"

definition relativeFromTimestamp :: "int option \<Rightarrow> int \<Rightarrow> string" where
  "relativeFromTimestamp timestampMs nowMs =
     (case num_or timestampMs None of None \<Rightarrow> ''never''
      | Some ts \<Rightarrow>
         (let deltaSec = max 0 ((nowMs - ts) div 1000); deltaMin = deltaSec div 60;
              deltaHr = deltaMin div 60; deltaDay = deltaHr div 24
          in if deltaSec < 60 then int_str deltaSec @ ''s ago''
             else if deltaMin < 60 then int_str deltaMin @ ''m ago''
             else if deltaHr < 24 then int_str deltaHr @ ''h ago''
             else int_str deltaDay @ ''d ago''))"

text \<open>The message of the thrown value, or the empty string of a value that is neither a string nor
  an \<open>Error\<close>.\<close>

definition isTransientAbortLikeError :: "string \<Rightarrow> bool" where
  "isTransientAbortLikeError message =
     (let normalized = js_lower (js_trim message)
      in normalized \<noteq> [] \<and>
         (js_includes normalized ''aborted'' \<or> js_includes normalized ''aborterror''
          \<or> js_includes normalized ''the user aborted a request''
          \<or> js_includes normalized ''request was aborted''
          \<or> js_includes normalized ''timed out'' \<or> js_includes normalized ''timeout''))"

section \<open>Keys and labels\<close>

definition is_word :: "char \<Rightarrow> bool" where
  "is_word c \<longleftrightarrow> is_digit c \<or> is_lower_alpha c \<or> is_upper_alpha c \<or> c = CHR ''_''"

definition is_dash :: "char \<Rightarrow> bool" where
  "is_dash c \<longleftrightarrow> c = CHR ''_'' \<or> c = CHR ''-''"

text \<open>\<open>/\b\w/g\<close>: a word character that no word character precedes.\<close>

fun cap_words :: "bool \<Rightarrow> string \<Rightarrow> string" where
  "cap_words inword [] = []"
| "cap_words inword (c # cs) =
     (if \<not> inword \<and> is_word c then upper_char c else [c]) @ cap_words (is_word c) cs"

definition titleizeKey :: "string \<Rightarrow> string" where
  "titleizeKey raw = cap_words False (js_trim (replace_runs is_dash '' '' raw))"

definition has_frc :: "string \<Rightarrow> bool" where
  "has_frc s \<longleftrightarrow> js_lower (take 3 s) = ''frc''"

definition teamNumberFromTeamKey :: "string \<Rightarrow> int option" where
  "teamNumberFromTeamKey teamKey =
     (let t = js_trim teamKey
      in if has_frc t \<and> all_digits (drop 3 t) then Some (int (dec_val (drop 3 t))) else None)"

text \<open>\<open>key.replace(/^frc/i, '')\<close>.\<close>

definition strip_frc :: "string \<Rightarrow> string" where
  "strip_frc s = (if has_frc s then drop 3 s else s)"

definition teamDisplayNumber :: "string \<Rightarrow> int option \<Rightarrow> string" where
  "teamDisplayNumber key number = (case number of
       Some n \<Rightarrow> if n > 0 then int_str n else js_upper (strip_frc key)
     | None \<Rightarrow> js_upper (strip_frc key))"

definition normalizeTeamKeyInput :: "string \<Rightarrow> string option" where
  "normalizeTeamKeyInput raw =
     (let value = js_lower (js_trim raw)
      in if value = [] then None
         else if take 3 value = ''frc'' \<and> all_digits (drop 3 value) then Some value
         else if all_digits value then Some (''frc'' @ int_str (int (dec_val value)))
         else None)"

definition normalizeEventKey :: "string option \<Rightarrow> string" where
  "normalizeEventKey raw = js_lower (js_trim (opt_str raw))"

definition normalizeMatchKey :: "string option \<Rightarrow> string option \<Rightarrow> string" where
  "normalizeMatchKey rawMatchKey rawEventKey =
     (let matchKey = replace_runs is_space [] (js_lower (js_trim (opt_str rawMatchKey)));
          eventKey = normalizeEventKey rawEventKey
      in if matchKey = [] then []
         else if CHR ''_'' \<in> set matchKey then matchKey
         else if eventKey = [] then matchKey
         else eventKey @ ''_'' @ matchKey)"

definition alnum_lower :: "char \<Rightarrow> bool" where
  "alnum_lower c \<longleftrightarrow> is_digit c \<or> is_lower_alpha c"

definition event_key_form :: "string \<Rightarrow> bool" where
  "event_key_form s \<longleftrightarrow> length (take 4 s) = 4 \<and> (\<forall>c \<in> set (take 4 s). is_digit c)
     \<and> drop 4 s \<noteq> [] \<and> (\<forall>c \<in> set (drop 4 s). alnum_lower c)"

definition eventKeyFromMatchKey :: "string option \<Rightarrow> string option" where
  "eventKeyFromMatchKey matchKey =
     (let normalized = normalizeMatchKey matchKey None
      in if CHR ''_'' \<notin> set normalized then None
         else (let eventKey = takeWhile (\<lambda>c. c \<noteq> CHR ''_'') normalized
               in if event_key_form eventKey then Some eventKey else None))"

text \<open>One code unit of \<open>URLSearchParams.toString()\<close>: UTF-8, percent-encoded, a space as \<open>+\<close>.\<close>

definition hex_digit :: "nat \<Rightarrow> char" where
  "hex_digit n = char_of (if n < 10 then 48 + n else 55 + n)"

definition pct_byte :: "nat \<Rightarrow> string" where
  "pct_byte b = [CHR ''%'', hex_digit (b div 16), hex_digit (b mod 16)]"

definition form_encode_char :: "char \<Rightarrow> string" where
  "form_encode_char c = (let n = of_char c :: nat in
     if (is_word c \<or> c = CHR ''*'' \<or> c = CHR ''-'' \<or> c = CHR ''.'') then [c]
     else if c = CHR '' '' then ''+''
     else if n < 128 then pct_byte n
     else pct_byte (192 + n div 64) @ pct_byte (128 + n mod 64))"

definition form_encode :: "string \<Rightarrow> string" where
  "form_encode s = concat (map form_encode_char s)"

definition query_string :: "(string \<times> string) list \<Rightarrow> string" where
  "query_string ps = js_join ''&'' (map (\<lambda>(k, v). form_encode k @ ''='' @ form_encode v) ps)"

definition buildMatchCenterPath :: "string option \<Rightarrow> string option \<Rightarrow> string" where
  "buildMatchCenterPath rawEventKey rawMatchKey =
     (let provided = normalizeEventKey rawEventKey;
          normalizedRaw = normalizeMatchKey rawMatchKey (Some provided);
          inferred = eventKeyFromMatchKey (Some normalizedRaw);
          eventKey = str_or (opt_str inferred) provided;
          matchKey = normalizeMatchKey rawMatchKey (Some eventKey);
          params = (if eventKey = [] then [] else [(''event'', eventKey)])
                   @ (if matchKey = [] then [] else [(''match'', matchKey)]);
          query = query_string params
      in if query = [] then ''/match-center'' else ''/match-center?'' @ query)"

definition isEventKeyShape :: "string \<Rightarrow> bool" where
  "isEventKeyShape value =
     (let s = js_lower (js_trim value)
      in (take 2 s = ''19'' \<or> take 2 s = ''20'') \<and> length (take 2 (drop 2 s)) = 2
         \<and> (\<forall>c \<in> set (take 2 (drop 2 s)). is_digit c)
         \<and> length s \<ge> 6 \<and> length s \<le> 20 \<and> is_lower_alpha (s ! 4) \<and> (\<forall>c \<in> set (drop 5 s). alnum_lower c))"

definition LEVELS :: "(string \<times> string) list" where
  "LEVELS = [(''qm'', ''QM''), (''ef'', ''EF''), (''qf'', ''QF''), (''sf'', ''SF''), (''f'', ''F'')]"

definition matchLabel :: "string \<Rightarrow> int \<Rightarrow> int \<Rightarrow> string" where
  "matchLabel compLevel setNumber matchNumber =
     (let level = js_lower compLevel;
          name = nullish (map_of LEVELS level) (js_upper level)
      in if level = ''qm'' then name @ '' '' @ int_str matchNumber
         else name @ '' '' @ int_str setNumber @ ''-'' @ int_str matchNumber)"

text \<open>\<open>(\d+)m(\d+)\<close> over the whole string.\<close>

definition set_and_match :: "string \<Rightarrow> (int \<times> int) option" where
  "set_and_match s =
     (let a = takeWhile is_digit s; r = dropWhile is_digit s
      in if a \<noteq> [] \<and> r \<noteq> [] \<and> hd r = CHR ''m'' \<and> all_digits (tl r)
         then Some (int (dec_val a), int (dec_val (tl r))) else None)"

definition playoff_label :: "string \<Rightarrow> string \<Rightarrow> string option" where
  "playoff_label lv rest = (case set_and_match rest of None \<Rightarrow> None | Some (s, m) \<Rightarrow> Some (matchLabel lv s m))"

definition code_label :: "string \<Rightarrow> string option" where
  "code_label code =
     (if take 2 code = ''qm'' \<and> all_digits (drop 2 code)
      then Some (matchLabel ''qm'' 1 (int (dec_val (drop 2 code))))
      else if take 2 code = ''ef'' \<or> take 2 code = ''qf'' \<or> take 2 code = ''sf''
      then playoff_label (take 2 code) (drop 2 code)
      else if take 1 code = ''f'' then playoff_label ''f'' (drop 1 code)
      else None)"

definition matchLabelFromKey :: "string \<Rightarrow> string option" where
  "matchLabelFromKey matchKey = code_label (js_lower (last (js_split (CHR ''_'') matchKey)))"

section \<open>Facts about the clock\<close>

lemma num_or_None [simp]: "num_or None b = b"
  by (simp add: num_or_def)

lemma matchStartTime_nonzero: "matchStartTime m = Some t \<Longrightarrow> t \<noteq> 0"
  by (auto simp: matchStartTime_def num_or_def split: option.splits if_splits)

text \<open>How far a match has come.\<close>

definition timer_rank :: "timer_state \<Rightarrow> nat" where
  "timer_rank s = (case s of TUnknown \<Rightarrow> 0 | TUpcoming \<Rightarrow> 1 | TLive \<Rightarrow> 2 | TEnded \<Rightarrow> 3)"

lemma live_state_cases:
  "t_state (liveTimerLabel st now) =
     (case num_or st None of None \<Rightarrow> TUnknown
      | Some a \<Rightarrow> if now div 1000 < a then TUpcoming
          else if now div 1000 < a + 160 then TLive else TEnded)"
  by (auto simp: liveTimerLabel_def SEASON_def Let_def split: option.split)

text \<open>the clock of a match only moves forward.  As time passes the timer goes from
  upcoming through live to ended and never back, and it is live for exactly the 160 seconds of a
  match, whatever the start time.\<close>

theorem live_timer_forward:
  assumes "now \<le> now'"
  shows "timer_rank (t_state (liveTimerLabel st now)) \<le> timer_rank (t_state (liveTimerLabel st now'))
    \<and> (t_state (liveTimerLabel (Some a) now) = TLive \<longleftrightarrow>
        a \<noteq> 0 \<and> 1000 * a \<le> now \<and> now < 1000 * (a + 160))"
proof
  have d: "now div 1000 \<le> now' div 1000" using assms by (rule zdiv_mono1) simp
  show "timer_rank (t_state (liveTimerLabel st now)) \<le> timer_rank (t_state (liveTimerLabel st now'))"
  proof (cases "num_or st None")
    case None
    then show ?thesis by (simp add: live_state_cases timer_rank_def)
  next
    case (Some a)
    with d show ?thesis by (simp add: live_state_cases timer_rank_def)
  qed
  have "now = 1000 * (now div 1000) + now mod 1000" "0 \<le> now mod 1000" "now mod 1000 < 1000"
    by simp_all
  then have ms: "a \<le> now div 1000 \<longleftrightarrow> 1000 * a \<le> now" "now div 1000 < a + 160 \<longleftrightarrow> now < 1000 * (a + 160)"
    by (auto simp del: minus_mod_eq_mult_div mult_div_mod_eq div_mult_self1)
  have "t_state (liveTimerLabel (Some a) now) = TLive \<longleftrightarrow>
      a \<noteq> 0 \<and> a \<le> now div 1000 \<and> now div 1000 < a + 160"
    unfolding live_state_cases num_or_def by (cases "a = 0") simp_all
  then show "t_state (liveTimerLabel (Some a) now) = TLive \<longleftrightarrow>
      a \<noteq> 0 \<and> 1000 * a \<le> now \<and> now < 1000 * (a + 160)"
    unfolding ms .
qed

lemma live_timer_forward_witness:
  "timer_rank (t_state (liveTimerLabel (Some 100) 99000)) \<le> timer_rank (t_state (liveTimerLabel (Some 100) 150000))
   \<and> (t_state (liveTimerLabel (Some 100) 99000) = TLive \<longleftrightarrow>
        (100::int) \<noteq> 0 \<and> 1000 * (100::int) \<le> 99000 \<and> (99000::int) < 1000 * (100 + 160))"
  by (rule live_timer_forward) simp

section \<open>Facts about keys\<close>

lemma replace_spaces: "replace_runs is_space [] s = filter (\<lambda>c. \<not> is_space c) s"
  by (simp add: replace_runs_Nil)

lemma lower_no_space [simp]: "\<forall>c \<in> set s. \<not> is_space c \<Longrightarrow> js_trim s = s"
  by (rule trim_idle) (auto simp: trimmed_def)

lemma set_js_lower: "set (js_lower s) = lower_char ` set s"
  by (simp add: js_lower_def)

lemma filter_space_lower: "js_lower (filter (\<lambda>c. \<not> is_space c) s) = filter (\<lambda>c. \<not> is_space c) (js_lower s)"
  by (simp add: js_lower_def filter_map comp_def)

lemma normalizeEventKey_idem: "normalizeEventKey (Some (normalizeEventKey k)) = normalizeEventKey k"
  by (simp add: normalizeEventKey_def opt_str_def js_trim_lower)

lemma match_key_part_idem:
  assumes "s = filter (\<lambda>c. \<not> is_space c) (js_lower (js_trim r))"
  shows "replace_runs is_space [] (js_lower (js_trim s)) = s"
proof -
  have "js_trim s = s" using assms by (intro lower_no_space) auto
  moreover have "js_lower s = s" using assms by (simp add: filter_space_lower)
  ultimately show ?thesis using assms by (simp add: replace_spaces)
qed

lemma lower_char_underscore: "lower_char (CHR ''_'') = CHR ''_''"
  by (simp add: lower_char_def)

lemma is_space_underscore [simp]: "\<not> is_space (CHR ''_'')"
  by (simp add: is_space_def)

lemma normalizeMatchKey_own_event:
  assumes k: "k = replace_runs is_space [] (js_lower (js_trim (opt_str mk)))"
    and u: "CHR ''_'' \<in> set k"
  shows "normalizeMatchKey mk ek = k" and "normalizeMatchKey (Some k) ek' = k"
proof -
  from u have "k \<noteq> []" by auto
  with u show "normalizeMatchKey mk ek = k" by (simp add: normalizeMatchKey_def k [symmetric])
  have "replace_runs is_space [] (js_lower (js_trim k)) = k"
    using k by (intro match_key_part_idem) (simp add: replace_spaces)
  with u \<open>k \<noteq> []\<close> show "normalizeMatchKey (Some k) ek' = k"
    by (simp add: normalizeMatchKey_def opt_str_def Let_def)
qed

text \<open>a match link trusts the event that the match key itself names.  Whatever event key
  the page passes along, the path built for a match key of the form \<open>event_match\<close> carries that
  event and that match key, both normalised.\<close>

theorem match_path_trusts_match_key:
  assumes k: "k = replace_runs is_space [] (js_lower (js_trim (opt_str mk)))"
    and u: "CHR ''_'' \<in> set k"
    and e: "event_key_form (takeWhile (\<lambda>c. c \<noteq> CHR ''_'') k)"
  shows "buildMatchCenterPath ek mk = ''/match-center?event='' @
     form_encode (takeWhile (\<lambda>c. c \<noteq> CHR ''_'') k) @ ''&match='' @ form_encode k"
proof -
  let ?e = "takeWhile (\<lambda>c. c \<noteq> CHR ''_'') k"
  note own = normalizeMatchKey_own_event [OF k u]
  have inf: "eventKeyFromMatchKey (Some k) = Some ?e"
    using u e by (simp add: eventKeyFromMatchKey_def own)
  have ne: "?e \<noteq> []" "k \<noteq> []" using e u by (auto simp: event_key_form_def)
  have enc: "form_encode ''event'' = ''event''" "form_encode ''match'' = ''match''"
    by (simp_all add: form_encode_def form_encode_char_def is_word_def is_lower_alpha_def)
  show ?thesis
    by (simp add: buildMatchCenterPath_def own inf ne str_or_def opt_str_def query_string_def js_join_def enc)
qed

lemma match_path_trusts_match_key_witness:
  "buildMatchCenterPath (Some ''2025xyz'') (Some '' 2026ARC_qm12 '') = ''/match-center?event='' @
     form_encode (takeWhile (\<lambda>c. c \<noteq> CHR ''_'') ''2026arc_qm12'') @ ''&match='' @ form_encode ''2026arc_qm12''"
  by (rule match_path_trusts_match_key) code_simp+

lemma digits_of_small_digits: "all_digits (digits_of n)"
  by (simp add: all_digits_def digits_of_digit)

lemma lower_char_digit: "is_digit c \<Longrightarrow> lower_char c = c"
  by (auto simp: is_digit_def lower_char_def Let_def)

lemma js_lower_digits [simp]: "js_lower (digits_of n) = digits_of n"
  unfolding js_lower_def by (rule map_idI) (simp add: lower_char_digit digits_of_digit)

lemma js_split_snoc: "d \<notin> set t \<Longrightarrow> \<exists>w ws. js_split d (s @ d # t) = (w # ws) @ [t]"
proof (induction s)
  case Nil
  have "js_split d t = [t]" using Nil by (induction t) auto
  then show ?case by simp
next
  case (Cons c s)
  then obtain w ws where "js_split d (s @ d # t) = (w # ws) @ [t]" by blast
  then show ?case by (cases "c = d") auto
qed

lemma js_split_last: "d \<notin> set t \<Longrightarrow> last (js_split d (s @ d # t)) = t"
  using js_split_snoc [of d t s] by auto

lemma digits_no_sep: "\<not> is_digit c \<Longrightarrow> c \<notin> set (digits_of n)"
  using digits_of_digit by blast

lemma set_and_match_print: "set_and_match (digits_of a @ ''m'' @ digits_of b) = Some (int a, int b)"
proof -
  have d: "\<And>c. c \<in> set (digits_of a) \<Longrightarrow> is_digit c" by (rule digits_of_digit)
  have m: "\<not> is_digit CHR ''m''" by (simp add: is_digit_def)
  have "takeWhile is_digit (digits_of a @ ''m'' @ digits_of b) = digits_of a"
    using d m by (subst takeWhile_append2) auto
  moreover have "dropWhile is_digit (digits_of a @ ''m'' @ digits_of b) = ''m'' @ digits_of b"
    using d m by (subst dropWhile_append2) auto
  ultimately show ?thesis
    by (simp add: set_and_match_def digits_of_small_digits dec_val_digits_of)
qed

lemma key_code:
  assumes "CHR ''_'' \<notin> set code"
  shows "matchLabelFromKey (ev @ CHR ''_'' # code) = code_label (js_lower code)"
  using js_split_last [OF assms, of ev] by (simp add: matchLabelFromKey_def)

lemma no_underscore [simp]: "CHR ''_'' \<notin> set (digits_of k)"
  by (rule digits_no_sep) (simp add: is_digit_def)

lemma int_str_int [simp]: "int_str (int k) = digits_of k"
  by (simp add: int_str_def)

lemma js_lower_Cons: "js_lower (c # s) = lower_char c # js_lower s"
  by (simp add: js_lower_def)

lemma label_prints:
  "matchLabel ''qm'' 1 (int k) = ''QM '' @ digits_of k"
  "matchLabel ''sf'' (int i) (int k) = ''SF '' @ digits_of i @ ''-'' @ digits_of k"
  "matchLabel ''f'' (int i) (int k) = ''F '' @ digits_of i @ ''-'' @ digits_of k"
  by (simp_all add: matchLabel_def LEVELS_def js_lower_def lower_char_def)

lemma qm_code: "code_label (js_lower (''qm'' @ digits_of n)) = Some (''QM '' @ digits_of n)"
  by (simp add: js_lower_Cons lower_char_def code_label_def digits_of_small_digits dec_val_digits_of
      label_prints)

lemma playoff_digits:
  "playoff_label lv (digits_of a @ ''m'' @ digits_of b) = Some (matchLabel lv (int a) (int b))"
  by (simp only: playoff_label_def set_and_match_print) simp

lemma sf_code: "code_label (js_lower (''sf'' @ digits_of a @ ''m'' @ digits_of b)) =
    Some (''SF '' @ digits_of a @ ''-'' @ digits_of b)"
  using playoff_digits [of "''sf''" a b]
  by (simp add: js_lower_Cons js_lower_append lower_char_def code_label_def label_prints)

lemma f_code: "code_label (js_lower (''f'' @ digits_of a @ ''m'' @ digits_of b)) =
    Some (''F '' @ digits_of a @ ''-'' @ digits_of b)"
proof -
  have "take 2 (''f'' @ digits_of a @ r) \<noteq> [c, d]" if "\<not> is_digit d" for c d r
    using that digits_of_hd [of d a] by (cases "digits_of a") auto
  then have "take 2 (CHR ''f'' # digits_of a @ CHR ''m'' # digits_of b) \<noteq> [c, d]"
    if "\<not> is_digit d" for c d using that by simp
  then show ?thesis
    using playoff_digits [of "''f''" a b]
    by (simp add: js_lower_Cons js_lower_append lower_char_def code_label_def label_prints is_digit_def)
qed

text \<open>the label printed for a match key reads back the numbers the key was built from,
  for a qualification match, for the two-letter playoff stages and for the finals of any event.\<close>

theorem match_label_round_trip:
  "matchLabelFromKey (ev @ ''_qm'' @ digits_of n) = Some (''QM '' @ digits_of n)
   \<and> matchLabelFromKey (ev @ ''_sf'' @ digits_of a @ ''m'' @ digits_of b) =
      Some (''SF '' @ digits_of a @ ''-'' @ digits_of b)
   \<and> matchLabelFromKey (ev @ ''_f'' @ digits_of a @ ''m'' @ digits_of b) =
      Some (''F '' @ digits_of a @ ''-'' @ digits_of b)"
  using key_code [of "''qm'' @ digits_of n" ev] qm_code [of n]
    key_code [of "''sf'' @ digits_of a @ ''m'' @ digits_of b" ev] sf_code [of a b]
    key_code [of "''f'' @ digits_of a @ ''m'' @ digits_of b" ev] f_code [of a b]
  by simp

end
