(* ===== verification/ScoutForm.thy ===== *)
theory ScoutForm
  imports ScoutTypes MatchInfo
begin

text \<open>
  The match form of a scouting report (the first part of
  \<open>src/ScoutingApp/src/pages/scoutingPage.helpers.ts\<close>): its constants, the readers that turn an
  unknown value into a well-formed form, the points it is worth, and the merge of an automatic
  draft into it.  \<open>wf_form\<close> is the type invariant of a form: counters are not negative and levels
  lie between 1 and 5.
\<close>

section \<open>Constants\<close>

definition ENDGAME_LABELS :: "endgame_mode \<Rightarrow> string" where
  "ENDGAME_LABELS m = (case m of EM_none \<Rightarrow> ''No endgame action'' | EM_kept_scoring \<Rightarrow> ''Kept scoring''
     | EM_parked \<Rightarrow> ''Parked'' | EM_climb_level_1 \<Rightarrow> ''Climbed 1 level''
     | EM_climb_level_2 \<Rightarrow> ''Climbed 2 levels'' | EM_climb_level_3 \<Rightarrow> ''Climbed 3 levels'')"

definition ENDGAME_POINTS :: "endgame_mode \<Rightarrow> real" where
  "ENDGAME_POINTS m = (case m of EM_none \<Rightarrow> 0 | EM_kept_scoring \<Rightarrow> 0 | EM_parked \<Rightarrow> 5
     | EM_climb_level_1 \<Rightarrow> 10 | EM_climb_level_2 \<Rightarrow> 20 | EM_climb_level_3 \<Rightarrow> 30)"

definition ENDGAME_DRIVER_FACTOR :: "endgame_mode \<Rightarrow> real" where
  "ENDGAME_DRIVER_FACTOR m = (case m of EM_none \<Rightarrow> 24 / 100 | EM_kept_scoring \<Rightarrow> 52 / 100
     | EM_parked \<Rightarrow> 58 / 100 | EM_climb_level_1 \<Rightarrow> 72 / 100 | EM_climb_level_2 \<Rightarrow> 86 / 100
     | EM_climb_level_3 \<Rightarrow> 1)"

definition all_endgame_modes :: "endgame_mode list" where
  "all_endgame_modes = [EM_none, EM_kept_scoring, EM_parked, EM_climb_level_1, EM_climb_level_2,
     EM_climb_level_3]"

definition MAX_ENDGAME_POINTS :: real where
  "MAX_ENDGAME_POINTS = foldr max (map ENDGAME_POINTS all_endgame_modes) 0"

definition EMPTY_FORM :: scout_form where
  "EMPTY_FORM = \<lparr>auto_mobility = False, auto_scored = 0, auto_missed = 0, auto_pickups = 0, auto_cycles = 0,
     auto_path_quality_1_5 = None, teleop_scored = 0, teleop_missed = 0, teleop_under_defense_scored
     = 0, teleop_under_defense_attempts = 0, teleop_cycles = 0, teleop_drops = 0, intake_failures =
     0, foul_count = 0, offense_level_1_5 = None, defense_level_1_5 = None, field_awareness_1_5 =
     None, decision_quality_1_5 = None, communication_1_5 = None, anti_defense_level_1_5 = None,
     escape_level_1_5 = None, reroute_level_1_5 = None, hit_recovery_level_1_5 = None, bump_crosses
     = 0, trench_crosses = 0, climbed_under_pressure = False, protected_zone_risk = False,
     endgame_mode = EM_none\<rparr>"

section \<open>Readers\<close>

definition normalizeEventKeyInput :: "string \<Rightarrow> string" where
  "normalizeEventKeyInput raw = js_lower (js_trim raw)"

definition normalizeScoutProfile :: "string \<Rightarrow> string" where
  "normalizeScoutProfile raw = take 40 (replace_runs is_space '' '' (js_trim raw))"

text \<open>\<open>raw.replace(/\r\n/g, '\n')\<close>.\<close>

fun crlf_to_lf :: "string \<Rightarrow> string" where
  "crlf_to_lf (c # d # cs) =
     (if c = CHR 13 \<and> d = CHR 10 then CHR 10 # crlf_to_lf cs else c # crlf_to_lf (d # cs))"
| "crlf_to_lf cs = cs"

definition normalizeScoutingNotes :: "string \<Rightarrow> string" where
  "normalizeScoutingNotes raw = take 600 (crlf_to_lf raw)"

definition room_char :: "char \<Rightarrow> bool" where
  "room_char c \<longleftrightarrow> is_digit c \<or> is_lower_alpha c \<or> c = CHR ''_'' \<or> c = CHR ''-''"

definition normalizeRoomKey :: "string \<Rightarrow> string" where
  "normalizeRoomKey raw = take 48 (replace_runs (\<lambda>c. \<not> room_char c) [] (js_lower (js_trim raw)))"

definition toLevel :: "jsval \<Rightarrow> level \<Rightarrow> level" where
  "toLevel v fallback = (case parseNumber v of None \<Rightarrow> fallback
     | Some p \<Rightarrow> if p \<le> 1 then Some 1 else if p \<ge> 5 then Some 5 else Some (math_round p))"

definition toInt :: "jsval \<Rightarrow> int \<Rightarrow> int" where
  "toInt v fallback = (case parseNumber v of None \<Rightarrow> fallback | Some p \<Rightarrow> max 0 \<lfloor>p\<rfloor>)"

definition toBool :: "jsval \<Rightarrow> bool \<Rightarrow> bool" where
  "toBool v fallback = (case v of
       JBool b \<Rightarrow> b
     | JNum (Fin x) \<Rightarrow> x > 0
     | JNum PosInf \<Rightarrow> True
     | JNum _ \<Rightarrow> False
     | JStr s \<Rightarrow> (let n = js_lower (js_trim s)
         in if n = ''true'' \<or> n = ''1'' \<or> n = ''yes'' then True
            else if n = ''false'' \<or> n = ''0'' \<or> n = ''no'' then False else fallback)
     | _ \<Rightarrow> fallback)"

definition endgame_str :: "endgame_mode \<Rightarrow> string" where
  "endgame_str m = (case m of EM_none \<Rightarrow> ''none'' | EM_kept_scoring \<Rightarrow> ''kept_scoring''
     | EM_parked \<Rightarrow> ''parked'' | EM_climb_level_1 \<Rightarrow> ''climb_level_1''
     | EM_climb_level_2 \<Rightarrow> ''climb_level_2'' | EM_climb_level_3 \<Rightarrow> ''climb_level_3'')"

definition endgame_of :: "jsval \<Rightarrow> endgame_mode" where
  "endgame_of v = (let s = (case v of JStr s \<Rightarrow> s | _ \<Rightarrow> [])
     in if s = ''kept_scoring'' then EM_kept_scoring
        else if s = ''parked'' then EM_parked
        else if s = ''climb_level_1'' then EM_climb_level_1
        else if s = ''climb_level_2'' then EM_climb_level_2
        else if s = ''climb_level_3'' then EM_climb_level_3 else EM_none)"

definition normalizeForm :: "(string \<times> jsval) list option \<Rightarrow> scout_form" where
  "normalizeForm r = (case r of None \<Rightarrow> EMPTY_FORM
     | Some raw \<Rightarrow>
         \<lparr>auto_mobility = toBool (jget raw ''auto_mobility'') False,
          auto_scored = toInt (jget raw ''auto_scored'') 0,
          auto_missed = toInt (jget raw ''auto_missed'') 0,
          auto_pickups = toInt (jget raw ''auto_pickups'') 0,
          auto_cycles = toInt (jget raw ''auto_cycles'') 0,
          auto_path_quality_1_5 = toLevel (jget raw ''auto_path_quality_1_5'') None,
          teleop_scored = toInt (jget raw ''teleop_scored'') 0,
          teleop_missed = toInt (jget raw ''teleop_missed'') 0,
          teleop_under_defense_scored = toInt (jget raw ''teleop_under_defense_scored'') 0,
          teleop_under_defense_attempts = toInt (jget raw ''teleop_under_defense_attempts'') 0,
          teleop_cycles = toInt (jget raw ''teleop_cycles'') 0,
          teleop_drops = toInt (jget raw ''teleop_drops'') 0,
          intake_failures = toInt (jget raw ''intake_failures'') 0,
          foul_count = toInt (jget raw ''foul_count'') 0,
          offense_level_1_5 = toLevel (jget raw ''offense_level_1_5'') None,
          defense_level_1_5 = toLevel (jget raw ''defense_level_1_5'') None,
          field_awareness_1_5 = toLevel (jget raw ''field_awareness_1_5'') None,
          decision_quality_1_5 = toLevel (jget raw ''decision_quality_1_5'') None,
          communication_1_5 = toLevel (jget raw ''communication_1_5'') None,
          anti_defense_level_1_5 = toLevel (jget raw ''anti_defense_level_1_5'') None,
          escape_level_1_5 = toLevel (jget raw ''escape_level_1_5'') None,
          reroute_level_1_5 = toLevel (jget raw ''reroute_level_1_5'') None,
          hit_recovery_level_1_5 = toLevel (jget raw ''hit_recovery_level_1_5'') None,
          bump_crosses = toInt (jget raw ''bump_crosses'') 0,
          trench_crosses = toInt (jget raw ''trench_crosses'') 0,
          climbed_under_pressure = toBool (jget raw ''climbed_under_pressure'') False,
          protected_zone_risk = toBool (jget raw ''protected_zone_risk'') False,
          endgame_mode = endgame_of (jget raw ''endgame_mode'')\<rparr>)"

text \<open>A form read as a plain object, its properties in the order of the type.\<close>

definition level_raw :: "level \<Rightarrow> jsval" where
  "level_raw l = (case l of None \<Rightarrow> JNull | Some n \<Rightarrow> JNum (Fin (of_int n)))"

definition form_raw :: "scout_form \<Rightarrow> (string \<times> jsval) list" where
  "form_raw f =
     [(''auto_mobility'', JBool (auto_mobility f)),
      (''auto_scored'', JNum (Fin (of_int (auto_scored f)))),
      (''auto_missed'', JNum (Fin (of_int (auto_missed f)))),
      (''auto_pickups'', JNum (Fin (of_int (auto_pickups f)))),
      (''auto_cycles'', JNum (Fin (of_int (auto_cycles f)))),
      (''auto_path_quality_1_5'', level_raw (auto_path_quality_1_5 f)),
      (''teleop_scored'', JNum (Fin (of_int (teleop_scored f)))),
      (''teleop_missed'', JNum (Fin (of_int (teleop_missed f)))),
      (''teleop_under_defense_scored'', JNum (Fin (of_int (teleop_under_defense_scored f)))),
      (''teleop_under_defense_attempts'', JNum (Fin (of_int (teleop_under_defense_attempts f)))),
      (''teleop_cycles'', JNum (Fin (of_int (teleop_cycles f)))),
      (''teleop_drops'', JNum (Fin (of_int (teleop_drops f)))),
      (''intake_failures'', JNum (Fin (of_int (intake_failures f)))),
      (''foul_count'', JNum (Fin (of_int (foul_count f)))),
      (''offense_level_1_5'', level_raw (offense_level_1_5 f)),
      (''defense_level_1_5'', level_raw (defense_level_1_5 f)),
      (''field_awareness_1_5'', level_raw (field_awareness_1_5 f)),
      (''decision_quality_1_5'', level_raw (decision_quality_1_5 f)),
      (''communication_1_5'', level_raw (communication_1_5 f)),
      (''anti_defense_level_1_5'', level_raw (anti_defense_level_1_5 f)),
      (''escape_level_1_5'', level_raw (escape_level_1_5 f)),
      (''reroute_level_1_5'', level_raw (reroute_level_1_5 f)),
      (''hit_recovery_level_1_5'', level_raw (hit_recovery_level_1_5 f)),
      (''bump_crosses'', JNum (Fin (of_int (bump_crosses f)))),
      (''trench_crosses'', JNum (Fin (of_int (trench_crosses f)))),
      (''climbed_under_pressure'', JBool (climbed_under_pressure f)),
      (''protected_zone_risk'', JBool (protected_zone_risk f)),
      (''endgame_mode'', JStr (endgame_str (endgame_mode f)))]"

definition pointsFromForm :: "scout_form \<Rightarrow> scout_points" where
  "pointsFromForm f =
     (let autoPoints = of_int (auto_scored f) + (if auto_mobility f then 1 else 0);
          teleopPoints = of_int (teleop_scored f);
          endgamePoints = ENDGAME_POINTS (endgame_mode f)
      in \<lparr>pt_auto = autoPoints, pt_teleop = teleopPoints, pt_endgame = endgamePoints,
          pt_total = autoPoints + teleopPoints + endgamePoints\<rparr>)"

text \<open>
  Each key of the patch that the form has, with a value that is neither \<open>null\<close> nor \<open>undefined\<close>,
  overwrites the field; the result is read back through \<open>normalizeForm\<close>.
\<close>

definition patch_key :: "(string \<times> jsval) list \<Rightarrow> string \<times> jsval \<Rightarrow> (string \<times> jsval) list" where
  "patch_key obj kv = (case kv of (k, v) \<Rightarrow>
     if \<not> map_has obj k then obj else if v = JUndef \<or> v = JNull then obj else map_set k v obj)"

definition applyAutoScoutDraftPayload :: "scout_form \<Rightarrow> draft_payload option \<Rightarrow> scout_form" where
  "applyAutoScoutDraftPayload base payload =
     (case payload of None \<Rightarrow> base
      | Some p \<Rightarrow> (case dp_form_patch p of None \<Rightarrow> base
         | Some patch \<Rightarrow> normalizeForm (Some (fold (\<lambda>kv obj. patch_key obj kv) patch (form_raw base)))))"

definition phaseLabelForTimer :: "int \<Rightarrow> string" where
  "phaseLabelForTimer timerSec =
     (if timerSec \<le> 0 then ''Complete''
      else if timerSec > matchSec SEASON - autoSec SEASON then ''Auto''
      else if timerSec \<le> endgameSec SEASON then ''Endgame'' else ''Teleop'')"

section \<open>The type invariant of a form\<close>

definition level_ok :: "level \<Rightarrow> bool" where
  "level_ok l = (case l of None \<Rightarrow> True | Some n \<Rightarrow> 1 \<le> n \<and> n \<le> 5)"

definition wf_form :: "scout_form \<Rightarrow> bool" where
  "wf_form f \<longleftrightarrow> 0 \<le> auto_scored f \<and> 0 \<le> auto_missed f \<and> 0 \<le> auto_pickups f \<and> 0 \<le>
     auto_cycles f \<and> 0 \<le> teleop_scored f \<and> 0 \<le> teleop_missed f \<and> 0 \<le>
     teleop_under_defense_scored f \<and> 0 \<le> teleop_under_defense_attempts f \<and> 0 \<le>
     teleop_cycles f \<and> 0 \<le> teleop_drops f \<and> 0 \<le> intake_failures f \<and> 0 \<le>
     foul_count f \<and> 0 \<le> bump_crosses f \<and> 0 \<le> trench_crosses f \<and>
     level_ok (auto_path_quality_1_5 f) \<and> level_ok (offense_level_1_5 f) \<and> level_ok
     (defense_level_1_5 f) \<and> level_ok (field_awareness_1_5 f) \<and> level_ok
     (decision_quality_1_5 f) \<and> level_ok (communication_1_5 f) \<and> level_ok
     (anti_defense_level_1_5 f) \<and> level_ok (escape_level_1_5 f) \<and> level_ok
     (reroute_level_1_5 f) \<and> level_ok (hit_recovery_level_1_5 f)"

section \<open>Lemmas\<close>

named_theorems form_simps \<open>how the readers act on values of the form's own types\<close>

lemma toInt_nonneg [simp]: "0 \<le> fallback \<Longrightarrow> 0 \<le> toInt v fallback"
  by (simp add: toInt_def split: option.split)

lemma toInt_of_int [form_simps]: "0 \<le> n \<Longrightarrow> toInt (JNum (Fin (of_int n))) d = n"
  by (simp add: toInt_def)

lemma toLevel_ok [simp]: "level_ok fallback \<Longrightarrow> level_ok (toLevel v fallback)"
proof (cases "parseNumber v")
  case (Some p)
  have "1 \<le> math_round p \<and> math_round p \<le> 5" if "\<not> p \<le> 1" "\<not> 5 \<le> p"
    using math_round_bounds [of 1 p 5] that by simp
  with Some show ?thesis by (simp add: toLevel_def level_ok_def)
qed (simp add: toLevel_def)

lemma level_ok_None [simp]: "level_ok None"
  by (simp add: level_ok_def)

lemma toLevel_raw [form_simps]: "level_ok l \<Longrightarrow> toLevel (level_raw l) None = l"
  by (auto simp: toLevel_def level_raw_def level_ok_def split: option.splits)

lemma toBool_JBool [form_simps]: "toBool (JBool b) d = b"
  by (simp add: toBool_def)

lemma endgame_of_str [form_simps]: "endgame_of (JStr (endgame_str m)) = m"
  by (cases m) (simp_all add: endgame_of_def endgame_str_def)

lemma wf_EMPTY_FORM: "wf_form EMPTY_FORM"
  by (simp add: wf_form_def EMPTY_FORM_def)

lemma wf_normalizeForm [simp]: "wf_form (normalizeForm r)"
proof (cases r)
  case None
  then show ?thesis by (simp add: normalizeForm_def wf_EMPTY_FORM)
next
  case (Some raw)
  then show ?thesis by (simp add: normalizeForm_def wf_form_def)
qed

lemma normalizeForm_raw: "wf_form f \<Longrightarrow> normalizeForm (Some (form_raw f)) = f"
  by (simp add: normalizeForm_def form_raw_def wf_form_def form_simps)

text \<open>The fields of the form, and that each is read from its own property alone.\<close>

definition form_keys :: "string list" where
  "form_keys = map fst (form_raw EMPTY_FORM)"

lemma normalizeForm_reads:
  "(\<And>k. k \<in> set form_keys \<Longrightarrow> jget r k = jget s k) \<Longrightarrow> normalizeForm (Some r) = normalizeForm (Some s)"
  by (simp add: normalizeForm_def form_keys_def form_raw_def)

lemma jget_other: "j \<notin> set form_keys \<Longrightarrow> jget (form_raw f) j = JUndef"
  by (simp add: form_keys_def form_raw_def jget_def)

lemma normalizeForm_field:
  assumes "jget r j = jget s j"
  shows "jget (form_raw (normalizeForm (Some r))) j = jget (form_raw (normalizeForm (Some s))) j"
  using assms unfolding normalizeForm_def option.case form_raw_def scout_form.select_convs
  by (simp only: jget_Cons) presburger

lemma jget_set_other: "j \<noteq> k \<Longrightarrow> jget (map_set k v m) j = jget m j"
  using map_get_set [of k v m j] by (simp add: jget_def map_get_def)

text \<open>Claim C16: what is read back is the form that was there, and always a form.  Whatever value
  \<open>normalizeForm\<close> is given, the result has no negative counter and its levels are absent or between 1
  and 5.  An object whose properties are those of such a form, in any order and among any others, is
  read as exactly that form.  And one property with any other value in it, of any type, costs at most
  its own field: every other field is read as before.  Without an object the form is the empty one.\<close>

theorem normalize_form_closes:
  "wf_form (normalizeForm r) \<and> normalizeForm None = EMPTY_FORM \<and>
   (wf_form f \<longrightarrow>
     ((\<forall>k \<in> set form_keys. jget raw k = jget (form_raw f) k) \<longrightarrow> normalizeForm (Some raw) = f) \<and>
     (\<forall>j. j \<noteq> key \<longrightarrow>
        jget (form_raw (normalizeForm (Some (map_set key v (form_raw f))))) j = jget (form_raw f) j))"
proof -
  have "normalizeForm (Some raw) = f" if "wf_form f" "\<forall>k \<in> set form_keys. jget raw k = jget (form_raw f) k"
    using that normalizeForm_reads [of raw "form_raw f"] normalizeForm_raw by metis
  moreover have "jget (form_raw (normalizeForm (Some (map_set key v (form_raw f))))) j = jget (form_raw f) j"
    if "wf_form f" "j \<noteq> key" for j
    using normalizeForm_field [OF jget_set_other [OF that(2)], of v "form_raw f"] normalizeForm_raw [OF that(1)] by metis
  moreover have "normalizeForm None = EMPTY_FORM" by (simp add: normalizeForm_def)
  ultimately show ?thesis by simp
qed

lemma normalize_form_closes_witness:
  "let f = EMPTY_FORM\<lparr>teleop_scored := 12, offense_level_1_5 := Some 4\<rparr>;
       damaged = form_raw (normalizeForm (Some (map_set ''foul_count'' (JStr ''many'') (form_raw f))))
   in normalizeForm (Some ((''extra'', JNull) # form_raw f)) = f \<and>
      jget damaged ''teleop_scored'' = JNum (Fin 12) \<and> jget damaged ''offense_level_1_5'' = JNum (Fin 4)"
proof -
  let ?f = "EMPTY_FORM\<lparr>teleop_scored := 12, offense_level_1_5 := Some 4\<rparr>"
  have w: "wf_form ?f" by (simp add: wf_form_def EMPTY_FORM_def level_ok_def)
  have e: "\<forall>k \<in> set form_keys. jget ((''extra'', JNull) # form_raw ?f) k = jget (form_raw ?f) k"
  proof -
    have "''extra'' \<notin> set form_keys" by code_simp
    then show ?thesis by (auto simp only: jget_Cons if_False split: if_split)
  qed
  have j: "jget (form_raw ?f) ''teleop_scored'' = JNum (Fin 12)" "jget (form_raw ?f) ''offense_level_1_5'' = JNum (Fin 4)"
    by (simp_all add: form_raw_def jget_def level_raw_def)
  show ?thesis
    using normalize_form_closes [of None ?f "(''extra'', JNull) # form_raw ?f" "''foul_count''" "JStr ''many''"] w e
    unfolding Let_def by (simp add: j)
qed

subsection \<open>The merge of an automatic draft\<close>

lemma map_has_map_set: "map_has (map_set k v m) j \<longleftrightarrow> j = k \<or> map_has m j"
  by (simp add: map_has_get map_get_set)

lemma map_has_patch_key [simp]: "map_has (patch_key obj kv) j \<longleftrightarrow> map_has obj j"
  by (cases kv) (auto simp: patch_key_def map_has_map_set)

lemma jget_map_set: "jget (map_set k v m) j = (if j = k then v else jget m j)"
  using map_get_set [of k v m j] by (simp add: jget_def map_get_def)

lemma jget_patch_key:
  "jget (patch_key obj (k, v)) j =
     (if j = k \<and> map_has obj k \<and> v \<noteq> JUndef \<and> v \<noteq> JNull then v else jget obj j)"
  by (auto simp: patch_key_def jget_map_set)

text \<open>The value a patch has for a key: the last one it gives, when that is a value.\<close>

definition patch_value :: "(string \<times> jsval) list \<Rightarrow> string \<Rightarrow> jsval option" where
  "patch_value patch j =
     map_option snd (find (\<lambda>(k, v). k = j \<and> v \<noteq> JUndef \<and> v \<noteq> JNull) (rev patch))"

lemma patch_value_Nil [simp]: "patch_value [] j = None"
  by (simp add: patch_value_def)

lemma find_append: "find P (xs @ ys) = (case find P xs of None \<Rightarrow> find P ys | Some x \<Rightarrow> Some x)"
  by (induction xs) auto

lemma jget_fold_patch:
  "jget (fold (\<lambda>kv obj. patch_key obj kv) patch obj) j =
     (case patch_value patch j of Some v \<Rightarrow> if map_has obj j then v else jget obj j
      | None \<Rightarrow> jget obj j)"
proof (induction patch arbitrary: obj)
  case Nil
  then show ?case by simp
next
  case (Cons kv patch)
  obtain k v where kv: "kv = (k, v)" by (cases kv)
  have pv: "patch_value ((k, v) # patch) j =
      (case patch_value patch j of Some u \<Rightarrow> Some u
       | None \<Rightarrow> if k = j \<and> v \<noteq> JUndef \<and> v \<noteq> JNull then Some v else None)"
    by (simp add: patch_value_def find_append split: option.split)
  show ?case
    using Cons [of "patch_key obj kv"] by (auto simp: kv pv jget_patch_key split: option.split)
qed

lemma map_has_form_raw:
  "map_has (form_raw f) j \<longleftrightarrow> j \<in> set (map fst (form_raw EMPTY_FORM))"
  by (simp add: map_has_def form_raw_def)

lemma normalizeForm_cong:
  "(\<And>j. jget r j = jget s j) \<Longrightarrow> normalizeForm (Some r) = normalizeForm (Some s)"
  by (simp add: normalizeForm_def)

lemma apply_draft_ignored:
  assumes "wf_form base" and "dp_form_patch p = Some patch"
    and "\<And>k v. (k, v) \<in> set patch \<Longrightarrow> v = JNull \<or> v = JUndef \<or> \<not> map_has (form_raw base) k"
  shows "applyAutoScoutDraftPayload base (Some p) = base"
proof -
  have "jget (fold (\<lambda>kv obj. patch_key obj kv) patch (form_raw base)) j = jget (form_raw base) j" for j
  proof (cases "patch_value patch j")
    case (Some v)
    then obtain k where "(k, v) \<in> set patch" "k = j" "v \<noteq> JUndef" "v \<noteq> JNull"
      by (auto simp: patch_value_def find_Some_iff) (metis length_rev nth_mem set_rev)
    with assms(3) have "\<not> map_has (form_raw base) j" by blast
    with Some show ?thesis by (simp add: jget_fold_patch)
  qed (simp add: jget_fold_patch)
  then have "applyAutoScoutDraftPayload base (Some p) = normalizeForm (Some (form_raw base))"
    using assms(2) by (simp add: applyAutoScoutDraftPayload_def) (rule normalizeForm_cong)
  with assms(1) show ?thesis by (simp add: normalizeForm_raw)
qed

lemma form_key_local:
  "jget r j = jget s j \<Longrightarrow>
     jget (form_raw (normalizeForm (Some r))) j = jget (form_raw (normalizeForm (Some s))) j"
  by (simp add: form_raw_def normalizeForm_def)

text \<open>merging an automatic draft into a well-formed form gives a well-formed form.  Every
  field the patch does not name, or names with \<open>null\<close>, keeps the scout's value; a counter it
  names becomes its number, rounded down and never negative, and a level its level; and a draft
  with no patch, or with none of the form's fields, changes nothing.\<close>

theorem auto_draft_merges:
  assumes "wf_form base" and "dp_form_patch p = Some patch"
  shows "wf_form (applyAutoScoutDraftPayload base (Some p)) \<and>
    (\<forall>j. patch_value patch j = None \<longrightarrow>
      jget (form_raw (applyAutoScoutDraftPayload base (Some p))) j = jget (form_raw base) j) \<and>
    (\<forall>v. patch_value patch ''teleop_scored'' = Some v \<longrightarrow>
      teleop_scored (applyAutoScoutDraftPayload base (Some p)) = toInt v 0) \<and>
    (\<forall>v. patch_value patch ''offense_level_1_5'' = Some v \<longrightarrow>
      offense_level_1_5 (applyAutoScoutDraftPayload base (Some p)) = toLevel v None) \<and>
    ((\<forall>kv \<in> set patch. snd kv = JNull \<or> snd kv = JUndef \<or> \<not> map_has (form_raw base) (fst kv)) \<longrightarrow>
      applyAutoScoutDraftPayload base (Some p) = base) \<and>
    applyAutoScoutDraftPayload base None = base"
proof -
  have h: "map_has (form_raw base) ''teleop_scored''" "map_has (form_raw base) ''offense_level_1_5''"
    by (simp_all add: map_has_def form_raw_def)
  have e: "applyAutoScoutDraftPayload base (Some p) =
      normalizeForm (Some (fold (\<lambda>kv obj. patch_key obj kv) patch (form_raw base)))"
    using assms(2) by (simp add: applyAutoScoutDraftPayload_def)
  have "jget (form_raw (applyAutoScoutDraftPayload base (Some p))) j = jget (form_raw base) j"
    if "patch_value patch j = None" for j
    using form_key_local [of "fold (\<lambda>kv obj. patch_key obj kv) patch (form_raw base)" j "form_raw base"]
      that assms(1) by (simp add: e jget_fold_patch normalizeForm_raw)
  moreover have "applyAutoScoutDraftPayload base (Some p) = base"
    if "\<forall>kv \<in> set patch. snd kv = JNull \<or> snd kv = JUndef \<or> \<not> map_has (form_raw base) (fst kv)"
    using apply_draft_ignored [OF assms] that by force
  moreover have "applyAutoScoutDraftPayload base None = base"
    by (simp add: applyAutoScoutDraftPayload_def)
  moreover have "teleop_scored (applyAutoScoutDraftPayload base (Some p)) = toInt v 0"
    if "patch_value patch ''teleop_scored'' = Some v" for v
    using that h by (simp add: e jget_fold_patch normalizeForm_def)
  moreover have "offense_level_1_5 (applyAutoScoutDraftPayload base (Some p)) = toLevel v None"
    if "patch_value patch ''offense_level_1_5'' = Some v" for v
    using that h by (simp add: e jget_fold_patch normalizeForm_def)
  ultimately show ?thesis by (simp add: e)
qed

lemma auto_draft_merges_witness:
  "let p = \<lparr>dp_form_patch = Some [(''teleop_scored'', JNum (Fin (7/2))), (''foul_count'', JNull)],
            dp_notes_seed = []\<rparr>
   in teleop_scored (applyAutoScoutDraftPayload EMPTY_FORM (Some p)) = 3 \<and>
      jget (form_raw (applyAutoScoutDraftPayload EMPTY_FORM (Some p))) ''foul_count'' =
      jget (form_raw EMPTY_FORM) ''foul_count''"
  using auto_draft_merges [OF wf_EMPTY_FORM, of
      "\<lparr>dp_form_patch = Some [(''teleop_scored'', JNum (Fin (7/2))), (''foul_count'', JNull)],
            dp_notes_seed = []\<rparr>"]
  by (simp add: patch_value_def toInt_def EMPTY_FORM_def)

subsection \<open>Texts a scout types\<close>

lemma dropWhile_filter_head: "dropWhile P (c # cs) = c # cs \<longleftrightarrow> \<not> P c"
  by (metis dropWhile.simps(2) hd_dropWhile list.sel(1) neq_Nil_conv list.distinct(1))

lemma filter_room_chars: "normalizeRoomKey raw = take 48 (filter room_char (js_lower (js_trim raw)))"
  by (simp add: normalizeRoomKey_def replace_runs_Nil)

lemma room_char_not_space: "room_char c \<Longrightarrow> \<not> is_space c"
  by (auto simp: room_char_def is_digit_def is_lower_alpha_def is_space_def Let_def)

lemma room_char_lower: "room_char c \<Longrightarrow> lower_char c = c"
  by (auto simp: room_char_def is_digit_def is_lower_alpha_def lower_char_def Let_def)

lemma room_chars_idle:
  assumes "\<forall>c \<in> set s. room_char c" and "length s \<le> 48"
  shows "normalizeRoomKey s = s"
proof -
  have "js_trim s = s"
    using assms(1) by (intro trim_idle) (auto simp: trimmed_def room_char_not_space)
  moreover have "js_lower s = s"
    using assms(1) by (simp add: js_lower_def map_idI room_char_lower)
  ultimately show ?thesis using assms by (simp add: filter_room_chars filter_True)
qed

lemma normalizeRoomKey_chars: "c \<in> set (normalizeRoomKey raw) \<Longrightarrow> room_char c"
  by (auto simp: filter_room_chars dest!: in_set_takeD)

lemma normalizeRoomKey_length: "length (normalizeRoomKey raw) \<le> 48"
  by (simp add: filter_room_chars)

lemma normalizeRoomKey_idem [simp]: "normalizeRoomKey (normalizeRoomKey raw) = normalizeRoomKey raw"
  by (rule room_chars_idle) (auto simp: normalizeRoomKey_length dest: normalizeRoomKey_chars)

lemma normalizeRoomKey_Nil [simp]: "normalizeRoomKey [] = []"
  by (simp add: filter_room_chars)

lemma normalizeEventKeyInput_idem [simp]:
  "normalizeEventKeyInput (normalizeEventKeyInput raw) = normalizeEventKeyInput raw"
  by (simp add: normalizeEventKeyInput_def str_simps)

lemma crlf_free_idle: "CHR 13 \<notin> set s \<Longrightarrow> crlf_to_lf s = s"
  by (induction s rule: crlf_to_lf.induct) auto

lemma length_crlf_to_lf: "length (crlf_to_lf s) \<le> length s"
  by (induction s rule: crlf_to_lf.induct) auto

lemma normalizeScoutingNotes_length: "length (normalizeScoutingNotes s) \<le> 600"
  by (simp add: normalizeScoutingNotes_def)

end
