(* ===== verification/ScoutRatings.thy ===== *)
theory ScoutRatings
  imports ScoutForm
begin

text \<open>
  The ratings a report earns (\<open>src/ScoutingApp/src/pages/scoutingPage.helpers.ts\<close>, lines 216 to
  840): the driver rating, the manual rating, the overall rating and the blend with official data.
  Every local constant of a rating function that others use is a definition of its own, named after
  the function and the constant, so that each can be bounded and compared by itself.  Arithmetic is
  exact on real numbers.  The lemmas show that every score lies in its range, that tiers and levels
  agree with scores, and how scores move with the counters of the form.
\<close>

section \<open>Shared scales\<close>

definition normalizeScoreTier :: "real \<Rightarrow> string" where
  "normalizeScoreTier score = (if score \<ge> 88 then ''Elite'' else if score \<ge> 76 then ''Strong''
     else if score \<ge> 62 then ''Solid'' else if score \<ge> 48 then ''Developing'' else ''At Risk'')"

definition scoreTierLevel :: "real \<Rightarrow> int" where
  "scoreTierLevel score = (if score \<ge> 88 then 5 else if score \<ge> 76 then 4
     else if score \<ge> 62 then 3 else if score \<ge> 48 then 2 else 1)"

definition pushUnique :: "string \<Rightarrow> string list \<Rightarrow> string list" where
  "pushUnique v xs = (if v \<in> set xs then xs else xs @ [v])"

text \<open>\<open>if (c) pushUnique(list, text)\<close> for each pair in turn, then the text for an empty list.\<close>

definition push_when :: "(bool \<times> string) list \<Rightarrow> string list" where
  "push_when rules = fold (\<lambda>(c, v) xs. if c then pushUnique v xs else xs) rules []"

definition or_default :: "string \<Rightarrow> string list \<Rightarrow> string list" where
  "or_default v xs = (if xs = [] then pushUnique v xs else xs)"

definition safeRatio :: "real \<Rightarrow> real \<Rightarrow> real \<Rightarrow> real" where
  "safeRatio n d fallback = (if d \<le> 0 then fallback else n / d)"

definition logistic01 :: "real \<Rightarrow> real \<Rightarrow> real \<Rightarrow> real" where
  "logistic01 v midpoint steepness =
     (let scale = max 0.0001 steepness in 1 / (1 + exp (- (v - midpoint) / scale)))"

definition sampleEvidenceConfidence :: "real \<Rightarrow> real \<Rightarrow> real \<Rightarrow> real" where
  "sampleEvidenceConfidence obs midpoint steepness =
     clampNumber (logistic01 (max 0 obs) midpoint steepness) 0 1"

definition bayesianRate :: "real \<Rightarrow> real \<Rightarrow> real \<Rightarrow> real \<Rightarrow> real" where
  "bayesianRate successes attempts priorMean priorStrength =
     (let safeAttempts = max 0 attempts;
          safeSuccesses = clampNumber successes 0 safeAttempts;
          alpha = clampNumber priorMean 0.01 0.99 * max 1 priorStrength;
          beta = (1 - clampNumber priorMean 0.01 0.99) * max 1 priorStrength
      in (safeSuccesses + alpha) / max 1 (safeAttempts + alpha + beta))"

definition bool_num :: "bool \<Rightarrow> real" where
  "bool_num b = (if b then 1 else 0)"

text \<open>\<open>clampNumber(((level ?? 3) - 1) / 4, 0, 1)\<close>.\<close>

definition level_signal :: "level \<Rightarrow> real" where
  "level_signal l = clampNumber ((of_int (nullish l 3) - 1) / 4) 0 1"

section \<open>The driver rating\<close>

definition driver_teleopAttempts :: "scout_form \<Rightarrow> real" where
  "driver_teleopAttempts f = of_int (teleop_scored f + teleop_missed f)"

definition driver_teleopEvidence :: "scout_form \<Rightarrow> real" where
  "driver_teleopEvidence f = sampleEvidenceConfidence (driver_teleopAttempts f) 8 2.4"

definition driver_teleopAccuracy :: "scout_form \<Rightarrow> real" where
  "driver_teleopAccuracy f =
     clampNumber (bayesianRate (of_int (teleop_scored f)) (driver_teleopAttempts f) 0.57 7) 0 1"

definition driver_defendedEvidence :: "scout_form \<Rightarrow> real" where
  "driver_defendedEvidence f =
     sampleEvidenceConfidence (of_int (teleop_under_defense_attempts f)) 5 1.9"

definition driver_defendedAccuracy :: "scout_form \<Rightarrow> real" where
  "driver_defendedAccuracy f =
     clampNumber (bayesianRate (of_int (teleop_under_defense_scored f))
       (of_int (teleop_under_defense_attempts f)) (driver_teleopAccuracy f) 5) 0 1"

definition driver_teleopVolume :: "scout_form \<Rightarrow> real" where
  "driver_teleopVolume f =
     clampNumber (0.5 * logistic01 (of_int (teleop_scored f)) 10.5 2.8
       + 0.34 * logistic01 (of_int (teleop_cycles f)) 8.5 2.2
       + 0.16 * logistic01 (of_int (auto_pickups f + teleop_cycles f)) 12 3.3) 0 1"

definition driver_cycleYield :: "scout_form \<Rightarrow> real" where
  "driver_cycleYield f =
     safeRatio (of_int (teleop_scored f)) (max 1 (of_int (teleop_cycles f))) 0.88"

definition driver_dropPressure :: "scout_form \<Rightarrow> real" where
  "driver_dropPressure f =
     safeRatio (of_int (teleop_drops f) + of_int (intake_failures f) * 0.85)
       (driver_teleopAttempts f + 4) 0.2"

definition driver_handlingEfficiency :: "scout_form \<Rightarrow> real" where
  "driver_handlingEfficiency f = clampNumber (1 - driver_dropPressure f * 1.35) 0 1"

definition driver_cycleEfficiency :: "scout_form \<Rightarrow> real" where
  "driver_cycleEfficiency f =
     clampNumber (0.58 * logistic01 (driver_cycleYield f) 1.28 0.28
       + 0.42 * driver_handlingEfficiency f) 0 1"

definition driver_tacticalSignal :: "scout_form \<Rightarrow> real" where
  "driver_tacticalSignal f =
     (let offenseSignal = level_signal (offense_level_1_5 f);
          defenseSignal = level_signal (defense_level_1_5 f);
          awarenessSignal = level_signal (field_awareness_1_5 f);
          decisionSignal = level_signal (decision_quality_1_5 f);
          communicationSignal = level_signal (communication_1_5 f)
      in clampNumber (0.28 * awarenessSignal + 0.28 * decisionSignal + 0.18 * communicationSignal
           + 0.16 * offenseSignal + 0.1 * defenseSignal) 0 1)"

definition driver_antiDefenseSignal :: "scout_form \<Rightarrow> real" where
  "driver_antiDefenseSignal f =
     clampNumber (0.34 * level_signal (anti_defense_level_1_5 f)
       + 0.26 * level_signal (escape_level_1_5 f)
       + 0.2 * level_signal (reroute_level_1_5 f)
       + 0.2 * level_signal (hit_recovery_level_1_5 f)) 0 1"

definition driver_defendedRetention :: "scout_form \<Rightarrow> real" where
  "driver_defendedRetention f =
     clampNumber (0.5 + (driver_defendedAccuracy f - driver_teleopAccuracy f) * 1.4) 0 1"

definition driver_laneMobilitySignal :: "scout_form \<Rightarrow> real" where
  "driver_laneMobilitySignal f =
     clampNumber (0.52 * logistic01 (of_int (bump_crosses f + trench_crosses f)) 7 2.5
       + 0.48 * driver_antiDefenseSignal f) 0 1"

definition driver_pressureSignal :: "scout_form \<Rightarrow> real" where
  "driver_pressureSignal f =
     clampNumber (0.46 * driver_antiDefenseSignal f + 0.34 * driver_defendedRetention f
       + 0.2 * driver_laneMobilitySignal f) 0 1"

definition driver_endgameSignal :: "scout_form \<Rightarrow> real" where
  "driver_endgameSignal f =
     clampNumber (ENDGAME_DRIVER_FACTOR (endgame_mode f) * (if climbed_under_pressure f then 1.07 else 1)
       - bool_num (protected_zone_risk f) * 0.08) 0 1"

definition driver_foulPressure :: "scout_form \<Rightarrow> real" where
  "driver_foulPressure f =
     safeRatio (of_int (foul_count f)) (max 1 (driver_teleopAttempts f / 6)) 0"

definition driver_disciplineSignal :: "scout_form \<Rightarrow> real" where
  "driver_disciplineSignal f =
     clampNumber (1 - driver_foulPressure f * 0.24 - driver_dropPressure f * 0.52
       - bool_num (protected_zone_risk f) * 0.16) 0 1"

text \<open>\<open>Math.max\<close> and \<open>Math.min\<close> of the five signals.\<close>

definition spread5 :: "real \<Rightarrow> real \<Rightarrow> real \<Rightarrow> real \<Rightarrow> real \<Rightarrow> real" where
  "spread5 a b c d e = max a (max b (max c (max d e))) - min a (min b (min c (min d e)))"

definition driver_consistencySignal :: "scout_form \<Rightarrow> real" where
  "driver_consistencySignal f =
     clampNumber (1 - spread5 (driver_teleopAccuracy f) (driver_defendedAccuracy f)
       (driver_cycleEfficiency f) (driver_tacticalSignal f) (driver_disciplineSignal f) * 0.46) 0 1"

definition driver_evidenceSignal :: "scout_form \<Rightarrow> real" where
  "driver_evidenceSignal f =
     clampNumber (0.44 * driver_teleopEvidence f + 0.24 * driver_defendedEvidence f
       + 0.2 * sampleEvidenceConfidence (of_int (teleop_cycles f)) 6 1.7
       + 0.12 * sampleEvidenceConfidence (of_int (auto_scored f + teleop_scored f)) 10 2.8) 0 1"

definition driver_synergyBonus :: "scout_form \<Rightarrow> real" where
  "driver_synergyBonus f =
     clampNumber ((if driver_teleopVolume f \<ge> 0.64 \<and> driver_teleopAccuracy f \<ge> 0.6 then 0.038 else 0)
       + (if driver_pressureSignal f \<ge> 0.63 \<and> driver_disciplineSignal f \<ge> 0.62 then 0.032 else 0)
       + (if driver_tacticalSignal f \<ge> 0.68 \<and> driver_cycleEfficiency f \<ge> 0.63 then 0.028 else 0))
       0 0.12"

definition driver_volatilityPenalty :: "scout_form \<Rightarrow> real" where
  "driver_volatilityPenalty f =
     clampNumber ((if driver_teleopVolume f \<ge> 0.72 \<and> driver_teleopAccuracy f \<le> 0.46 then 0.06 else 0)
       + (if teleop_under_defense_attempts f \<ge> 4 \<and> driver_pressureSignal f \<le> 0.42 then 0.05 else 0)
       + (if driver_disciplineSignal f \<le> 0.45 then 0.04 else 0)
       + (if driver_evidenceSignal f \<le> 0.3 then 0.035 else 0)) 0 0.21"

definition driver_baselineScore01 :: "scout_form \<Rightarrow> real" where
  "driver_baselineScore01 f =
     clampNumber (0.16 * driver_teleopVolume f + 0.17 * driver_teleopAccuracy f
       + 0.14 * driver_cycleEfficiency f + 0.14 * driver_pressureSignal f
       + 0.13 * driver_tacticalSignal f + 0.1 * driver_endgameSignal f
       + 0.08 * driver_disciplineSignal f + 0.05 * driver_consistencySignal f
       + 0.03 * driver_laneMobilitySignal f) 0 1"

definition driver_score01 :: "scout_form \<Rightarrow> real" where
  "driver_score01 f =
     clampNumber (driver_baselineScore01 f + driver_synergyBonus f - driver_volatilityPenalty f
       + clampNumber ((driver_evidenceSignal f - 0.45) * 0.16) (- 0.06) 0.07) 0 1"

definition driver_level :: "real \<Rightarrow> real" where
  "driver_level score = (if score \<ge> 88 then 5 else if score \<ge> 74 then 4 else if score \<ge> 60 then 3
     else if score \<ge> 46 then 2 else 1)"

definition driver_tier :: "real \<Rightarrow> string" where
  "driver_tier level = (if level = 5 then ''Elite'' else if level = 4 then ''Strong''
     else if level = 3 then ''Solid'' else if level = 2 then ''Developing'' else ''Struggling'')"

definition driverCompetency :: "scout_form \<Rightarrow> driver_competency" where
  "driverCompetency f =
     (let score = of_int (math_round (clampNumber (driver_score01 f) 0 1 * 100));
          level = driver_level score
      in \<lparr>dc_score = score, dc_level = level, dc_tier = driver_tier level,
          dc_breakdown =
           \<lparr>db_teleop_volume = to_fixed 4 (driver_teleopVolume f),
            db_teleop_accuracy = to_fixed 4 (driver_teleopAccuracy f),
            db_offense = to_fixed 4 (driver_tacticalSignal f),
            db_defense = to_fixed 4 (driver_pressureSignal f),
            db_endgame = to_fixed 4 (driver_endgameSignal f),
            db_discipline = to_fixed 4 (driver_disciplineSignal f)\<rparr>\<rparr>)"

section \<open>The manual rating\<close>

text \<open>A success rate with a neutral value where nothing was tried.\<close>

definition rate_or_half :: "int \<Rightarrow> int \<Rightarrow> real" where
  "rate_or_half scored attempts = (if attempts > 0 then of_int scored / of_int attempts else 0.5)"

definition manual_autoSignal :: "scout_form \<Rightarrow> real" where
  "manual_autoSignal f =
     clampNumber (0.34 * clampNumber (of_int (auto_scored f) / 7) 0 1
       + 0.2 * rate_or_half (auto_scored f) (auto_scored f + auto_missed f)
       + 0.2 * bool_num (auto_mobility f)
       + 0.14 * clampNumber (of_int (auto_pickups f) / 4) 0 1
       + 0.12 * level_signal (auto_path_quality_1_5 f)) 0 1"

definition manual_teleopSignal :: "scout_form \<Rightarrow> real" where
  "manual_teleopSignal f =
     (let teleopAccuracy = rate_or_half (teleop_scored f) (teleop_scored f + teleop_missed f);
          defendedAccuracy = (if teleop_under_defense_attempts f > 0
            then of_int (teleop_under_defense_scored f) /
                 max 1 (of_int (teleop_under_defense_attempts f)) else 0.5)
      in clampNumber (0.38 * clampNumber (of_int (teleop_scored f) / 26) 0 1
           + 0.2 * teleopAccuracy
           + 0.16 * clampNumber (of_int (teleop_cycles f) / 12) 0 1
           + 0.18 * defendedAccuracy
           + 0.08 * clampNumber (1 - of_int (teleop_drops f) * 0.08) 0 1) 0 1)"

definition manual_endgameSignal :: "scout_form \<Rightarrow> real" where
  "manual_endgameSignal f =
     clampNumber (0.78 * (ENDGAME_POINTS (endgame_mode f) / MAX_ENDGAME_POINTS)
       + 0.22 * bool_num (climbed_under_pressure f)) 0 1"

definition manual_antiDefenseSignal :: "scout_form \<Rightarrow> real" where
  "manual_antiDefenseSignal f =
     clampNumber (0.26 * level_signal (anti_defense_level_1_5 f)
       + 0.2 * level_signal (escape_level_1_5 f)
       + 0.16 * level_signal (reroute_level_1_5 f)
       + 0.14 * level_signal (hit_recovery_level_1_5 f)
       + 0.1 * clampNumber (of_int (teleop_under_defense_scored f) / 10) 0 1
       + 0.08 * clampNumber (of_int (bump_crosses f) / 12) 0 1
       + 0.06 * clampNumber (of_int (trench_crosses f) / 12) 0 1) 0 1"

definition manual_executionSignal :: "scout_form \<Rightarrow> driver_competency \<Rightarrow> real" where
  "manual_executionSignal f driver =
     clampNumber (0.28 * level_signal (offense_level_1_5 f)
       + 0.18 * level_signal (defense_level_1_5 f)
       + 0.18 * level_signal (field_awareness_1_5 f)
       + 0.18 * level_signal (decision_quality_1_5 f)
       + 0.08 * level_signal (communication_1_5 f)
       + 0.1 * clampNumber (dc_score driver / 100) 0 1) 0 1"

definition manual_disciplineSignal :: "scout_form \<Rightarrow> real" where
  "manual_disciplineSignal f =
     clampNumber (1 - of_int (foul_count f) * 0.11 - of_int (teleop_drops f) * 0.035
       - of_int (intake_failures f) * 0.03 - bool_num (protected_zone_risk f) * 0.18) 0 1"

definition manual_score01 :: "scout_form \<Rightarrow> driver_competency \<Rightarrow> real" where
  "manual_score01 f driver =
     0.2 * manual_autoSignal f + 0.29 * manual_teleopSignal f + 0.16 * manual_endgameSignal f
     + 0.17 * manual_antiDefenseSignal f + 0.12 * manual_executionSignal f driver
     + 0.06 * manual_disciplineSignal f"

definition manual_pros :: "scout_form \<Rightarrow> string list" where
  "manual_pros f = or_default ''No clear strength yet.'' (push_when
     [(manual_autoSignal f \<ge> 0.68, ''Strong autonomous consistency.''),
      (manual_teleopSignal f \<ge> 0.72, ''High teleop production and efficiency.''),
      (manual_antiDefenseSignal f \<ge> 0.68, ''Maintains output while under defense.''),
      (manual_endgameSignal f \<ge> 0.75, ''Reliable endgame value under pressure.''),
      (manual_disciplineSignal f \<ge> 0.82, ''Few fouls or handling problems.'')])"

definition manual_cons :: "scout_form \<Rightarrow> string list" where
  "manual_cons f = or_default ''No major red flags in this scouting sample.'' (push_when
     [(manual_autoSignal f \<le> 0.4, ''Autonomous output currently limited.''),
      (manual_teleopSignal f \<le> 0.46, ''Teleop scoring is slow or misses a lot.''),
      (manual_antiDefenseSignal f \<le> 0.42, ''Defense pressure causes meaningful drop-off.''),
      (manual_endgameSignal f \<le> 0.38, ''Endgame ceiling appears limited.''),
      (manual_disciplineSignal f \<le> 0.46, ''Penalties and handling errors add risk.'')])"

definition manualScoutingRating :: "scout_form \<Rightarrow> driver_competency \<Rightarrow> manual_rating" where
  "manualScoutingRating f driver =
     (let score = of_int (math_round (clampNumber (manual_score01 f driver) 0 1 * 100))
      in \<lparr>mr_score = score, mr_tier = normalizeScoreTier score,
          mr_breakdown =
           \<lparr>mb_auto = to_fixed 4 (manual_autoSignal f),
            mb_teleop = to_fixed 4 (manual_teleopSignal f),
            mb_endgame = to_fixed 4 (manual_endgameSignal f),
            mb_anti_defense = to_fixed 4 (manual_antiDefenseSignal f),
            mb_execution = to_fixed 4 (manual_executionSignal f driver),
            mb_discipline = to_fixed 4 (manual_disciplineSignal f)\<rparr>,
          mr_pros = manual_pros f, mr_cons = manual_cons f\<rparr>)"

section \<open>The overall rating\<close>

definition overall_pointsSignal :: "scout_points \<Rightarrow> real" where
  "overall_pointsSignal points =
     (let autoPointsSignal = logistic01 (pt_auto points) (scale_midpoint SCOUT_SCALE_AUTO)
            (scale_spread SCOUT_SCALE_AUTO);
          teleopPointsSignal = logistic01 (pt_teleop points) (scale_midpoint SCOUT_SCALE_TELEOP)
            (scale_spread SCOUT_SCALE_TELEOP);
          endgamePointsSignal = clampNumber (pt_endgame points / max 1 MAX_ENDGAME_POINTS) 0 1;
          totalPointsSignal = logistic01 (pt_total points) (scale_midpoint SCOUT_SCALE_TOTAL)
            (scale_spread SCOUT_SCALE_TOTAL)
      in clampNumber (0.42 * totalPointsSignal + 0.22 * teleopPointsSignal
           + 0.14 * autoPointsSignal + 0.22 * endgamePointsSignal) 0 1)"

definition overall_pressureSignal :: "manual_rating \<Rightarrow> driver_competency \<Rightarrow> real" where
  "overall_pressureSignal m d =
     clampNumber (0.56 * mb_anti_defense (mr_breakdown m) + 0.44 * db_defense (dc_breakdown d)) 0 1"

definition overall_endgameSignal :: "manual_rating \<Rightarrow> driver_competency \<Rightarrow> real" where
  "overall_endgameSignal m d =
     clampNumber (0.58 * mb_endgame (mr_breakdown m) + 0.42 * db_endgame (dc_breakdown d)) 0 1"

definition overall_disciplineSignal :: "manual_rating \<Rightarrow> driver_competency \<Rightarrow> real" where
  "overall_disciplineSignal m d =
     clampNumber (0.58 * mb_discipline (mr_breakdown m) + 0.42 * db_discipline (dc_breakdown d)) 0 1"

definition overall_executionSignal :: "manual_rating \<Rightarrow> driver_competency \<Rightarrow> real" where
  "overall_executionSignal m d =
     clampNumber (0.62 * mb_execution (mr_breakdown m) + 0.38 * db_offense (dc_breakdown d)) 0 1"

definition overall_reliabilitySignal :: "manual_rating \<Rightarrow> driver_competency \<Rightarrow> real" where
  "overall_reliabilitySignal m d =
     clampNumber (0.38 * overall_disciplineSignal m d + 0.27 * overall_executionSignal m d
       + 0.2 * mb_teleop (mr_breakdown m) + 0.15 * overall_pressureSignal m d) 0 1"

definition overall_score01 :: "scout_points \<Rightarrow> manual_rating \<Rightarrow> driver_competency \<Rightarrow> real" where
  "overall_score01 points m d =
     (let manual01 = clampNumber (mr_score m / 100) 0 1;
          driver01 = clampNumber (dc_score d / 100) 0 1;
          pointsSignal = overall_pointsSignal points;
          pressureSignal = overall_pressureSignal m d;
          endgameSignal = overall_endgameSignal m d;
          reliabilitySignal = overall_reliabilitySignal m d;
          alignmentPenalty = clampNumber (\<bar>manual01 - driver01\<bar> * 0.22) 0 0.1;
          ceilingBonus = clampNumber ((pointsSignal - 0.62) * 0.1
            + (if endgameSignal \<ge> 0.72 then 0.025 else 0)) 0 0.09;
          riskPenalty = clampNumber ((1 - reliabilitySignal) * 0.09
            + (if pressureSignal < 0.4 then 0.025 else 0)) 0 0.12
      in clampNumber (0.42 * manual01 + 0.22 * driver01 + 0.14 * pointsSignal
           + 0.09 * endgameSignal + 0.07 * reliabilitySignal + 0.06 * pressureSignal
           + ceilingBonus - alignmentPenalty - riskPenalty) 0 1)"

definition overallScoutRating ::
    "scout_points \<Rightarrow> manual_rating \<Rightarrow> driver_competency \<Rightarrow> overall_rating" where
  "overallScoutRating points m d =
     (let rounded = to_fixed 1 (overall_score01 points m d * 100)
      in \<lparr>or_score = rounded, or_tier = normalizeScoreTier rounded,
          or_components =
           \<lparr>oc_manual = to_fixed 2 (clampNumber (mr_score m / 100) 0 1 * 100),
            oc_driver = to_fixed 2 (clampNumber (dc_score d / 100) 0 1 * 100),
            oc_points = to_fixed 2 (overall_pointsSignal points * 100),
            oc_endgame = to_fixed 2 (overall_endgameSignal m d * 100),
            oc_discipline = to_fixed 2 (overall_reliabilitySignal m d * 100)\<rparr>\<rparr>)"

section \<open>The blend with official data\<close>

definition firstDefinedNumber :: "real option list \<Rightarrow> real option" where
  "firstDefinedNumber vs = (case dropWhile (\<lambda>v. v = None) vs of [] \<Rightarrow> None | v # _ \<Rightarrow> v)"

definition opt_bind :: "'a option \<Rightarrow> ('a \<Rightarrow> 'b option) \<Rightarrow> 'b option" where
  "opt_bind a g = (case a of None \<Rightarrow> None | Some x \<Rightarrow> g x)"

record api_signals =
  sig_strength :: "real option"
  sig_reliability :: "real option"
  sig_auto :: "real option"
  sig_climb :: "real option"
  sig_cycle :: "real option"

definition apiSignals :: "api_snapshot option \<Rightarrow> event_baseline option \<Rightarrow> api_signals" where
  "apiSignals snap baseline =
     \<lparr>sig_strength = firstDefinedNumber [opt_bind snap as_rating, opt_bind baseline eb_rating],
      sig_reliability = firstDefinedNumber
        [map_option (\<lambda>r. r * 100) (opt_bind snap as_reliability),
         map_option (\<lambda>r. r * 100) (opt_bind baseline eb_reliability)],
      sig_auto = map_option (\<lambda>a. clampNumber (a * 14) 0 100) (opt_bind snap as_auto_contribution),
      sig_climb = map_option (\<lambda>c. clampNumber (c * 100) 0 100) (opt_bind snap as_climb_success_prob),
      sig_cycle = map_option (\<lambda>c. clampNumber ((56 - c) * 2.7) 0 100) (opt_bind snap as_cycle_time_sec)\<rparr>"

text \<open>The five signals in the order of their weights.\<close>

definition signal_list :: "api_signals \<Rightarrow> real option list" where
  "signal_list s = [sig_strength s, sig_reliability s, sig_auto s, sig_climb s, sig_cycle s]"

definition availableSignals :: "api_signals \<Rightarrow> real list" where
  "availableSignals s = map the (filter (\<lambda>v. v \<noteq> None) (signal_list s))"

definition signalWeights :: "api_signals \<Rightarrow> (real option \<times> real) list" where
  "signalWeights s = zip (signal_list s) [0.44, 0.2, 0.13, 0.13, 0.1]"

text \<open>The loop that adds up weights and weighted values.\<close>

fun weigh :: "(real option \<times> real) list \<Rightarrow> real \<times> real \<Rightarrow> real \<times> real" where
  "weigh [] acc = acc"
| "weigh ((None, w) # ws) acc = weigh ws acc"
| "weigh ((Some v, w) # ws) (weightTotal, weightedSum) =
     weigh ws (weightTotal + w, weightedSum + w * v)"

definition apiComposite :: "api_signals \<Rightarrow> real" where
  "apiComposite s = (case weigh (signalWeights s) (0, 0) of (weightTotal, weightedSum) \<Rightarrow>
     if weightTotal > 0 then weightedSum / weightTotal else 50)"

definition warns_fallback :: "string \<Rightarrow> bool" where
  "warns_fallback w \<longleftrightarrow> (let v = js_lower w in js_includes v ''fallback'' \<or> js_includes v ''sparse''
     \<or> js_includes v ''outdated'' \<or> js_includes v ''unavailable'')"

definition fallbackWarningCount :: "api_snapshot option \<Rightarrow> real" where
  "fallbackWarningCount snap =
     real (length (filter warns_fallback (case snap of None \<Rightarrow> [] | Some s \<Rightarrow> as_warnings s)))"

definition signalCompleteness :: "api_signals \<Rightarrow> real" where
  "signalCompleteness s = clampNumber (real (length (availableSignals s)) / 5) 0 1"

definition externalConfidence :: "api_snapshot option \<Rightarrow> event_baseline option \<Rightarrow> real" where
  "externalConfidence snap baseline =
     (let s = apiSignals snap baseline;
          confidenceInput = clampNumber (nullish (firstDefinedNumber
            [opt_bind snap as_confidence, opt_bind baseline eb_reliability, Some 0.45]) 0.45) 0 1;
          reliability01 = clampNumber (nullish (sig_reliability s) 50 / 100) 0 1
      in clampNumber (0.24 + signalCompleteness s * 0.3 + confidenceInput * 0.28
           + reliability01 * 0.14 - fallbackWarningCount snap * 0.06) 0.2 0.97)"

definition manualWeight :: "api_snapshot option \<Rightarrow> event_baseline option \<Rightarrow> real" where
  "manualWeight snap baseline =
     clampNumber (0.79 - externalConfidence snap baseline * 0.36
       + (if fallbackWarningCount snap > 0 then 0.05 else 0)) 0.44 0.82"

definition api_freshnessPenalty :: "api_snapshot option \<Rightarrow> event_baseline option \<Rightarrow> real" where
  "api_freshnessPenalty snap baseline =
     clampNumber (fallbackWarningCount snap * 2.2
       + (if signalCompleteness (apiSignals snap baseline) < 0.45 then 2.4 else 0)) 0 14"

definition api_score :: "manual_rating \<Rightarrow> api_snapshot option \<Rightarrow> event_baseline option \<Rightarrow> real" where
  "api_score m snap baseline =
     (let s = apiSignals snap baseline;
          strength = nullish (sig_strength s) 50;
          reliability = nullish (sig_reliability s) 50;
          climb = nullish (sig_climb s) 50;
          cycle = nullish (sig_cycle s) 50;
          mw = manualWeight snap baseline;
          manualWeightedScore = mr_score m * mw;
          apiWeightedScore = apiComposite s * (1 - mw);
          alignmentGap = \<bar>mr_score m - strength\<bar> / 100;
          disagreementPenalty = clampNumber ((alignmentGap - 0.24) * 18) 0 10;
          volatilityPenalty = clampNumber ((if reliability \<le> 45 then 2.6 else 0)
            + (if mb_discipline (mr_breakdown m) \<le> 0.4 then 2 else 0)
            + (if cycle \<le> 38 \<and> strength \<ge> 65 then 1.8 else 0)) 0 7;
          upsideBonus = clampNumber ((if strength \<ge> 76 \<and> mr_score m \<ge> 72 then 2.2 else 0)
            + (if climb \<ge> 74 \<and> mb_endgame (mr_breakdown m) \<ge> 0.7 then 1.3 else 0)) 0 4.5
      in clampNumber (manualWeightedScore + apiWeightedScore + upsideBonus
           - api_freshnessPenalty snap baseline - disagreementPenalty - volatilityPenalty) 0 100)"

definition api_pros :: "manual_rating \<Rightarrow> api_snapshot option \<Rightarrow> event_baseline option \<Rightarrow> string list" where
  "api_pros m snap baseline =
     (let s = apiSignals snap baseline
      in or_default ''Your scouting and official data roughly agree.'' (push_when
        [(nullish (sig_strength s) 50 \<ge> 74, ''Official data puts them above average.''),
         (nullish (sig_reliability s) 50 \<ge> 72, ''Official results are steady.''),
         (apiComposite s \<ge> 76 \<and> mr_score m \<ge> 72,
          ''Your scouting and official data agree they score a lot.''),
         (mb_anti_defense (mr_breakdown m) \<ge> 0.65,
          ''Your scouting shows they keep scoring under defense.''),
         (nullish (sig_auto s) 50 \<ge> 68, ''Official data shows a strong auto.''),
         (nullish (sig_climb s) 50 \<ge> 72, ''Official climb results look good.'')]))"

definition api_cons :: "manual_rating \<Rightarrow> api_snapshot option \<Rightarrow> event_baseline option \<Rightarrow> string list" where
  "api_cons m snap baseline =
     (let s = apiSignals snap baseline;
          strength = nullish (sig_strength s) 50
      in or_default ''Official data adds no risk flags.'' (push_when
        [(strength \<le> 45, ''Official data puts their best below most of this event.''),
         (nullish (sig_reliability s) 50 \<le> 46, ''Official results swing a lot.''),
         (\<bar>mr_score m - strength\<bar> / 100 \<ge> 0.34,
          ''Your scouting and official data disagree; send another scout.''),
         (nullish (sig_cycle s) 50 \<le> 38 \<and> strength \<ge> 65,
          ''Cycle times are slower than their rating suggests.''),
         (mb_discipline (mr_breakdown m) \<le> 0.45, ''Your scouting reports fouls or rough play.''),
         (api_freshnessPenalty snap baseline \<ge> 4,
          ''Some official data is old or a stand-in; check it.'')]))"

definition scoutingApiRating ::
    "manual_rating \<Rightarrow> api_snapshot option \<Rightarrow> event_baseline option \<Rightarrow> api_rating" where
  "scoutingApiRating m snap baseline =
     (let s = apiSignals snap baseline
      in if availableSignals s = []
         then \<lparr>ar_score = mr_score m, ar_confidence = 0.35, ar_tier = normalizeScoreTier (mr_score m),
               ar_components = \<lparr>ac_manual_weighted = to_fixed 2 (mr_score m * 0.72), ac_strength = 50,
                 ac_reliability = 50, ac_auto = 50, ac_climb = 50, ac_cycle = 50,
                 ac_freshness_penalty = 0\<rparr>,
               ar_pros = [''This report rests mostly on your scouting.''],
               ar_cons = [''Little official data yet, so confidence is lower until more arrives.'']\<rparr>
         else
           (let confidence = clampNumber (0.26 + externalConfidence snap baseline * 0.62
                  + signalCompleteness s * 0.12 - fallbackWarningCount snap * 0.05) 0.22 0.99;
                roundedScore = to_fixed 1 (api_score m snap baseline)
            in \<lparr>ar_score = roundedScore, ar_confidence = to_fixed 3 confidence,
                ar_tier = normalizeScoreTier roundedScore,
                ar_components =
                 \<lparr>ac_manual_weighted = to_fixed 2 (mr_score m * manualWeight snap baseline),
                  ac_strength = to_fixed 2 (nullish (sig_strength s) 50),
                  ac_reliability = to_fixed 2 (nullish (sig_reliability s) 50),
                  ac_auto = to_fixed 2 (nullish (sig_auto s) 50),
                  ac_climb = to_fixed 2 (nullish (sig_climb s) 50),
                  ac_cycle = to_fixed 2 (nullish (sig_cycle s) 50),
                  ac_freshness_penalty = to_fixed 2 (api_freshnessPenalty snap baseline)\<rparr>,
                ar_pros = api_pros m snap baseline, ar_cons = api_cons m snap baseline\<rparr>))"

text \<open>The sentence shown over an entry, from its API score, if it has one, and its manual score.\<close>

definition entryHeadUp :: "saved_entry \<Rightarrow> string" where
  "entryHeadUp entry =
     (let api = map_option ar_score (e_api_rating entry); manual = mr_score (e_manual entry)
      in if (case api of None \<Rightarrow> False | Some a \<Rightarrow> a \<ge> 80)
           then ''High-value target: your scouting and official data agree.''
         else if manual \<ge> 78 then ''Strong scouting report; confirm it with another scout.''
         else if manual \<le> 48 then ''Looks risky; check with more scouts.''
         else ''Balanced; judge them by how they fit your alliance.'')"

section \<open>Bounds\<close>

named_theorems rating_defs \<open>the signals of the ratings, unfolded one step\<close>

lemma to_fixed_unit [simp]: "0 \<le> x \<Longrightarrow> x \<le> 1 \<Longrightarrow> 0 \<le> to_fixed d x \<and> to_fixed d x \<le> 1"
  using to_fixed_nonneg [of x d] to_fixed_le [of x 1 d] by simp

lemma to_fixed_percent [simp]: "0 \<le> x \<Longrightarrow> x \<le> 100 \<Longrightarrow> 0 \<le> to_fixed d x \<and> to_fixed d x \<le> 100"
  using to_fixed_nonneg [of x d] to_fixed_le [of x 100 d] by simp

lemma to_fixed_mono:
  assumes "0 \<le> x" and "x \<le> y" and "y < 10 ^ 21"
  shows "to_fixed d x \<le> to_fixed d y"
proof (cases "x = 0")
  case True
  then show ?thesis using assms to_fixed_nonneg [of y d] by (simp add: to_fixed_def)
next
  case False
  with assms have s: "sgn x = 1" "sgn y = 1" by (simp_all add: sgn_if)
  have "x * 10 ^ d + 1/2 \<le> y * 10 ^ d + 1/2"
    using assms(2) by (simp add: mult_right_mono)
  then have "\<lfloor>x * 10 ^ d + 1/2\<rfloor> \<le> \<lfloor>y * 10 ^ d + 1/2\<rfloor>" by (rule floor_mono)
  then have "of_int \<lfloor>x * 10 ^ d + 1/2\<rfloor> / 10 ^ d \<le> (of_int \<lfloor>y * 10 ^ d + 1/2\<rfloor> / 10 ^ d :: real)"
    by (intro divide_right_mono) simp_all
  then show ?thesis using assms s by (simp add: to_fixed_def)
qed

definition in_unit :: "real \<Rightarrow> bool" where
  "in_unit x \<longleftrightarrow> 0 \<le> x \<and> x \<le> 1"

definition in_percent :: "real \<Rightarrow> bool" where
  "in_percent x \<longleftrightarrow> 0 \<le> x \<and> x \<le> 100"

lemma in_unit_clamp [simp]: "in_unit (clampNumber x 0 1)"
  by (simp add: in_unit_def)

lemma in_unit_to_fixed [simp]: "in_unit x \<Longrightarrow> in_unit (to_fixed d x)"
  by (simp add: in_unit_def)

lemma in_percent_round: "in_unit x \<Longrightarrow> in_percent (of_int (math_round (x * 100)))"
  using math_round_bounds [of 0 "x * 100" 100] by (simp add: in_unit_def in_percent_def)

lemma in_percent_fixed: "in_unit x \<Longrightarrow> in_percent (to_fixed d (x * 100))"
  by (simp add: in_unit_def in_percent_def)

lemma logistic01_bounds: "0 < logistic01 v a b \<and> logistic01 v a b < 1"
  by (simp add: logistic01_def Let_def add_pos_pos)

definition driver_ok :: "driver_competency \<Rightarrow> bool" where
  "driver_ok d \<longleftrightarrow> in_percent (dc_score d) \<and> 1 \<le> dc_level d \<and> dc_level d \<le> 5 \<and>
     (let b = dc_breakdown d in in_unit (db_teleop_volume b) \<and> in_unit (db_teleop_accuracy b) \<and>
        in_unit (db_offense b) \<and> in_unit (db_defense b) \<and> in_unit (db_endgame b) \<and>
        in_unit (db_discipline b))"

definition manual_ok :: "manual_rating \<Rightarrow> bool" where
  "manual_ok m \<longleftrightarrow> in_percent (mr_score m) \<and>
     (let b = mr_breakdown m in in_unit (mb_auto b) \<and> in_unit (mb_teleop b) \<and>
        in_unit (mb_endgame b) \<and> in_unit (mb_anti_defense b) \<and> in_unit (mb_execution b) \<and>
        in_unit (mb_discipline b))"

definition overall_ok :: "overall_rating \<Rightarrow> bool" where
  "overall_ok r \<longleftrightarrow> in_percent (or_score r) \<and>
     (let c = or_components r in in_percent (oc_manual c) \<and> in_percent (oc_driver c) \<and>
        in_percent (oc_points c) \<and> in_percent (oc_endgame c) \<and> in_percent (oc_discipline c))"

lemma driver_ok_competency: "driver_ok (driverCompetency f)"
  by (simp add: driver_ok_def driverCompetency_def Let_def in_percent_round driver_level_def
      driver_teleopVolume_def driver_teleopAccuracy_def driver_tacticalSignal_def
      driver_pressureSignal_def driver_endgameSignal_def driver_disciplineSignal_def)

lemma manual_ok_rating: "manual_ok (manualScoutingRating f d)"
  by (simp add: manual_ok_def manualScoutingRating_def Let_def in_percent_round
      manual_autoSignal_def manual_teleopSignal_def manual_endgameSignal_def
      manual_antiDefenseSignal_def manual_executionSignal_def manual_disciplineSignal_def)

lemma overall_ok_rating: "overall_ok (overallScoutRating points m d)"
  by (simp add: overall_ok_def overallScoutRating_def Let_def in_percent_fixed
      overall_score01_def overall_pointsSignal_def overall_endgameSignal_def
      overall_reliabilitySignal_def)

lemma api_score_percent: "in_percent (api_score m snap baseline)"
  by (simp add: api_score_def Let_def in_percent_def)

lemma in_unit_const: "in_unit (7 / 20)"
  by (simp add: in_unit_def)

lemma api_rating_bounds:
  assumes "manual_ok m"
  shows "in_percent (ar_score (scoutingApiRating m snap baseline)) \<and>
    in_unit (ar_confidence (scoutingApiRating m snap baseline))"
proof -
  have c: "in_unit (clampNumber x (11/50) (99/100))" for x
    using clamp_ge [of "11/50" x "99/100"] clamp_le [of "11/50" "99/100" x]
    by (simp add: in_unit_def)
  show ?thesis
    using assms api_score_percent [of m snap baseline]
    by (simp add: scoutingApiRating_def Let_def manual_ok_def c in_percent_def in_unit_const)
qed

text \<open>The driver, manual and overall scores of a report, the signals behind them, and the blended score
  and its confidence lie in their ranges, and the manual, overall and blended tiers are those of the
  numbers shown beside them.\<close>

theorem ratings_in_range:
  "let d = driverCompetency f; m = manualScoutingRating f d;
       r = overallScoutRating (pointsFromForm f) m d; a = scoutingApiRating m snap baseline
   in driver_ok d \<and> manual_ok m \<and> overall_ok r \<and> in_percent (ar_score a) \<and> in_unit (ar_confidence a) \<and>
      mr_tier m = normalizeScoreTier (mr_score m) \<and> or_tier r = normalizeScoreTier (or_score r) \<and>
      ar_tier a = normalizeScoreTier (ar_score a)"
proof -
  have "mr_tier (manualScoutingRating f d) = normalizeScoreTier (mr_score (manualScoutingRating f d))"
    for d by (simp add: manualScoutingRating_def Let_def)
  moreover have "or_tier (overallScoutRating p m d) =
      normalizeScoreTier (or_score (overallScoutRating p m d))" for p m d
    by (simp add: overallScoutRating_def Let_def)
  moreover have "ar_tier (scoutingApiRating m snap baseline) =
      normalizeScoreTier (ar_score (scoutingApiRating m snap baseline))" for m
    by (simp add: scoutingApiRating_def Let_def)
  ultimately show ?thesis
    using manual_ok_rating api_rating_bounds
    by (simp add: Let_def driver_ok_competency overall_ok_rating)
qed

section \<open>Fouls\<close>

lemma clamp_lipschitz: "0 \<le> e \<Longrightarrow> clampNumber (x + e) lo hi \<le> clampNumber x lo hi + e"
  unfolding clampNumber_def by linarith

lemma max_shift: "(p :: real) \<le> q + t \<Longrightarrow> 0 \<le> t \<Longrightarrow> max a p \<le> max a q + t"
  by linarith

lemma min_mono_right: "(p :: real) \<le> q \<Longrightarrow> min a p \<le> min a q"
  by linarith

lemma spread5_last:
  assumes "e' \<le> e"
  shows "spread5 a b c d e \<le> spread5 a b c d e' + (e - e')"
proof -
  have t: "0 \<le> e - e'" using assms by simp
  have "e \<le> e' + (e - e')" by simp
  then have "max a (max b (max c (max d e))) \<le> max a (max b (max c (max d e'))) + (e - e')"
    by (rule max_shift [OF max_shift [OF max_shift [OF max_shift [OF _ t] t] t] t])
  moreover have "min a (min b (min c (min d e'))) \<le> min a (min b (min c (min d e)))"
    using assms by (rule min_mono_right [OF min_mono_right [OF min_mono_right [OF min_mono_right]]])
  ultimately show ?thesis unfolding spread5_def by (rule diff_mono [THEN order_trans]) simp
qed

definition add_fouls :: "int \<Rightarrow> scout_form \<Rightarrow> scout_form" where
  "add_fouls k f = f\<lparr>foul_count := foul_count f + k\<rparr>"

lemma add_fouls_same [simp]:
  "protected_zone_risk (add_fouls k f) = protected_zone_risk f"
  "teleop_under_defense_attempts (add_fouls k f) = teleop_under_defense_attempts f"
  "driver_teleopAttempts (add_fouls k f) = driver_teleopAttempts f"
  "driver_teleopAccuracy (add_fouls k f) = driver_teleopAccuracy f"
  "driver_defendedAccuracy (add_fouls k f) = driver_defendedAccuracy f"
  "driver_teleopVolume (add_fouls k f) = driver_teleopVolume f"
  "driver_dropPressure (add_fouls k f) = driver_dropPressure f"
  "driver_cycleEfficiency (add_fouls k f) = driver_cycleEfficiency f"
  "driver_tacticalSignal (add_fouls k f) = driver_tacticalSignal f"
  "driver_antiDefenseSignal (add_fouls k f) = driver_antiDefenseSignal f"
  "driver_laneMobilitySignal (add_fouls k f) = driver_laneMobilitySignal f"
  "driver_pressureSignal (add_fouls k f) = driver_pressureSignal f"
  "driver_endgameSignal (add_fouls k f) = driver_endgameSignal f"
  "driver_evidenceSignal (add_fouls k f) = driver_evidenceSignal f"
  "manual_autoSignal (add_fouls k f) = manual_autoSignal f"
  "manual_teleopSignal (add_fouls k f) = manual_teleopSignal f"
  "manual_endgameSignal (add_fouls k f) = manual_endgameSignal f"
  "manual_antiDefenseSignal (add_fouls k f) = manual_antiDefenseSignal f"
  "pointsFromForm (add_fouls k f) = pointsFromForm f"
  by (simp_all add: add_fouls_def driver_teleopAttempts_def driver_teleopAccuracy_def
      driver_defendedAccuracy_def driver_teleopVolume_def driver_dropPressure_def
      driver_cycleEfficiency_def driver_cycleYield_def driver_handlingEfficiency_def
      driver_tacticalSignal_def driver_antiDefenseSignal_def driver_laneMobilitySignal_def
      driver_pressureSignal_def driver_defendedRetention_def driver_endgameSignal_def
      driver_evidenceSignal_def driver_teleopEvidence_def driver_defendedEvidence_def
      manual_autoSignal_def manual_teleopSignal_def manual_endgameSignal_def
      manual_antiDefenseSignal_def pointsFromForm_def)

lemma add_fouls_discipline:
  assumes "0 \<le> k"
  shows "driver_disciplineSignal (add_fouls k f) \<le> driver_disciplineSignal f"
proof -
  have "driver_foulPressure f \<le> driver_foulPressure (add_fouls k f)"
    using assms unfolding driver_foulPressure_def safeRatio_def
    by (auto simp: add_fouls_def driver_teleopAttempts_def intro!: divide_right_mono)
  then show ?thesis
    unfolding driver_disciplineSignal_def
    by (intro clamp_mono) simp
qed

lemma add_fouls_consistency:
  assumes "0 \<le> k"
  shows "0.05 * driver_consistencySignal (add_fouls k f) + 0.08 * driver_disciplineSignal (add_fouls k f)
    \<le> 0.05 * driver_consistencySignal f + 0.08 * driver_disciplineSignal f"
proof -
  let ?S = "\<lambda>e. spread5 (driver_teleopAccuracy f) (driver_defendedAccuracy f)
    (driver_cycleEfficiency f) (driver_tacticalSignal f) e"
  define D where "D = driver_disciplineSignal f"
  define D' where "D' = driver_disciplineSignal (add_fouls k f)"
  have le: "D' \<le> D" using add_fouls_discipline [OF assms] by (simp add: D_def D'_def)
  have lin: "1 - s' * 0.46 \<le> 1 - s * 0.46 + 0.46 * (D - D')" if "s \<le> s' + (D - D')" for s s' :: real
    using that by (simp add: field_simps)
  have "1 - ?S D' * 0.46 \<le> 1 - ?S D * 0.46 + 0.46 * (D - D')"
    by (rule lin [OF spread5_last [OF le]])
  then have "clampNumber (1 - ?S D' * 0.46) 0 1 \<le> clampNumber (1 - ?S D * 0.46 + 0.46 * (D - D')) 0 1"
    by (rule clamp_mono)
  also have "\<dots> \<le> clampNumber (1 - ?S D * 0.46) 0 1 + 0.46 * (D - D')"
    using le by (intro clamp_lipschitz) simp
  finally have c: "clampNumber (1 - ?S D' * 0.46) 0 1 \<le> clampNumber (1 - ?S D * 0.46) 0 1 + 0.46 * (D - D')" .
  have sum: "0.05 * c' + 0.08 * D' \<le> 0.05 * c + 0.08 * D" if "c' \<le> c + 0.46 * (D - D')" for c c' :: real
    using that le by (simp add: field_simps)
  show ?thesis
    using sum [OF c] by (simp only: driver_consistencySignal_def D_def D'_def add_fouls_same)
qed

lemma add_fouls_driver:
  assumes "0 \<le> k"
  shows "driver_score01 (add_fouls k f) \<le> driver_score01 f"
proof -
  note D = add_fouls_discipline [OF assms, of f]
  have "driver_baselineScore01 (add_fouls k f) \<le> driver_baselineScore01 f"
    unfolding driver_baselineScore01_def
    using add_fouls_consistency [OF assms, of f] by (intro clamp_mono) simp
  moreover have "driver_synergyBonus (add_fouls k f) \<le> driver_synergyBonus f"
    unfolding driver_synergyBonus_def using D by (intro clamp_mono) auto
  moreover have "driver_volatilityPenalty f \<le> driver_volatilityPenalty (add_fouls k f)"
    unfolding driver_volatilityPenalty_def using D
    by (intro clamp_mono) auto
  ultimately show ?thesis
    unfolding driver_score01_def by (intro clamp_mono) simp
qed

lemma add_fouls_driver_score:
  assumes "0 \<le> k"
  shows "dc_score (driverCompetency (add_fouls k f)) \<le> dc_score (driverCompetency f)"
  using add_fouls_driver [OF assms, of f]
  by (simp add: driverCompetency_def Let_def math_round_mono clamp_mono mult_right_mono)

lemma add_fouls_manual_discipline:
  "0 \<le> k \<Longrightarrow> manual_disciplineSignal (add_fouls k f) \<le> manual_disciplineSignal f"
  unfolding manual_disciplineSignal_def by (intro clamp_mono) (simp add: add_fouls_def)

lemma add_fouls_manual_execution:
  assumes "dc_score d' \<le> dc_score d"
  shows "manual_executionSignal (add_fouls k f) d' \<le> manual_executionSignal f d"
proof -
  have "clampNumber (dc_score d' / 100) 0 1 \<le> clampNumber (dc_score d / 100) 0 1"
    using assms by (intro clamp_mono) simp
  then show ?thesis
    unfolding manual_executionSignal_def by (intro clamp_mono) (simp add: add_fouls_def)
qed

lemma add_fouls_manual_score:
  assumes "0 \<le> k" and "dc_score d' \<le> dc_score d"
  shows "mr_score (manualScoutingRating (add_fouls k f) d') \<le> mr_score (manualScoutingRating f d)"
proof -
  have "manual_score01 (add_fouls k f) d' \<le> manual_score01 f d"
    using add_fouls_manual_discipline [OF assms(1), of f] add_fouls_manual_execution [OF assms(2), of k f]
    by (simp add: manual_score01_def)
  then show ?thesis
    by (simp add: manualScoutingRating_def Let_def math_round_mono clamp_mono mult_right_mono)
qed

text \<open>The overall score falls with the two scores and with the reliability signal, although the
  penalty for a gap between the two scores may shrink: it takes back less than the fall.\<close>

lemma overall_gap:
  fixes m d :: real
  assumes "m' \<le> m" and "d' \<le> d"
  shows "0.42 * m' + 0.22 * d' - clampNumber (\<bar>m' - d'\<bar> * 0.22) 0 0.1
    \<le> 0.42 * m + 0.22 * d - clampNumber (\<bar>m - d\<bar> * 0.22) 0 0.1"
proof -
  define t where "t = max (m - m') (d - d')"
  have t: "0 \<le> t" "m - m' \<le> t" "d - d' \<le> t" using assms by (simp_all add: t_def)
  have "\<bar>m - d\<bar> * 0.22 \<le> \<bar>m' - d'\<bar> * 0.22 + t * 0.22"
    using t assms by (simp add: abs_if)
  then have "clampNumber (\<bar>m - d\<bar> * 0.22) 0 0.1 \<le> clampNumber (\<bar>m' - d'\<bar> * 0.22) 0 0.1 + t * 0.22"
    by (rule order_trans [OF clamp_mono clamp_lipschitz]) (use t(1) in simp)
  moreover have "t * 0.22 \<le> 0.42 * (m - m') + 0.22 * (d - d')"
    using assms by (simp add: t_def max_def field_simps)
  moreover have sum: "0.42 * m' + 0.22 * d' - A' \<le> 0.42 * m + 0.22 * d - A"
    if "A \<le> A' + t * 0.22" and "t * 0.22 \<le> 0.42 * (m - m') + 0.22 * (d - d')" for A A' :: real
    using that by (simp add: field_simps)
  ultimately show ?thesis by blast
qed

lemma overall_sum:
  fixes R :: real
  shows "0.42 * m' + 0.22 * d' - A' \<le> 0.42 * m + 0.22 * d - A \<Longrightarrow> R \<le> R' \<Longrightarrow> rel' \<le> rel \<Longrightarrow>
    0.42 * m' + 0.22 * d' + 0.14 * p + 0.09 * e + 0.07 * rel' + 0.06 * q + c - A' - R'
      \<le> 0.42 * m + 0.22 * d + 0.14 * p + 0.09 * e + 0.07 * rel + 0.06 * q + c - A - R"
  by (simp add: field_simps)

lemma overall_score_mono:
  assumes "mr_score m' \<le> mr_score m" and "dc_score d' \<le> dc_score d"
    and "overall_pressureSignal m' d' = overall_pressureSignal m d"
    and "overall_endgameSignal m' d' = overall_endgameSignal m d"
    and "overall_reliabilitySignal m' d' \<le> overall_reliabilitySignal m d"
  shows "overall_score01 p m' d' \<le> overall_score01 p m d"
proof -
  let ?P = "\<lambda>r. clampNumber ((1 - r) * 0.09 + (if overall_pressureSignal m d < 0.4 then 0.025 else 0)) 0 0.12"
  have c: "clampNumber (x / 100) 0 1 \<le> clampNumber (y / 100) 0 1" if "x \<le> y" for x y
    using that by (intro clamp_mono) simp
  have r: "?P (overall_reliabilitySignal m d) \<le> ?P (overall_reliabilitySignal m' d')"
    using assms(5) by (intro clamp_mono) simp
  show ?thesis
    unfolding overall_score01_def Let_def assms(3,4)
    by (intro clamp_mono overall_sum overall_gap c assms(1,2,5) r)
qed

lemma overall_reliability_mono:
  assumes "mb_discipline (mr_breakdown m') \<le> mb_discipline (mr_breakdown m)"
    and "db_discipline (dc_breakdown d') \<le> db_discipline (dc_breakdown d)"
    and "mb_execution (mr_breakdown m') \<le> mb_execution (mr_breakdown m)"
    and "db_offense (dc_breakdown d') = db_offense (dc_breakdown d)"
    and "mb_teleop (mr_breakdown m') = mb_teleop (mr_breakdown m)"
    and "overall_pressureSignal m' d' = overall_pressureSignal m d"
  shows "overall_reliabilitySignal m' d' \<le> overall_reliabilitySignal m d"
proof -
  have "overall_disciplineSignal m' d' \<le> overall_disciplineSignal m d"
    unfolding overall_disciplineSignal_def using assms by (intro clamp_mono) simp
  moreover have "overall_executionSignal m' d' \<le> overall_executionSignal m d"
    unfolding overall_executionSignal_def using assms by (intro clamp_mono) simp
  ultimately show ?thesis
    unfolding overall_reliabilitySignal_def assms by (intro clamp_mono) simp
qed

lemma to_fixed_clamp_mono:
  "clampNumber x 0 1 \<le> clampNumber y 0 1 \<Longrightarrow>
     to_fixed k (clampNumber x 0 1) \<le> to_fixed k (clampNumber y 0 1)"
  using clamp01(2) [of y] by (intro to_fixed_mono) (simp_all del: clamp01(2))

lemma add_fouls_overall:
  fixes f :: scout_form
  assumes "0 \<le> k"
  defines "f' \<equiv> add_fouls k f"
  defines "d \<equiv> driverCompetency f" and "d' \<equiv> driverCompetency f'"
  defines "m \<equiv> manualScoutingRating f d" and "m' \<equiv> manualScoutingRating f' d'"
  shows "overall_score01 p m' d' \<le> overall_score01 p m d"
proof (rule overall_score_mono)
  show dd: "dc_score d' \<le> dc_score d"
    using assms(1) by (simp add: d_def d'_def f'_def add_fouls_driver_score)
  show "mr_score m' \<le> mr_score m"
    using assms(1) dd by (simp add: m_def m'_def f'_def add_fouls_manual_score)
  note defs = m_def m'_def d_def d'_def f'_def manualScoutingRating_def driverCompetency_def Let_def
  show p: "overall_pressureSignal m' d' = overall_pressureSignal m d"
    by (simp add: overall_pressureSignal_def defs)
  show "overall_endgameSignal m' d' = overall_endgameSignal m d"
    by (simp add: overall_endgameSignal_def defs)
  show "overall_reliabilitySignal m' d' \<le> overall_reliabilitySignal m d"
  proof (rule overall_reliability_mono [OF _ _ _ _ _ p])
    show "mb_discipline (mr_breakdown m') \<le> mb_discipline (mr_breakdown m)"
      using add_fouls_manual_discipline [OF assms(1), of f]
      by (simp add: defs) (simp add: manual_disciplineSignal_def to_fixed_clamp_mono)
    show "db_discipline (dc_breakdown d') \<le> db_discipline (dc_breakdown d)"
      using add_fouls_discipline [OF assms(1), of f]
      by (simp add: defs) (simp add: driver_disciplineSignal_def to_fixed_clamp_mono)
    show "mb_execution (mr_breakdown m') \<le> mb_execution (mr_breakdown m)"
      using add_fouls_manual_execution [OF dd, of k f]
      by (simp add: m_def m'_def manualScoutingRating_def Let_def f'_def)
        (simp add: manual_executionSignal_def to_fixed_clamp_mono)
  qed (simp_all add: defs)
qed

text \<open>Claim C14: a foul more never raises a rating: with more fouls and everything else equal, the
  driver score, the manual score and the overall score of a report stay or fall, although fouls
  enter the signals of consistency, execution and alignment in both directions.\<close>

theorem fouls_never_help:
  assumes "0 \<le> k"
  shows "let f' = f\<lparr>foul_count := foul_count f + k\<rparr>;
             d = driverCompetency f; d' = driverCompetency f';
             m = manualScoutingRating f d; m' = manualScoutingRating f' d'
         in dc_score d' \<le> dc_score d \<and> mr_score m' \<le> mr_score m \<and>
            or_score (overallScoutRating (pointsFromForm f') m' d')
              \<le> or_score (overallScoutRating (pointsFromForm f) m d)"
proof -
  have b: "0 \<le> overall_score01 p m d \<and> overall_score01 p m d \<le> 1" for p m d
    by (simp add: overall_score01_def Let_def)
  have "to_fixed 1 (overall_score01 p m' d' * 100) \<le> to_fixed 1 (overall_score01 p m d * 100)"
    if "overall_score01 p m' d' \<le> overall_score01 p m d" for p m d m' d'
    using that b [of p m d] b [of p m' d'] by (intro to_fixed_mono) simp_all
  from this [OF add_fouls_overall [OF assms, of "pointsFromForm f" f]] show ?thesis
    using add_fouls_driver_score [OF assms, of f] add_fouls_manual_score [OF assms, of _ _ f]
    by (simp add: Let_def overallScoutRating_def add_fouls_def [symmetric])
qed

lemma fouls_never_help_witness:
  "dc_score (driverCompetency (EMPTY_FORM\<lparr>foul_count := foul_count EMPTY_FORM + 3\<rparr>))
     \<le> dc_score (driverCompetency EMPTY_FORM)"
  using fouls_never_help [of 3 EMPTY_FORM] by (simp add: Let_def)

section \<open>The weighted mean of official signals\<close>

lemma weigh_between:
  assumes "\<forall>(v, w) \<in> set ws. 0 < w \<and> (case v of None \<Rightarrow> True | Some x \<Rightarrow> lo \<le> x \<and> x \<le> hi)"
    and "0 \<le> t" and "lo * t \<le> u" and "u \<le> hi * t"
  shows "case weigh ws (t, u) of (t', u') \<Rightarrow> t \<le> t' \<and> lo * t' \<le> u' \<and> u' \<le> hi * t' \<and>
    ((\<exists>(v, w) \<in> set ws. v \<noteq> None) \<longrightarrow> 0 < t')"
  using assms
proof (induction ws "(t, u)" arbitrary: t u rule: weigh.induct)
  case (3 v w ws t u)
  then have b: "0 < w" "lo \<le> v" "v \<le> hi" by auto
  then have "lo * w \<le> w * v" "w * v \<le> hi * w" by (simp_all add: mult.commute)
  with 3 b show ?case
    by (auto simp: distrib_left split: prod.splits intro: order.strict_trans2 [of 0 "t + w"])
qed (auto split: prod.splits)

lemma signalWeights_pos: "(v, w) \<in> set (signalWeights s) \<Longrightarrow> 0 < w \<and> v \<in> set (signal_list s)"
  by (auto simp: signalWeights_def signal_list_def)

lemma available_in: "x \<in> set (availableSignals s) \<longleftrightarrow> Some x \<in> set (signal_list s)"
  by (force simp: availableSignals_def)

lemma signalWeights_some: "Some x \<in> set (signal_list s) \<Longrightarrow> \<exists>(v, w) \<in> set (signalWeights s). v \<noteq> None"
  by (auto simp: signalWeights_def signal_list_def)

lemma apiComposite_between:
  assumes "availableSignals s \<noteq> []"
    and "\<And>x. x \<in> set (availableSignals s) \<Longrightarrow> lo \<le> x \<and> x \<le> hi"
  shows "lo \<le> apiComposite s \<and> apiComposite s \<le> hi"
proof -
  obtain wt su where e: "weigh (signalWeights s) (0, 0) = (wt, su)" by force
  have "\<exists>(v, w) \<in> set (signalWeights s). v \<noteq> None"
    using assms(1) available_in signalWeights_some by (metis list.set_intros(1) neq_Nil_conv)
  moreover have "\<forall>(v, w) \<in> set (signalWeights s).
      0 < w \<and> (case v of None \<Rightarrow> True | Some x \<Rightarrow> lo \<le> x \<and> x \<le> hi)"
    using signalWeights_pos assms(2) available_in by (fastforce split: option.split)
  ultimately have "0 < wt" "lo * wt \<le> su" "su \<le> hi * wt"
    using weigh_between [of "signalWeights s" lo hi 0 0] e by simp_all
  then show ?thesis by (simp add: apiComposite_def e field_simps)
qed

text \<open>the official side of a blended rating is a mean of the signals that exist: it lies
  between the least and the greatest of them, missing signals are not counted as zero or as
  average, and it weighs between 18 and 56 percent.  With no signal at all the blend is the scout's
  own score with confidence 0.35.\<close>

theorem blend_uses_present_signals:
  "let s = apiSignals snap baseline; r = scoutingApiRating m snap baseline
   in (availableSignals s \<noteq> [] \<longrightarrow>
         Min (set (availableSignals s)) \<le> apiComposite s \<and>
         apiComposite s \<le> Max (set (availableSignals s))) \<and>
      (availableSignals s = [] \<longrightarrow> ar_score r = mr_score m \<and> ar_confidence r = 0.35) \<and>
      0.18 \<le> 1 - manualWeight snap baseline \<and> 1 - manualWeight snap baseline \<le> 0.56"
proof -
  have w: "44/100 \<le> manualWeight snap baseline" "manualWeight snap baseline \<le> 82/100"
    using clamp_ge [of "44/100"] clamp_le [of "44/100" "82/100"] by (simp_all add: manualWeight_def)
  show ?thesis
    using w apiComposite_between [of "apiSignals snap baseline"
        "Min (set (availableSignals (apiSignals snap baseline)))"
        "Max (set (availableSignals (apiSignals snap baseline)))"]
    by (auto simp: Let_def scoutingApiRating_def)
qed

lemma blend_uses_present_signals_witness:
  "apiComposite (apiSignals None (Some \<lparr>eb_rating = Some 60, eb_reliability = None\<rparr>)) = 60"
proof -
  have s: "availableSignals (apiSignals None (Some \<lparr>eb_rating = Some 60, eb_reliability = None\<rparr>)) = [60]"
    by (simp add: availableSignals_def apiSignals_def signal_list_def firstDefinedNumber_def opt_bind_def)
  show ?thesis
    using blend_uses_present_signals [of None "Some \<lparr>eb_rating = Some 60, eb_reliability = None\<rparr>"]
    by (simp add: Let_def s)
qed

section \<open>The blended score\<close>

lemma to_fixed_error:
  assumes "0 \<le> x" and "x < 10 ^ 21"
  shows "\<bar>to_fixed d x - x\<bar> \<le> 1 / (2 * 10 ^ d)"
proof (cases "x = 0")
  case False
  define n where "n = real_of_int \<lfloor>x * 10 ^ d + 1 / 2\<rfloor>"
  have "n \<le> x * 10 ^ d + 1 / 2" "x * 10 ^ d - 1 / 2 \<le> n" unfolding n_def by linarith+
  then have "\<bar>n - x * 10 ^ d\<bar> \<le> 1 / 2" by linarith
  moreover have "n / 10 ^ d - x = (n - x * 10 ^ d) / 10 ^ d" by (simp add: diff_divide_distrib)
  then have "\<bar>n / 10 ^ d - x\<bar> = \<bar>n - x * 10 ^ d\<bar> / 10 ^ d" by (simp only: abs_divide abs_power2 abs_numeral power_abs)
  ultimately have "\<bar>n / 10 ^ d - x\<bar> \<le> 1 / 2 / 10 ^ d" by (simp only: divide_right_mono zero_le_power zero_le_numeral)
  moreover have "to_fixed d x = n / 10 ^ d" using assms False by (simp add: to_fixed_def n_def sgn_if)
  ultimately show ?thesis by simp
qed (simp add: to_fixed_def)

text \<open>The blend before it is clamped and rounded.\<close>

definition disagreement :: "real \<Rightarrow> real \<Rightarrow> real" where
  "disagreement score strength = clampNumber ((\<bar>score - strength\<bar> / 100 - 0.24) * 18) 0 10"

definition volatility :: "manual_rating \<Rightarrow> api_signals \<Rightarrow> real" where
  "volatility m s = clampNumber ((if nullish (sig_reliability s) 50 \<le> 45 then 2.6 else 0)
     + (if mb_discipline (mr_breakdown m) \<le> 0.4 then 2 else 0)
     + (if nullish (sig_cycle s) 50 \<le> 38 \<and> nullish (sig_strength s) 50 \<ge> 65 then 1.8 else 0)) 0 7"

definition upside :: "manual_rating \<Rightarrow> api_signals \<Rightarrow> real" where
  "upside m s = clampNumber ((if nullish (sig_strength s) 50 \<ge> 76 \<and> mr_score m \<ge> 72 then 2.2 else 0)
     + (if nullish (sig_climb s) 50 \<ge> 74 \<and> mb_endgame (mr_breakdown m) \<ge> 0.7 then 1.3 else 0)) 0 4.5"

lemma api_score_parts:
  "api_score m snap baseline = clampNumber (mr_score m * manualWeight snap baseline
     + apiComposite (apiSignals snap baseline) * (1 - manualWeight snap baseline)
     + upside m (apiSignals snap baseline) - api_freshnessPenalty snap baseline
     - disagreement (mr_score m) (nullish (sig_strength (apiSignals snap baseline)) 50)
     - volatility m (apiSignals snap baseline)) 0 100"
  by (simp only: api_score_def Let_def disagreement_def volatility_def upside_def)

lemma weight_bounds: "44/100 \<le> manualWeight snap baseline" "manualWeight snap baseline \<le> 82/100"
  using clamp_ge [of "44/100"] clamp_le [of "44/100" "82/100"] by (simp_all add: manualWeight_def)

lemma adjustment_bounds:
  "0 \<le> upside m s \<and> upside m s \<le> 3.5 \<and> 0 \<le> volatility m s \<and> volatility m s \<le> 6.4 \<and>
   0 \<le> disagreement x y \<and> disagreement x y \<le> 10 \<and>
   0 \<le> api_freshnessPenalty snap baseline \<and> api_freshnessPenalty snap baseline \<le> 14"
  unfolding upside_def volatility_def disagreement_def api_freshnessPenalty_def clampNumber_def by auto

lemma disagreement_slope:
  assumes "x \<le> y"
  shows "disagreement y z \<le> disagreement x z + 18/100 * (y - x)"
proof -
  have "(\<bar>y - z\<bar> / 100 - 0.24) * 18 \<le> (\<bar>x - z\<bar> / 100 - 0.24) * 18 + 18/100 * (y - x)"
  proof -
    have "\<bar>y - z\<bar> \<le> \<bar>x - z\<bar> + (y - x)" using assms by linarith
    then show ?thesis by (simp add: field_simps)
  qed
  then show ?thesis unfolding disagreement_def
    by (rule order_trans [OF clamp_mono clamp_lipschitz]) (use assms in simp)
qed

lemma slope_wins:
  "a + 44/100 * d \<le> b \<Longrightarrow> u \<le> u' \<Longrightarrow> p' \<le> p + 18/100 * d \<Longrightarrow> 0 \<le> d \<Longrightarrow>
     a + c + u - f - p - v \<le> b + c + u' - f - p' - (v :: real)"
  by linarith

lemma api_score_mono:
  assumes "mr_breakdown m' = mr_breakdown m" and "mr_score m \<le> mr_score m'"
  shows "api_score m snap baseline \<le> api_score m' snap baseline"
proof -
  let ?w = "manualWeight snap baseline" and ?s = "apiSignals snap baseline"
  have "44/100 * (mr_score m' - mr_score m) \<le> ?w * (mr_score m' - mr_score m)"
    using weight_bounds(1) assms(2) by (intro mult_right_mono) simp_all
  then have "mr_score m * ?w + 44/100 * (mr_score m' - mr_score m) \<le> mr_score m' * ?w"
    by (simp add: algebra_simps)
  moreover have "upside m ?s \<le> upside m' ?s"
    unfolding upside_def assms(1) by (rule clamp_mono) (use assms(2) in auto)
  moreover have "volatility m' ?s = volatility m ?s" by (simp add: volatility_def assms(1))
  ultimately show ?thesis
    unfolding api_score_parts using assms(2)
    by (simp only:) (intro clamp_mono slope_wins [OF _ _ disagreement_slope], simp_all)
qed

lemma between_weighted:
  assumes "0 \<le> w" and "w \<le> (1 :: real)"
  shows "min x y \<le> x * w + y * (1 - w) \<and> x * w + y * (1 - w) \<le> max x y"
proof -
  have "min x y * w \<le> x * w" "min x y * (1 - w) \<le> y * (1 - w)"
    "x * w \<le> max x y * w" "y * (1 - w) \<le> max x y * (1 - w)"
    using assms by (simp_all add: mult_right_mono)
  then show ?thesis by (simp add: algebra_simps)
qed

lemma api_score_compromise:
  assumes "0 \<le> mr_score m" and "mr_score m \<le> 100"
  shows "min (mr_score m) (apiComposite (apiSignals snap baseline)) - 152/5 \<le> api_score m snap baseline \<and>
    api_score m snap baseline \<le> max (mr_score m) (apiComposite (apiSignals snap baseline)) + 7/2"
  using assms between_weighted [of "manualWeight snap baseline" "mr_score m" "apiComposite (apiSignals snap baseline)"]
    weight_bounds [of snap baseline]
    adjustment_bounds [of m "apiSignals snap baseline" "mr_score m" "nullish (sig_strength (apiSignals snap baseline)) 50" snap baseline]
  unfolding api_score_parts clampNumber_def by linarith



end
