(* ===== verification/ScoutReaders.thy ===== *)
theory ScoutReaders
  imports ScoutRatings
begin

text \<open>
  Saved reports as data: the readers of \<open>src/ScoutingApp/src/pages/scoutingPage.helpers.ts\<close> that turn
  an unknown value into a saved entry and its parts, the constructor of a new entry, the reading of a
  team intel payload, and the quick tags of \<open>features/scoutNotes/noteTags.ts\<close>.  What the readers ask
  of the environment (the clock, the random suffix of a generated id, how the engine prints a number
  that is not an integer) is the record \<open>js_env\<close>.  The main result is the round trip of the store:
  an entry this app built reads back as it was written.
\<close>

record js_env =
  env_now :: int
  env_random :: string
  env_nstr :: "real \<Rightarrow> string"

section \<open>Quick tags\<close>

definition SCOUT_NOTE_TAGS :: "(string \<times> string) list" where
  "SCOUT_NOTE_TAGS =
     [(''defense'', ''Played defense''), (''great_driver'', ''Great driver''),
      (''fast_cycles'', ''Fast cycles''), (''broke_down'', ''Broke down''),
      (''tipped'', ''Tipped over''), (''lost_power'', ''Lost power''),
      (''penalties'', ''Drew penalties''), (''no_show'', ''No show'')]"

definition WARNING_NOTE_TAGS :: "string list" where
  "WARNING_NOTE_TAGS = [''broke_down'', ''tipped'', ''lost_power'', ''no_show'']"

definition TAG_IDS :: "string list" where
  "TAG_IDS = map fst SCOUT_NOTE_TAGS"

definition isScoutNoteTag :: "jsval \<Rightarrow> bool" where
  "isScoutNoteTag v = (case v of JStr s \<Rightarrow> s \<in> set TAG_IDS | _ \<Rightarrow> False)"

definition normalizeNoteTags :: "(real \<Rightarrow> string) \<Rightarrow> jsval \<Rightarrow> string list" where
  "normalizeNoteTags nstr raw = (case raw of
       JArr vs \<Rightarrow> (let present = map (\<lambda>v. js_lower (js_trim (js_string nstr (js_nullish v (JStr []))))) vs
         in filter (\<lambda>i. i \<in> set present) TAG_IDS)
     | _ \<Rightarrow> [])"

definition noteTagLabel :: "string \<Rightarrow> string" where
  "noteTagLabel tag = nullish (map_of SCOUT_NOTE_TAGS tag) tag"

definition strs :: "string list \<Rightarrow> jsval" where
  "strs xs = JArr (map JStr xs)"

definition toggleNoteTag :: "(real \<Rightarrow> string) \<Rightarrow> string list \<Rightarrow> string \<Rightarrow> string list" where
  "toggleNoteTag nstr tags tag = normalizeNoteTags nstr
     (strs (if tag \<in> set tags then filter (\<lambda>v. v \<noteq> tag) tags else tags @ [tag]))"

record team_note =
  tn_tags :: "string list"
  tn_notes :: string
  tn_scout_profile :: string

definition filterTeamNotes :: "team_note list \<Rightarrow> string option \<Rightarrow> string \<Rightarrow> team_note list" where
  "filterTeamNotes notes tag query =
     (let needle = js_lower (js_trim query)
      in filter (\<lambda>note.
           if opt_str tag \<noteq> [] \<and> opt_str tag \<notin> set (tn_tags note) then False
           else if needle = [] then True
           else js_includes (js_lower (tn_notes note)) needle
                \<or> js_includes (js_lower (tn_scout_profile note)) needle) notes)"

section \<open>Parts of an entry\<close>

definition str_of :: "jsval \<Rightarrow> string option" where
  "str_of v = (case v of JStr s \<Rightarrow> Some s | _ \<Rightarrow> None)"

definition string_list :: "js_env \<Rightarrow> jsval \<Rightarrow> string list" where
  "string_list env v = (case v of JArr vs \<Rightarrow> map (js_string (env_nstr env)) vs | _ \<Rightarrow> [])"

definition normalizeApiSnapshot ::
    "js_env \<Rightarrow> (string \<times> jsval) list option \<Rightarrow> api_snapshot option" where
  "normalizeApiSnapshot env r = (case r of None \<Rightarrow> None | Some raw \<Rightarrow> Some
     \<lparr>as_source_event_key = str_of (jget raw ''source_event_key''),
      as_fetched_at_ms = toInt (jget raw ''fetched_at_ms'') (env_now env),
      as_rating = parseNumber (jget raw ''rating_0_100''),
      as_confidence = parseNumber (jget raw ''confidence_0_1''),
      as_reliability = parseNumber (jget raw ''reliability_0_1''),
      as_auto_contribution = parseNumber (jget raw ''auto_contribution''),
      as_climb_success_prob = parseNumber (jget raw ''climb_success_prob''),
      as_cycle_time_sec = parseNumber (jget raw ''cycle_time_sec''),
      as_tba_rank = parseNumber (jget raw ''tba_rank''),
      as_warnings = string_list env (jget raw ''warnings'')\<rparr>)"

text \<open>\<open>clampNumber(parseNumber(x?.k) ?? 0.5, 0, 1)\<close>.\<close>

definition unit_field :: "(string \<times> jsval) list option \<Rightarrow> string \<Rightarrow> real" where
  "unit_field r k = clampNumber (nullish (parseNumber (jget_opt r k)) 0.5) 0 1"

definition normalizeManualRating :: "js_env \<Rightarrow> (string \<times> jsval) list option \<Rightarrow> scout_form \<Rightarrow>
    driver_competency \<Rightarrow> manual_rating" where
  "normalizeManualRating env r form driver = (case r of
       None \<Rightarrow> manualScoutingRating form driver
     | Some raw \<Rightarrow>
        (let breakdown = asRecord (jget raw ''breakdown'');
             score = clampNumber (nullish (parseNumber (jget raw ''score_0_100''))
               (mr_score (manualScoutingRating form driver))) 0 100
         in \<lparr>mr_score = to_fixed 1 score,
             mr_tier = nullish (str_of (jget raw ''tier'')) (normalizeScoreTier score),
             mr_breakdown =
              \<lparr>mb_auto = unit_field breakdown ''auto_0_1'',
               mb_teleop = unit_field breakdown ''teleop_0_1'',
               mb_endgame = unit_field breakdown ''endgame_0_1'',
               mb_anti_defense = unit_field breakdown ''anti_defense_0_1'',
               mb_execution = unit_field breakdown ''execution_0_1'',
               mb_discipline = unit_field breakdown ''discipline_0_1''\<rparr>,
             mr_pros = string_list env (jget raw ''pros''),
             mr_cons = string_list env (jget raw ''cons'')\<rparr>))"

definition cents_field :: "(string \<times> jsval) list option \<Rightarrow> string \<Rightarrow> real \<Rightarrow> real" where
  "cents_field r k fallback = to_fixed 2 (nullish (parseNumber (jget_opt r k)) fallback)"

definition normalizeScoutingApiRating ::
    "js_env \<Rightarrow> (string \<times> jsval) list option \<Rightarrow> api_rating option" where
  "normalizeScoutingApiRating env r = (case r of None \<Rightarrow> None
     | Some raw \<Rightarrow>
        (let components = asRecord (jget raw ''components'')
         in case (parseNumber (jget raw ''score_0_100''), parseNumber (jget raw ''confidence_0_1'')) of
              (Some score, Some confidence) \<Rightarrow> Some
                \<lparr>ar_score = to_fixed 1 (clampNumber score 0 100),
                 ar_confidence = to_fixed 3 (clampNumber confidence 0 1),
                 ar_tier = nullish (str_of (jget raw ''tier'')) (normalizeScoreTier score),
                 ar_components =
                  \<lparr>ac_manual_weighted = cents_field components ''manual_weighted_0_100'' 0,
                   ac_strength = cents_field components ''api_strength_0_100'' 0,
                   ac_reliability = cents_field components ''api_reliability_0_100'' 0,
                   ac_auto = cents_field components ''api_auto_0_100'' 0,
                   ac_climb = cents_field components ''api_climb_0_100'' 0,
                   ac_cycle = cents_field components ''api_cycle_0_100'' 0,
                   ac_freshness_penalty = cents_field components ''freshness_penalty_0_100'' 0\<rparr>,
                 ar_pros = string_list env (jget raw ''pros''),
                 ar_cons = string_list env (jget raw ''cons'')\<rparr>
            | _ \<Rightarrow> None))"

definition normalizeOverallScoutRating :: "(string \<times> jsval) list option \<Rightarrow> scout_points \<Rightarrow>
    manual_rating \<Rightarrow> driver_competency \<Rightarrow> overall_rating" where
  "normalizeOverallScoutRating r points manual driver =
     (let fallback = overallScoutRating points manual driver
      in case r of None \<Rightarrow> fallback
         | Some raw \<Rightarrow>
            (let components = asRecord (jget raw ''components'')
             in case parseNumber (jget raw ''score_0_100'') of None \<Rightarrow> fallback
                | Some parsedScore \<Rightarrow>
                   (let score = to_fixed 1 (clampNumber parsedScore 0 100);
                        fc = or_components fallback
                    in \<lparr>or_score = score,
                        or_tier = nullish (str_of (jget raw ''tier'')) (normalizeScoreTier score),
                        or_components =
                         \<lparr>oc_manual = cents_field components ''manual_0_100'' (oc_manual fc),
                          oc_driver = cents_field components ''driver_0_100'' (oc_driver fc),
                          oc_points = cents_field components ''points_0_100'' (oc_points fc),
                          oc_endgame = cents_field components ''endgame_0_100'' (oc_endgame fc),
                          oc_discipline = cents_field components ''discipline_0_100'' (oc_discipline fc)\<rparr>\<rparr>)))"

definition normalizeAutoScoutMeta :: "(string \<times> jsval) list option \<Rightarrow> auto_scout_meta option" where
  "normalizeAutoScoutMeta r = (case r of None \<Rightarrow> None
     | Some raw \<Rightarrow>
        (let draftId = toInt (jget raw ''draft_id'') 0;
             mapperVersion = js_trim (nullish (str_of (jget raw ''mapper_version'')) []);
             analysisVersion = js_trim (nullish (str_of (jget raw ''analysis_version'')) [])
         in if draftId = 0 \<or> mapperVersion = [] \<or> analysisVersion = [] then None
            else Some \<lparr>am_draft_id = draftId, am_mapper_version = mapperVersion,
              am_analysis_version = analysisVersion,
              am_approved_at_ms = map_option floor (parseNumber (jget raw ''approved_at_ms''))\<rparr>))"

definition parse_override :: "string \<times> jsval \<Rightarrow> (string \<times> field_override) option" where
  "parse_override kv = (case asRecord (snd kv) of None \<Rightarrow> None
     | Some parsed \<Rightarrow> if map_has parsed ''from'' \<and> map_has parsed ''to''
         then Some (fst kv, \<lparr>fo_from = jget parsed ''from'', fo_to = jget parsed ''to''\<rparr>) else None)"

definition normalizeFieldOverrides :: "jsval \<Rightarrow> (string \<times> field_override) list option" where
  "normalizeFieldOverrides raw = (case asRecord raw of None \<Rightarrow> None
     | Some row \<Rightarrow> (let entries = List.map_filter parse_override row
         in if entries \<noteq> [] then Some entries else None))"

definition normalizeDriver :: "(string \<times> jsval) list option \<Rightarrow> scout_form \<Rightarrow> driver_competency" where
  "normalizeDriver r form = (case r of None \<Rightarrow> driverCompetency form
     | Some driver \<Rightarrow>
        (let breakdown = asRecord (jget driver ''breakdown'')
         in \<lparr>dc_score = clampNumber (nullish (parseNumber (jget driver ''score_0_100'')) 0) 0 100,
             dc_level = clampNumber (of_int (math_round (nullish (parseNumber (jget driver ''level_1_5'')) 3))) 1 5,
             dc_tier = nullish (str_of (jget driver ''tier'')) ''Solid'',
             dc_breakdown =
              \<lparr>db_teleop_volume = unit_field breakdown ''teleop_volume_0_1'',
               db_teleop_accuracy = unit_field breakdown ''teleop_accuracy_0_1'',
               db_offense = unit_field breakdown ''offense_0_1'',
               db_defense = unit_field breakdown ''defense_0_1'',
               db_endgame = unit_field breakdown ''endgame_0_1'',
               db_discipline = unit_field breakdown ''discipline_0_1''\<rparr>\<rparr>))"

section \<open>An entry\<close>

definition alliance_of :: "jsval \<Rightarrow> alliance" where
  "alliance_of v = (if v = JStr ''blue'' then Blue else Red)"

definition mode_of :: "jsval \<Rightarrow> scouting_mode" where
  "mode_of v = (if v = JStr ''rapid'' then SM_rapid else SM_match)"

definition source_of :: "jsval \<Rightarrow> entry_source" where
  "source_of v = (if v = JStr ''reviewed_auto'' then ReviewedAuto else Manual)"

definition some_str :: "string \<Rightarrow> string option" where
  "some_str s = (if s = [] then None else Some s)"

definition normalizePoints :: "(string \<times> jsval) list option \<Rightarrow> scout_form \<Rightarrow> scout_points" where
  "normalizePoints r form =
     (let derived = pointsFromForm form
      in \<lparr>pt_auto = nullish (parseNumber (jget_opt r ''auto'')) (pt_auto derived),
          pt_teleop = nullish (parseNumber (jget_opt r ''teleop'')) (pt_teleop derived),
          pt_endgame = nullish (parseNumber (jget_opt r ''endgame'')) (pt_endgame derived),
          pt_total = nullish (parseNumber (jget_opt r ''total'')) (pt_total derived)\<rparr>)"

definition normalizeEntry :: "js_env \<Rightarrow> jsval \<Rightarrow> saved_entry option" where
  "normalizeEntry env value = (case asRecord value of None \<Rightarrow> None
     | Some row \<Rightarrow>
        (let str = js_string (env_nstr env);
             form = normalizeForm (asRecord (jget row ''form''));
             points = normalizePoints (asRecord (jget row ''points'')) form;
             driverScore = normalizeDriver (asRecord (jget row ''driver_competency'')) form;
             manual = normalizeManualRating env (asRecord (jget row ''manual_rating'')) form driverScore;
             overall = normalizeOverallScoutRating (asRecord (jget row ''overall_scout_rating''))
               points manual driverScore
         in Some
          \<lparr>e_id = nullish (str_of (jget row ''id'')) (int_str (env_now env) @ ''-'' @ env_random env),
           e_saved_at_ms = toInt (jget row ''saved_at_ms'') (env_now env),
           e_scout_profile = normalizeScoutProfile (nullish (str_of (jget row ''scout_profile'')) []),
           e_room_key = (case str_of (jget row ''room_key'') of None \<Rightarrow> None
             | Some k \<Rightarrow> some_str (normalizeRoomKey k)),
           e_mode = mode_of (jget row ''mode''),
           e_event_key = normalizeEventKeyInput (str (js_or (jget row ''event_key'') (JStr []))),
           e_match_key = normalizeEventKeyInput (str (js_or (jget row ''match_key'') (JStr []))),
           e_match_display = str (js_or (jget row ''match_display'')
             (js_or (jget row ''match_key'') (JStr ''Match''))),
           e_team_key = js_lower (js_trim (str (js_or (jget row ''team_key'') (JStr [])))),
           e_team_label = str (js_or (jget row ''team_label'')
             (js_or (jget row ''team_key'') (JStr ''Team''))),
           e_alliance = alliance_of (jget row ''alliance''),
           e_station = str_of (jget row ''station''),
           e_points = points,
           e_form = form,
           e_driver = driverScore,
           e_manual = manual,
           e_overall = overall,
           e_api_rating = normalizeScoutingApiRating env (asRecord (jget row ''scouting_api_rating'')),
           e_api_snapshot = normalizeApiSnapshot env (asRecord (jget row ''api_snapshot'')),
           e_notes = (case str_of (jget row ''notes'') of None \<Rightarrow> [] | Some s \<Rightarrow> normalizeScoutingNotes s),
           e_tags = normalizeNoteTags (env_nstr env) (jget row ''tags''),
           e_source = source_of (jget row ''entry_source''),
           e_auto_meta = normalizeAutoScoutMeta (asRecord (jget row ''auto_scout_meta'')),
           e_overrides = normalizeFieldOverrides (jget row ''field_overrides''),
           e_server_synced = (jget row ''server_synced'' = JBool True)\<rparr>))"

text \<open>What a page hands over when a report is saved.  An absent optional property is \<open>None\<close>.\<close>

record entry_payload =
  p_id :: "string option"
  p_saved_at_ms :: real
  p_scout_profile :: string
  p_room_key :: "string option"
  p_mode :: scouting_mode
  p_event_key :: string
  p_match_key :: string
  p_match_display :: string
  p_team_key :: string
  p_team_label :: string
  p_alliance :: alliance
  p_station :: "string option"
  p_points :: scout_points
  p_form :: scout_form
  p_driver :: driver_competency
  p_manual :: manual_rating
  p_overall :: overall_rating
  p_api_rating :: "api_rating option"
  p_api_snapshot :: "api_snapshot option"
  p_notes :: string
  p_tags :: "string list option"
  p_entry_source :: "entry_source option"
  p_auto_meta :: "auto_scout_meta option"
  p_overrides :: "(string \<times> field_override) list option"

definition buildSavedScoutingEntry :: "js_env \<Rightarrow> entry_payload \<Rightarrow> saved_entry" where
  "buildSavedScoutingEntry env p =
     (let savedAt = max 0 \<lfloor>p_saved_at_ms p\<rfloor>;
          reviewed = (p_entry_source p = Some ReviewedAuto)
      in \<lparr>e_id = str_or (opt_str (p_id p)) (int_str savedAt @ ''-'' @ env_random env),
          e_saved_at_ms = savedAt,
          e_scout_profile = normalizeScoutProfile (p_scout_profile p),
          e_room_key = (if opt_str (p_room_key p) = [] then None
            else some_str (normalizeRoomKey (opt_str (p_room_key p)))),
          e_mode = p_mode p,
          e_event_key = normalizeEventKeyInput (p_event_key p),
          e_match_key = normalizeEventKeyInput (p_match_key p),
          e_match_display = str_or (p_match_display p) (str_or (p_match_key p) ''Match''),
          e_team_key = js_lower (js_trim (p_team_key p)),
          e_team_label = str_or (p_team_label p) (str_or (p_team_key p) ''Team''),
          e_alliance = p_alliance p,
          e_station = p_station p,
          e_points = p_points p,
          e_form = normalizeForm (Some (form_raw (p_form p))),
          e_driver = p_driver p,
          e_manual = p_manual p,
          e_overall = p_overall p,
          e_api_rating = p_api_rating p,
          e_api_snapshot = p_api_snapshot p,
          e_notes = normalizeScoutingNotes (p_notes p),
          e_tags = normalizeNoteTags (env_nstr env)
            (case p_tags p of None \<Rightarrow> JUndef | Some tags \<Rightarrow> strs tags),
          e_source = (if reviewed then ReviewedAuto else Manual),
          e_auto_meta = (if reviewed then p_auto_meta p else None),
          e_overrides = (if reviewed then p_overrides p else None),
          e_server_synced = False\<rparr>)"

definition apiSnapshotFromIntel :: "js_env \<Rightarrow> jsval \<Rightarrow> string \<Rightarrow> api_snapshot option" where
  "apiSnapshotFromIntel env intelPayload selectedEventKey =
     (case asRecord intelPayload of None \<Rightarrow> None
      | Some intel \<Rightarrow>
         (let sub = (\<lambda>r k. asRecord (jget_opt r k));
              analysis = sub (Some intel) ''analysis'';
              averages = sub analysis ''averages'';
              climbSources = sub analysis ''climb_sources'';
              climbOfficial = sub climbSources ''official_score_breakdown'';
              rating = sub (Some intel) ''rating'';
              tba = sub (Some intel) ''tba'';
              ranking = sub (sub (sub tba ''event_status'') ''qual'') ''ranking'';
              warnings = (case jget intel ''warnings'' of
                  JArr vs \<Rightarrow> filter (\<lambda>w. w \<noteq> [])
                    (map (\<lambda>v. js_trim (js_string (env_nstr env) (js_or v (JStr [])))) vs)
                | _ \<Rightarrow> [])
          in Some
           \<lparr>as_source_event_key = (case str_of (jget intel ''event_key'') of Some k \<Rightarrow> Some k
              | None \<Rightarrow> some_str selectedEventKey),
            as_fetched_at_ms = env_now env,
            as_rating = parseNumber (jget_opt rating ''rating_0_100''),
            as_confidence = parseNumber (jget_opt rating ''confidence_0_1''),
            as_reliability = parseNumber (jget_opt averages ''reliability_score''),
            as_auto_contribution = parseNumber (jget_opt averages ''auto_contribution''),
            as_climb_success_prob = firstDefinedNumber
              [parseNumber (jget_opt averages ''climb_success_prob''),
               parseNumber (jget_opt climbSources ''overall_climb_success_prob''),
               parseNumber (jget_opt climbOfficial ''climb_success_prob'')],
            as_cycle_time_sec = parseNumber (jget_opt averages ''cycle_time_sec''),
            as_tba_rank = parseNumber (jget_opt ranking ''rank''),
            as_warnings = warnings\<rparr>))"

section \<open>An entry as a plain object\<close>

definition num_raw :: "real \<Rightarrow> jsval" where
  "num_raw x = JNum (Fin x)"

definition opt_num_raw :: "real option \<Rightarrow> jsval" where
  "opt_num_raw x = (case x of None \<Rightarrow> JNull | Some r \<Rightarrow> num_raw r)"

definition opt_str_raw :: "string option \<Rightarrow> jsval" where
  "opt_str_raw s = (case s of None \<Rightarrow> JNull | Some t \<Rightarrow> JStr t)"

definition points_raw :: "scout_points \<Rightarrow> jsval" where
  "points_raw p = JObj [(''auto'', num_raw (pt_auto p)), (''teleop'', num_raw (pt_teleop p)),
     (''endgame'', num_raw (pt_endgame p)), (''total'', num_raw (pt_total p))]"

definition driver_raw :: "driver_competency \<Rightarrow> jsval" where
  "driver_raw d = (let b = dc_breakdown d in JObj
     [(''score_0_100'', num_raw (dc_score d)), (''level_1_5'', num_raw (dc_level d)),
      (''tier'', JStr (dc_tier d)),
      (''breakdown'', JObj
        [(''teleop_volume_0_1'', num_raw (db_teleop_volume b)),
         (''teleop_accuracy_0_1'', num_raw (db_teleop_accuracy b)),
         (''offense_0_1'', num_raw (db_offense b)), (''defense_0_1'', num_raw (db_defense b)),
         (''endgame_0_1'', num_raw (db_endgame b)), (''discipline_0_1'', num_raw (db_discipline b))])])"

definition manual_raw :: "manual_rating \<Rightarrow> jsval" where
  "manual_raw m = (let b = mr_breakdown m in JObj
     [(''score_0_100'', num_raw (mr_score m)), (''tier'', JStr (mr_tier m)),
      (''breakdown'', JObj
        [(''auto_0_1'', num_raw (mb_auto b)), (''teleop_0_1'', num_raw (mb_teleop b)),
         (''endgame_0_1'', num_raw (mb_endgame b)), (''anti_defense_0_1'', num_raw (mb_anti_defense b)),
         (''execution_0_1'', num_raw (mb_execution b)), (''discipline_0_1'', num_raw (mb_discipline b))]),
      (''pros'', strs (mr_pros m)), (''cons'', strs (mr_cons m))])"

definition overall_raw :: "overall_rating \<Rightarrow> jsval" where
  "overall_raw r = (let c = or_components r in JObj
     [(''score_0_100'', num_raw (or_score r)), (''tier'', JStr (or_tier r)),
      (''components'', JObj
        [(''manual_0_100'', num_raw (oc_manual c)), (''driver_0_100'', num_raw (oc_driver c)),
         (''points_0_100'', num_raw (oc_points c)), (''endgame_0_100'', num_raw (oc_endgame c)),
         (''discipline_0_100'', num_raw (oc_discipline c))])])"

definition api_rating_raw :: "api_rating \<Rightarrow> jsval" where
  "api_rating_raw r = (let c = ar_components r in JObj
     [(''score_0_100'', num_raw (ar_score r)), (''confidence_0_1'', num_raw (ar_confidence r)),
      (''tier'', JStr (ar_tier r)),
      (''components'', JObj
        [(''manual_weighted_0_100'', num_raw (ac_manual_weighted c)),
         (''api_strength_0_100'', num_raw (ac_strength c)),
         (''api_reliability_0_100'', num_raw (ac_reliability c)),
         (''api_auto_0_100'', num_raw (ac_auto c)), (''api_climb_0_100'', num_raw (ac_climb c)),
         (''api_cycle_0_100'', num_raw (ac_cycle c)),
         (''freshness_penalty_0_100'', num_raw (ac_freshness_penalty c))]),
      (''pros'', strs (ar_pros r)), (''cons'', strs (ar_cons r))])"

definition snapshot_raw :: "api_snapshot \<Rightarrow> jsval" where
  "snapshot_raw s = JObj
     [(''source_event_key'', opt_str_raw (as_source_event_key s)),
      (''fetched_at_ms'', num_raw (of_int (as_fetched_at_ms s))),
      (''rating_0_100'', opt_num_raw (as_rating s)),
      (''confidence_0_1'', opt_num_raw (as_confidence s)),
      (''reliability_0_1'', opt_num_raw (as_reliability s)),
      (''auto_contribution'', opt_num_raw (as_auto_contribution s)),
      (''climb_success_prob'', opt_num_raw (as_climb_success_prob s)),
      (''cycle_time_sec'', opt_num_raw (as_cycle_time_sec s)),
      (''tba_rank'', opt_num_raw (as_tba_rank s)),
      (''warnings'', strs (as_warnings s))]"

definition meta_raw :: "auto_scout_meta \<Rightarrow> jsval" where
  "meta_raw a = JObj
     [(''draft_id'', num_raw (of_int (am_draft_id a))),
      (''mapper_version'', JStr (am_mapper_version a)),
      (''analysis_version'', JStr (am_analysis_version a)),
      (''approved_at_ms'', opt_num_raw (map_option of_int (am_approved_at_ms a)))]"

definition override_raw :: "string \<times> field_override \<Rightarrow> string \<times> jsval" where
  "override_raw kv = (fst kv, JObj [(''from'', fo_from (snd kv)), (''to'', fo_to (snd kv))])"

definition opt_raw :: "('a \<Rightarrow> jsval) \<Rightarrow> 'a option \<Rightarrow> jsval" where
  "opt_raw g x = (case x of None \<Rightarrow> JNull | Some y \<Rightarrow> g y)"

definition entry_raw :: "saved_entry \<Rightarrow> (string \<times> jsval) list" where
  "entry_raw e =
     [(''id'', JStr (e_id e)), (''saved_at_ms'', num_raw (of_int (e_saved_at_ms e))),
      (''scout_profile'', JStr (e_scout_profile e)), (''room_key'', opt_str_raw (e_room_key e)),
      (''mode'', JStr (case e_mode e of SM_match \<Rightarrow> ''match'' | SM_rapid \<Rightarrow> ''rapid'')),
      (''event_key'', JStr (e_event_key e)), (''match_key'', JStr (e_match_key e)),
      (''match_display'', JStr (e_match_display e)), (''team_key'', JStr (e_team_key e)),
      (''team_label'', JStr (e_team_label e)),
      (''alliance'', JStr (case e_alliance e of Red \<Rightarrow> ''red'' | Blue \<Rightarrow> ''blue'')),
      (''station'', opt_str_raw (e_station e)), (''points'', points_raw (e_points e)),
      (''form'', JObj (form_raw (e_form e))), (''driver_competency'', driver_raw (e_driver e)),
      (''manual_rating'', manual_raw (e_manual e)),
      (''overall_scout_rating'', overall_raw (e_overall e)),
      (''scouting_api_rating'', opt_raw api_rating_raw (e_api_rating e)),
      (''api_snapshot'', opt_raw snapshot_raw (e_api_snapshot e)),
      (''notes'', JStr (e_notes e)), (''tags'', strs (e_tags e)),
      (''entry_source'', JStr (case e_source e of Manual \<Rightarrow> ''manual'' | ReviewedAuto \<Rightarrow> ''reviewed_auto'')),
      (''auto_scout_meta'', opt_raw meta_raw (e_auto_meta e)),
      (''field_overrides'', opt_raw (\<lambda>os. JObj (map override_raw os)) (e_overrides e))]
     @ (if e_server_synced e then [(''server_synced'', JBool True)] else [])"

section \<open>The round trip\<close>

text \<open>A number that \<open>toFixed(d)\<close> leaves as it is.\<close>

definition is_fixed :: "nat \<Rightarrow> real \<Rightarrow> bool" where
  "is_fixed d x \<longleftrightarrow> to_fixed d x = x"

text \<open>What the readers make true of an entry, and what they need to leave it as it is.\<close>

definition driver_wf :: "driver_competency \<Rightarrow> bool" where
  "driver_wf d \<longleftrightarrow> driver_ok d \<and> (\<exists>n. dc_level d = of_int n)"

definition manual_wf :: "manual_rating \<Rightarrow> bool" where
  "manual_wf m \<longleftrightarrow> manual_ok m \<and> is_fixed 1 (mr_score m)"

definition overall_wf :: "overall_rating \<Rightarrow> bool" where
  "overall_wf r \<longleftrightarrow> in_percent (or_score r) \<and> is_fixed 1 (or_score r) \<and>
     (let c = or_components r in is_fixed 2 (oc_manual c) \<and> is_fixed 2 (oc_driver c) \<and>
        is_fixed 2 (oc_points c) \<and> is_fixed 2 (oc_endgame c) \<and> is_fixed 2 (oc_discipline c))"

definition api_rating_wf :: "api_rating \<Rightarrow> bool" where
  "api_rating_wf r \<longleftrightarrow> in_percent (ar_score r) \<and> is_fixed 1 (ar_score r) \<and>
     in_unit (ar_confidence r) \<and> is_fixed 3 (ar_confidence r) \<and>
     (let c = ar_components r in is_fixed 2 (ac_manual_weighted c) \<and> is_fixed 2 (ac_strength c) \<and>
        is_fixed 2 (ac_reliability c) \<and> is_fixed 2 (ac_auto c) \<and> is_fixed 2 (ac_climb c) \<and>
        is_fixed 2 (ac_cycle c) \<and> is_fixed 2 (ac_freshness_penalty c))"

definition meta_wf :: "auto_scout_meta \<Rightarrow> bool" where
  "meta_wf a \<longleftrightarrow> 0 < am_draft_id a \<and> am_mapper_version a \<noteq> [] \<and> trimmed (am_mapper_version a) \<and>
     am_analysis_version a \<noteq> [] \<and> trimmed (am_analysis_version a)"

definition keys_wf :: "saved_entry \<Rightarrow> bool" where
  "keys_wf e \<longleftrightarrow> 0 \<le> e_saved_at_ms e \<and>
     (\<forall>k. e_room_key e = Some k \<longrightarrow> k \<noteq> [] \<and> normalizeRoomKey k = k) \<and>
     normalizeEventKeyInput (e_event_key e) = e_event_key e \<and>
     normalizeEventKeyInput (e_match_key e) = e_match_key e \<and>
     normalizeEventKeyInput (e_team_key e) = e_team_key e"

definition texts_wf :: "saved_entry \<Rightarrow> bool" where
  "texts_wf e \<longleftrightarrow> normalizeScoutProfile (e_scout_profile e) = e_scout_profile e \<and>
     e_match_display e \<noteq> [] \<and> e_team_label e \<noteq> [] \<and>
     normalizeScoutingNotes (e_notes e) = e_notes e \<and>
     filter (\<lambda>i. i \<in> set (e_tags e)) TAG_IDS = e_tags e"

definition entry_wf :: "saved_entry \<Rightarrow> bool" where
  "entry_wf e \<longleftrightarrow> keys_wf e \<and> texts_wf e \<and> wf_form (e_form e) \<and> driver_wf (e_driver e) \<and>
     manual_wf (e_manual e) \<and> overall_wf (e_overall e) \<and> pred_option api_rating_wf (e_api_rating e) \<and>
     pred_option (\<lambda>s. 0 \<le> as_fetched_at_ms s) (e_api_snapshot e) \<and>
     pred_option meta_wf (e_auto_meta e) \<and> e_overrides e \<noteq> Some []"

named_theorems reader_simps \<open>each reader on the plain object of a well-formed value\<close>

lemma jget_append: "jget (xs @ ys) k = (if map_has xs k then jget xs k else jget ys k)"
  by (simp add: jget_def map_has_get map_get_def map_add_def split: option.split)

lemma clamp_unit_id [reader_simps]: "in_unit x \<Longrightarrow> clampNumber x 0 1 = x"
  by (simp add: in_unit_def clamp_id)

lemma clamp_percent_id [reader_simps]: "in_percent x \<Longrightarrow> clampNumber x 0 100 = x"
  by (simp add: in_percent_def clamp_id)

lemma js_or_str [reader_simps]: "js_or (JStr s) (JStr []) = JStr s"
  "s \<noteq> [] \<Longrightarrow> js_or (JStr s) v = JStr s"
  by (simp_all add: js_or_def)

lemma str_of_simps [reader_simps]: "str_of (JStr s) = Some s" "str_of (opt_str_raw t) = t"
  by (simp_all add: str_of_def opt_str_raw_def split: option.split)

lemma parse_raw [reader_simps]: "parseNumber (num_raw x) = Some x" "parseNumber (opt_num_raw y) = y"
  by (simp_all add: num_raw_def opt_num_raw_def split: option.split)

lemma string_list_strs [reader_simps]: "string_list env (strs xs) = xs"
  by (simp add: string_list_def strs_def o_def)

lemma toInt_num_raw [reader_simps]: "0 \<le> n \<Longrightarrow> toInt (num_raw (of_int n)) d = n"
  by (simp add: num_raw_def form_simps)

lemma read_driver [reader_simps]:
  assumes "driver_wf d"
  shows "normalizeDriver (asRecord (driver_raw d)) f = d"
proof -
  obtain n where "dc_level d = of_int n" using assms by (auto simp: driver_wf_def)
  then show ?thesis
    using assms
    by (simp add: driver_raw_def normalizeDriver_def Let_def unit_field_def jget_opt_def reader_simps
        driver_wf_def driver_ok_def clamp_id)
qed

lemma read_manual [reader_simps]:
  "manual_wf m \<Longrightarrow> normalizeManualRating env (asRecord (manual_raw m)) f d = m"
  by (simp add: manual_raw_def normalizeManualRating_def Let_def unit_field_def jget_opt_def
      reader_simps manual_wf_def manual_ok_def is_fixed_def)

lemma read_overall [reader_simps]:
  "overall_wf r \<Longrightarrow> normalizeOverallScoutRating (asRecord (overall_raw r)) p m d = r"
  by (simp add: overall_raw_def normalizeOverallScoutRating_def Let_def cents_field_def jget_opt_def
      reader_simps overall_wf_def is_fixed_def)

lemma read_api_rating [reader_simps]:
  "pred_option api_rating_wf r \<Longrightarrow>
     normalizeScoutingApiRating env (asRecord (opt_raw api_rating_raw r)) = r"
  by (cases r) (simp_all add: opt_raw_def api_rating_raw_def normalizeScoutingApiRating_def Let_def
      cents_field_def jget_opt_def reader_simps api_rating_wf_def is_fixed_def)

lemma read_snapshot [reader_simps]:
  "pred_option (\<lambda>s. 0 \<le> as_fetched_at_ms s) s \<Longrightarrow>
     normalizeApiSnapshot env (asRecord (opt_raw snapshot_raw s)) = s"
  by (cases s) (simp_all add: opt_raw_def snapshot_raw_def normalizeApiSnapshot_def reader_simps)

lemma read_meta [reader_simps]:
  "pred_option meta_wf a \<Longrightarrow> normalizeAutoScoutMeta (asRecord (opt_raw meta_raw a)) = a"
  by (cases a) (auto simp: opt_raw_def meta_raw_def normalizeAutoScoutMeta_def Let_def reader_simps
      meta_wf_def trim_idle option.map_comp o_def option.map_ident)

lemma parse_override_raw: "parse_override (override_raw kv) = Some kv"
  by (cases kv) (simp add: parse_override_def override_raw_def map_has_def)

lemma read_overrides [reader_simps]:
  "os \<noteq> Some [] \<Longrightarrow> normalizeFieldOverrides (opt_raw (\<lambda>os. JObj (map override_raw os)) os) = os"
proof (cases os)
  case (Some xs)
  have "List.map_filter parse_override (map override_raw xs) = xs"
    by (induction xs) (simp_all add: List.map_filter_simps parse_override_raw)
  then show "os \<noteq> Some [] \<Longrightarrow> ?thesis" using Some
    by (simp add: opt_raw_def normalizeFieldOverrides_def)
qed (simp add: opt_raw_def normalizeFieldOverrides_def)

lemma TAG_IDS_normal: "i \<in> set TAG_IDS \<Longrightarrow> js_lower (js_trim i) = i"
proof -
  have "map (\<lambda>i. js_lower (js_trim i)) TAG_IDS = TAG_IDS" by code_simp
  then show "i \<in> set TAG_IDS \<Longrightarrow> js_lower (js_trim i) = i"
    by (metis in_set_conv_nth length_map nth_map)
qed

lemma read_tags [reader_simps]:
  assumes "filter (\<lambda>i. i \<in> set tags) TAG_IDS = tags"
  shows "normalizeNoteTags nstr (strs tags) = tags"
proof -
  have "map (\<lambda>s. js_lower (js_trim s)) tags = tags"
    by (rule map_idI, rule TAG_IDS_normal) (metis assms filter_is_subset subsetD)
  then have "map (\<lambda>v. js_lower (js_trim (js_string nstr (js_nullish v (JStr []))))) (map JStr tags) = tags"
    by (simp add: js_nullish_def o_def)
  then show ?thesis using assms by (simp add: normalizeNoteTags_def strs_def Let_def)
qed

lemma read_points [reader_simps]: "normalizePoints (asRecord (points_raw p)) f = p"
  by (simp add: normalizePoints_def points_raw_def jget_opt_def reader_simps Let_def)

lemma read_form [reader_simps]: "wf_form f \<Longrightarrow> normalizeForm (asRecord (JObj (form_raw f))) = f"
  by (simp add: normalizeForm_raw)

lemma read_room [reader_simps]:
  "(\<And>k. r = Some k \<Longrightarrow> k \<noteq> [] \<and> normalizeRoomKey k = k) \<Longrightarrow>
     (case r of None \<Rightarrow> None | Some k \<Rightarrow> some_str (normalizeRoomKey k)) = r"
  by (cases r) (simp_all add: some_str_def)

lemma read_enums [reader_simps]:
  "mode_of (JStr (case mode of SM_match \<Rightarrow> ''match'' | SM_rapid \<Rightarrow> ''rapid'')) = mode"
  "alliance_of (JStr (case al of Red \<Rightarrow> ''red'' | Blue \<Rightarrow> ''blue'')) = al"
  "source_of (JStr (case src of Manual \<Rightarrow> ''manual'' | ReviewedAuto \<Rightarrow> ''reviewed_auto'')) = src"
  by (simp_all add: mode_of_def alliance_of_def source_of_def
      split: scouting_mode.split alliance.split entry_source.split)

text \<open>The properties of an entry's object, one rewrite rule each.\<close>

lemma entry_fields:
  "jget (entry_raw e) ''id'' = JStr (e_id e)"
  "jget (entry_raw e) ''saved_at_ms'' = num_raw (of_int (e_saved_at_ms e))"
  "jget (entry_raw e) ''scout_profile'' = JStr (e_scout_profile e)"
  "jget (entry_raw e) ''room_key'' = opt_str_raw (e_room_key e)"
  "jget (entry_raw e) ''mode'' = JStr (case e_mode e of SM_match \<Rightarrow> ''match'' | SM_rapid \<Rightarrow> ''rapid'')"
  "jget (entry_raw e) ''event_key'' = JStr (e_event_key e)"
  "jget (entry_raw e) ''match_key'' = JStr (e_match_key e)"
  "jget (entry_raw e) ''match_display'' = JStr (e_match_display e)"
  "jget (entry_raw e) ''team_key'' = JStr (e_team_key e)"
  "jget (entry_raw e) ''team_label'' = JStr (e_team_label e)"
  "jget (entry_raw e) ''alliance'' = JStr (case e_alliance e of Red \<Rightarrow> ''red'' | Blue \<Rightarrow> ''blue'')"
  "jget (entry_raw e) ''station'' = opt_str_raw (e_station e)"
  "jget (entry_raw e) ''points'' = points_raw (e_points e)"
  "jget (entry_raw e) ''form'' = JObj (form_raw (e_form e))"
  "jget (entry_raw e) ''driver_competency'' = driver_raw (e_driver e)"
  "jget (entry_raw e) ''manual_rating'' = manual_raw (e_manual e)"
  "jget (entry_raw e) ''overall_scout_rating'' = overall_raw (e_overall e)"
  "jget (entry_raw e) ''scouting_api_rating'' = opt_raw api_rating_raw (e_api_rating e)"
  "jget (entry_raw e) ''api_snapshot'' = opt_raw snapshot_raw (e_api_snapshot e)"
  "jget (entry_raw e) ''notes'' = JStr (e_notes e)"
  "jget (entry_raw e) ''tags'' = strs (e_tags e)"
  "jget (entry_raw e) ''entry_source'' =
     JStr (case e_source e of Manual \<Rightarrow> ''manual'' | ReviewedAuto \<Rightarrow> ''reviewed_auto'')"
  "jget (entry_raw e) ''auto_scout_meta'' = opt_raw meta_raw (e_auto_meta e)"
  "jget (entry_raw e) ''field_overrides'' = opt_raw (\<lambda>os. JObj (map override_raw os)) (e_overrides e)"
  "(jget (entry_raw e) ''server_synced'' = JBool True) \<longleftrightarrow> e_server_synced e"
  by (simp_all add: entry_raw_def)

lemma read_entry:
  assumes "entry_wf e"
  shows "normalizeEntry env (JObj (entry_raw e)) = Some e"
  using assms
  by (simp add: normalizeEntry_def Let_def entry_fields reader_simps entry_wf_def keys_wf_def
      texts_wf_def normalizeEventKeyInput_def normalizeForm_raw)

subsection \<open>Entries the app builds\<close>

lemma to_fixed_idem: "to_fixed d (to_fixed d x) = to_fixed d x"
proof (cases "\<bar>x\<bar> \<ge> 10 ^ 21 \<or> x = 0")
  case True
  then show ?thesis by (auto simp: to_fixed_def)
next
  case False
  define n where "n = \<lfloor>\<bar>x\<bar> * 10 ^ d + 1/2\<rfloor>"
  have y: "to_fixed d x = sgn x * (of_int n / 10 ^ d)" using False by (simp add: to_fixed_def n_def)
  have n0: "0 \<le> n" by (simp add: n_def add_nonneg_nonneg)
  have "\<bar>sgn x * (of_int n / 10 ^ d)\<bar> = of_int n / 10 ^ d"
    using n0 False by (simp add: abs_mult sgn_if)
  moreover have "\<lfloor>real_of_int n + 1/2\<rfloor> = n" by linarith
  moreover have "sgn (sgn x * (of_int n / 10 ^ d)) * (of_int n / 10 ^ d) = sgn x * (of_int n / 10 ^ d :: real)"
    using n0 False by (cases "n = 0") (auto simp: sgn_mult sgn_if divide_less_0_iff)
  ultimately show ?thesis unfolding y by (simp add: to_fixed_def)
qed

lemma is_fixed_to_fixed [simp]: "is_fixed d (to_fixed d x)"
  by (simp add: is_fixed_def to_fixed_idem)

lemma is_fixed_of_int: "is_fixed d (of_int n)"
proof -
  have "\<lfloor>\<bar>real_of_int n\<bar> * 10 ^ d + 1/2\<rfloor> = \<bar>n\<bar> * 10 ^ d"
  proof -
    have "\<lfloor>real_of_int (\<bar>n\<bar> * 10 ^ d) + 1/2\<rfloor> = \<bar>n\<bar> * 10 ^ d" by linarith
    then show ?thesis by simp
  qed
  then show ?thesis by (simp add: is_fixed_def to_fixed_def sgn_if)
qed

lemma is_fixed_numerals [simp]: "is_fixed d 0" "is_fixed d (numeral k)"
  using is_fixed_of_int [of d 0] is_fixed_of_int [of d "numeral k"] by simp_all

lemma driver_wf_competency: "driver_wf (driverCompetency f)"
proof -
  have "\<exists>n. driver_level s = of_int n" for s
    unfolding driver_level_def by (metis of_int_numeral of_int_1)
  then show ?thesis
    by (simp add: driver_wf_def driver_ok_competency) (simp add: driverCompetency_def Let_def)
qed

lemma manual_wf_rating: "manual_wf (manualScoutingRating f d)"
  by (simp add: manual_wf_def manual_ok_rating)
    (simp add: manualScoutingRating_def Let_def is_fixed_of_int)

lemma overall_wf_rating: "overall_wf (overallScoutRating p m d)"
  using overall_ok_rating [of p m d]
  by (simp add: overall_wf_def overall_ok_def overallScoutRating_def Let_def)

lemma api_rating_wf_rating:
  assumes "manual_wf m"
  shows "api_rating_wf (scoutingApiRating m snap baseline)"
proof -
  have c: "is_fixed 3 (7 / 20)"
    by (simp add: is_fixed_def to_fixed_def)
  show ?thesis
    using assms api_rating_bounds [of m snap baseline]
    by (auto simp: api_rating_wf_def scoutingApiRating_def Let_def manual_wf_def c)
qed

subsection \<open>Profiles\<close>

text \<open>Inside a profile a run of white space is one blank.\<close>

fun single_blanks :: "string \<Rightarrow> bool" where
  "single_blanks [] \<longleftrightarrow> True"
| "single_blanks (c # cs) \<longleftrightarrow>
     (is_space c \<longrightarrow> c = CHR '' '' \<and> (cs = [] \<or> \<not> is_space (hd cs))) \<and> single_blanks cs"

lemma single_blanks_idle: "single_blanks s \<Longrightarrow> replace_runs is_space '' '' s = s"
proof (induction s)
  case (Cons c cs)
  then have "dropWhile is_space cs = cs" if "is_space c"
    using that by (intro dropWhile_hd_id) auto
  with Cons show ?case by auto
qed simp

lemma hd_replace_runs:
  "s \<noteq> [] \<Longrightarrow> \<not> is_space (hd s) \<Longrightarrow>
     replace_runs is_space '' '' s \<noteq> [] \<and> hd (replace_runs is_space '' '' s) = hd s"
  by (cases s) auto

lemma single_blanks_replace: "single_blanks (replace_runs is_space '' '' s)"
proof (induction is_space "'' '' :: string" s rule: replace_runs.induct)
  case (2 c cs)
  then show ?case
  proof (cases "is_space c")
    case True
    have "hd (replace_runs is_space '' '' (dropWhile is_space cs)) = hd (dropWhile is_space cs)
        \<and> \<not> is_space (hd (dropWhile is_space cs))" if "dropWhile is_space cs \<noteq> []"
      using that hd_dropWhile [OF that] hd_replace_runs [OF that] by simp
    with 2 True show ?thesis
      by (cases "dropWhile is_space cs = []") (auto simp del: dropWhile_eq_Nil_conv)
  qed auto
qed simp

lemma last_replace_runs:
  "s \<noteq> [] \<Longrightarrow> \<not> is_space (last s) \<Longrightarrow>
     replace_runs is_space '' '' s \<noteq> [] \<and> last (replace_runs is_space '' '' s) = last s"
proof (induction s rule: length_induct)
  case (1 s)
  then obtain c cs where s: "s = c # cs" by (cases s) auto
  show ?case
  proof (cases "is_space c")
    case True
    with 1 s have cs: "cs \<noteq> []" "\<not> is_space (last cs)" by (auto split: if_splits)
    then have d: "dropWhile is_space cs \<noteq> []" by (metis dropWhile_eq_Nil_conv last_in_set)
    have "last (dropWhile is_space cs) = last cs"
      using d by (metis last_append takeWhile_dropWhile_id)
    moreover have "length (dropWhile is_space cs) < length s"
      using s by (simp add: less_Suc_eq_le length_dropWhile_le)
    ultimately show ?thesis using 1 True s cs d by auto
  next
    case False
    show ?thesis
    proof (cases "cs = []")
      case True
      then show ?thesis using False s by simp
    next
      case ne: False
      have "length cs < length s" "\<not> is_space (last cs)" using 1 s ne by auto
      then have "replace_runs is_space '' '' cs \<noteq> [] \<and> last (replace_runs is_space '' '' cs) = last cs"
        using 1 ne by blast
      then show ?thesis using False s ne by simp
    qed
  qed
qed

lemma trimmed_replace_runs: "trimmed s \<Longrightarrow> trimmed (replace_runs is_space '' '' s)"
  using hd_replace_runs [of s] last_replace_runs [of s] by (cases "s = []") (auto simp: trimmed_def)

lemma normalizeScoutProfile_idem:
  assumes "length (replace_runs is_space '' '' (js_trim raw)) \<le> 40"
  shows "normalizeScoutProfile (normalizeScoutProfile raw) = normalizeScoutProfile raw"
  using assms
  by (simp add: normalizeScoutProfile_def trim_idle trimmed_replace_runs single_blanks_idle
      single_blanks_replace)

text \<open>Without the bound it need not be: cutting a longer profile at 40 can leave a blank at its end,
  which the next reading removes.\<close>

lemma long_profile_shrinks_again:
  "let raw = replicate 39 (CHR ''a'') @ '' b''
   in length (normalizeScoutProfile raw) = 40 \<and>
      length (normalizeScoutProfile (normalizeScoutProfile raw)) = 39"
  by code_simp

lemma normalizeScoutingNotes_idle:
  assumes "CHR 13 \<notin> set s"
  shows "normalizeScoutingNotes (normalizeScoutingNotes s) = normalizeScoutingNotes s"
proof -
  have "CHR 13 \<notin> set (take 600 s)" using assms by (auto dest: in_set_takeD)
  with assms show ?thesis by (simp add: normalizeScoutingNotes_def crlf_free_idle)
qed

definition payload_ok :: "event_baseline option \<Rightarrow> entry_payload \<Rightarrow> bool" where
  "payload_ok baseline p \<longleftrightarrow>
     p_driver p = driverCompetency (p_form p) \<and>
     p_manual p = manualScoutingRating (p_form p) (p_driver p) \<and>
     p_overall p = overallScoutRating (p_points p) (p_manual p) (p_driver p) \<and>
     (p_api_rating p = None \<or>
      p_api_rating p = Some (scoutingApiRating (p_manual p) (p_api_snapshot p) baseline)) \<and>
     pred_option (\<lambda>s. 0 \<le> as_fetched_at_ms s) (p_api_snapshot p) \<and>
     pred_option meta_wf (p_auto_meta p) \<and> p_overrides p \<noteq> Some [] \<and>
     length (replace_runs is_space '' '' (js_trim (p_scout_profile p))) \<le> 40 \<and>
     CHR 13 \<notin> set (p_notes p)"

lemma tags_wf: "filter (\<lambda>i. i \<in> set (normalizeNoteTags nstr raw)) TAG_IDS = normalizeNoteTags nstr raw"
proof -
  have "filter (\<lambda>i. i \<in> set (filter P TAG_IDS)) TAG_IDS = filter P TAG_IDS" for P
    by (rule filter_cong) auto
  then show ?thesis by (auto simp: normalizeNoteTags_def Let_def split: jsval.split)
qed

lemma built_entry_wf:
  assumes "payload_ok baseline p"
  shows "entry_wf (buildSavedScoutingEntry env p)"
proof -
  have r: "pred_option api_rating_wf (p_api_rating p)"
    using assms by (auto simp: payload_ok_def api_rating_wf_rating manual_wf_rating)
  have n: "normalizeEventKeyInput (js_lower (js_trim s)) = js_lower (js_trim s)" for s
    by (simp add: normalizeEventKeyInput_def str_simps)
  show ?thesis
    using assms r
    by (auto simp: entry_wf_def payload_ok_def keys_wf_def texts_wf_def buildSavedScoutingEntry_def
        Let_def driver_wf_competency manual_wf_rating overall_wf_rating normalizeScoutProfile_idem
        normalizeScoutingNotes_idle tags_wf n some_str_def str_or_def split: if_splits)
qed

text \<open>Claim C11: a report survives the store.  An entry built from a form whose ratings the app
  computed, with a profile of at most 40 characters and notes without carriage returns, reads back
  from its JSON object as exactly the same entry, whatever the time of the reading.\<close>

theorem saved_report_reads_back:
  assumes "payload_ok baseline p"
  shows "normalizeEntry env' (JObj (entry_raw (buildSavedScoutingEntry env p))) =
    Some (buildSavedScoutingEntry env p)"
  by (rule read_entry [OF built_entry_wf [OF assms]])

definition example_payload :: entry_payload where
  "example_payload =
     (let f = EMPTY_FORM\<lparr>teleop_scored := 12, offense_level_1_5 := Some 4\<rparr>;
          pts = pointsFromForm f; d = driverCompetency f; m = manualScoutingRating f d
      in \<lparr>p_id = None, p_saved_at_ms = 1750000000000, p_scout_profile = ''Ava  Lee'',
          p_room_key = Some ''Room A'', p_mode = SM_match, p_event_key = ''2026casj'',
          p_match_key = ''2026casj_qm12'', p_match_display = ''QM 12'', p_team_key = ''frc254'',
          p_team_label = ''#254'', p_alliance = Blue, p_station = None, p_points = pts, p_form = f,
          p_driver = d, p_manual = m, p_overall = overallScoutRating pts m d, p_api_rating = None,
          p_api_snapshot = None, p_notes = ''fast'', p_tags = Some [''defense''],
          p_entry_source = None, p_auto_meta = None, p_overrides = None\<rparr>)"

lemma example_payload_ok: "payload_ok None example_payload"
proof -
  have "length (replace_runs is_space '' '' (js_trim ''Ava  Lee'')) \<le> 40" by code_simp
  then show ?thesis by (simp add: payload_ok_def example_payload_def Let_def)
qed

lemma saved_report_reads_back_witness:
  "normalizeEntry \<lparr>env_now = 7, env_random = ''x'', env_nstr = \<lambda>_. []\<rparr>
     (JObj (entry_raw (buildSavedScoutingEntry \<lparr>env_now = 1, env_random = ''k3'', env_nstr = \<lambda>_. []\<rparr>
        example_payload))) =
   Some (buildSavedScoutingEntry \<lparr>env_now = 1, env_random = ''k3'', env_nstr = \<lambda>_. []\<rparr> example_payload)"
  by (rule saved_report_reads_back [OF example_payload_ok])

end
