(* ===== verification/ScoutEntries.thy ===== *)
theory ScoutEntries
  imports ScoutReaders
begin

text \<open>
  The list of saved reports on a phone (\<open>src/ScoutingApp/src/pages/scoutingPage.helpers.ts\<close>, from
  line 1099): where it is stored, how imports, acknowledged saves, live updates and room snapshots
  are merged into it, the match and team pickers of the scouting page, and the floating timer.
  \<open>localStorage\<close> is an insertion-ordered map of texts, or \<open>None\<close> where reading it throws.  The lemmas
  show that the merges keep ids unique and the list newest first and at most 600 long, and that a
  room snapshot loses no report the server has not acknowledged.
\<close>

section \<open>The stored list\<close>

type_synonym local_store = "(string, jtext) jsmap option"

definition storageGet :: "local_store \<Rightarrow> string \<Rightarrow> jtext option" where
  "storageGet ls k = (case ls of None \<Rightarrow> None | Some m \<Rightarrow> map_get m k)"

text \<open>\<open>storageSet\<close> and \<open>storageRemove\<close>; \<open>full\<close> tells that \<open>setItem\<close> throws for want of space.\<close>

definition storageSet :: "bool \<Rightarrow> string \<Rightarrow> jtext \<Rightarrow> local_store \<Rightarrow> bool \<times> local_store" where
  "storageSet full k v ls = (case ls of None \<Rightarrow> (False, None)
     | Some m \<Rightarrow> if full then (False, Some m) else (True, Some (map_set k v m)))"

definition storageRemove :: "string \<Rightarrow> local_store \<Rightarrow> local_store" where
  "storageRemove k ls = map_option (map_delete k) ls"

definition SCOUTING_ENTRIES_STORAGE :: string where
  "SCOUTING_ENTRIES_STORAGE = ''scouting_manual_entries_v2''"

definition SCOUTING_ENTRIES_STORAGE_LEGACY :: string where
  "SCOUTING_ENTRIES_STORAGE_LEGACY = ''scouting_manual_entries_v1''"

definition SCOUTING_TIMER_FLOAT_STORAGE :: string where
  "SCOUTING_TIMER_FLOAT_STORAGE = ''scouting_timer_float_pos_v1''"

definition SCOUTING_MOBILE_COMPACT_STORAGE :: string where
  "SCOUTING_MOBILE_COMPACT_STORAGE = ''scouting_mobile_compact_mode_v1''"

text \<open>A workspace id of 0 is falsy.\<close>

definition scoutingEntriesStorageKey :: "int option \<Rightarrow> string" where
  "scoutingEntriesStorageKey workspaceId = (case num_or workspaceId None of
       Some w \<Rightarrow> SCOUTING_ENTRIES_STORAGE @ '':w'' @ int_str w
     | None \<Rightarrow> SCOUTING_ENTRIES_STORAGE)"

text \<open>The readers take one environment per element, because each call may draw its own random id.\<close>

definition parseStoredEntries :: "(nat \<Rightarrow> js_env) \<Rightarrow> jtext option \<Rightarrow> saved_entry list" where
  "parseStoredEntries envs raw = (case raw of None \<Rightarrow> []
     | Some t \<Rightarrow> if text_empty t then [] else (case json_parse t of
           Some (JArr vs) \<Rightarrow>
             take 600 (List.map_filter (\<lambda>(i, v). normalizeEntry (envs i) v) (enumerate 0 vs))
         | _ \<Rightarrow> []))"

text \<open>\<open>a || b\<close> on stored texts.\<close>

definition text_or :: "jtext option \<Rightarrow> jtext option \<Rightarrow> jtext option" where
  "text_or a b = (case a of None \<Rightarrow> b | Some t \<Rightarrow> if text_empty t then b else Some t)"

definition readStoredEntries :: "(nat \<Rightarrow> js_env) \<Rightarrow> local_store \<Rightarrow> int option \<Rightarrow> saved_entry list" where
  "readStoredEntries envs ls workspaceId =
     (let unscoped = text_or (storageGet ls SCOUTING_ENTRIES_STORAGE)
            (storageGet ls SCOUTING_ENTRIES_STORAGE_LEGACY)
      in if num_or workspaceId None = None then parseStoredEntries envs unscoped
         else (case storageGet ls (scoutingEntriesStorageKey workspaceId) of
             Some scoped \<Rightarrow> parseStoredEntries envs (Some scoped)
           | None \<Rightarrow> filter (\<lambda>e. normalizeRoomKey (opt_str (e_room_key e)) = [])
               (parseStoredEntries envs unscoped)))"

definition file_char :: "char \<Rightarrow> bool" where
  "file_char c \<longleftrightarrow> is_digit c \<or> is_lower_alpha c \<or> is_upper_alpha c \<or> c = CHR ''_'' \<or> c = CHR ''-''"

text \<open>The name of an export; \<open>isoNow\<close> is \<open>new Date().toISOString()\<close>.\<close>

definition entryFileName :: "string \<Rightarrow> string \<Rightarrow> string \<Rightarrow> string" where
  "entryFileName eventKey scoutProfile isoNow =
     (let safeEvent = replace_runs (\<lambda>c. \<not> file_char c) ''-'' (str_or eventKey ''scouting'');
          safeScout = js_lower (replace_runs (\<lambda>c. \<not> file_char c) ''-''
            (str_or (normalizeScoutProfile scoutProfile) ''scout''));
          stamp = map (\<lambda>c. if c = CHR '':'' \<or> c = CHR ''.'' then CHR ''-'' else c) isoNow
      in ''scouting-'' @ safeEvent @ ''-'' @ safeScout @ ''-'' @ stamp @ ''.json'')"

section \<open>Matches and teams\<close>

definition middle_dot :: string where
  "middle_dot = [CHR '' '', CHR 0xB7, CHR '' '']"

definition teamLabel :: "schedule_team \<Rightarrow> string" where
  "teamLabel team =
     (let nick = (if opt_str (st_nickname team) = [] then [] else middle_dot @ opt_str (st_nickname team))
      in if st_team_number team \<noteq> 0 then ''#'' @ int_str (st_team_number team) @ nick
         else (case teamNumberFromTeamKey (st_team_key team) of
             Some n \<Rightarrow> ''#'' @ int_str n @ nick
           | None \<Rightarrow> js_upper (st_team_key team) @ nick))"

definition scheduled_or_0 :: "schedule_item \<Rightarrow> int" where
  "scheduled_or_0 r = nullish (num_or (m_scheduled_time r) None) 0"

definition preferredMatchKey :: "schedule_item list \<Rightarrow> int \<Rightarrow> string" where
  "preferredMatchKey rows nowMs =
     (let ordered = js_sort (\<lambda>a b. scheduled_or_0 a - scheduled_or_0 b) rows;
          state = (\<lambda>r. t_state (liveTimerLabel (matchStartTime (Some r)) nowMs))
      in case find (\<lambda>r. state r = TLive) ordered of Some r \<Rightarrow> m_match_key r
         | None \<Rightarrow> (case find (\<lambda>r. state r = TUpcoming) ordered of Some r \<Rightarrow> m_match_key r
           | None \<Rightarrow> (case rows of [] \<Rightarrow> [] | r # _ \<Rightarrow> m_match_key r)))"

definition normalizeCompLevel :: "string \<Rightarrow> string" where
  "normalizeCompLevel compLevel = js_lower (js_trim compLevel)"

definition compLevelLabel :: "string \<Rightarrow> string" where
  "compLevelLabel compLevel =
     (let n = normalizeCompLevel compLevel
      in if n = ''qm'' then ''Qualification''
         else if n = ''ef'' then ''Eighth Finals''
         else if n = ''qf'' then ''Quarterfinal''
         else if n = ''sf'' then ''Semifinal''
         else if n = ''f'' then ''Final''
         else if n = ''playoff'' \<or> n = ''elim'' \<or> n = ''elimination'' then ''Playoff''
         else titleizeKey (str_or n ''Match''))"

definition inferWinnerAlliance :: "schedule_item \<Rightarrow> int \<Rightarrow> winner option" where
  "inferWinnerAlliance m nowMs = (case m_winner_alliance m of Some w \<Rightarrow> Some w
     | None \<Rightarrow>
        (let red = nullish (m_red_score m) 0; blue = nullish (m_blue_score m) 0
         in if \<not> inferMatchCompleted (Some m) nowMs \<or> \<not> matchHasScores (Some m) then None
            else if red > blue then Some WRed
            else if blue > red then Some WBlue else Some WTie))"

definition teamAllianceForMatch :: "schedule_item \<Rightarrow> string \<Rightarrow> alliance option" where
  "teamAllianceForMatch m teamKey =
     (let n = js_lower (js_trim teamKey)
      in if n = [] then None
         else if list_ex (\<lambda>t. js_lower (st_team_key t) = n) (m_red m) then Some Red
         else if list_ex (\<lambda>t. js_lower (st_team_key t) = n) (m_blue m) then Some Blue
         else None)"

definition team_option_of :: "alliance \<Rightarrow> schedule_team \<Rightarrow> team_option" where
  "team_option_of a t = \<lparr>to_team_key = js_lower (st_team_key t), to_team_label = teamLabel t,
     to_alliance = a, to_station = some_str (opt_str (st_station t))\<rparr>"

definition parseTeamOptions :: "schedule_item option \<Rightarrow> team_option list" where
  "parseTeamOptions matchRow = (case matchRow of None \<Rightarrow> []
     | Some m \<Rightarrow> map (team_option_of Red) (m_red m) @ map (team_option_of Blue) (m_blue m))"

definition scoutingTeamLabel :: "string \<Rightarrow> string" where
  "scoutingTeamLabel key = (case teamNumberFromTeamKey key of
     Some n \<Rightarrow> ''#'' @ int_str n | None \<Rightarrow> ''Team'')"

section \<open>Merging lists of reports\<close>

definition newest_first :: "saved_entry \<Rightarrow> saved_entry \<Rightarrow> int" where
  "newest_first a b = e_saved_at_ms b - e_saved_at_ms a"

definition merge_in :: "saved_entry \<Rightarrow> (string, saved_entry) jsmap \<Rightarrow> (string, saved_entry) jsmap" where
  "merge_in e m =
     (let key = (if map_has m (e_id e)
            then e_id e @ ''-'' @ int_str (e_saved_at_ms e) @ ''-'' @ e_team_key e else e_id e)
      in map_set key (e\<lparr>e_id := key\<rparr>) m)"

definition index_entries :: "saved_entry list \<Rightarrow> (string, saved_entry) jsmap" where
  "index_entries es = fold (\<lambda>e. map_set (e_id e) e) es []"

definition mergeEntries :: "saved_entry list \<Rightarrow> saved_entry list \<Rightarrow> saved_entry list" where
  "mergeEntries existing incoming =
     take 600 (js_sort newest_first (map_values (fold merge_in incoming (index_entries existing))))"

definition opt_or :: "'a option \<Rightarrow> 'a option \<Rightarrow> 'a option" where
  "opt_or a b = (case a of None \<Rightarrow> b | Some x \<Rightarrow> Some x)"

definition keepLocalAnalytics :: "saved_entry \<Rightarrow> saved_entry option \<Rightarrow> saved_entry" where
  "keepLocalAnalytics incoming local = (case local of None \<Rightarrow> incoming
     | Some l \<Rightarrow> incoming\<lparr>e_api_snapshot := opt_or (e_api_snapshot incoming) (e_api_snapshot l),
                         e_api_rating := opt_or (e_api_rating incoming) (e_api_rating l)\<rparr>)"

definition mergeEntry :: "js_env \<Rightarrow> saved_entry list \<Rightarrow> saved_entry \<Rightarrow> saved_entry list" where
  "mergeEntry env existing incoming =
     (case normalizeEntry env (JObj (entry_raw incoming)) of None \<Rightarrow> existing
      | Some n \<Rightarrow>
         (let m = index_entries existing
          in take 600 (js_sort newest_first (map_values
               (map_set (e_id n) (keepLocalAnalytics n (map_get m (e_id n))) m)))))"

record room_record =
  rr_room_key :: "string option"
  rr_entry :: jsval

definition entry_of_record :: "js_env \<Rightarrow> string \<Rightarrow> room_record \<Rightarrow> saved_entry option" where
  "entry_of_record env fallback rec = (case normalizeEntry env (rr_entry rec) of None \<Rightarrow> None
     | Some parsed \<Rightarrow>
        (let recordRoomKey = normalizeRoomKey (opt_str (rr_room_key rec))
         in Some (parsed\<lparr>e_room_key := some_str (str_or recordRoomKey
                (str_or fallback (opt_str (e_room_key parsed)))), e_server_synced := True\<rparr>)))"

definition entriesFromRoomRecords ::
    "(nat \<Rightarrow> js_env) \<Rightarrow> room_record list \<Rightarrow> string option \<Rightarrow> saved_entry list" where
  "entriesFromRoomRecords envs records fallbackRoomKey =
     (let fallback = normalizeRoomKey (opt_str fallbackRoomKey)
      in mergeEntries [] (List.map_filter (\<lambda>(i, r). entry_of_record (envs i) fallback r)
           (enumerate 0 records)))"

definition room_of :: "saved_entry \<Rightarrow> string" where
  "room_of e = normalizeRoomKey (opt_str (e_room_key e))"

definition stripEntriesForRoom :: "saved_entry list \<Rightarrow> string \<Rightarrow> saved_entry list" where
  "stripEntriesForRoom entries roomKey =
     (let n = normalizeRoomKey roomKey
      in if n = [] then entries else filter (\<lambda>e. room_of e \<noteq> n \<or> \<not> e_server_synced e) entries)"

definition newerOnPhone :: "(string, saved_entry) jsmap \<Rightarrow> saved_entry \<Rightarrow> bool" where
  "newerOnPhone localById server = (case map_get localById (e_id server) of None \<Rightarrow> False
     | Some l \<Rightarrow> \<not> e_server_synced l \<and> e_saved_at_ms l > e_saved_at_ms server)"

definition replaceRoomEntries ::
    "saved_entry list \<Rightarrow> string \<Rightarrow> saved_entry list \<Rightarrow> saved_entry list" where
  "replaceRoomEntries entries roomKey snapshot =
     (let localById = index_entries entries;
          fromServer = filter (\<lambda>s. \<not> newerOnPhone localById s) snapshot;
          serverIds = set (map e_id fromServer)
      in mergeEntries
           (filter (\<lambda>e. e_id e \<notin> serverIds) (stripEntriesForRoom entries roomKey))
           (map (\<lambda>s. keepLocalAnalytics s (map_get localById (e_id s))) fromServer))"

definition withReportsFromOtherTabs :: "saved_entry list \<Rightarrow> saved_entry list \<Rightarrow> saved_entry list" where
  "withReportsFromOtherTabs entries stored =
     (let known = set (map e_id entries);
          extra = filter (\<lambda>e. e_id e \<notin> known) stored
      in if extra = [] then entries else take 600 (js_sort newest_first (entries @ extra)))"

section \<open>Facts about the merges\<close>

lemma newest_first_orders: "orders_by newest_first (\<lambda>e. - e_saved_at_ms e)"
  by (auto simp: orders_by_def newest_first_def)

text \<open>Newest first, at most 600, each id once.\<close>

definition report_list :: "saved_entry list \<Rightarrow> bool" where
  "report_list es \<longleftrightarrow> length es \<le> 600 \<and> distinct (map e_id es) \<and>
     sorted (map (\<lambda>e. - e_saved_at_ms e) es)"

text \<open>An index whose keys are the ids of its entries.\<close>

definition keyed :: "(string, saved_entry) jsmap \<Rightarrow> bool" where
  "keyed m \<longleftrightarrow> map_ok m \<and> (\<forall>(k, e) \<in> set m. e_id e = k)"

lemma keyed_Nil [simp]: "keyed []"
  by (simp add: keyed_def)

lemma set_map_set: "set (map_set k v m) \<subseteq> insert (k, v) (set m)"
  by (induction m) (auto split: if_splits)

lemma keyed_map_set: "keyed m \<Longrightarrow> e_id e = k \<Longrightarrow> keyed (map_set k e m)"
  using set_map_set [of k e m] by (auto simp: keyed_def map_ok_set)

lemma keyed_index: "keyed (index_entries es)"
proof -
  have "keyed m \<Longrightarrow> keyed (fold (\<lambda>e. map_set (e_id e) e) es m)" for m
    by (induction es arbitrary: m) (simp_all add: keyed_map_set)
  then show ?thesis by (simp add: index_entries_def)
qed

lemma keyed_merge: "keyed m \<Longrightarrow> keyed (fold merge_in es m)"
  by (induction es arbitrary: m) (simp_all add: merge_in_def Let_def keyed_map_set)

lemma keyed_ids: "keyed m \<Longrightarrow> map e_id (map_values m) = map fst m"
  by (auto simp: keyed_def map_values_def)

lemma keyed_distinct: "keyed m \<Longrightarrow> distinct (map e_id (map_values m))"
  by (simp add: keyed_ids) (simp add: keyed_def map_ok_def)

lemma report_list_take:
  assumes "distinct (map e_id es)"
  shows "report_list (take 600 (js_sort newest_first es))"
proof -
  have "sorted (map (\<lambda>e. - e_saved_at_ms e) (js_sort newest_first es))"
    by (rule sorted_js_sort [OF newest_first_orders])
  then show ?thesis using assms
    by (simp add: report_list_def take_map [symmetric] sorted_wrt_take distinct_take)
qed

lemma report_list_merge: "report_list (mergeEntries existing incoming)"
  unfolding mergeEntries_def
  by (rule report_list_take, rule keyed_distinct, rule keyed_merge, rule keyed_index)

text \<open>With distinct ids nothing is renamed and nothing overwritten.\<close>

lemma index_entries_distinct:
  "distinct (map e_id es) \<Longrightarrow> index_entries es = map (\<lambda>e. (e_id e, e)) es"
  using fold_map_set_fresh [of e_id es "[]" "\<lambda>e. e"] by (simp add: index_entries_def)

lemma get_index_entries:
  "distinct (map e_id es) \<Longrightarrow> e \<in> set es \<Longrightarrow> map_get (index_entries es) (e_id e) = Some e"
  using jm.get_index_distinct [of "[]" e_id es e "\<lambda>e. e"] by (simp add: index_entries_def)

lemma get_index_entries_in:
  "map_get (index_entries es) k = Some e \<Longrightarrow> e \<in> set es \<and> e_id e = k"
proof -
  assume "map_get (index_entries es) k = Some e"
  then obtain x where "find (\<lambda>x. e_id x = k) (rev es) = Some x" "x = e"
    using jm.get_index [of "[]" e_id "\<lambda>e. e" es k]
    by (auto simp: index_entries_def map_get_def split: option.splits)
  then show ?thesis by (auto simp: find_Some_iff in_set_conv_nth) (metis in_set_conv_nth length_rev nth_mem set_rev)
qed

lemma fold_merge_in_fresh:
  "distinct (map e_id es) \<Longrightarrow> e_id ` set es \<inter> fst ` set m = {} \<Longrightarrow>
     fold merge_in es m = m @ map (\<lambda>e. (e_id e, e)) es"
proof (induction es arbitrary: m)
  case (Cons a es)
  then have "\<not> map_has m (e_id a)" by (auto simp: map_has_def)
  then have "merge_in a m = m @ [(e_id a, a)]"
    by (simp add: merge_in_def Let_def map_set_fresh map_has_def)
  with Cons show ?case by auto
qed simp

lemma mergeEntries_distinct:
  assumes "distinct (map e_id (existing @ incoming))"
  shows "mergeEntries existing incoming = take 600 (js_sort newest_first (existing @ incoming))"
proof -
  have i: "index_entries existing = map (\<lambda>e. (e_id e, e)) existing"
    using assms by (simp add: index_entries_distinct)
  have "fold merge_in incoming (index_entries existing) =
      index_entries existing @ map (\<lambda>e. (e_id e, e)) incoming"
    by (rule fold_merge_in_fresh) (use assms in \<open>simp_all add: i image_image Int_commute\<close>)
  then have "fold merge_in incoming (index_entries existing) =
      map (\<lambda>e. (e_id e, e)) existing @ map (\<lambda>e. (e_id e, e)) incoming"
    by (simp only: i)
  then show ?thesis by (simp add: mergeEntries_def map_values_def o_def)
qed

lemma keepLocalAnalytics_same [simp]:
  "e_id (keepLocalAnalytics s l) = e_id s"
  "e_saved_at_ms (keepLocalAnalytics s l) = e_saved_at_ms s"
  "e_form (keepLocalAnalytics s l) = e_form s"
  "e_server_synced (keepLocalAnalytics s l) = e_server_synced s"
  by (simp_all add: keepLocalAnalytics_def split: option.split)

lemma set_stripEntriesForRoom:
  "normalizeRoomKey room \<noteq> [] \<Longrightarrow> set (stripEntriesForRoom es room) =
     {e \<in> set es. room_of e \<noteq> normalizeRoomKey room \<or> \<not> e_server_synced e}"
  by (simp add: stripEntriesForRoom_def Let_def)

lemma strip_distinct: "distinct (map e_id es) \<Longrightarrow> distinct (map e_id (stripEntriesForRoom es room))"
  by (simp add: stripEntriesForRoom_def Let_def distinct_map_filter)

text \<open>What the list does not keep is no newer than anything it keeps.\<close>

lemma newest_kept:
  assumes "k \<in> set (take n (js_sort newest_first es))" and "e \<in> set es"
    and "e \<notin> set (take n (js_sort newest_first es))"
  shows "e_saved_at_ms e \<le> e_saved_at_ms k"
proof -
  let ?s = "js_sort newest_first es"
  have "sorted (map (\<lambda>e. - e_saved_at_ms e) (take n ?s) @ map (\<lambda>e. - e_saved_at_ms e) (drop n ?s))"
    using sorted_js_sort [OF newest_first_orders, of es] by (metis append_take_drop_id map_append)
  moreover have "e \<in> set (drop n ?s)"
    using assms(2,3) by (metis Un_iff append_take_drop_id set_append set_js_sort)
  ultimately show ?thesis using assms(1) by (auto simp: sorted_append)
qed

lemma card_newest: "distinct es \<Longrightarrow> card (set (take n (js_sort f es))) = min n (card (set es))"
  using distinct_map_js_sort [of id f es] by (simp add: distinct_card)

text \<open>With distinct ids, the phone's entry of an id.\<close>

lemma get_index_find:
  assumes "distinct (map e_id es)"
  shows "map_get (index_entries es) k = find (\<lambda>e. e_id e = k) es"
proof (cases "find (\<lambda>e. e_id e = k) es")
  case None
  then have "map_get (index_entries es) k = None" using get_index_entries_in [of es k]
    by (cases "map_get (index_entries es) k") (auto simp: find_None_iff)
  with None show ?thesis by simp
next
  case (Some e)
  then have "e \<in> set es" "e_id e = k" by (auto simp: find_Some_iff)
  with get_index_entries [OF assms] Some show ?thesis by auto
qed

definition newer_here :: "saved_entry list \<Rightarrow> saved_entry \<Rightarrow> bool" where
  "newer_here entries s \<longleftrightarrow>
     (\<exists>e \<in> set entries. e_id e = e_id s \<and> \<not> e_server_synced e \<and> e_saved_at_ms s < e_saved_at_ms e)"

lemma newer_here: "distinct (map e_id entries) \<Longrightarrow> newerOnPhone (index_entries entries) s = newer_here entries s"
  using get_index_entries_in [of entries "e_id s"] get_index_entries [of entries]
  unfolding newerOnPhone_def newer_here_def
  by (smt (verit, best) option.case(1) option.case(2) option.exhaust option.inject)

lemma not_image_iff: "f y \<notin> f ` {x \<in> A. \<not> P x} \<longleftrightarrow> (\<forall>x \<in> A. f x = f y \<longrightarrow> P x)"
  unfolding image_iff by (simp, metis)

text \<open>What a snapshot makes of a list, before the newest 600 are taken of it.\<close>

definition after_snapshot :: "saved_entry list \<Rightarrow> string \<Rightarrow> saved_entry list \<Rightarrow> saved_entry set" where
  "after_snapshot entries room snapshot =
     {e \<in> set entries. (\<not> e_server_synced e \<or> room_of e \<noteq> normalizeRoomKey room) \<and>
        (\<forall>s \<in> set snapshot. e_id s = e_id e \<longrightarrow> newer_here entries s)} \<union>
     {keepLocalAnalytics s (find (\<lambda>e. e_id e = e_id s) entries) | s. s \<in> set snapshot \<and> \<not> newer_here entries s}"

lemma replaceRoomEntries_newest:
  assumes "distinct (map e_id entries)" and "distinct (map e_id snapshot)" and "normalizeRoomKey room \<noteq> []"
  shows "\<exists>es. replaceRoomEntries entries room snapshot = take 600 (js_sort newest_first es) \<and>
    distinct es \<and> set es = after_snapshot entries room snapshot \<and>
    length es \<le> length entries + length snapshot"
proof -
  let ?take = "filter (\<lambda>s. \<not> newer_here entries s) snapshot"
  let ?old = "filter (\<lambda>e. e_id e \<notin> set (map e_id ?take)) (stripEntriesForRoom entries room)"
  let ?new = "map (\<lambda>s. keepLocalAnalytics s (find (\<lambda>e. e_id e = e_id s) entries)) ?take"
  have ids: "map e_id ?new = map e_id ?take" by simp
  have d: "distinct (map e_id (?old @ ?new))"
    using assms(1,2) strip_distinct [of entries room] unfolding map_append ids
    by (auto simp: distinct_map_filter)
  have "replaceRoomEntries entries room snapshot = mergeEntries ?old ?new"
    by (simp add: replaceRoomEntries_def Let_def newer_here [OF assms(1)] get_index_find [OF assms(1)])
  moreover have "set ?old = {e \<in> set entries. (\<not> e_server_synced e \<or> room_of e \<noteq> normalizeRoomKey room) \<and>
        (\<forall>s \<in> set snapshot. e_id s = e_id e \<longrightarrow> newer_here entries s)}"
    by (auto simp: set_stripEntriesForRoom [OF assms(3)] not_image_iff)
  then have "set (?old @ ?new) = after_snapshot entries room snapshot"
    unfolding after_snapshot_def set_append by (simp add: setcompr_eq_image)
  moreover have "distinct (?old @ ?new)" using d unfolding distinct_map by blast
  moreover have "length (?old @ ?new) \<le> length entries + length snapshot"
    unfolding length_append length_map stripEntriesForRoom_def Let_def
    by (intro add_mono order_trans [OF length_filter_le]) (simp_all split: if_split)
  ultimately show ?thesis using mergeEntries_distinct [OF d] by (intro exI [of _ "?old @ ?new"] conjI) simp_all
qed

text \<open>A report the server has not acknowledged is there itself, or as the snapshot's copy of it.\<close>

lemma after_snapshot_keeps:
  assumes "distinct (map e_id entries)" and "e \<in> set entries"
    and "\<not> e_server_synced e \<or> room_of e \<noteq> normalizeRoomKey room"
  shows "e \<in> after_snapshot entries room snapshot \<or>
    (\<exists>s \<in> set snapshot. e_id s = e_id e \<and> (e_server_synced e \<or> e_saved_at_ms e \<le> e_saved_at_ms s) \<and>
       keepLocalAnalytics s (Some e) \<in> after_snapshot entries room snapshot)"
proof (cases "\<forall>s \<in> set snapshot. e_id s = e_id e \<longrightarrow> newer_here entries s")
  case True
  with assms(2,3) show ?thesis by (simp add: after_snapshot_def)
next
  case False
  then obtain s where s: "s \<in> set snapshot" "e_id s = e_id e" "\<not> newer_here entries s" by blast
  have "find (\<lambda>x. e_id x = e_id s) entries = Some e"
    using get_index_find [OF assms(1)] get_index_entries [OF assms(1,2)] s(2) by simp
  with s have "keepLocalAnalytics s (Some e) \<in> after_snapshot entries room snapshot"
    by (force simp: after_snapshot_def)
  moreover have "e_server_synced e \<or> e_saved_at_ms e \<le> e_saved_at_ms s"
    using s assms(2) by (force simp: newer_here_def)
  ultimately show ?thesis using s by blast
qed

text \<open>Claim C10: what a room snapshot makes of the list of reports, exactly, when no two entries of the
  list and no two of the snapshot share an id.  The result is the newest 600 of: every entry that is not
  acknowledged or belongs to another room, unless the snapshot has its id and the phone's own is not an
  unacknowledged one saved later; and every other row of the snapshot, with the analytics the phone had
  worked out for its id where the row has none.  Nothing else is in it, and no id twice.  So as long as
  entries and snapshot together are at most 600, no unacknowledged report is lost: it is still in the
  list, or the snapshot's copy of it, saved no earlier, is.  Above 600 what is left out is no newer than
  anything kept, and that may be an unacknowledged report.\<close>

theorem snapshot_keeps_unacknowledged:
  assumes "distinct (map e_id entries)" and "distinct (map e_id snapshot)" and "normalizeRoomKey room \<noteq> []"
  shows "let result = replaceRoomEntries entries room snapshot;
      newer = (\<lambda>s. \<exists>e \<in> set entries. e_id e = e_id s \<and> \<not> e_server_synced e \<and> e_saved_at_ms s < e_saved_at_ms e);
      expected = {e \<in> set entries. (\<not> e_server_synced e \<or> room_of e \<noteq> normalizeRoomKey room) \<and>
            (\<forall>s \<in> set snapshot. e_id s = e_id e \<longrightarrow> newer s)} \<union>
          {keepLocalAnalytics s (find (\<lambda>e. e_id e = e_id s) entries) | s. s \<in> set snapshot \<and> \<not> newer s}
    in report_list result \<and> set result \<subseteq> expected \<and> card (set result) = min 600 (card expected) \<and>
      (\<forall>e \<in> expected - set result. \<forall>k \<in> set result. e_saved_at_ms e \<le> e_saved_at_ms k) \<and>
      (length entries + length snapshot \<le> 600 \<longrightarrow> set result = expected \<and>
        (\<forall>e \<in> set entries. \<not> e_server_synced e \<longrightarrow> e \<in> set result \<or>
           (\<exists>s \<in> set snapshot. e_id s = e_id e \<and> e_saved_at_ms e \<le> e_saved_at_ms s \<and>
              keepLocalAnalytics s (Some e) \<in> set result)))"
proof -
  let ?r = "replaceRoomEntries entries room snapshot" and ?x = "after_snapshot entries room snapshot"
  obtain es where r: "?r = take 600 (js_sort newest_first es)" and es: "distinct es" "set es = ?x"
      "length es \<le> length entries + length snapshot"
    using replaceRoomEntries_newest [OF assms] by blast
  have "report_list ?r" by (simp add: replaceRoomEntries_def Let_def report_list_merge)
  moreover have "card (set ?r) = min 600 (card ?x)"
    using card_newest [OF es(1), of 600 newest_first] by (simp only: r es(2))
  moreover have "set ?r \<subseteq> ?x" unfolding r es(2) [symmetric] by (auto dest: in_set_takeD)
  ultimately have all: "report_list ?r \<and> set ?r \<subseteq> ?x \<and> card (set ?r) = min 600 (card ?x)" by blast
  have older: "\<forall>e \<in> ?x - set ?r. \<forall>k \<in> set ?r. e_saved_at_ms e \<le> e_saved_at_ms k"
    using newest_kept [of _ 600 es] unfolding r es(2) [symmetric] by blast
  have whole: "set ?r = ?x" if "length entries + length snapshot \<le> 600"
    using that es(3) unfolding r es(2) [symmetric] by simp
  have "length entries + length snapshot \<le> 600 \<longrightarrow> set ?r = ?x \<and>
      (\<forall>e \<in> set entries. \<not> e_server_synced e \<longrightarrow> e \<in> set ?r \<or>
         (\<exists>s \<in> set snapshot. e_id s = e_id e \<and> e_saved_at_ms e \<le> e_saved_at_ms s \<and>
            keepLocalAnalytics s (Some e) \<in> set ?r))"
    using whole after_snapshot_keeps [OF assms(1), of _ room snapshot] by blast
  with all older show ?thesis unfolding Let_def after_snapshot_def newer_here_def by blast
qed

definition example_entry :: "string \<Rightarrow> int \<Rightarrow> bool \<Rightarrow> saved_entry" where
  "example_entry i saved synced = (buildSavedScoutingEntry \<lparr>env_now = 1, env_random = ''k3'',
     env_nstr = \<lambda>_. []\<rparr> example_payload)\<lparr>e_id := i, e_saved_at_ms := saved, e_server_synced := synced\<rparr>"

lemma example_entry_sel [simp]:
  "e_id (example_entry i saved b) = i" "e_saved_at_ms (example_entry i saved b) = saved"
  "e_server_synced (example_entry i saved b) = b"
  by (simp_all add: example_entry_def)

lemma snapshot_keeps_unacknowledged_witness:
  "set (replaceRoomEntries [example_entry ''a'' 5 False, example_entry ''b'' 9 False] ''room-a''
     [example_entry ''b'' 3 True]) = {example_entry ''a'' 5 False, example_entry ''b'' 9 False}"
proof -
  have room: "normalizeRoomKey ''room-a'' \<noteq> []" by code_simp
  have "distinct (map e_id [example_entry ''a'' 5 False, example_entry ''b'' 9 False])"
    "distinct (map e_id [example_entry ''b'' 3 True])" by simp_all
  from snapshot_keeps_unacknowledged [OF this room] show ?thesis by (auto simp: Let_def)
qed

text \<open>whatever two lists are merged, the result is newest first, holds at most 600
  entries and no id twice; with ids that do not clash nothing is lost below 600 entries, and above
  that every entry left out is no newer than every entry kept.\<close>

theorem merge_entries_shape:
  "report_list (mergeEntries existing incoming) \<and>
   (distinct (map e_id (existing @ incoming)) \<longrightarrow>
      set (mergeEntries existing incoming) \<subseteq> set existing \<union> set incoming \<and>
      (length existing + length incoming \<le> 600 \<longrightarrow>
         set (mergeEntries existing incoming) = set existing \<union> set incoming) \<and>
      (\<forall>e \<in> (set existing \<union> set incoming) - set (mergeEntries existing incoming).
         \<forall>k \<in> set (mergeEntries existing incoming). e_saved_at_ms e \<le> e_saved_at_ms k))"
  using report_list_merge [of existing incoming] newest_kept [of _ 600 "existing @ incoming"]
  by (auto simp: mergeEntries_distinct dest: in_set_takeD)

lemma merge_entries_shape_witness:
  "set (mergeEntries [example_entry ''a'' 5 True] [example_entry ''b'' 9 True]) =
     {example_entry ''a'' 5 True, example_entry ''b'' 9 True}"
  using merge_entries_shape [of "[example_entry ''a'' 5 True]" "[example_entry ''b'' 9 True]"] by auto

subsection \<open>One entry at a time\<close>

lemma set_map_set_ok: "map_ok m \<Longrightarrow> set (map_set k v m) = insert (k, v) {p \<in> set m. fst p \<noteq> k}"
proof (induction m)
  case (Cons p m)
  then show ?case by (cases p) (auto simp: map_ok_def image_iff)
qed simp

lemma map_values_set:
  assumes "distinct (map e_id es)"
  shows "set (map_values (map_set (e_id n) n (index_entries es))) =
    insert n {e \<in> set es. e_id e \<noteq> e_id n}"
proof -
  have ok: "map_ok (index_entries es)" using keyed_index by (simp add: keyed_def)
  have "snd ` {p \<in> set (index_entries es). fst p \<noteq> e_id n} = {e \<in> set es. e_id e \<noteq> e_id n}"
    using assms by (force simp: index_entries_distinct)
  then show ?thesis by (simp add: map_values_def set_map_set_ok [OF ok])
qed

lemma distinct_map_values_set:
  "distinct (map e_id (map_values (map_set (e_id n) n (index_entries es))))"
  by (rule keyed_distinct, rule keyed_map_set, rule keyed_index, rule refl)

lemma length_map_set: "length (map_set k v m) \<le> Suc (length m)"
  by (induction m) auto

text \<open>an acknowledged save or a live update of one report replaces that report and
  nothing else: every other report stays, the report itself is there as received, with the analytics
  the phone already had where the server's copy has none, and the list keeps its shape.\<close>

theorem merge_entry_replaces_one:
  assumes "entry_wf incoming" and "distinct (map e_id existing)" and "length existing < 600"
  shows "let r = mergeEntry env existing incoming;
             own = keepLocalAnalytics incoming (map_get (index_entries existing) (e_id incoming))
         in set r = insert own {e \<in> set existing. e_id e \<noteq> e_id incoming} \<and> report_list r \<and>
            e_form own = e_form incoming \<and>
            (e_api_snapshot incoming \<noteq> None \<longrightarrow> e_api_snapshot own = e_api_snapshot incoming) \<and>
            (\<forall>l \<in> set existing. e_id l = e_id incoming \<and> e_api_snapshot incoming = None \<longrightarrow>
               e_api_snapshot own = e_api_snapshot l)"
proof -
  define own where "own = keepLocalAnalytics incoming (map_get (index_entries existing) (e_id incoming))"
  define vs where "vs = map_values (map_set (e_id own) own (index_entries existing))"
  have i: "e_id own = e_id incoming" by (simp add: own_def)
  have r: "mergeEntry env existing incoming = take 600 (js_sort newest_first vs)"
    using read_entry [OF assms(1)] by (simp add: mergeEntry_def Let_def vs_def own_def)
  have "length vs \<le> Suc (length existing)"
    using length_map_set [of "e_id own" own "index_entries existing"]
    by (simp add: vs_def map_values_def index_entries_distinct assms(2))
  then have "set (take 600 (js_sort newest_first vs)) = set vs"
    using assms(3) by simp
  moreover have "report_list (take 600 (js_sort newest_first vs))"
    unfolding vs_def by (rule report_list_take [OF distinct_map_values_set])
  moreover have "e_form own = e_form incoming" by (simp add: own_def)
  moreover have "e_api_snapshot own = e_api_snapshot incoming" if "e_api_snapshot incoming \<noteq> None"
    using that by (auto simp: own_def keepLocalAnalytics_def opt_or_def split: option.splits)
  moreover have "e_api_snapshot own = e_api_snapshot l"
    if "l \<in> set existing" "e_id l = e_id incoming" "e_api_snapshot incoming = None" for l
    using get_index_entries [OF assms(2) that(1)] that(2,3)
    by (simp add: own_def keepLocalAnalytics_def opt_or_def)
  ultimately show ?thesis
    using map_values_set [OF assms(2), of own] i
    unfolding Let_def r own_def [symmetric] by (auto simp: vs_def)
qed

lemma merge_entry_replaces_one_witness:
  "report_list (mergeEntry \<lparr>env_now = 2, env_random = [], env_nstr = \<lambda>_. []\<rparr> [example_entry ''a'' 5 True]
     (buildSavedScoutingEntry \<lparr>env_now = 1, env_random = ''k3'', env_nstr = \<lambda>_. []\<rparr> example_payload))"
  using merge_entry_replaces_one [OF built_entry_wf [OF example_payload_ok],
      of "[example_entry ''a'' 5 True]"] by (simp add: Let_def)

text \<open>saving in one tab never erases a report saved in another: every report of this
  tab's list stays as it is, every stored report whose id this tab does not know is added, no id
  appears twice and, when something was added, the list is newest first.\<close>

theorem other_tabs_keep_reports:
  assumes "distinct (map e_id entries)" and "distinct (map e_id stored)"
    and "length entries + length stored \<le> 600"
  shows "set (withReportsFromOtherTabs entries stored) =
      set entries \<union> {e \<in> set stored. e_id e \<notin> e_id ` set entries} \<and>
    distinct (map e_id (withReportsFromOtherTabs entries stored)) \<and>
    (\<forall>e \<in> set stored. e_id e \<in> e_id ` set (withReportsFromOtherTabs entries stored)) \<and>
    (\<not> e_id ` set stored \<subseteq> e_id ` set entries \<longrightarrow> report_list (withReportsFromOtherTabs entries stored))"
proof -
  define extra where "extra = filter (\<lambda>e. e_id e \<notin> set (map e_id entries)) stored"
  have new: "i \<notin> set (map e_id entries)" if i: "i \<in> set (map e_id extra)" for i
  proof -
    obtain x where "x \<in> set extra" "i = e_id x" using i by auto
    then show ?thesis by (simp add: extra_def)
  qed
  have "distinct (map e_id extra)" using assms(2) by (simp add: extra_def distinct_map_filter)
  with assms(1) new have d: "distinct (map e_id (entries @ extra))"
    unfolding map_append distinct_append by blast
  have l: "length (entries @ extra) \<le> 600"
    using assms(3) length_filter_le [of "\<lambda>e. e_id e \<notin> set (map e_id entries)" stored]
    unfolding extra_def length_append by linarith
  have w: "withReportsFromOtherTabs entries stored =
      (if extra = [] then entries else take 600 (js_sort newest_first (entries @ extra)))"
    by (simp add: withReportsFromOtherTabs_def Let_def extra_def)
  have s: "set (withReportsFromOtherTabs entries stored) = set entries \<union> set extra"
    using l by (simp add: w)
  have "distinct (map e_id (withReportsFromOtherTabs entries stored))"
    using d report_list_take [OF d] by (simp add: w report_list_def)
  moreover have "report_list (withReportsFromOtherTabs entries stored)"
    if "\<not> e_id ` set stored \<subseteq> e_id ` set entries"
  proof -
    from that have "extra \<noteq> []" by (auto simp: extra_def filter_empty_conv)
    then show ?thesis by (simp add: w report_list_take [OF d, unfolded])
  qed
  ultimately show ?thesis unfolding s by (auto simp: extra_def)
qed

lemma other_tabs_keep_reports_witness:
  "report_list (withReportsFromOtherTabs [example_entry ''a'' 5 False] [example_entry ''b'' 9 False])"
  using other_tabs_keep_reports [of "[example_entry ''a'' 5 False]" "[example_entry ''b'' 9 False]"]
  by simp

section \<open>Facts about the store\<close>

lemma storage_key_inj:
  assumes "v \<noteq> Some 0" and "w \<noteq> Some 0"
    and "scoutingEntriesStorageKey v = scoutingEntriesStorageKey w"
  shows "v = w"
  using assms
  by (auto simp: scoutingEntriesStorageKey_def num_or_def dest: int_str_inj split: option.splits if_splits)

lemma map_filter_enumerate:
  "(\<And>i v. v \<in> set vs \<Longrightarrow> f (i, v) = Some (g v)) \<Longrightarrow>
     List.map_filter f (enumerate n vs) = map g vs"
proof (induction vs arbitrary: n)
  case (Cons a vs)
  have "List.map_filter f (enumerate (Suc n) vs) = map g vs" using Cons by simp
  with Cons.prems [of a n] show ?case by (simp add: List.map_filter_simps)
qed (simp add: List.map_filter_simps)

lemma map_filter_enumerate_map:
  "List.map_filter f (enumerate n (map h es)) = List.map_filter (\<lambda>(i, e). f (i, h e)) (enumerate n es)"
  by (induction es arbitrary: n) (simp_all add: List.map_filter_simps split: option.split)

text \<open>The text of a list of entries.\<close>

definition entries_text :: "saved_entry list \<Rightarrow> jtext" where
  "entries_text es = Json (JArr (map (\<lambda>e. JObj (entry_raw e)) es))"

lemma parse_entries_text:
  assumes "\<forall>e \<in> set es. entry_wf e"
  shows "parseStoredEntries envs (Some (entries_text es)) = take 600 es"
proof -
  have "List.map_filter (\<lambda>(i, e). normalizeEntry (envs i) (JObj (entry_raw e))) (enumerate 0 es) = map (\<lambda>e. e) es"
    by (rule map_filter_enumerate) (use assms in \<open>simp add: read_entry\<close>)
  then show ?thesis
    by (simp add: parseStoredEntries_def entries_text_def map_filter_enumerate_map split_def)
qed

text \<open>each team workspace has its own list.  What one stores is what it reads back, up to
  600 entries; storing it changes what no other workspace reads from a list of its own; and a
  workspace that has stored nothing yet reads only the reports made outside any room.\<close>

theorem workspaces_keep_their_own_reports:
  assumes "\<forall>e \<in> set es. entry_wf e" and "0 < w" and "w' \<noteq> Some 0" and "w' \<noteq> Some w"
    and "storageSet False (scoutingEntriesStorageKey (Some w)) (entries_text es) (Some m) = (okay, ls)"
  shows "okay \<and> readStoredEntries envs ls (Some w) = take 600 es \<and>
    storageGet ls (scoutingEntriesStorageKey w') = storageGet (Some m) (scoutingEntriesStorageKey w') \<and>
    (\<forall>u. u \<noteq> 0 \<and> storageGet ls (scoutingEntriesStorageKey (Some u)) = None \<longrightarrow>
       (\<forall>e \<in> set (readStoredEntries envs ls (Some u)). room_of e = []))"
proof -
  have ls: "okay" "ls = Some (map_set (scoutingEntriesStorageKey (Some w)) (entries_text es) m)"
    using assms(5) by (auto simp: storageSet_def)
  have "scoutingEntriesStorageKey w' \<noteq> scoutingEntriesStorageKey (Some w)"
    using storage_key_inj [of w' "Some w"] assms(2-4) by auto
  then have other: "storageGet ls (scoutingEntriesStorageKey w') = storageGet (Some m) (scoutingEntriesStorageKey w')"
    by (simp add: ls storageGet_def map_get_set)
  have own: "readStoredEntries envs ls (Some w) = take 600 es"
    using assms(2) parse_entries_text [OF assms(1)]
    by (simp add: readStoredEntries_def Let_def num_or_def ls storageGet_def map_get_set)
  have "\<forall>e \<in> set (readStoredEntries envs ls (Some u)). room_of e = []"
    if "u \<noteq> 0" "storageGet ls (scoutingEntriesStorageKey (Some u)) = None" for u
    using that by (auto simp: readStoredEntries_def Let_def num_or_def room_of_def)
  with ls(1) other own show ?thesis by blast
qed

lemma workspaces_keep_their_own_reports_witness:
  "readStoredEntries (\<lambda>_. \<lparr>env_now = 2, env_random = [], env_nstr = \<lambda>_. []\<rparr>)
     (snd (storageSet False (scoutingEntriesStorageKey (Some 7)) (entries_text
        [buildSavedScoutingEntry \<lparr>env_now = 1, env_random = ''k3'', env_nstr = \<lambda>_. []\<rparr> example_payload])
        (Some []))) (Some 7) =
   [buildSavedScoutingEntry \<lparr>env_now = 1, env_random = ''k3'', env_nstr = \<lambda>_. []\<rparr> example_payload]"
  using workspaces_keep_their_own_reports [of
      "[buildSavedScoutingEntry \<lparr>env_now = 1, env_random = ''k3'', env_nstr = \<lambda>_. []\<rparr> example_payload]"
      7 None "[]"] built_entry_wf [OF example_payload_ok]
  by (simp add: storageSet_def)

end
