(* ===== verification/LocalStorage.thy ===== *)
theory LocalStorage
  imports JsValue
begin

text \<open>
  The browser's storage as the app uses it: \<open>src/ScoutingApp/src/utils/apiCacheSpace.ts\<close> (room for
  scouting work) and \<open>features/offline/scoutRecovery.ts\<close> (drafts that could not be written).
  A reachable \<open>localStorage\<close> is an insertion-ordered map from keys to texts with a quota of
  characters; \<open>setItem\<close> throws exactly when the texts and keys would exceed it.  The type of texts is
  a parameter with two measures: \<open>len\<close>, its length, and \<open>stamp\<close>, the number the code reads from the
  head of a saved API copy (0 where there is none); \<open>stored_at\<close> is that number for a string.
\<close>

section \<open>A storage with a quota\<close>

type_synonym 't storage = "(string, 't) jsmap"

definition total_chars :: "('t \<Rightarrow> nat) \<Rightarrow> 't storage \<Rightarrow> nat" where
  "total_chars len m = sum_list (map (\<lambda>(k, v). length k + len v) m)"

text \<open>\<open>setItem\<close>: \<open>None\<close> is the exception.\<close>

definition setItem :: "('t \<Rightarrow> nat) \<Rightarrow> nat \<Rightarrow> string \<Rightarrow> 't \<Rightarrow> 't storage \<Rightarrow> 't storage option" where
  "setItem len quota k v m =
     (if total_chars len (map_set k v m) \<le> quota then Some (map_set k v m) else None)"

section \<open>Saved API copies make room\<close>

definition API_CACHE_PREFIX :: string where
  "API_CACHE_PREFIX = ''scouting_api_cache_v1:''"

definition API_CACHE_BUDGET_CHARS :: nat where
  "API_CACHE_BUDGET_CHARS = 1500000"

definition is_cache_key :: "string \<Rightarrow> bool" where
  "is_cache_key k \<longleftrightarrow> k \<noteq> [] \<and> starts_with k API_CACHE_PREFIX"

record cache_row =
  row_key :: string
  row_chars :: nat
  row_storedAtMs :: int

text \<open>The first match of \<open>/"storedAtMs":(\d+)/\<close> in the first 80 characters.\<close>

fun stamp_in :: "string \<Rightarrow> int" where
  "stamp_in [] = 0"
| "stamp_in (c # cs) =
     (let key = [CHR 0x22] @ ''storedAtMs'' @ [CHR 0x22, CHR '':''];
          digits = takeWhile is_digit (drop (length key) (c # cs))
      in if starts_with (c # cs) key \<and> digits \<noteq> [] then int (dec_val digits) else stamp_in cs)"

definition stored_at :: "string \<Rightarrow> int" where
  "stored_at raw = stamp_in (take 80 raw)"

definition cacheRows :: "('t \<Rightarrow> nat) \<Rightarrow> ('t \<Rightarrow> int) \<Rightarrow> 't storage \<Rightarrow> cache_row list" where
  "cacheRows len stamp m =
     map (\<lambda>(k, v). \<lparr>row_key = k, row_chars = length k + len v, row_storedAtMs = stamp v\<rparr>)
       (filter (\<lambda>(k, _). is_cache_key k) m)"

definition apiCacheChars :: "('t \<Rightarrow> nat) \<Rightarrow> ('t \<Rightarrow> int) \<Rightarrow> 't storage \<Rightarrow> nat" where
  "apiCacheChars len stamp m = sum_list (map row_chars (cacheRows len stamp m))"

text \<open>The loop over the rows, oldest first; the state is what is left, \<open>total\<close> and \<open>freed\<close>.\<close>

fun free_rows :: "int \<Rightarrow> cache_row list \<Rightarrow> 't storage \<times> int \<times> nat \<Rightarrow> 't storage \<times> int \<times> nat" where
  "free_rows target [] st = st"
| "free_rows target (row # rows) (m, chars, freed) =
     (if chars \<le> max 0 target then (m, chars, freed)
      else free_rows target rows
        (map_delete (row_key row) m, chars - int (row_chars row), freed + row_chars row))"

definition freeApiCacheSpace ::
    "('t \<Rightarrow> nat) \<Rightarrow> ('t \<Rightarrow> int) \<Rightarrow> int \<Rightarrow> 't storage \<Rightarrow> 't storage \<times> nat" where
  "freeApiCacheSpace len stamp targetChars m =
     (let rows = js_sort (\<lambda>a b. row_storedAtMs a - row_storedAtMs b) (cacheRows len stamp m)
      in case free_rows targetChars rows (m, int (sum_list (map row_chars rows)), 0) of
           (m', _, freed) \<Rightarrow> (m', freed))"

text \<open>Whether the item was written, and the storage afterwards, also when it throws.\<close>

definition setItemMakingRoom :: "('t \<Rightarrow> nat) \<Rightarrow> ('t \<Rightarrow> int) \<Rightarrow> nat \<Rightarrow> string \<Rightarrow> 't \<Rightarrow> 't storage \<Rightarrow>
    bool \<times> 't storage" where
  "setItemMakingRoom len stamp quota k v m = (case setItem len quota k v m of
       Some m' \<Rightarrow> (True, m')
     | None \<Rightarrow> (case freeApiCacheSpace len stamp 0 m of (m', freed) \<Rightarrow>
         if freed = 0 then (False, m')
         else (case setItem len quota k v m' of Some m'' \<Rightarrow> (True, m'') | None \<Rightarrow> (False, m'))))"

section \<open>Drafts that could not be written\<close>

text \<open>\<open>pending\<close> is the module's map; \<open>store\<close> is \<open>None\<close> where \<open>localStorage\<close> throws.\<close>

record 't recovery =
  pending :: "(string, 't option) jsmap"
  store :: "'t storage option"

definition readRecoverableScoutDraft :: "'t recovery \<Rightarrow> string \<Rightarrow> 't option" where
  "readRecoverableScoutDraft r key = (case map_get (pending r) key of
       Some v \<Rightarrow> v
     | None \<Rightarrow> (case store r of None \<Rightarrow> None | Some m \<Rightarrow> map_get m key))"

definition persistRecoverableScoutDraft :: "('t \<Rightarrow> nat) \<Rightarrow> ('t \<Rightarrow> int) \<Rightarrow> nat \<Rightarrow> string \<Rightarrow> 't option \<Rightarrow>
    't recovery \<Rightarrow> bool \<times> 't recovery" where
  "persistRecoverableScoutDraft len stamp quota key v r =
     (let failed = r\<lparr>pending := map_set key v (pending r)\<rparr>
      in case store r of None \<Rightarrow> (False, failed)
         | Some m \<Rightarrow> (case v of
             None \<Rightarrow> (True, r\<lparr>pending := map_delete key (pending r), store := Some (map_delete key m)\<rparr>)
           | Some t \<Rightarrow> (case setItemMakingRoom len stamp quota key t m of (okay, m') \<Rightarrow>
               if okay then (True, r\<lparr>pending := map_delete key (pending r), store := Some m'\<rparr>)
               else (False, failed\<lparr>store := Some m'\<rparr>))))"

text \<open>The listener that holds back the closing of the tab.\<close>

definition warns_before_unload :: "'t recovery \<Rightarrow> bool" where
  "warns_before_unload r \<longleftrightarrow> list_ex (\<lambda>v. v \<noteq> None) (map_values (pending r))"

section \<open>Facts\<close>

lemma free_rows_keeps:
  "\<lbrakk>\<forall>row \<in> set rows. is_cache_key (row_key row); \<not> is_cache_key j\<rbrakk> \<Longrightarrow>
     map_get (fst (free_rows target rows (m, c, fr))) j = map_get m j"
  by (induction rows arbitrary: m c fr) (auto simp: map_get_delete)

lemma cacheRows_cache: "row \<in> set (cacheRows len stamp m) \<Longrightarrow> is_cache_key (row_key row)"
  by (auto simp: cacheRows_def)

lemma freeApiCacheSpace_keeps:
  "\<not> is_cache_key j \<Longrightarrow> map_get (fst (freeApiCacheSpace len stamp t m)) j = map_get m j"
  using free_rows_keeps [of "js_sort (\<lambda>a b. row_storedAtMs a - row_storedAtMs b) (cacheRows len stamp m)" j]
  by (simp add: freeApiCacheSpace_def Let_def cacheRows_cache split_def)

lemma cache_key_length: "is_cache_key k \<Longrightarrow> 0 < length k"
  by (auto simp: is_cache_key_def)

text \<open>With target 0 every row goes: what is left of \<open>total\<close> stays positive until the last row.\<close>

lemma free_rows_all:
  assumes "\<forall>row \<in> set rows. 0 < row_chars row"
  shows "free_rows 0 rows (m, int (sum_list (map row_chars rows)), fr) =
    (fold (\<lambda>row. map_delete (row_key row)) rows m, 0, fr + sum_list (map row_chars rows))"
  using assms
proof (induction rows arbitrary: m fr)
  case (Cons row rows)
  then have "0 < row_chars row" by simp
  then have "\<not> int (sum_list (map row_chars (row # rows))) \<le> max 0 0" by simp
  with Cons show ?case by simp
qed simp

lemma fold_map_delete: "fold (\<lambda>row. map_delete (row_key row)) rows m = filter (\<lambda>(k, _). k \<notin> row_key ` set rows) m"
proof (induction rows arbitrary: m)
  case (Cons row rows)
  then show ?case by (auto simp: map_delete_def intro!: filter_cong)
qed (simp add: split_def)

lemma cacheRows_chars: "row \<in> set (cacheRows len stamp m) \<Longrightarrow> 0 < row_chars row"
  by (auto simp: cacheRows_def dest: cache_key_length)

lemma free_all:
  "freeApiCacheSpace len stamp 0 m =
     (filter (\<lambda>(k, _). \<not> is_cache_key k) m, apiCacheChars len stamp m)"
proof -
  let ?rows = "js_sort (\<lambda>a b. row_storedAtMs a - row_storedAtMs b) (cacheRows len stamp m)"
  have "\<forall>row \<in> set ?rows. 0 < row_chars row" by (simp add: cacheRows_chars)
  then have "free_rows 0 ?rows (m, int (sum_list (map row_chars ?rows)), 0) =
      (filter (\<lambda>(k, _). k \<notin> row_key ` set ?rows) m, 0, sum_list (map row_chars ?rows))"
    by (simp add: free_rows_all fold_map_delete)
  moreover have "filter (\<lambda>(k, _). k \<notin> row_key ` set ?rows) m = filter (\<lambda>(k, _). \<not> is_cache_key k) m"
    by (rule filter_cong) (auto simp: cacheRows_def image_iff)
  moreover have "sum_list (map row_chars ?rows) = apiCacheChars len stamp m"
    unfolding apiCacheChars_def by (simp flip: sum_mset_sum_list)
  ultimately show ?thesis by (simp add: freeApiCacheSpace_def Let_def)
qed

lemma chars_zero: "apiCacheChars len stamp m = 0 \<Longrightarrow> filter (\<lambda>(k, _). \<not> is_cache_key k) m = m"
proof -
  assume "apiCacheChars len stamp m = 0"
  then have "\<forall>row \<in> set (cacheRows len stamp m). row_chars row = 0"
    by (simp add: apiCacheChars_def)
  then have "cacheRows len stamp m = []"
    by (metis cacheRows_chars less_irrefl last_in_set)
  then show ?thesis by (auto simp: cacheRows_def filter_empty_conv intro!: filter_True)
qed

lemma map_get_filter_fst: "map_get (filter (\<lambda>(k, _). P k) m) j = (if P j then map_get m j else None)"
  unfolding map_get_def by (induction m) auto

lemma setItemMakingRoom_result:
  assumes "\<not> is_cache_key k" and "setItemMakingRoom len stamp quota k v m = (okay, m')"
  shows "(okay \<longleftrightarrow> total_chars len (map_set k v m) \<le> quota \<or>
        total_chars len (map_set k v (filter (\<lambda>(j, _). \<not> is_cache_key j) m)) \<le> quota) \<and>
    (okay \<longrightarrow> map_get m' k = Some v \<and> total_chars len m' \<le> quota) \<and>
    (\<not> okay \<longrightarrow> map_get m' k = map_get m k) \<and>
    (\<forall>j. j \<noteq> k \<and> \<not> is_cache_key j \<longrightarrow> map_get m' j = map_get m j) \<and>
    (total_chars len (map_set k v m) \<le> quota \<longrightarrow> (\<forall>j. j \<noteq> k \<longrightarrow> map_get m' j = map_get m j))"
proof (cases "total_chars len (map_set k v m) \<le> quota")
  case True
  with assms show ?thesis by (auto simp: setItemMakingRoom_def setItem_def map_get_set)
next
  case False
  let ?f = "filter (\<lambda>(j, _). \<not> is_cache_key j) m"
  have e: "setItemMakingRoom len stamp quota k v m =
      (if total_chars len (map_set k v ?f) \<le> quota then (True, map_set k v ?f) else (False, ?f))"
    using False chars_zero [of len stamp m]
    by (auto simp: setItemMakingRoom_def setItem_def free_all)
  show ?thesis
    using assms False by (auto simp: e map_get_set map_get_filter_fst split: if_splits)
qed

text \<open>Claim C12: scouting work wins over the app's own saved copies.  A write of scouting work is
  refused exactly when it would not fit even with every saved API copy gone; when it is made the
  item is stored and the storage is within the quota; the copies are touched only when the write
  does not fit beside them; and no key that is not a saved copy is ever lost.\<close>

theorem scouting_work_makes_room:
  assumes "\<not> is_cache_key k" and "setItemMakingRoom len stamp quota k v m = (okay, m')"
  shows "(okay \<longleftrightarrow> total_chars len (map_set k v m) \<le> quota \<or>
        total_chars len (map_set k v (filter (\<lambda>(j, _). \<not> is_cache_key j) m)) \<le> quota) \<and>
    (okay \<longrightarrow> map_get m' k = Some v \<and> total_chars len m' \<le> quota) \<and>
    (\<not> okay \<longrightarrow> map_get m' k = map_get m k) \<and>
    (\<forall>j. j \<noteq> k \<and> \<not> is_cache_key j \<longrightarrow> map_get m' j = map_get m j) \<and>
    (total_chars len (map_set k v m) \<le> quota \<longrightarrow> (\<forall>j. j \<noteq> k \<longrightarrow> map_get m' j = map_get m j))"
  by (rule setItemMakingRoom_result [OF assms])

lemma scouting_work_makes_room_witness:
  "fst (setItemMakingRoom length stored_at 40 ''draft'' ''work''
     [(''scouting_api_cache_v1:x'', ''aaaaaaaaaaaaaaaa''), (''keep'', ''me'')])"
proof -
  have c: "\<not> is_cache_key ''draft''" "total_chars length (map_set ''draft'' ''work''
      (filter (\<lambda>(j, _). \<not> is_cache_key j)
        [(''scouting_api_cache_v1:x'', ''aaaaaaaaaaaaaaaa''), (''keep'', ''me'')])) \<le> 40"
    by code_simp+
  obtain okay m' where e: "setItemMakingRoom length stored_at 40 ''draft'' ''work''
     [(''scouting_api_cache_v1:x'', ''aaaaaaaaaaaaaaaa''), (''keep'', ''me'')] = (okay, m')"
    by (rule prod.exhaust)
  show ?thesis
    using scouting_work_makes_room [OF c(1) e] c(2) unfolding e fst_conv by blast
qed

lemma persist_draft:
  assumes "\<not> is_cache_key key" and "map_ok (pending r)"
    and "persistRecoverableScoutDraft len stamp quota key v r = (okay, r')"
  shows "readRecoverableScoutDraft r' key = v \<and>
    (\<forall>j. j \<noteq> key \<and> \<not> is_cache_key j \<longrightarrow> readRecoverableScoutDraft r' j = readRecoverableScoutDraft r j) \<and>
    (okay \<longleftrightarrow> map_get (pending r') key = None) \<and>
    (\<not> okay \<and> v \<noteq> None \<longrightarrow> warns_before_unload r')"
proof -
  have w: "warns_before_unload (r\<lparr>pending := map_set key (Some t) (pending r), store := s\<rparr>)" for t s
    using map_values_in [OF map_ok_set [OF assms(2)], of "Some t" key "Some t"]
    by (auto simp: warns_before_unload_def list_ex_iff map_get_set)
  have w': "warns_before_unload (r\<lparr>pending := map_set key (Some t) (pending r)\<rparr>)" for t
    using w [of "store r" t] by simp
  show ?thesis
  proof (cases "store r")
    case None
    with assms show ?thesis
      by (cases v) (auto simp: persistRecoverableScoutDraft_def readRecoverableScoutDraft_def map_get_set w'
          split: option.split)
  next
    case (Some m)
    note st = this
    show ?thesis
    proof (cases v)
      case None
      with assms st show ?thesis
        by (auto simp: persistRecoverableScoutDraft_def readRecoverableScoutDraft_def map_get_delete
            split: option.split)
    next
      case (Some t)
      obtain ok m' where s: "setItemMakingRoom len stamp quota key t m = (ok, m')" by force
      have g: "\<forall>j. j \<noteq> key \<and> \<not> is_cache_key j \<longrightarrow> map_get m' j = map_get m j"
        and h: "ok \<longrightarrow> map_get m' key = Some t"
        using setItemMakingRoom_result [OF assms(1) s] by blast+
      show ?thesis
      proof (cases ok)
        case True
        then have "okay \<and> r' = r\<lparr>pending := map_delete key (pending r), store := Some m'\<rparr>"
          using assms(3) st Some s by (simp add: persistRecoverableScoutDraft_def)
        then show ?thesis using g h True Some st
          by (simp add: readRecoverableScoutDraft_def map_get_delete split: option.split)
      next
        case False
        then have "\<not> okay \<and> r' = r\<lparr>pending := map_set key (Some t) (pending r), store := Some m'\<rparr>"
          using assms(3) st Some s by (auto simp: persistRecoverableScoutDraft_def)
        then show ?thesis using g Some st w [of "Some m'" t]
          by (simp add: readRecoverableScoutDraft_def map_get_set split: option.split)
      qed
    qed
  qed
qed

lemma persist_reads:
  assumes "\<not> is_cache_key key" and "map_ok (pending r)"
  shows "readRecoverableScoutDraft (snd (persistRecoverableScoutDraft len stamp quota key v r)) key = v \<and>
    (\<forall>j. j \<noteq> key \<and> \<not> is_cache_key j \<longrightarrow>
       readRecoverableScoutDraft (snd (persistRecoverableScoutDraft len stamp quota key v r)) j =
       readRecoverableScoutDraft r j)"
  using persist_draft [OF assms, of len stamp quota v] by (metis prod.collapse)

text \<open>Claim C13: a scout's draft is never lost within a tab, whether or not the storage takes it:
  what was written last is what is read next, a removal is a removal even if it failed, other drafts
  are untouched, and a draft that only the tab holds keeps the tab from closing without a word.\<close>

theorem draft_survives_full_storage:
  assumes "\<not> is_cache_key key" and "map_ok (pending r)"
    and "persistRecoverableScoutDraft len stamp quota key v r = (okay, r')"
  shows "readRecoverableScoutDraft r' key = v \<and>
    (\<forall>j. j \<noteq> key \<and> \<not> is_cache_key j \<longrightarrow> readRecoverableScoutDraft r' j = readRecoverableScoutDraft r j) \<and>
    (okay \<longleftrightarrow> map_get (pending r') key = None) \<and>
    (\<not> okay \<and> v \<noteq> None \<longrightarrow> warns_before_unload r')"
  by (rule persist_draft [OF assms])

lemma draft_survives_full_storage_witness:
  "readRecoverableScoutDraft (snd (persistRecoverableScoutDraft length stored_at 3 ''draft'' (Some ''work'')
     \<lparr>pending = [], store = Some []\<rparr>)) ''draft'' = Some ''work''"
proof -
  have k: "\<not> is_cache_key ''draft''" by code_simp
  obtain okay r' where e: "persistRecoverableScoutDraft length stored_at 3 ''draft'' (Some ''work'')
     \<lparr>pending = [], store = Some []\<rparr> = (okay, r')"
    by (rule prod.exhaust)
  show ?thesis
    using draft_survives_full_storage [OF k _ e] unfolding e by simp
qed

end
