(* ===== verification/JsonText.thy ===== *)
theory JsonText
  imports JsValue
begin

text \<open>
  \<open>JSON.stringify\<close> and \<open>JSON.parse\<close> on texts, for the parts of the app that look at the text itself.
  A number prints as \<open>String\<close> prints it (\<open>num_str\<close>), so \<open>nstr\<close> stands for the digits of numbers
  that are not integers.  The reader is given fuel, two per character and one more, which
  \<open>read_enough\<close> shows is never used up; its other faults are a syntax error and an escape of a code
  unit beyond 255, which the strings of this development do not have.  \<open>json_read_text\<close> is the
  round trip.
\<close>

section \<open>Printing\<close>

definition hex_char :: "nat \<Rightarrow> char" where
  "hex_char n = (if n < 10 then char_of (48 + n) else char_of (87 + n))"

definition json_char :: "char \<Rightarrow> string" where
  "json_char c = (let n = of_char c :: nat in
     if n = 34 then [CHR 0x5C, CHR 0x22] else if n = 92 then [CHR 0x5C, CHR 0x5C]
     else if n = 8 then [CHR 0x5C, CHR ''b''] else if n = 12 then [CHR 0x5C, CHR ''f'']
     else if n = 10 then [CHR 0x5C, CHR ''n''] else if n = 13 then [CHR 0x5C, CHR ''r'']
     else if n = 9 then [CHR 0x5C, CHR ''t'']
     else if n < 32 then [CHR 0x5C, CHR ''u'', CHR ''0'', CHR ''0'', hex_char (n div 16), hex_char (n mod 16)]
     else [c])"

definition json_quote :: "string \<Rightarrow> string" where
  "json_quote s = CHR 0x22 # concat (map json_char s) @ [CHR 0x22]"

fun json_text :: "(real \<Rightarrow> string) \<Rightarrow> jsval \<Rightarrow> string" where
  "json_text nstr JUndef = ''null''"
| "json_text nstr JNull = ''null''"
| "json_text nstr (JBool b) = (if b then ''true'' else ''false'')"
| "json_text nstr (JNum (Fin x)) = num_str nstr (Fin x)"
| "json_text nstr (JNum n) = ''null''"
| "json_text nstr (JStr s) = json_quote s"
| "json_text nstr (JArr vs) = CHR ''['' # js_join '','' (map (json_text nstr) vs) @ '']''"
| "json_text nstr (JObj m) = CHR ''{'' # js_join '',''
     (map (\<lambda>(k, v). json_quote k @ CHR '':'' # json_text nstr v) (filter (\<lambda>(k, v). v \<noteq> JUndef) m)) @ ''}''"

section \<open>Reading\<close>

datatype parse_fault = Syntax | Beyond | Out_of_fuel

definition is_json_space :: "char \<Rightarrow> bool" where
  "is_json_space c \<longleftrightarrow> of_char c \<in> {9, 10, 13, 32 :: nat}"

definition skip_space :: "string \<Rightarrow> string" where
  "skip_space s = dropWhile is_json_space s"

definition unescape :: "char \<Rightarrow> char option" where
  "unescape c = (if c = CHR 0x22 \<or> c = CHR 0x5C \<or> c = CHR ''/'' then Some c
     else if c = CHR ''b'' then Some (char_of (8::nat)) else if c = CHR ''f'' then Some (char_of (12::nat))
     else if c = CHR ''n'' then Some (char_of (10::nat)) else if c = CHR ''r'' then Some (char_of (13::nat))
     else if c = CHR ''t'' then Some (char_of (9::nat)) else None)"

text \<open>What follows a backslash, with the rest of the text.\<close>

definition read_escape :: "string \<Rightarrow> parse_fault + char \<times> string" where
  "read_escape cs = (case cs of [] \<Rightarrow> Inl Syntax
     | d # ds \<Rightarrow>
         if d = CHR ''u'' then
           (case (if length (take 4 ds) = 4 then radix_val 16 (take 4 ds) else None) of
              None \<Rightarrow> Inl Syntax
            | Some n \<Rightarrow> if 255 < n then Inl Beyond else Inr (char_of n, drop 4 ds))
         else (case unescape d of None \<Rightarrow> Inl Syntax | Some e \<Rightarrow> Inr (e, ds)))"

lemma read_escape_length: "read_escape cs = Inr (e, r) \<Longrightarrow> length r < length cs"
  by (auto simp: read_escape_def split: list.splits if_splits option.splits)

text \<open>The characters of a string literal after its opening quote, and what follows it.\<close>

function read_string :: "string \<Rightarrow> parse_fault + string \<times> string" where
  "read_string [] = Inl Syntax"
| "read_string (c # cs) =
     (if c = CHR 0x22 then Inr ([], cs)
      else if c = CHR 0x5C then
        (case read_escape cs of Inl f \<Rightarrow> Inl f
         | Inr (e, r) \<Rightarrow> (case read_string r of Inl f \<Rightarrow> Inl f | Inr (s, r') \<Rightarrow> Inr (e # s, r')))
      else if of_char c < (32::nat) then Inl Syntax
      else (case read_string cs of Inl f \<Rightarrow> Inl f | Inr (s, r) \<Rightarrow> Inr (c # s, r)))"
  by pat_completeness auto
termination by (relation "measure length") (auto dest!: read_escape_length)

text \<open>A number: sign, digits without a leading zero, fraction, exponent.\<close>

definition read_number :: "string \<Rightarrow> parse_fault + jsval \<times> string" where
  "read_number s =
     (let neg = (s \<noteq> [] \<and> hd s = CHR ''-''); s1 = (if neg then tl s else s);
          ip = takeWhile is_digit s1; s2 = dropWhile is_digit s1;
          dot = (s2 \<noteq> [] \<and> hd s2 = CHR ''.'');
          fp = (if dot then takeWhile is_digit (tl s2) else []);
          s3 = (if dot then dropWhile is_digit (tl s2) else s2);
          ex = (s3 \<noteq> [] \<and> (hd s3 = CHR ''e'' \<or> hd s3 = CHR ''E''));
          signed = (ex \<and> tl s3 \<noteq> [] \<and> (hd (tl s3) = CHR ''-'' \<or> hd (tl s3) = CHR ''+''));
          s4 = (if signed then tl (tl s3) else if ex then tl s3 else s3);
          ep = (if ex then takeWhile is_digit s4 else []);
          s5 = (if ex then dropWhile is_digit s4 else s4);
          e = (if signed \<and> hd (tl s3) = CHR ''-'' then - int (dec_val ep) else int (dec_val ep))
      in if ip = [] \<or> (hd ip = CHR ''0'' \<and> tl ip \<noteq> []) \<or> (dot \<and> fp = []) \<or> (ex \<and> ep = [])
         then Inl Syntax
         else Inr (JNum (in_range neg (real (dec_val (ip @ fp)) * ten_power (e - int (length fp)))), s5))"

definition starts :: "string \<Rightarrow> char \<Rightarrow> bool" where
  "starts s c \<longleftrightarrow> s \<noteq> [] \<and> hd s = c"

text \<open>The members of an object and the elements of an array end with the closing bracket.  A member
  given twice keeps its place and takes the later value.\<close>

fun read_value :: "nat \<Rightarrow> string \<Rightarrow> parse_fault + jsval \<times> string"
  and read_members :: "nat \<Rightarrow> (string \<times> jsval) list \<Rightarrow> string \<Rightarrow> parse_fault + jsval \<times> string"
  and read_elements :: "nat \<Rightarrow> jsval list \<Rightarrow> string \<Rightarrow> parse_fault + jsval \<times> string" where
  "read_value 0 s = Inl Out_of_fuel"
| "read_members 0 m s = Inl Out_of_fuel"
| "read_elements 0 vs s = Inl Out_of_fuel"
| "read_value (Suc n) s =
     (let t = skip_space s
      in if t = [] then Inl Syntax
         else if hd t = CHR ''{'' then
           (let u = skip_space (tl t) in if starts u (CHR ''}'') then Inr (JObj [], tl u) else read_members n [] u)
         else if hd t = CHR ''['' then
           (let u = skip_space (tl t) in if starts u (CHR '']'') then Inr (JArr [], tl u) else read_elements n [] u)
         else if hd t = CHR 0x22 then
           (case read_string (tl t) of Inl f \<Rightarrow> Inl f | Inr (x, r) \<Rightarrow> Inr (JStr x, r))
         else if starts_with t ''true'' then Inr (JBool True, drop 4 t)
         else if starts_with t ''false'' then Inr (JBool False, drop 5 t)
         else if starts_with t ''null'' then Inr (JNull, drop 4 t)
         else read_number t)"
| "read_members (Suc n) m s =
     (if \<not> starts s (CHR 0x22) then Inl Syntax
      else (case read_string (tl s) of Inl f \<Rightarrow> Inl f
        | Inr (k, r) \<Rightarrow>
           (let t = skip_space r
            in if \<not> starts t (CHR '':'') then Inl Syntax
               else (case read_value n (tl t) of Inl f \<Rightarrow> Inl f
                 | Inr (v, r') \<Rightarrow>
                    (let u = skip_space r'
                     in if starts u (CHR ''}'') then Inr (JObj (map_set k v m), tl u)
                        else if starts u (CHR '','') then read_members n (map_set k v m) (skip_space (tl u))
                        else Inl Syntax)))))"
| "read_elements (Suc n) vs s =
     (case read_value n s of Inl f \<Rightarrow> Inl f
      | Inr (v, r) \<Rightarrow>
         (let u = skip_space r
          in if starts u (CHR '']'') then Inr (JArr (vs @ [v]), tl u)
             else if starts u (CHR '','') then read_elements n (vs @ [v]) (tl u)
             else Inl Syntax))"

definition json_read :: "string \<Rightarrow> parse_fault + jsval" where
  "json_read s = (case read_value (2 * length s + 1) s of Inl f \<Rightarrow> Inl f
     | Inr (v, r) \<Rightarrow> if skip_space r = [] then Inr v else Inl Syntax)"

section \<open>The fuel is enough\<close>

lemma skip_space_length: "length (skip_space s) \<le> length s"
  by (simp add: skip_space_def length_dropWhile_le)

lemma read_string_fuel: "read_string s \<noteq> Inl Out_of_fuel"
proof (induction s rule: read_string.induct)
  case (2 c cs)
  have "read_escape cs \<noteq> Inl Out_of_fuel"
    by (simp add: read_escape_def split: list.split option.split)
  with 2 show ?case by (auto split: sum.splits)
qed simp

lemma read_string_length: "read_string s = Inr (x, r) \<Longrightarrow> length r < length s"
proof (induction s arbitrary: x r rule: read_string.induct)
  case (2 c cs)
  show ?case
  proof (cases "c = CHR 0x5C")
    case True
    then obtain e q y where q: "read_escape cs = Inr (e, q)" "read_string q = Inr (y, r)"
      using "2.prems" by (auto split: sum.splits)
    from "2.IH"(1) [OF _ True q(1) refl q(2)] read_escape_length [OF q(1)] True show ?thesis by simp
  next
    case False
    then have "cs = r \<or> (\<exists>y. read_string cs = Inr (y, r))" and "c \<noteq> CHR 0x22 \<longrightarrow> \<not> of_char c < (32::nat)"
      using "2.prems" by (auto split: sum.splits if_splits)
    then show ?thesis using "2.IH"(2) False "2.prems" by (auto split: if_splits sum.splits)
  qed
qed simp

lemma read_number_length:
  assumes "read_number s = Inr (v, r)"
  shows "length r < length s"
proof -
  define s1 where "s1 = (if s \<noteq> [] \<and> hd s = CHR ''-'' then tl s else s)"
  define s2 where "s2 = dropWhile is_digit s1"
  define s3 where "s3 = (if s2 \<noteq> [] \<and> hd s2 = CHR ''.'' then dropWhile is_digit (tl s2) else s2)"
  define ex where "ex = (s3 \<noteq> [] \<and> (hd s3 = CHR ''e'' \<or> hd s3 = CHR ''E''))"
  define s4 where "s4 = (if ex \<and> tl s3 \<noteq> [] \<and> (hd (tl s3) = CHR ''-'' \<or> hd (tl s3) = CHR ''+'')
    then tl (tl s3) else if ex then tl s3 else s3)"
  have r: "r = (if ex then dropWhile is_digit s4 else s4)" and ip: "takeWhile is_digit s1 \<noteq> []"
    using assms unfolding read_number_def Let_def s1_def [symmetric] s2_def [symmetric] s3_def [symmetric]
      ex_def [symmetric] s4_def [symmetric]
    by (simp_all only: split: if_splits) simp_all
  have "length r \<le> length s4" by (simp add: r length_dropWhile_le)
  also have "\<dots> \<le> length s3" by (simp add: s4_def)
  also have "\<dots> \<le> length s2" using length_dropWhile_le [of is_digit "tl s2"] by (auto simp: s3_def)
  also have "\<dots> < length s1"
  proof -
    have "length s1 = length (takeWhile is_digit s1) + length s2"
      unfolding s2_def by (metis length_append takeWhile_dropWhile_id)
    with ip show ?thesis by simp
  qed
  also have "\<dots> \<le> length s" by (simp add: s1_def)
  finally show ?thesis .
qed

lemma read_number_fuel: "read_number s \<noteq> Inl Out_of_fuel"
  by (simp add: read_number_def Let_def)

lemma starts_length: "starts (skip_space s) c \<Longrightarrow> Suc (length (tl (skip_space s))) \<le> length s"
  using skip_space_length [of s] by (cases "skip_space s") (auto simp: starts_def)

lemma tl_skip_length: "length (skip_space (tl (skip_space s))) \<le> length s - 1"
  using skip_space_length [of s] skip_space_length [of "tl (skip_space s)"] by simp

lemma read_length:
  "read_value n s = Inr (v, r) \<Longrightarrow> length r < length s"
  "read_members n m s = Inr (v, r) \<Longrightarrow> length r < length s"
  "read_elements n vs s = Inr (v, r) \<Longrightarrow> length r < length s"
proof (induction n s and n m s and n vs s arbitrary: v r and v r and v r
    rule: read_value_read_members_read_elements.induct)
  case (4 n s)
  let ?t = "skip_space s"
  have t: "length ?t \<le> length s" "?t \<noteq> []"
    using skip_space_length "4.prems" by (auto simp: Let_def split: if_splits)
  have u: "length (skip_space (tl ?t)) \<le> length s - 1" by (rule tl_skip_length)
  have ls: "length s > 0" using t by (cases s) (auto simp: skip_space_def)
  show ?case
  proof (cases "hd ?t = CHR ''{'' \<or> hd ?t = CHR ''[''")
    case True
    then consider "r = tl (skip_space (tl ?t))" | "read_members n [] (skip_space (tl ?t)) = Inr (v, r)"
      "hd ?t = CHR ''{''" "\<not> starts (skip_space (tl ?t)) (CHR ''}'')"
      | "read_elements n [] (skip_space (tl ?t)) = Inr (v, r)" "hd ?t = CHR ''[''" "\<not> starts (skip_space (tl ?t)) (CHR '']'')"
      using "4.prems" t by (auto simp: Let_def split: if_splits)
    then show ?thesis
    proof cases
      case 1
      then show ?thesis using u ls by (simp del: length_greater_0_conv)
    next
      case 2
      from "4.IH"(1) [OF refl t(2) 2(2) refl 2(3,1)] u show ?thesis by simp
    next
      case 3
      from "4.IH"(2) [OF refl t(2) _ 3(2) refl 3(3,1)] 3(2) u show ?thesis by simp
    qed
  next
    case False
    then have "length r < length ?t"
      using "4.prems" t(2) read_string_length [of "tl ?t"] read_number_length [of ?t v r]
      by (auto simp: Let_def split: if_splits sum.splits)
    with t show ?thesis by simp
  qed
next
  case (5 n m s)
  obtain k r1 w r2 where k: "starts s (CHR 0x22)" "read_string (tl s) = Inr (k, r1)"
      "starts (skip_space r1) (CHR '':'')" "read_value n (tl (skip_space r1)) = Inr (w, r2)"
    using "5.prems" by (auto simp: Let_def split: if_splits sum.splits)
  note l = read_string_length [OF k(2)] starts_length [OF k(3)] "5.IH"(1) [OF _ k(2) refl refl _ k(4)]
    tl_skip_length [of r2] skip_space_length [of r2]
  have "r = tl (skip_space r2) \<or> (starts (skip_space r2) (CHR '','') \<and> \<not> starts (skip_space r2) (CHR ''}'') \<and>
      read_members n (map_set k w m) (skip_space (tl (skip_space r2))) = Inr (v, r))"
    using "5.prems" k by (auto simp: Let_def split: if_splits)
  then show ?case
  proof
    assume "r = tl (skip_space r2)"
    with l k show ?thesis by (simp add: starts_def)
  next
    assume R: "starts (skip_space r2) (CHR '','') \<and> \<not> starts (skip_space r2) (CHR ''}'') \<and>
      read_members n (map_set k w m) (skip_space (tl (skip_space r2))) = Inr (v, r)"
    from "5.IH"(2) [OF _ k(2) refl refl _ k(4) refl refl] R k
    have "length r < length (skip_space (tl (skip_space r2)))" by simp
    with l k show ?thesis by (simp add: starts_def)
  qed
next
  case (6 n vs s)
  obtain w r2 where k: "read_value n s = Inr (w, r2)"
    using "6.prems" by (auto simp: Let_def split: if_splits sum.splits)
  note l = "6.IH"(1) [OF k] skip_space_length [of r2]
  have "r = tl (skip_space r2) \<or> (starts (skip_space r2) (CHR '','') \<and> \<not> starts (skip_space r2) (CHR '']'') \<and>
      read_elements n (vs @ [w]) (tl (skip_space r2)) = Inr (v, r))"
    using "6.prems" k by (auto simp: Let_def split: if_splits)
  then show ?case
  proof
    assume "r = tl (skip_space r2)"
    with l show ?thesis by simp
  next
    assume R: "starts (skip_space r2) (CHR '','') \<and> \<not> starts (skip_space r2) (CHR '']'') \<and>
      read_elements n (vs @ [w]) (tl (skip_space r2)) = Inr (v, r)"
    from "6.IH"(2) [OF k refl refl] R have "length r < length (tl (skip_space r2))" by simp
    with l show ?thesis by simp
  qed
qed simp_all

lemma read_enough:
  "2 * length s < n \<Longrightarrow> read_value n s \<noteq> Inl Out_of_fuel"
  "2 * length s < n \<Longrightarrow> read_members n m s \<noteq> Inl Out_of_fuel"
  "2 * length s + 1 < n \<Longrightarrow> read_elements n vs s \<noteq> Inl Out_of_fuel"
proof (induction n s and n m s and n vs s rule: read_value_read_members_read_elements.induct)
  case (4 n s)
  let ?t = "skip_space s"
  have u: "length (skip_space (tl ?t)) \<le> length s - 1" by (rule tl_skip_length)
  have m: "read_members n [] (skip_space (tl ?t)) \<noteq> Inl Out_of_fuel"
    if "?t \<noteq> []" "hd ?t = CHR ''{''" "\<not> starts (skip_space (tl ?t)) (CHR ''}'')"
  proof -
    have "s \<noteq> []" using that(1) by (auto simp: skip_space_def)
    with "4.IH"(1) [OF refl that(1,2) refl that(3)] "4.prems" u show ?thesis by (cases s) auto
  qed
  have e: "read_elements n [] (skip_space (tl ?t)) \<noteq> Inl Out_of_fuel"
    if "?t \<noteq> []" "hd ?t = CHR ''[''" "\<not> starts (skip_space (tl ?t)) (CHR '']'')"
  proof -
    have "s \<noteq> []" using that(1) by (auto simp: skip_space_def)
    with "4.IH"(2) [OF refl that(1) _ that(2) refl that(3)] that(2) "4.prems" u show ?thesis by (cases s) auto
  qed
  show ?case using m e read_string_fuel [of "tl ?t"] read_number_fuel [of ?t]
    by (auto simp: Let_def split: sum.split)
next
  case (5 n m s)
  have v: "read_value n (tl (skip_space r1)) \<noteq> Inl Out_of_fuel"
    if "starts s (CHR 0x22)" "read_string (tl s) = Inr (k, r1)" "starts (skip_space r1) (CHR '':'')" for k r1
    using "5.IH"(1) [OF _ that(2) refl refl _] that(1,3) "5.prems" read_string_length [OF that(2)]
      starts_length [OF that(3)] by simp
  have mm: "read_members n (map_set k w m) (skip_space (tl (skip_space r2))) \<noteq> Inl Out_of_fuel"
    if k: "starts s (CHR 0x22)" "read_string (tl s) = Inr (k, r1)" "starts (skip_space r1) (CHR '':'')"
      "read_value n (tl (skip_space r1)) = Inr (w, r2)" "starts (skip_space r2) (CHR '','')"
      "\<not> starts (skip_space r2) (CHR ''}'')" for k r1 w r2
    using "5.IH"(2) [OF _ k(2) refl refl _ k(4) refl refl _ k(5)] k(1,3,6) "5.prems" read_string_length [OF k(2)]
      starts_length [OF k(3)] read_length(1) [OF k(4)] tl_skip_length [of r2] by simp
  show ?case using v mm read_string_fuel [of "tl s"]
    by (auto simp: Let_def split: sum.split)
next
  case (6 n vs s)
  have v: "read_value n s \<noteq> Inl Out_of_fuel" using "6.IH"(1) "6.prems" by simp
  have mm: "read_elements n (vs @ [w]) (tl (skip_space r2)) \<noteq> Inl Out_of_fuel"
    if k: "read_value n s = Inr (w, r2)" "starts (skip_space r2) (CHR '','')"
      "\<not> starts (skip_space r2) (CHR '']'')" for w r2
    using "6.IH"(2) [OF k(1) refl refl k(3,2)] "6.prems" read_length(1) [OF k(1)] starts_length [OF k(2)] by simp
  show ?case using v mm by (auto simp: Let_def split: sum.split)
qed simp_all

lemma json_read_total: "json_read s \<noteq> Inl Out_of_fuel"
  using read_enough(1) [of s "2 * length s + 1"] by (auto simp: json_read_def split: sum.split)


section \<open>The round trip\<close>

text \<open>A value \<open>JSON.stringify\<close> keeps, with integers for numbers.\<close>

fun json_plain :: "jsval \<Rightarrow> bool" where
  "json_plain JUndef \<longleftrightarrow> False"
| "json_plain (JNum n) \<longleftrightarrow> (case n of Fin x \<Rightarrow> of_int \<lfloor>x\<rfloor> = x \<and> \<bar>x\<bar> < 10 ^ 21 | _ \<Rightarrow> False)"
| "json_plain (JArr vs) \<longleftrightarrow> (\<forall>v \<in> set vs. json_plain v)"
| "json_plain (JObj m) \<longleftrightarrow> distinct (map fst m) \<and> (\<forall>(k, v) \<in> set m. json_plain v)"
| "json_plain v \<longleftrightarrow> True"

lemma hex_val_char: "d < 16 \<Longrightarrow> hex_val (hex_char d) = Some d"
  by (auto simp: hex_val_def hex_char_def is_digit_def is_lower_alpha_def digit_val_def of_char_of_small Let_def)

lemma hex_pair: "n < 32 \<Longrightarrow> radix_val 16 [CHR ''0'', CHR ''0'', hex_char (n div 16), hex_char (n mod 16)] = Some n"
proof -
  have "CHR ''0'' = hex_char 0" by code_simp
  then show "n < 32 \<Longrightarrow> ?thesis" by (simp add: radix_val_def hex_val_char)
qed

lemma json_char_table:
  "c \<in> set [CHR 0x22, CHR 0x5C, CHR 0x08, CHR 0x0C, CHR 0x0A, CHR 0x0D, CHR 0x09] \<Longrightarrow>
     \<exists>d. json_char c = [CHR 0x5C, d] \<and> d \<noteq> CHR ''u'' \<and> unescape d = Some c"
proof -
  have "list_all (\<lambda>c. case json_char c of [b, d] \<Rightarrow> b = CHR 0x5C \<and> d \<noteq> CHR ''u'' \<and> unescape d = Some c | _ \<Rightarrow> False)
      [CHR 0x22, CHR 0x5C, CHR 0x08, CHR 0x0C, CHR 0x0A, CHR 0x0D, CHR 0x09]" by code_simp
  then show "c \<in> set [CHR 0x22, CHR 0x5C, CHR 0x08, CHR 0x0C, CHR 0x0A, CHR 0x0D, CHR 0x09] \<Longrightarrow> ?thesis"
    by (auto simp: list_all_iff split: list.splits)
qed

lemma read_json_char:
  "read_string (json_char c @ t) = (case read_string t of Inl f \<Rightarrow> Inl f | Inr (s, r) \<Rightarrow> Inr (c # s, r))"
proof -
  define n where "n = (of_char c :: nat)"
  have c: "c = char_of n" by (simp add: n_def)
  have n: "n < 256" by (simp add: n_def of_char_less_256)
  consider "n \<in> {34, 92, 8, 12, 10, 13, 9}" | "n < 32" "n \<notin> {34, 92, 8, 12, 10, 13, 9}"
    | "32 \<le> n" "n \<notin> {34, 92, 8, 12, 10, 13, 9}" by linarith
  then show ?thesis
  proof cases
    case 1
    have "char_of (34::nat) = CHR 0x22" "char_of (92::nat) = CHR 0x5C" "char_of (8::nat) = CHR 0x08"
      "char_of (12::nat) = CHR 0x0C" "char_of (10::nat) = CHR 0x0A" "char_of (13::nat) = CHR 0x0D"
      "char_of (9::nat) = CHR 0x09" by code_simp+
    with 1 c have "c \<in> set [CHR 0x22, CHR 0x5C, CHR 0x08, CHR 0x0C, CHR 0x0A, CHR 0x0D, CHR 0x09]" by auto
    from json_char_table [OF this] show ?thesis by (auto simp: read_escape_def)
  next
    case 2
    then have "json_char c = [CHR 0x5C, CHR ''u'', CHR ''0'', CHR ''0'', hex_char (n div 16), hex_char (n mod 16)]"
      by (simp add: json_char_def n_def [symmetric])
    moreover have "read_escape (CHR ''u'' # CHR ''0'' # CHR ''0'' # hex_char (n div 16) # hex_char (n mod 16) # t) = Inr (c, t)"
      using hex_pair [OF 2(1)] n by (simp add: read_escape_def c [symmetric])
    ultimately show ?thesis by simp
  next
    case 3
    then have j: "json_char c = [c]" by (simp add: json_char_def n_def [symmetric])
    have "c \<noteq> CHR 0x22" "c \<noteq> CHR 0x5C" "\<not> of_char c < (32::nat)" using 3 by (auto simp: n_def)
    with j show ?thesis by simp
  qed
qed

lemma read_quoted: "read_string (concat (map json_char s) @ CHR 0x22 # rest) = Inr (s, rest)"
  by (induction s) (simp_all add: read_json_char)

definition number_ends :: "string \<Rightarrow> bool" where
  "number_ends s \<longleftrightarrow> s = [] \<or> hd s \<in> {CHR '','', CHR '']'', CHR ''}''}"

lemma number_ends_digit: "number_ends s \<Longrightarrow> s = [] \<or> \<not> is_digit (hd s) \<and> hd s \<notin> {CHR ''.'', CHR ''e'', CHR ''E''}"
  by (auto simp: number_ends_def is_digit_def)

lemma digits_rest:
  assumes "number_ends rest"
  shows "takeWhile is_digit (digits_of n @ rest) = digits_of n" "dropWhile is_digit (digits_of n @ rest) = rest"
proof -
  have r: "takeWhile is_digit rest = []" "dropWhile is_digit rest = rest"
    using number_ends_digit [OF assms] by (cases rest; simp)+
  show "takeWhile is_digit (digits_of n @ rest) = digits_of n" "dropWhile is_digit (digits_of n @ rest) = rest"
    using r by (simp_all add: digits_of_digit takeWhile_append2 dropWhile_append2)
qed

lemma digits_no_zero: "hd (digits_of n) = CHR ''0'' \<Longrightarrow> n = 0"
proof (induction n rule: digits_of.induct)
  case (1 n)
  show ?case
  proof (cases "n < 10")
    case True
    then have "of_char (char_of (48 + n) :: char) = (48 :: nat)"
      using "1.prems" by (simp add: digits_of.simps [of n])
    with True show ?thesis by (simp add: of_char_of_small)
  next
    case False
    then have "hd (digits_of (n div 10)) = CHR ''0''"
      using "1.prems" by (simp add: digits_of.simps [of n])
    with "1.IH" False show ?thesis by simp
  qed
qed

lemma read_digits:
  assumes "number_ends rest" and "real n < 10 ^ 21"
  shows "read_number (digits_of n @ rest) = Inr (JNum (Fin (real n)), rest)"
    and "read_number (CHR ''-'' # digits_of n @ rest) = Inr (JNum (Fin (- real n)), rest)"
proof -
  have z: "\<not> (hd (digits_of n) = CHR ''0'' \<and> tl (digits_of n) \<noteq> [])"
    using digits_no_zero [of n] by (auto simp: digits_of.simps [of 0])
  have h: "hd (digits_of n @ rest) \<noteq> CHR ''-''" using digits_of_hd [of "CHR ''-''" n] by (simp add: is_digit_def)
  have e: "\<not> (rest \<noteq> [] \<and> hd rest = CHR ''.'')" "\<not> (rest \<noteq> [] \<and> (hd rest = CHR ''e'' \<or> hd rest = CHR ''E''))"
    using number_ends_digit [OF assms(1)] by auto
  have "(10 :: real) ^ 21 \<le> 2 ^ 1024 - 2 ^ 970" by simp
  with assms(2) have b: "real n < 2 ^ 1024 - 2 ^ 970" by linarith
  show "read_number (digits_of n @ rest) = Inr (JNum (Fin (real n)), rest)"
    "read_number (CHR ''-'' # digits_of n @ rest) = Inr (JNum (Fin (- real n)), rest)"
    using z h e b
    by (simp_all add: read_number_def Let_def digits_rest [OF assms(1)] ten_power_def dec_val_digits_of in_range_def
        dec_val_def [of "[]"] del: de_Morgan_conj dropWhile_eq_Nil_conv)
qed

lemma read_int:
  assumes "number_ends rest" and "\<bar>real_of_int i\<bar> < 10 ^ 21"
  shows "read_number (int_str i @ rest) = Inr (JNum (Fin (of_int i)), rest)"
  using read_digits(1) [OF assms(1), of "nat i"] read_digits(2) [OF assms(1), of "nat (- i)"] assms(2)
  by (cases "i < 0") (simp_all add: int_str_def)


lemma json_text_starts:
  "json_plain v \<Longrightarrow> json_text nstr v \<noteq> [] \<and> \<not> is_json_space (hd (json_text nstr v)) \<and>
     hd (json_text nstr v) \<noteq> CHR '']'' \<and>
     (\<forall>i. v = JNum (Fin i) \<longrightarrow> hd (json_text nstr v) \<notin> {CHR ''{'', CHR ''['', CHR 0x22, CHR ''t'', CHR ''f'', CHR ''n''})"
proof (cases v)
  case (JNum x)
  assume "json_plain v"
  with JNum obtain i where i: "json_text nstr v = int_str i"
    by (auto simp: num_str_def split: num.splits)
  have "is_digit (hd (digits_of k))" for k using digits_of_digit [of "hd (digits_of k)" k] by simp
  then have "hd (int_str i) = CHR ''-'' \<or> is_digit (hd (int_str i))" "int_str i \<noteq> []"
    by (auto simp: int_str_def)
  then show ?thesis unfolding i by (auto simp: is_json_space_def is_digit_def Let_def)
qed (auto simp: json_quote_def is_json_space_def)

lemma js_join_Cons2: "js_join sep (a # b # cs) = a @ sep @ js_join sep (b # cs)"
  by (simp add: js_join_def)

lemma js_join_single: "js_join sep [a] = a"
  by (simp add: js_join_def)

definition reads_back :: "(real \<Rightarrow> string) \<Rightarrow> jsval \<Rightarrow> bool" where
  "reads_back nstr v \<longleftrightarrow> (\<forall>n rest. number_ends rest \<longrightarrow> 2 * length (json_text nstr v) < n \<longrightarrow>
     read_value n (json_text nstr v @ rest) = Inr (v, rest))"

lemma number_ends_simps [simp]: "number_ends (CHR '','' # s)" "number_ends (CHR '']'' # s)" "number_ends (CHR ''}'' # s)"
  by (simp_all add: number_ends_def)

lemma skip_punct [simp]: "skip_space (CHR '','' # s) = CHR '','' # s" "skip_space (CHR '']'' # s) = CHR '']'' # s"
  "skip_space (CHR ''}'' # s) = CHR ''}'' # s" "skip_space (CHR '':'' # s) = CHR '':'' # s"
  "skip_space (CHR 0x22 # s) = CHR 0x22 # s" "skip_space (CHR ''['' # s) = CHR ''['' # s"
  "skip_space (CHR ''{'' # s) = CHR ''{'' # s"
  by (simp_all add: skip_space_def is_json_space_def)

lemma read_elements_text:
  assumes "\<forall>v \<in> set vs. reads_back nstr v" and "vs \<noteq> []"
    and "2 * length (js_join '','' (map (json_text nstr) vs)) + 1 < n"
  shows "read_elements n acc (js_join '','' (map (json_text nstr) vs) @ CHR '']'' # rest) = Inr (JArr (acc @ vs), rest)"
  using assms
proof (induction vs arbitrary: n acc)
  case (Cons v vs)
  then obtain k where n: "n = Suc k" by (cases n) auto
  show ?case
  proof (cases vs)
    case Nil
    with Cons.prems n show ?thesis
      by (simp add: js_join_single reads_back_def starts_def)
  next
    case (Cons w ws)
    have l: "2 * length (js_join '','' (map (json_text nstr) vs)) + 1 < k" "2 * length (json_text nstr v) < k"
      using Cons.prems(3) Cons n by (simp_all add: js_join_Cons2)
    have "read_elements k (acc @ [v]) (js_join '','' (map (json_text nstr) vs) @ CHR '']'' # rest) = Inr (JArr ((acc @ [v]) @ vs), rest)"
      by (rule Cons.IH) (use Cons.prems l Cons in auto)
    moreover have "read_value k (json_text nstr v @ CHR '','' # t) = Inr (v, CHR '','' # t)" for t
      using Cons.prems(1) l(2) by (simp add: reads_back_def)
    ultimately show ?thesis by (simp add: n Cons js_join_Cons2 starts_def)
  qed
qed simp

lemma read_members_text:
  assumes "\<forall>(k, v) \<in> set ms. reads_back nstr v" and "ms \<noteq> []" and "distinct (map fst (acc @ ms))"
    and "2 * length (js_join '','' (map (\<lambda>(k, v). json_quote k @ CHR '':'' # json_text nstr v) ms)) < n"
  shows "read_members n acc (js_join '','' (map (\<lambda>(k, v). json_quote k @ CHR '':'' # json_text nstr v) ms) @ CHR ''}'' # rest)
    = Inr (JObj (acc @ ms), rest)"
  using assms
proof (induction ms arbitrary: n acc)
  case (Cons p ms)
  obtain j v where p: "p = (j, v)" by force
  obtain k where n: "n = Suc k" using Cons.prems(4) by (cases n) auto
  have ms: "map_set j v acc = acc @ [(j, v)]" using Cons.prems(3) p by (intro map_set_fresh) auto
  show ?case
  proof (cases ms)
    case Nil
    with Cons.prems n p ms show ?thesis
      by (simp add: js_join_single reads_back_def starts_def json_quote_def read_quoted)
  next
    case (Cons w ws)
    let ?J = "js_join '','' (map (\<lambda>(k, v). json_quote k @ CHR '':'' # json_text nstr v) ms)"
    have l: "2 * length ?J < k" "2 * length (json_text nstr v) < k"
      using Cons.prems(4) Cons n p by (simp_all add: js_join_Cons2)
    have "read_members k (acc @ [(j, v)]) (?J @ CHR ''}'' # rest) = Inr (JObj ((acc @ [(j, v)]) @ ms), rest)"
      by (rule Cons.IH) (use Cons.prems l Cons p in auto)
    moreover have "read_value k (json_text nstr v @ CHR '','' # t) = Inr (v, CHR '','' # t)" for t
      using Cons.prems(1) l(2) p by (simp add: reads_back_def)
    moreover have "skip_space (?J @ t) = ?J @ t" for t
      using Cons by (cases w) (simp add: js_join_def json_quote_def)
    ultimately show ?thesis
      by (simp add: n Cons p js_join_Cons2 starts_def ms json_quote_def read_quoted)
  qed
qed simp

lemma read_literals:
  "0 < n \<Longrightarrow> read_value n (''null'' @ rest) = Inr (JNull, rest)"
  "0 < n \<Longrightarrow> read_value n (''true'' @ rest) = Inr (JBool True, rest)"
  "0 < n \<Longrightarrow> read_value n (''false'' @ rest) = Inr (JBool False, rest)"
  "0 < n \<Longrightarrow> read_value n (json_quote s @ rest) = Inr (JStr s, rest)"
  by (cases n; simp add: skip_space_def is_json_space_def starts_with_def json_quote_def read_quoted)+

lemma json_plain_reads_back: "json_plain v \<Longrightarrow> reads_back nstr v"
proof (induction v)
  case (JNum x)
  then obtain r where r: "x = Fin r" "of_int \<lfloor>r\<rfloor> = r" "\<bar>r\<bar> < 10 ^ 21" by (auto split: num.splits)
  have "read_value n (json_text nstr (JNum x) @ rest) = Inr (JNum x, rest)"
    if e: "number_ends rest" and l: "2 * length (json_text nstr (JNum x)) < n" for n rest
  proof -
    obtain k where n: "n = Suc k" using l by (cases n) auto
    have t: "json_text nstr (JNum x) = int_str \<lfloor>r\<rfloor>" using r by (simp add: num_str_def)
    obtain c cs where cs: "int_str \<lfloor>r\<rfloor> = c # cs" using json_text_starts [OF JNum, of nstr] t by (cases "int_str \<lfloor>r\<rfloor>") auto
    then have "\<not> is_json_space c" "c \<notin> {CHR ''{'', CHR ''['', CHR 0x22, CHR ''t'', CHR ''f'', CHR ''n''}"
      using json_text_starts [OF JNum, of nstr] r(1) t by auto
    then have "read_value n (int_str \<lfloor>r\<rfloor> @ rest) = read_number (int_str \<lfloor>r\<rfloor> @ rest)"
      by (simp add: n cs skip_space_def starts_with_def)
    then show ?thesis unfolding t using read_int [OF e, of "\<lfloor>r\<rfloor>"] r by simp
  qed
  then show ?case by (simp add: reads_back_def)
next
  case (JArr vs)
  then have vs: "\<forall>v \<in> set vs. reads_back nstr v" by auto
  have "read_value n (json_text nstr (JArr vs) @ rest) = Inr (JArr vs, rest)"
    if l: "2 * length (json_text nstr (JArr vs)) < n" for n rest
  proof -
    obtain k where n: "n = Suc k" using l by (cases n) auto
    show ?thesis
    proof (cases vs)
      case Nil
      then show ?thesis by (simp add: n js_join_def starts_def)
    next
      case (Cons w ws)
      let ?J = "js_join '','' (map (json_text nstr) vs)"
      have w: "json_plain w" using JArr.prems Cons by simp
      have s: "skip_space (?J @ t) = ?J @ t" "\<not> starts (?J @ t) (CHR '']'')" for t
        using json_text_starts [OF w, of nstr] Cons
        by (cases "json_text nstr w"; simp add: js_join_def skip_space_def starts_def)+
      have "read_elements k [] (?J @ CHR '']'' # rest) = Inr (JArr ([] @ vs), rest)"
        by (rule read_elements_text [OF vs]) (use l n Cons in auto)
      with s show ?thesis by (simp add: n)
    qed
  qed
  then show ?case unfolding reads_back_def by blast
next
  case (JObj m)
  then have ms: "\<forall>(k, v) \<in> set m. reads_back nstr v" by (fastforce simp: snds.simps)
  have "\<forall>p \<in> set m. snd p \<noteq> JUndef" using JObj.prems by auto
  then have f: "filter (\<lambda>(k, v). v \<noteq> JUndef) m = m" by (intro filter_True) auto
  have "read_value n (json_text nstr (JObj m) @ rest) = Inr (JObj m, rest)"
    if l: "2 * length (json_text nstr (JObj m)) < n" for n rest
  proof -
    obtain k where n: "n = Suc k" using l by (cases n) auto
    show ?thesis
    proof (cases m)
      case Nil
      then show ?thesis by (simp add: n js_join_def starts_def)
    next
      case (Cons w ws)
      let ?J = "js_join '','' (map (\<lambda>(k, v). json_quote k @ CHR '':'' # json_text nstr v) m)"
      have s: "skip_space (?J @ t) = ?J @ t" "\<not> starts (?J @ t) (CHR ''}'')" for t
        using Cons by (cases w; simp add: js_join_def json_quote_def starts_def)+
      have "read_members k [] (?J @ CHR ''}'' # rest) = Inr (JObj ([] @ m), rest)"
        by (rule read_members_text [OF ms]) (use l n Cons JObj.prems f in auto)
      with s show ?thesis by (simp add: n f)
    qed
  qed
  then show ?case unfolding reads_back_def by blast
qed (simp_all add: reads_back_def read_literals del: read_value.simps append.simps)

lemma json_read_text: "json_plain v \<Longrightarrow> json_read (json_text nstr v) = Inr v"
proof -
  assume "json_plain v"
  then have "reads_back nstr v" by (rule json_plain_reads_back)
  then have "read_value (2 * length (json_text nstr v) + 1) (json_text nstr v @ []) = Inr (v, [])"
    unfolding reads_back_def by (elim allE [of _ "2 * length (json_text nstr v) + 1"] allE [of _ "[]"])
      (simp del: read_value.simps add: number_ends_def)
  then show ?thesis by (simp add: json_read_def skip_space_def del: read_value.simps)
qed

end
