(* ===== verification/ScoutBoard.thy ===== *)
theory ScoutBoard
  imports ScoutEntries LocalStorage JsonText
begin

text \<open>
  What the scouting page keeps beside its reports: the floating match timer and the unsaved drafts
  (the end of \<open>src/ScoutingApp/src/pages/scoutingPage.helpers.ts\<close>), the flags scouts send each other
  during a match (\<open>features/scoutNotes/liveFlags.ts\<close>) and the receipts of syncing
  (\<open>features/offline/syncReceipt.ts\<close>).  The window is a record of what the code measures in it.
\<close>

section \<open>The floating timer\<close>

definition FLOAT_TIMER_VIEWPORT_PADDING :: real where
  "FLOAT_TIMER_VIEWPORT_PADDING = 6"

definition FLOAT_TIMER_MIN_VISIBLE_X :: real where
  "FLOAT_TIMER_MIN_VISIBLE_X = 36"

definition FLOAT_TIMER_MIN_VISIBLE_Y :: real where
  "FLOAT_TIMER_MIN_VISIBLE_Y = 28"

definition FLOAT_TIMER_HEADER_OVERLAP_Y :: real where
  "FLOAT_TIMER_HEADER_OVERLAP_Y = 132"

definition FLOAT_TIMER_DEFAULT_BOTTOM_OFFSET :: real where
  "FLOAT_TIMER_DEFAULT_BOTTOM_OFFSET = 150"

text \<open>\<open>vp_sidebar\<close> is \<open>parseFloat\<close> of the width token of the shell and \<open>vp_content_top\<close> the top of the
  content element, each \<open>None\<close> where the element is missing.\<close>

record window_view =
  vp_document :: bool
  vp_window :: bool
  vp_sidebar :: "num option"
  vp_content_top :: "num option"
  vp_inner_width :: real
  vp_inner_height :: real
  vp_visual :: "(real \<times> real) option"

definition currentSidebarWidth :: "window_view \<Rightarrow> real \<Rightarrow> real" where
  "currentSidebarWidth w viewportWidth =
     (if viewportWidth \<le> 1120 then 0
      else if \<not> vp_document w then 0
      else (case vp_sidebar w of Some (Fin x) \<Rightarrow> x | _ \<Rightarrow> 0))"

definition contentAreaTop :: "window_view \<Rightarrow> real" where
  "contentAreaTop w =
     (if \<not> vp_document w then 74
      else (case vp_content_top w of Some (Fin y) \<Rightarrow> if y > 0 then of_int (math_round y) else 74
        | _ \<Rightarrow> 74))"

definition defaultFloatingTimerPosition :: "window_view \<Rightarrow> real \<Rightarrow> floating_timer_position" where
  "defaultFloatingTimerPosition w viewportWidth =
     (if viewportWidth \<le> 900 then \<lparr>tp_x = 8, tp_y = 64\<rparr>
      else if viewportWidth \<le> 1120 then \<lparr>tp_x = 10, tp_y = 68\<rparr>
      else (let viewportHeight = (if vp_window w then vp_inner_height w else 900)
            in \<lparr>tp_x = currentSidebarWidth w viewportWidth + FLOAT_TIMER_VIEWPORT_PADDING,
                tp_y = max (contentAreaTop w + FLOAT_TIMER_VIEWPORT_PADDING)
                  (viewportHeight - FLOAT_TIMER_DEFAULT_BOTTOM_OFFSET)\<rparr>))"

text \<open>An array is an object too, without the two properties.\<close>

definition normalizeFloatingTimerPosition :: "jsval \<Rightarrow> floating_timer_position option" where
  "normalizeFloatingTimerPosition raw = (case raw of
       JObj row \<Rightarrow> (case (parseNumber (jget row ''x''), parseNumber (jget row ''y'')) of
           (Some x, Some y) \<Rightarrow> Some \<lparr>tp_x = x, tp_y = y\<rparr>
         | _ \<Rightarrow> None)
     | _ \<Rightarrow> None)"

definition readStoredFloatingTimerPosition ::
    "window_view \<Rightarrow> local_store \<Rightarrow> floating_timer_position option" where
  "readStoredFloatingTimerPosition w ls =
     (if \<not> vp_window w then None
      else (case storageGet ls SCOUTING_TIMER_FLOAT_STORAGE of None \<Rightarrow> None
        | Some t \<Rightarrow> if text_empty t then None
            else (case json_parse t of None \<Rightarrow> None | Some v \<Rightarrow> normalizeFloatingTimerPosition v)))"

text \<open>The stored texts are \<open>true\<close> and \<open>false\<close>, which are JSON, or words that are not.\<close>

definition text_chars :: "jtext \<Rightarrow> string" where
  "text_chars t = (case t of Raw s \<Rightarrow> s | Json (JBool b) \<Rightarrow> if b then ''true'' else ''false''
     | Json (JNum (Fin x)) \<Rightarrow> if x = 0 then ''0'' else if x = 1 then ''1'' else ''?'' | Json _ \<Rightarrow> ''?'')"

definition readStoredMobileCompactMode :: "window_view \<Rightarrow> local_store \<Rightarrow> bool" where
  "readStoredMobileCompactMode w ls =
     (if \<not> vp_window w then True
      else (let raw = js_lower (js_trim (case storageGet ls SCOUTING_MOBILE_COMPACT_STORAGE of
                None \<Rightarrow> [] | Some t \<Rightarrow> text_chars t))
            in if raw = ''false'' \<or> raw = ''0'' \<or> raw = ''off'' then False
               else if raw = ''true'' \<or> raw = ''1'' \<or> raw = ''on'' then True else True))"

definition floatingTimerBounds :: "window_view \<Rightarrow> floating_timer_bounds" where
  "floatingTimerBounds w =
     (let pad = FLOAT_TIMER_VIEWPORT_PADDING
      in if \<not> vp_window w then \<lparr>minX = pad, maxX = pad, minY = pad, maxY = pad\<rparr>
         else (let viewportWidth = (case vp_visual w of Some (x, _) \<Rightarrow> x | None \<Rightarrow> vp_inner_width w);
                   viewportHeight = (case vp_visual w of Some (_, y) \<Rightarrow> y | None \<Rightarrow> vp_inner_height w);
                   bottomReserve = 0;
                   loX = currentSidebarWidth w viewportWidth + pad;
                   loY = (if viewportWidth \<le> 1120 then pad - FLOAT_TIMER_HEADER_OVERLAP_Y
                     else contentAreaTop w + pad)
               in \<lparr>minX = loX, maxX = max loX (viewportWidth - FLOAT_TIMER_MIN_VISIBLE_X - pad),
                   minY = loY,
                   maxY = max loY (viewportHeight - bottomReserve - FLOAT_TIMER_MIN_VISIBLE_Y - pad)\<rparr>))"

section \<open>Unsaved reports\<close>

definition SCOUT_DRAFT_PREFIX :: string where
  "SCOUT_DRAFT_PREFIX = ''frcmob_scout_draft_v1:''"

definition scoutDraftKey :: "int option \<Rightarrow> string \<Rightarrow> string \<Rightarrow> string" where
  "scoutDraftKey workspaceId matchKey teamKey =
     SCOUT_DRAFT_PREFIX @ ''w'' @ int_str (nullish workspaceId 0) @ '':'' @ js_lower matchKey @ '':'' @
     js_lower teamKey"

text \<open>A draft is the plain object the page hands over, stored as the text \<open>JSON.stringify\<close> makes of it;
  a text that does not parse is no draft.\<close>

definition readScoutDraft :: "string recovery \<Rightarrow> string \<Rightarrow> (string \<times> jsval) list option" where
  "readScoutDraft r key = (case readRecoverableScoutDraft r key of None \<Rightarrow> None
     | Some raw \<Rightarrow> if raw = [] then None
         else (case json_read raw of
             Inr (JObj parsed) \<Rightarrow> if truthy (jget parsed ''form'') then Some parsed else None
           | _ \<Rightarrow> None))"

definition writeScoutDraft :: "(real \<Rightarrow> string) \<Rightarrow> nat \<Rightarrow> string \<Rightarrow>
    (string \<times> jsval) list option \<Rightarrow> string recovery \<Rightarrow> bool \<times> string recovery" where
  "writeScoutDraft nstr quota key draft r =
     persistRecoverableScoutDraft length stored_at quota key (map_option (\<lambda>d. json_text nstr (JObj d)) draft) r"

section \<open>Live flags\<close>

definition LIVE_FLAG_TAGS :: "string list" where
  "LIVE_FLAG_TAGS = [''broke_down'', ''tipped'', ''defense'', ''great_driver'']"

record live_flag =
  fl_scout :: string
  fl_teamKey :: string
  fl_matchKey :: string
  fl_tag :: string

definition liveFlagRequest :: "string \<Rightarrow> string \<Rightarrow> string \<Rightarrow> (string \<times> jsval) list option" where
  "liveFlagRequest tag teamKey matchKey =
     (if teamKey = [] \<or> matchKey = [] then None
      else Some [(''type'', JStr ''flag''), (''tag'', JStr tag), (''team_key'', JStr teamKey),
        (''match_key'', JStr matchKey)])"

definition parseLiveFlag :: "(real \<Rightarrow> string) \<Rightarrow> (string \<times> jsval) list \<Rightarrow> live_flag option" where
  "parseLiveFlag nstr payload =
     (let str = (\<lambda>k. js_string nstr (js_nullish (jget payload k) (JStr [])));
          tag = str ''tag'';
          teamKey = js_lower (str ''team_key'');
          matchKey = js_lower (str ''match_key'');
          scout = js_trim (str ''scout_profile'')
      in if \<not> isScoutNoteTag (JStr tag) \<or> \<not> (take 3 teamKey = ''frc'' \<and> all_digits (drop 3 teamKey))
           \<or> matchKey = [] \<or> scout = [] then None
         else Some \<lparr>fl_scout = scout, fl_teamKey = teamKey, fl_matchKey = matchKey, fl_tag = tag\<rparr>)"

datatype tone = Warning | Info

definition liveFlagToast :: "live_flag \<Rightarrow> string \<Rightarrow> (string \<times> tone) option" where
  "liveFlagToast flag me =
     (if js_lower (fl_scout flag) = js_lower (js_trim me) then None
      else (let m = nullish (matchLabelFromKey (fl_matchKey flag)) (fl_matchKey flag);
                number = (if take 3 (fl_teamKey flag) = ''frc'' then drop 3 (fl_teamKey flag) else fl_teamKey flag)
            in Some (fl_scout flag @ '': '' @ number @ middle_dot @ noteTagLabel (fl_tag flag) @ middle_dot @ m,
                 if fl_tag flag \<in> set WARNING_NOTE_TAGS then Warning else Info)))"

section \<open>Receipts of syncing\<close>

definition SYNC_KEY :: string where
  "SYNC_KEY = ''frcmob_last_confirmed_sync_v1''"

definition ISSUE_KEY :: string where
  "ISSUE_KEY = ''frcmob_sync_issue_v1''"

text \<open>The receipt is a decimal number in the storage of strings; a write that throws is dropped.\<close>

definition recordConfirmedSync :: "nat \<Rightarrow> int \<Rightarrow> string storage option \<Rightarrow> string storage option" where
  "recordConfirmedSync quota nowMs ls = (case ls of None \<Rightarrow> None
     | Some m \<Rightarrow> (case setItem length quota SYNC_KEY (int_str nowMs) m of None \<Rightarrow> Some m | Some m' \<Rightarrow> Some m'))"

definition lastConfirmedSync :: "string storage option \<Rightarrow> real option" where
  "lastConfirmedSync ls = (case ls of None \<Rightarrow> None
     | Some m \<Rightarrow> (case (case map_get m SYNC_KEY of None \<Rightarrow> Fin 0 | Some s \<Rightarrow> js_number s) of
           Fin x \<Rightarrow> if x > 0 then Some x else None | _ \<Rightarrow> None))"

record sync_issue =
  si_reason :: string
  si_count :: int
  si_labels :: "string list"

definition recordSyncIssue :: "bool \<Rightarrow> int \<Rightarrow> sync_issue \<Rightarrow> local_store \<Rightarrow> local_store" where
  "recordSyncIssue full nowMs issue ls = snd (storageSet full ISSUE_KEY
     (Json (JObj [(''reason'', JStr (si_reason issue)), (''count'', num_raw (of_int (si_count issue))),
        (''labels'', strs (si_labels issue)), (''at'', num_raw (of_int nowMs))])) ls)"

definition lastSyncIssue :: "local_store \<Rightarrow> (string \<times> jsval) list option" where
  "lastSyncIssue ls = (case storageGet ls ISSUE_KEY of None \<Rightarrow> None
     | Some t \<Rightarrow> (case json_parse t of
           Some (JObj issue) \<Rightarrow> (case (jget issue ''count'', jget issue ''labels'') of
               (JNum _, JArr _) \<Rightarrow> Some issue | _ \<Rightarrow> None)
         | _ \<Rightarrow> None))"

definition clearSyncIssue :: "local_store \<Rightarrow> local_store" where
  "clearSyncIssue ls = storageRemove ISSUE_KEY ls"

section \<open>Facts\<close>

text \<open>the floating timer can always be reached.  Its bounds are never empty, and in a
  window of at least 50 by 102 pixels the default position lies within them, on phones and beside a
  sidebar of any width.\<close>

theorem timer_default_within_bounds:
  assumes "vp_window w" and "vp_visual w = None" and "50 \<le> vp_inner_width w" and "102 \<le> vp_inner_height w"
  shows "let b = floatingTimerBounds w; p = defaultFloatingTimerPosition w (vp_inner_width w)
    in minX b \<le> maxX b \<and> minY b \<le> maxY b \<and>
       minX b \<le> tp_x p \<and> tp_x p \<le> maxX b \<and> minY b \<le> tp_y p \<and> tp_y p \<le> maxY b"
  using assms
  by (auto simp: Let_def floatingTimerBounds_def defaultFloatingTimerPosition_def currentSidebarWidth_def
      FLOAT_TIMER_VIEWPORT_PADDING_def FLOAT_TIMER_MIN_VISIBLE_X_def FLOAT_TIMER_MIN_VISIBLE_Y_def
      FLOAT_TIMER_HEADER_OVERLAP_Y_def FLOAT_TIMER_DEFAULT_BOTTOM_OFFSET_def le_max_iff_disj)

lemma timer_default_within_bounds_witness:
  "tp_x (defaultFloatingTimerPosition \<lparr>vp_document = True, vp_window = True, vp_sidebar = Some (Fin 240),
     vp_content_top = Some (Fin 90), vp_inner_width = 1400, vp_inner_height = 800, vp_visual = None\<rparr> 1400)
   \<le> maxX (floatingTimerBounds \<lparr>vp_document = True, vp_window = True, vp_sidebar = Some (Fin 240),
     vp_content_top = Some (Fin 90), vp_inner_width = 1400, vp_inner_height = 800, vp_visual = None\<rparr>)"
  using timer_default_within_bounds [of "\<lparr>vp_document = True, vp_window = True, vp_sidebar = Some (Fin 240),
     vp_content_top = Some (Fin 90), vp_inner_width = 1400, vp_inner_height = 800, vp_visual = None\<rparr>"]
  by (simp add: Let_def)

lemma draft_key_not_cache: "\<not> is_cache_key (scoutDraftKey w m t)"
  by (simp add: is_cache_key_def starts_with_def scoutDraftKey_def SCOUT_DRAFT_PREFIX_def API_CACHE_PREFIX_def)

lemma lower_char_colon: "lower_char c = CHR '':'' \<longleftrightarrow> c = CHR '':''"
proof
  assume e: "lower_char c = CHR '':''"
  have "of_char (lower_char c) = (of_char c :: nat) \<or> 97 \<le> (of_char (lower_char c) :: nat)"
    by (auto simp: lower_char_def Let_def of_char_of)
  then show "c = CHR '':''" using e by (simp only: of_char_eq_iff) auto
qed (simp add: lower_char_def)

lemma js_lower_colon: "CHR '':'' \<in> set (js_lower s) \<longleftrightarrow> CHR '':'' \<in> set s"
  using lower_char_colon by (induction s) (simp_all add: js_lower_def, metis)

text \<open>A workspace, a match and a team have a key of their own, the case of the letters aside.\<close>

lemma draft_keys_differ:
  assumes "CHR '':'' \<notin> set m" and "CHR '':'' \<notin> set m'"
  shows "scoutDraftKey w m t = scoutDraftKey w' m' t' \<longleftrightarrow>
    nullish w 0 = nullish w' 0 \<and> js_lower m = js_lower m' \<and> js_lower t = js_lower t'"
proof
  assume e: "scoutDraftKey w m t = scoutDraftKey w' m' t'"
  have w: "int_str (nullish w 0) = int_str (nullish w' 0) \<and>
      js_lower m @ CHR '':'' # js_lower t = js_lower m' @ CHR '':'' # js_lower t'"
    by (rule split_at_colon [OF int_str_no_colon int_str_no_colon]) (use e in \<open>simp add: scoutDraftKey_def\<close>)
  with split_at_colon [of "CHR '':''" "js_lower m" "js_lower m'" "js_lower t" "js_lower t'"] assms
  show "nullish w 0 = nullish w' 0 \<and> js_lower m = js_lower m' \<and> js_lower t = js_lower t'"
    by (auto simp: js_lower_colon dest: int_str_inj)
qed (simp add: scoutDraftKey_def)

lemma json_text_object: "json_text nstr (JObj d) \<noteq> []"
  by simp

text \<open>Claim C17: a half-scouted match can be resumed in its tab, even when the phone could not store it.
  Through the JSON text that is stored, reading the draft of a workspace, match and team gives back
  exactly the object that was written, whatever the letters' case in the match and team keys; a draft of
  another workspace, another match or another team is not disturbed, written or discarded; and
  discarding leaves nothing to resume.  The draft holds a form and only values JSON keeps, with
  integers below 10^21 for numbers, and match keys have no colon.\<close>

theorem scout_draft_resumes:
  assumes "truthy (jget d ''form'')" and "json_plain (JObj d)" and "map_ok (pending r)"
    and "CHR '':'' \<notin> set m" and "CHR '':'' \<notin> set m'"
  shows "let written = snd (writeScoutDraft nstr quota (scoutDraftKey w m t) (Some d) r);
      discarded = snd (writeScoutDraft nstr quota (scoutDraftKey w m t) None r);
      same = nullish w' 0 = nullish w 0 \<and> js_lower m' = js_lower m \<and> js_lower t' = js_lower t
    in readScoutDraft written (scoutDraftKey w' m' t') =
         (if same then Some d else readScoutDraft r (scoutDraftKey w' m' t')) \<and>
       readScoutDraft discarded (scoutDraftKey w' m' t') =
         (if same then None else readScoutDraft r (scoutDraftKey w' m' t'))"
proof -
  have p: "readRecoverableScoutDraft (snd (persistRecoverableScoutDraft length stored_at quota (scoutDraftKey w m t) u r))
        (scoutDraftKey w m t) = u \<and>
      (\<forall>j. j \<noteq> scoutDraftKey w m t \<and> \<not> is_cache_key j \<longrightarrow>
        readRecoverableScoutDraft (snd (persistRecoverableScoutDraft length stored_at quota (scoutDraftKey w m t) u r)) j
          = readRecoverableScoutDraft r j)" for u
    using persist_reads [OF draft_key_not_cache assms(3)] by blast
  have k: "scoutDraftKey w' m' t' = scoutDraftKey w m t \<longleftrightarrow>
      nullish w' 0 = nullish w 0 \<and> js_lower m' = js_lower m \<and> js_lower t' = js_lower t"
    by (rule draft_keys_differ [OF assms(5,4)])
  show ?thesis
  proof (cases "scoutDraftKey w' m' t' = scoutDraftKey w m t")
    case True
    then show ?thesis using p assms(1) json_read_text [OF assms(2), of nstr] json_text_object [of nstr d]
      unfolding Let_def k [symmetric]
      by (simp add: readScoutDraft_def writeScoutDraft_def del: json_text.simps)
  next
    case False
    then show ?thesis using p draft_key_not_cache unfolding Let_def k [symmetric]
      by (simp add: readScoutDraft_def writeScoutDraft_def)
  qed
qed

lemma scout_draft_resumes_witness:
  "let phone = snd (writeScoutDraft (\<lambda>_. []) 10 (scoutDraftKey (Some 7) ''2026casj_qm1'' ''frc254'')
      (Some [(''form'', JObj [(''teleop_scored'', JNum (Fin 12))])]) \<lparr>pending = [], store = Some []\<rparr>)
   in readScoutDraft phone (scoutDraftKey (Some 7) ''2026casj_qm1'' ''FRC254'') =
        Some [(''form'', JObj [(''teleop_scored'', JNum (Fin 12))])] \<and>
      readScoutDraft phone (scoutDraftKey (Some 7) ''2026casj_qm1'' ''frc604'') = None"
proof -
  let ?d = "[(''form'', JObj [(''teleop_scored'', JNum (Fin 12))])]" and ?r = "\<lparr>pending = [], store = Some []\<rparr> :: string recovery"
  have h: "truthy (jget ?d ''form'')" "json_plain (JObj ?d)" "map_ok (pending ?r)" "CHR '':'' \<notin> set ''2026casj_qm1''"
    by (simp_all add: jget_def)
  have "js_lower ''FRC254'' = js_lower ''frc254''" "js_lower ''frc604'' \<noteq> js_lower ''frc254''" by code_simp+
  moreover have "readScoutDraft ?r j = None" for j
    by (simp add: readScoutDraft_def readRecoverableScoutDraft_def map_get_def)
  ultimately show ?thesis
    using scout_draft_resumes [OF h(1-4) h(4), of "\<lambda>_. []" 10 "Some 7" "''frc254''" "Some 7" "''FRC254''"]
      scout_draft_resumes [OF h(1-4) h(4), of "\<lambda>_. []" 10 "Some 7" "''frc254''" "Some 7" "''frc604''"]
    unfolding Let_def by simp
qed

text \<open>a flag a scout sends is understood by every phone it reaches as the same flag, is
  never shown to the scout who sent it, whatever the case of the name, is shown to everyone else, and
  is a warning exactly for the four tags that mean a robot is out.\<close>

theorem live_flag_round_trip:
  assumes "tag \<in> set TAG_IDS" and "all_digits (drop 3 team)" and "take 3 team = ''frc''"
    and "js_lower mkey = mkey" and "mkey \<noteq> []" and "js_trim scout \<noteq> []"
  shows "\<exists>req flag. liveFlagRequest tag team mkey = Some req \<and>
    parseLiveFlag nstr (req @ [(''scout_profile'', JStr scout)]) = Some flag \<and>
    flag = \<lparr>fl_scout = js_trim scout, fl_teamKey = team, fl_matchKey = mkey, fl_tag = tag\<rparr> \<and>
    (liveFlagToast flag me = None \<longleftrightarrow> js_lower (js_trim scout) = js_lower (js_trim me)) \<and>
    (\<forall>msg tn. liveFlagToast flag me = Some (msg, tn) \<longrightarrow>
       (tn = Warning \<longleftrightarrow> tag \<in> {''broke_down'', ''tipped'', ''lost_power'', ''no_show''}))"
proof -
  have "team = ''frc'' @ drop 3 team" using assms(3) by (metis append_take_drop_id)
  moreover have "lower_char c = c" if "is_digit c" for c
    using that by (auto simp: is_digit_def lower_char_def Let_def)
  then have "js_lower (drop 3 team) = drop 3 team"
    using assms(2) by (simp add: js_lower_def all_digits_def map_idI)
  moreover have "js_lower ''frc'' = ''frc''" by code_simp
  ultimately have team: "js_lower team = team" by (metis js_lower_def map_append)
  have ne: "team \<noteq> []" using assms(3) by auto
  show ?thesis
    using assms team ne
    by (simp add: liveFlagRequest_def parseLiveFlag_def Let_def js_nullish_def isScoutNoteTag_def
        liveFlagToast_def WARNING_NOTE_TAGS_def)
qed

lemma live_flag_round_trip_witness:
  "\<exists>req flag. liveFlagRequest ''tipped'' ''frc254'' ''2026casj_qm12'' = Some req \<and>
     parseLiveFlag (\<lambda>_. []) (req @ [(''scout_profile'', JStr '' Ava'')]) = Some flag \<and> fl_scout flag = ''Ava''"
proof -
  have h: "''tipped'' \<in> set TAG_IDS" "all_digits (drop 3 ''frc254'')" "take 3 ''frc254'' = ''frc''"
    "js_lower ''2026casj_qm12'' = ''2026casj_qm12''" "''2026casj_qm12'' \<noteq> []" "js_trim '' Ava'' \<noteq> []"
    "js_trim '' Ava'' = ''Ava''"
    by code_simp+
  show ?thesis using live_flag_round_trip [OF h(1-6), of "\<lambda>_. []" "''Bo''"] h(7) by auto
qed

end
