(* ===== verification/OfflineQueue.thy ===== *)
theory OfflineQueue
  imports JsValue "HOL-Library.List_Lexorder"
begin

text \<open>
  The offline queue of writes, \<open>src/ScoutingApp/src/utils/offlineQueue.ts\<close>.  A \<open>device\<close> is what one
  phone keeps (the rows of the IndexedDB store, the legacy list in \<open>localStorage\<close>) and the state of
  the module (which of the two is in use, whether it is initialised, the last known count).  Every
  storage write and every read of the database may fail: \<open>q_fails n\<close> says whether the \<open>n\<close>-th one does,
  and \<open>d_tick\<close> counts them.  An operation that can throw returns \<open>None\<close> or \<open>False\<close> with the state it
  leaves.  On a native app rows are sealed by the platform's secure storage, whose two functions are
  the parameters \<open>q_seal\<close> and \<open>q_open\<close>; what is sealed is the text of the item, represented by the
  item.  The network is a function from the item sent to the reply.  The flush is given as a whole
  and, in \<open>queue_step\<close>, one item at a time, interleaved with new saves.
\<close>

section \<open>Queued writes\<close>

datatype refusal = ServerRejected | Conflict

datatype drop_reason = StorageFailure | Refused refusal

record mutation =
  q_id :: string
  q_queuedAt :: string
  q_url :: string
  q_method :: string
  q_body :: "jtext option"
  q_headers :: "(string \<times> string) list"
  q_attempts :: nat
  q_label :: "string option"
  q_failure :: "(refusal \<times> int) option"

record dropped_info =
  di_reason :: drop_reason
  di_count :: nat
  di_labels :: "string list"

text \<open>A row of the object store: the item itself, or its id and the sealed item.\<close>

datatype 'c row = Plain mutation | Sealed string 'c

record 'c queue_env =
  q_native :: bool
  q_fails :: "nat \<Rightarrow> bool"
  q_seal :: "mutation \<Rightarrow> 'c"
  q_open :: "'c \<Rightarrow> mutation option"

record 'c device =
  d_idb :: "(string, 'c row) jsmap"
  d_ls :: "mutation list"
  d_off :: bool
  d_ready :: bool
  d_known :: nat
  d_tick :: nat

text \<open>\<open>a < b\<close> on strings: the code units in order.\<close>

definition str_key :: "string \<Rightarrow> nat list" where
  "str_key s = map of_char s"

definition js_less :: "string \<Rightarrow> string \<Rightarrow> bool" where
  "js_less s t \<longleftrightarrow> str_key s < str_key t"

definition by_queuedAt :: "mutation \<Rightarrow> mutation \<Rightarrow> int" where
  "by_queuedAt a b = (if js_less (q_queuedAt a) (q_queuedAt b) then - 1 else 1)"

definition pending_count :: "mutation list \<Rightarrow> nat" where
  "pending_count q = length (filter (\<lambda>m. q_failure m = None) q)"

definition emitChange :: "nat \<Rightarrow> 'c device \<Rightarrow> 'c device" where
  "emitChange n d = d\<lparr>d_known := n\<rparr>"

section \<open>The two stores\<close>

definition op_fails :: "'c queue_env \<Rightarrow> 'c device \<Rightarrow> bool" where
  "op_fails env d = q_fails env (d_tick d)"

definition tick :: "'c device \<Rightarrow> 'c device" where
  "tick d = d\<lparr>d_tick := Suc (d_tick d)\<rparr>"

definition row_of :: "'c queue_env \<Rightarrow> mutation \<Rightarrow> 'c row" where
  "row_of env m = (if q_native env then Sealed (q_id m) (q_seal env m) else Plain m)"

definition decode_row :: "'c queue_env \<Rightarrow> 'c row \<Rightarrow> mutation option" where
  "decode_row env r = (case r of Plain m \<Rightarrow> Some m
     | Sealed i c \<Rightarrow> if \<not> q_native env then None
         else (case q_open env c of None \<Rightarrow> None | Some m \<Rightarrow> if q_id m = i then Some m else None))"

text \<open>\<open>getAll\<close> returns the rows in the order of their keys.\<close>

definition rows_in_key_order :: "(string, 'c row) jsmap \<Rightarrow> 'c row list" where
  "rows_in_key_order rows = map snd (js_sort (\<lambda>a b. if js_less (fst a) (fst b) then - 1 else 1) rows)"

definition idbReadAll :: "'c queue_env \<Rightarrow> 'c device \<Rightarrow> mutation list option \<times> 'c device" where
  "idbReadAll env d =
     (if op_fails env d then None
      else map_option (js_sort by_queuedAt)
        (those (map (decode_row env) (rows_in_key_order (d_idb d)))), tick d)"

definition idbPut :: "'c queue_env \<Rightarrow> mutation \<Rightarrow> 'c device \<Rightarrow> bool \<times> 'c device" where
  "idbPut env m d =
     (if op_fails env d then (False, tick d)
      else (True, (tick d)\<lparr>d_idb := map_set (q_id m) (row_of env m) (d_idb d)\<rparr>))"

definition idbDelete :: "'c queue_env \<Rightarrow> string list \<Rightarrow> 'c device \<Rightarrow> bool \<times> 'c device" where
  "idbDelete env ids d =
     (if ids = [] then (True, d)
      else if op_fails env d then (False, tick d)
      else (True, (tick d)\<lparr>d_idb := fold map_delete ids (d_idb d)\<rparr>))"

definition lsRead :: "'c device \<Rightarrow> mutation list" where
  "lsRead d = d_ls d"

definition lsWrite :: "'c queue_env \<Rightarrow> mutation list \<Rightarrow> 'c device \<Rightarrow> bool \<times> 'c device" where
  "lsWrite env q d =
     (if op_fails env d then (False, tick d) else (True, (tick d)\<lparr>d_ls := q\<rparr>))"

definition lsClear :: "'c device \<Rightarrow> 'c device" where
  "lsClear d = d\<lparr>d_ls := []\<rparr>"

section \<open>Start and migration\<close>

fun put_all :: "'c queue_env \<Rightarrow> mutation list \<Rightarrow> 'c device \<Rightarrow> bool \<times> 'c device" where
  "put_all env [] d = (True, d)"
| "put_all env (m # ms) d = (case idbPut env m d of
     (True, d') \<Rightarrow> put_all env ms d' | (False, d') \<Rightarrow> (False, d'))"

text \<open>What is stored already wins over the legacy list, whose first entry of an id wins over later ones.\<close>

definition merge_rows :: "mutation list \<Rightarrow> mutation list \<Rightarrow> (string, mutation) jsmap" where
  "merge_rows existing legacy =
     fold (\<lambda>m rows. if map_has rows (q_id m) then rows else map_set (q_id m) m rows) legacy
       (fold (\<lambda>m. map_set (q_id m) m) existing [])"

definition nativeInit :: "'c queue_env \<Rightarrow> 'c device \<Rightarrow> bool \<times> 'c device" where
  "nativeInit env d = (case idbReadAll env d of
       (None, d1) \<Rightarrow> (False, d1)
     | (Some existing, d1) \<Rightarrow>
        (let rows = map_values (merge_rows existing (lsRead d1))
         in case put_all env rows d1 of
              (False, d2) \<Rightarrow> (False, d2)
            | (True, d2) \<Rightarrow> (True, emitChange (pending_count rows) (lsClear d2))))"

definition idb_gave_up :: "'c device \<Rightarrow> bool \<times> 'c device" where
  "idb_gave_up d = (True, emitChange (pending_count (lsRead d)) (d\<lparr>d_off := True\<rparr>))"

definition webInit :: "'c queue_env \<Rightarrow> 'c device \<Rightarrow> bool \<times> 'c device" where
  "webInit env d =
     (let legacy = lsRead d
      in case (if legacy = [] then (True, d) else put_all env legacy d) of
           (False, d1) \<Rightarrow> idb_gave_up d1
         | (True, d1) \<Rightarrow>
            (let d2 = (if legacy = [] then d1 else lsClear d1)
             in case idbReadAll env d2 of
                  (None, d3) \<Rightarrow> idb_gave_up d3
                | (Some q, d3) \<Rightarrow> (True, emitChange (pending_count q) d3)))"

text \<open>\<open>initPromise\<close> is kept when it resolves and forgotten when it rejects.\<close>

definition ensureInit :: "'c queue_env \<Rightarrow> 'c device \<Rightarrow> bool \<times> 'c device" where
  "ensureInit env d =
     (if d_ready d then (True, d)
      else (case (if q_native env then nativeInit env d else webInit env d) of
          (okay, d') \<Rightarrow> (okay, d'\<lparr>d_ready := okay\<rparr>)))"

definition readQueue :: "'c queue_env \<Rightarrow> 'c device \<Rightarrow> mutation list option \<times> 'c device" where
  "readQueue env d = (case ensureInit env d of
       (False, d1) \<Rightarrow> (None, d1)
     | (True, d1) \<Rightarrow> if d_off d1 then (Some (lsRead d1), d1) else idbReadAll env d1)"

section \<open>Saving and removing\<close>

definition saveQueuedItem :: "'c queue_env \<Rightarrow> mutation \<Rightarrow> 'c device \<Rightarrow> bool \<times> 'c device" where
  "saveQueuedItem env m d =
     (if \<not> d_off d then idbPut env m d
      else (let queue = lsRead d
            in if list_ex (\<lambda>row. q_id row = q_id m) queue
               then lsWrite env (takeWhile (\<lambda>row. q_id row \<noteq> q_id m) queue @ [m] @
                      tl (dropWhile (\<lambda>row. q_id row \<noteq> q_id m) queue)) d
               else lsWrite env (queue @ [m]) d))"

definition removeQueuedItem :: "'c queue_env \<Rightarrow> string \<Rightarrow> 'c device \<Rightarrow> bool \<times> 'c device" where
  "removeQueuedItem env i d =
     (if \<not> d_off d then idbDelete env [i] d
      else lsWrite env (filter (\<lambda>m. q_id m \<noteq> i) (lsRead d)) d)"

definition label_or :: "mutation \<Rightarrow> string" where
  "label_or m = nullish (q_label m) ''Scouting changes''"

text \<open>\<open>enqueue\<close>: the mutation comes with its new id and time.  The result is whether the promise
  resolves, what was reported as dropped, and the device.\<close>

definition enqueue :: "'c queue_env \<Rightarrow> mutation \<Rightarrow> 'c device \<Rightarrow>
    bool \<times> dropped_info list \<times> 'c device" where
  "enqueue env m d =
     (let item = m\<lparr>q_attempts := 0, q_failure := None\<rparr>
      in case ensureInit env d of
           (False, d1) \<Rightarrow> (False, [], d1)
         | (True, d1) \<Rightarrow> (case saveQueuedItem env item d1 of
             (False, d2) \<Rightarrow> (False, [\<lparr>di_reason = StorageFailure, di_count = 1,
                di_labels = [label_or item]\<rparr>], d2)
           | (True, d2) \<Rightarrow> (case readQueue env d2 of
               (None, d3) \<Rightarrow> (False, [], d3)
             | (Some q, d3) \<Rightarrow> (True, [], emitChange (pending_count q) d3))))"

definition listQueuedMutations :: "'c queue_env \<Rightarrow> 'c device \<Rightarrow> mutation list option \<times> 'c device" where
  "listQueuedMutations env d = readQueue env d"

definition listFailedMutations :: "'c queue_env \<Rightarrow> 'c device \<Rightarrow> mutation list option \<times> 'c device" where
  "listFailedMutations env d = (case readQueue env d of
     (q, d') \<Rightarrow> (map_option (filter (\<lambda>m. q_failure m \<noteq> None)) q, d'))"

record recovery_row =
  rec_id :: string
  rec_queuedAt :: string
  rec_method :: string
  rec_body :: "jtext option"
  rec_label :: "string option"
  rec_failure :: "(refusal \<times> int) option"

definition recoveryChanges :: "'c queue_env \<Rightarrow> 'c device \<Rightarrow> recovery_row list option \<times> 'c device" where
  "recoveryChanges env d = (case listFailedMutations env d of
     (q, d') \<Rightarrow> (map_option (map (\<lambda>m. \<lparr>rec_id = q_id m, rec_queuedAt = q_queuedAt m,
        rec_method = q_method m, rec_body = q_body m, rec_label = q_label m, rec_failure = q_failure m\<rparr>)) q, d'))"

definition queue_size :: "'c device \<Rightarrow> nat" where
  "queue_size d = d_known d"

section \<open>Replaying\<close>

text \<open>What \<open>fetch\<close> gives: nothing (an error or the timeout), or a status with a body whose text is
  \<open>None\<close> when reading it fails, and the content type.\<close>

datatype reply = NoReply | Reply (r_status: int) (r_body: "jtext option") (r_type: "string option")

definition res_ok :: "int \<Rightarrow> bool" where
  "res_ok status \<longleftrightarrow> 200 \<le> status \<and> status \<le> 299"

text \<open>\<open>None\<close> where the function throws.\<close>

definition isConflictBody :: "jtext option \<Rightarrow> string option \<Rightarrow> bool option" where
  "isConflictBody body ctype = (case body of None \<Rightarrow> None
     | Some t \<Rightarrow> if text_empty t then Some False
         else (case json_parse t of
             None \<Rightarrow> if js_includes (nullish ctype []) ''application/json'' then None else Some False
           | Some (JObj m) \<Rightarrow> Some (jget m ''ok'' = JBool False \<and> jget m ''conflict'' = JBool True)
           | Some _ \<Rightarrow> Some False))"

datatype verdict = Delivered | Retry | Refuse refusal int

definition judge :: "reply \<Rightarrow> verdict" where
  "judge r = (case r of NoReply \<Rightarrow> Retry
     | Reply status body ctype \<Rightarrow>
        (case (if status = 409 then Some True
               else if res_ok status then isConflictBody body ctype else Some False) of
           None \<Rightarrow> Retry
         | Some conflict \<Rightarrow>
             if res_ok status \<and> \<not> conflict then Delivered
             else if status \<ge> 500 \<or> status = 408 \<or> status = 429 then Retry
             else Refuse (if conflict then Conflict else ServerRejected) status))"

text \<open>The key of the record an item writes; \<open>None\<close> where \<open>recordKey\<close> throws, for a body that is
  the JSON text \<open>null\<close>.\<close>

definition recordKey :: "mutation \<Rightarrow> string option" where
  "recordKey m =
     (let body = (case q_body m of None \<Rightarrow> JObj []
            | Some t \<Rightarrow> if text_empty t then JObj [] else nullish (json_parse t) (JObj []));
          part = (\<lambda>name. case body of
            JObj b \<Rightarrow> (case jget b name of JStr s \<Rightarrow> js_lower s | _ \<Rightarrow> []) | _ \<Rightarrow> [])
      in if body = JNull then None
         else Some (js_join ''|'' [q_method m, hd (js_split (CHR ''?'') (q_url m)),
           part ''event_key'', part ''team_key'', part ''client_entry_id'']))"

text \<open>The state of a running flush; \<open>put\<close> and \<open>del\<close> are the storage operations it calls.\<close>

record 'd flush_state =
  fs_dev :: 'd
  fs_waiting :: "string list"
  fs_success :: nat
  fs_log :: "(mutation \<times> verdict) list"
  fs_dropped :: "dropped_info list"

definition bump :: "mutation \<Rightarrow> mutation" where
  "bump m = m\<lparr>q_attempts := q_attempts m + 1\<rparr>"

definition replay_item :: "(mutation \<Rightarrow> 'd \<Rightarrow> bool \<times> 'd) \<Rightarrow> (string \<Rightarrow> 'd \<Rightarrow> bool \<times> 'd) \<Rightarrow>
    (mutation \<Rightarrow> reply) \<Rightarrow> mutation \<Rightarrow> 'd flush_state \<Rightarrow> bool \<times> 'd flush_state" where
  "replay_item put del net m fs =
     (if q_failure m \<noteq> None then (True, fs)
      else (case recordKey m of None \<Rightarrow> (False, fs)
        | Some key \<Rightarrow>
           if key \<in> set (fs_waiting fs) then (True, fs)
           else
             (let v = judge (net m); fs1 = fs\<lparr>fs_log := fs_log fs @ [(m, v)]\<rparr>
              in case v of
                Retry \<Rightarrow> (case put (bump m) (fs_dev fs) of (okay, d) \<Rightarrow>
                  (okay, fs1\<lparr>fs_dev := d,
                     fs_waiting := (if okay then key # fs_waiting fs else fs_waiting fs)\<rparr>))
              | Delivered \<Rightarrow> (case del (q_id m) (fs_dev fs) of (okay, d) \<Rightarrow>
                  (okay, fs1\<lparr>fs_dev := d,
                     fs_success := (if okay then Suc (fs_success fs) else fs_success fs)\<rparr>))
              | Refuse reason status \<Rightarrow>
                  (case put ((bump m)\<lparr>q_failure := Some (reason, status)\<rparr>) (fs_dev fs) of (okay, d) \<Rightarrow>
                    (okay, fs1\<lparr>fs_dev := d, fs_dropped := (if okay
                       then fs_dropped fs @ [\<lparr>di_reason = Refused reason, di_count = 1,
                         di_labels = [label_or m]\<rparr>] else fs_dropped fs)\<rparr>)))))"

fun replay_loop :: "(mutation \<Rightarrow> 'd \<Rightarrow> bool \<times> 'd) \<Rightarrow> (string \<Rightarrow> 'd \<Rightarrow> bool \<times> 'd) \<Rightarrow>
    (mutation \<Rightarrow> reply) \<Rightarrow> mutation list \<Rightarrow> 'd flush_state \<Rightarrow> bool \<times> 'd flush_state" where
  "replay_loop put del net [] fs = (True, fs)"
| "replay_loop put del net (m # ms) fs = (case replay_item put del net m fs of
     (False, fs') \<Rightarrow> (False, fs') | (True, fs') \<Rightarrow> replay_loop put del net ms fs')"

definition start_flush :: "'d \<Rightarrow> 'd flush_state" where
  "start_flush d = \<lparr>fs_dev = d, fs_waiting = [], fs_success = 0, fs_log = [], fs_dropped = []\<rparr>"

text \<open>\<open>flushQueue\<close>: the number delivered, \<open>None\<close> where it rejects, with the state it leaves.\<close>

definition flushQueue :: "'c queue_env \<Rightarrow> (mutation \<Rightarrow> reply) \<Rightarrow> 'c device \<Rightarrow>
    nat option \<times> 'c device flush_state" where
  "flushQueue env net d = (case readQueue env d of
       (None, d1) \<Rightarrow> (None, start_flush d1)
     | (Some q, d1) \<Rightarrow>
        if q = [] then (Some 0, start_flush d1)
        else (case replay_loop (saveQueuedItem env) (removeQueuedItem env) net q (start_flush d1) of
            (False, fs) \<Rightarrow> (None, fs)
          | (True, fs) \<Rightarrow> (case readQueue env (fs_dev fs) of
              (None, d2) \<Rightarrow> (None, fs\<lparr>fs_dev := d2\<rparr>)
            | (Some q', d2) \<Rightarrow>
                (Some (fs_success fs), fs\<lparr>fs_dev := emitChange (pending_count q') d2\<rparr>))))"

section \<open>What a store promises\<close>

text \<open>An item without what replaying changes in it.\<close>

definition core :: "mutation \<Rightarrow> mutation" where
  "core m = m\<lparr>q_attempts := 0, q_failure := None\<rparr>"

definition covers :: "mutation set \<Rightarrow> mutation set \<Rightarrow> bool" where
  "covers S T \<longleftrightarrow> (\<forall>x \<in> S. \<exists>y \<in> T. core y = core x)"

definition ids_agree :: "mutation set \<Rightarrow> bool" where
  "ids_agree S \<longleftrightarrow> (\<forall>x \<in> S. \<forall>y \<in> S. q_id x = q_id y \<longrightarrow> core x = core y)"

lemma core_simps [simp]: "q_id (core m) = q_id m" "core (core m) = core m" "core (bump m) = core m"
  "core (m\<lparr>q_failure := f\<rparr>) = core m" "core (m\<lparr>q_attempts := a\<rparr>) = core m"
  "q_id (bump m) = q_id m" "q_failure (bump m) = q_failure m"
  by (simp_all add: core_def bump_def)

lemma core_id: "core x = core y \<Longrightarrow> q_id x = q_id y"
  by (metis core_simps(1))

lemma covers_refl [simp]: "covers S S"
  by (auto simp: covers_def)

lemma covers_sub: "S \<subseteq> T \<Longrightarrow> covers S T"
  by (auto simp: covers_def)

lemma covers_mono: "covers S T \<Longrightarrow> S' \<subseteq> S \<Longrightarrow> T \<subseteq> T' \<Longrightarrow> covers S' T'"
  by (fastforce simp: covers_def)

lemma covers_trans: "covers S T \<Longrightarrow> covers T U \<Longrightarrow> covers S U"
  unfolding covers_def by metis

lemma covers_Un: "covers (S \<union> T) U \<longleftrightarrow> covers S U \<and> covers T U"
  by (auto simp: covers_def)

lemma covers_insert:
  assumes "T \<subseteq> insert n C" and "core n = core m"
  shows "covers T (insert m C)"
  unfolding covers_def
proof
  fix x assume "x \<in> T"
  with assms(1) have "x = n \<or> x \<in> C" by blast
  then show "\<exists>y \<in> insert m C. core y = core x" using assms(2) by auto
qed

lemma ids_agree_mono: "ids_agree S \<Longrightarrow> T \<subseteq> S \<Longrightarrow> ids_agree T"
  by (auto simp: ids_agree_def)

lemma ids_agree_core:
  assumes "ids_agree S" and "covers T S"
  shows "ids_agree (S \<union> T)"
proof -
  have "\<exists>y \<in> S. core y = core x" if "x \<in> S \<union> T" for x
    using that assms(2) by (auto simp: covers_def)
  then show ?thesis using assms(1) unfolding ids_agree_def by (metis core_id)
qed

locale mutation_store =
  fixes put :: "mutation \<Rightarrow> 'd \<Rightarrow> bool \<times> 'd"
    and del :: "string \<Rightarrow> 'd \<Rightarrow> bool \<times> 'd"
    and content :: "'d \<Rightarrow> mutation set"
    and ok :: "'d \<Rightarrow> bool"
  assumes put_ok: "ok d \<Longrightarrow> put m d = (b, d') \<Longrightarrow> ok d'"
    and put_stores: "ok d \<Longrightarrow> put m d = (True, d') \<Longrightarrow>
      m \<in> content d' \<and> content d' \<subseteq> insert m (content d) \<and>
      (\<forall>x \<in> content d. q_id x \<noteq> q_id m \<longrightarrow> x \<in> content d')"
    and put_fails: "ok d \<Longrightarrow> put m d = (False, d') \<Longrightarrow> content d' = content d"
    and del_ok: "ok d \<Longrightarrow> del i d = (b, d') \<Longrightarrow> ok d'"
    and del_removes: "ok d \<Longrightarrow> del i d = (True, d') \<Longrightarrow>
      content d' \<subseteq> content d \<and> (\<forall>x \<in> content d. q_id x \<noteq> i \<longrightarrow> x \<in> content d')"
    and del_fails: "ok d \<Longrightarrow> del i d = (False, d') \<Longrightarrow> content d' = content d"
begin

lemma put_covers:
  assumes "ok d" and "put m d = (b, d')" and "ids_agree (insert m (content d))"
  shows "covers (content d) (content d') \<and> content d' \<subseteq> insert m (content d) \<and> (b \<longrightarrow> m \<in> content d')"
proof (cases b)
  case True
  with assms(2) have p: "put m d = (True, d')" by simp
  note s = put_stores [OF assms(1) p]
  have "\<exists>y \<in> content d'. core y = core x" if "x \<in> content d" for x
  proof (cases "q_id x = q_id m")
    case True
    then have "core m = core x" using assms(3) that unfolding ids_agree_def by (metis insertCI)
    with s show ?thesis by blast
  next
    case False
    with s that show ?thesis by blast
  qed
  with s show ?thesis by (simp add: covers_def)
next
  case False
  with assms put_fails show ?thesis by auto
qed

text \<open>One item of a flush: nothing is lost but what the server confirmed, nothing new appears, and a
  refused item is kept with the refusal.\<close>

lemma replay_item_keeps:
  assumes "ok (fs_dev fs)" and "replay_item put del net m fs = (b, fs')"
    and "ids_agree (insert m (content (fs_dev fs)))"
  shows "ok (fs_dev fs') \<and>
    covers (content (fs_dev fs)) (content (fs_dev fs') \<union> {z. (z, Delivered) \<in> set (fs_log fs')}) \<and>
    covers (content (fs_dev fs')) (insert m (content (fs_dev fs))) \<and>
    (\<forall>z v. (z, v) \<in> set (fs_log fs') \<longrightarrow> (z, v) \<in> set (fs_log fs) \<or> z = m)"
proof (cases "q_failure m \<noteq> None \<or> recordKey m = None \<or> (\<exists>key. recordKey m = Some key \<and> key \<in> set (fs_waiting fs))")
  case True
  then have "fs' = fs" using assms(2) by (auto simp: replay_item_def split: if_splits option.splits)
  then show ?thesis using assms(1) by (auto simp: covers_def)
next
  case False
  then obtain key where k: "q_failure m = None" "recordKey m = Some key" "key \<notin> set (fs_waiting fs)"
    by (cases "recordKey m"; cases "q_failure m") auto
  have put: "ok d' \<and> covers (content (fs_dev fs)) (content d') \<and> covers (content d') (insert m (content (fs_dev fs)))"
    if "put n (fs_dev fs) = (b', d')" "core n = core m" for n b' d'
  proof -
    have "ids_agree (insert n (content (fs_dev fs)))"
      using assms(3) that(2) unfolding ids_agree_def by (metis core_id insert_iff)
    from put_covers [OF assms(1) that(1) this] put_ok [OF assms(1) that(1)] that(2)
    show ?thesis using covers_insert [of "content d'" n "content (fs_dev fs)" m] by blast
  qed
  show ?thesis
  proof (cases "judge (net m)")
    case Delivered
    obtain b' d' where d: "del (q_id m) (fs_dev fs) = (b', d')" by force
    then have fs': "fs_dev fs' = d'" "fs_log fs' = fs_log fs @ [(m, Delivered)]"
      using assms(2) k Delivered by (auto simp: replay_item_def Let_def)
    have "content d' \<subseteq> content (fs_dev fs) \<and> (\<forall>x \<in> content (fs_dev fs). q_id x \<noteq> q_id m \<longrightarrow> x \<in> content d')"
      using del_removes [OF assms(1)] del_fails [OF assms(1)] d by (cases b') auto
    moreover have "\<exists>y \<in> insert m (content d'). core y = core x" if x: "x \<in> content (fs_dev fs)" for x
    proof (cases "q_id x = q_id m")
      case True
      then have "core m = core x" using assms(3) x unfolding ids_agree_def by (metis insertCI)
      then show ?thesis by blast
    next
      case False
      then show ?thesis using calculation x by blast
    qed
    ultimately have "covers (content (fs_dev fs)) (insert m (content d')) \<and> content d' \<subseteq> content (fs_dev fs)"
      by (simp add: covers_def)
    then show ?thesis using del_ok [OF assms(1) d]
      by (auto simp: fs' intro: covers_mono [OF covers_refl] elim: covers_mono)
  next
    case Retry
    obtain b' d' where d: "put (bump m) (fs_dev fs) = (b', d')" by force
    then have fs': "fs_dev fs' = d'" "fs_log fs' = fs_log fs @ [(m, Retry)]"
      using assms(2) k Retry by (auto simp: replay_item_def Let_def)
    show ?thesis using put [OF d] by (auto simp: fs' elim: covers_mono)
  next
    case (Refuse reason status)
    obtain b' d' where d: "put ((bump m)\<lparr>q_failure := Some (reason, status)\<rparr>) (fs_dev fs) = (b', d')" by force
    then have fs': "fs_dev fs' = d'" "fs_log fs' = fs_log fs @ [(m, Refuse reason status)]"
      using assms(2) k Refuse by (auto simp: replay_item_def Let_def)
    show ?thesis using put [OF d] by (auto simp: fs' elim: covers_mono)
  qed
qed

end

section \<open>The device is such a store\<close>

definition idb_items :: "'c queue_env \<Rightarrow> 'c device \<Rightarrow> mutation set" where
  "idb_items env d = {m. \<exists>(k, r) \<in> set (d_idb d). decode_row env r = Some m}"

definition on_phone :: "'c queue_env \<Rightarrow> 'c device \<Rightarrow> mutation set" where
  "on_phone env d = idb_items env d \<union> set (d_ls d)"

text \<open>Every row of the database opens, under its own id; and what the platform seals it opens again,
  the documented promise of the secure storage.\<close>

definition device_ok :: "'c queue_env \<Rightarrow> 'c device \<Rightarrow> bool" where
  "device_ok env d \<longleftrightarrow> map_ok (d_idb d) \<and> (\<forall>m. q_open env (q_seal env m) = Some m) \<and>
     (\<forall>(k, r) \<in> set (d_idb d). \<exists>m. decode_row env r = Some m \<and> q_id m = k)"

lemma tick_simps [simp]: "d_idb (tick d) = d_idb d" "d_ls (tick d) = d_ls d" "d_off (tick d) = d_off d"
  "d_ready (tick d) = d_ready d"
  by (simp_all add: tick_def)

lemma idb_items_cong: "d_idb d = d_idb d' \<Longrightarrow> idb_items env d = idb_items env d'"
  by (simp add: idb_items_def)

lemma device_ok_cong: "d_idb d = d_idb d' \<Longrightarrow> device_ok env d \<longleftrightarrow> device_ok env d'"
  by (simp add: device_ok_def)

lemma set_map_set_eq: "map_ok m \<Longrightarrow> set (map_set k v m) = insert (k, v) {p \<in> set m. fst p \<noteq> k}"
proof (induction m)
  case (Cons p m)
  then show ?case by (cases p) (auto simp: map_ok_def image_iff)
qed simp

lemma decode_row_of:
  "device_ok env d \<Longrightarrow> decode_row env (row_of env m) = Some m"
  by (simp add: device_ok_def decode_row_def row_of_def)

lemma idb_put_items:
  assumes "device_ok env d"
  shows "idb_items env (d\<lparr>d_idb := map_set (q_id m) (row_of env m) (d_idb d)\<rparr>) =
      insert m {x \<in> idb_items env d. q_id x \<noteq> q_id m}"
proof -
  have ok: "map_ok (d_idb d)" using assms by (simp add: device_ok_def)
  have key: "q_id x = k" if "(k, r) \<in> set (d_idb d)" "decode_row env r = Some x" for k r x
    using assms that by (auto simp: device_ok_def)
  show ?thesis
    using decode_row_of [OF assms, of m] key
    by (auto simp: idb_items_def set_map_set_eq [OF ok]; blast)
qed

lemma device_ok_put:
  assumes "device_ok env d"
  shows "device_ok env (d\<lparr>d_idb := map_set (q_id m) (row_of env m) (d_idb d)\<rparr>)"
proof -
  have ok: "map_ok (d_idb d)" using assms by (simp add: device_ok_def)
  show ?thesis
    using assms decode_row_of [OF assms, of m]
    by (auto simp: device_ok_def map_ok_set set_map_set_eq [OF ok])
qed

lemma idbPut_result:
  assumes "device_ok env d" and "idbPut env m d = (b, d')"
  shows "device_ok env d' \<and> d_ls d' = d_ls d \<and> d_off d' = d_off d \<and>
    idb_items env d' = (if b then insert m {x \<in> idb_items env d. q_id x \<noteq> q_id m} else idb_items env d)"
proof (cases "op_fails env d")
  case True
  with assms show ?thesis
    using device_ok_cong [of "tick d" d env] idb_items_cong [of "tick d" d env] by (auto simp: idbPut_def)
next
  case False
  with assms(2) have "b" and d': "d' = (tick d)\<lparr>d_idb := map_set (q_id m) (row_of env m) (d_idb (tick d))\<rparr>"
    by (auto simp: idbPut_def)
  have "device_ok env (tick d)" using assms(1) device_ok_cong [of "tick d" d env] by simp
  from idb_put_items [OF this, of m] device_ok_put [OF this, of m] show ?thesis
    using \<open>b\<close> idb_items_cong [of "tick d" d env] by (simp add: d')
qed

lemma map_delete_items:
  assumes "device_ok env d"
  shows "device_ok env (d\<lparr>d_idb := map_delete i (d_idb d)\<rparr>) \<and>
    idb_items env (d\<lparr>d_idb := map_delete i (d_idb d)\<rparr>) = {x \<in> idb_items env d. q_id x \<noteq> i}"
  using assms by (auto simp: device_ok_def idb_items_def map_ok_delete) (auto simp: map_delete_def, fastforce+)

lemma idbDelete_result:
  assumes "device_ok env d" and "idbDelete env [i] d = (b, d')"
  shows "device_ok env d' \<and> d_ls d' = d_ls d \<and> d_off d' = d_off d \<and>
    idb_items env d' = (if b then {x \<in> idb_items env d. q_id x \<noteq> i} else idb_items env d)"
proof (cases "op_fails env d")
  case True
  with assms show ?thesis
    using device_ok_cong [of "tick d" d env] idb_items_cong [of "tick d" d env] by (auto simp: idbDelete_def)
next
  case False
  have t: "device_ok env (tick d)" using assms(1) device_ok_cong [of "tick d" d env] by simp
  from False assms(2) have "b" and d': "d' = (tick d)\<lparr>d_idb := map_delete i (d_idb (tick d))\<rparr>"
    by (auto simp: idbDelete_def)
  with map_delete_items [OF t, of i] idb_items_cong [of "tick d" d env] show ?thesis by simp
qed

lemma lsWrite_result:
  "lsWrite env q d = (b, d') \<Longrightarrow> d_idb d' = d_idb d \<and> d_off d' = d_off d \<and> d_ls d' = (if b then q else d_ls d)"
  by (auto simp: lsWrite_def split: if_splits)

lemma replace_first:
  fixes m :: mutation
  assumes "list_ex (\<lambda>row. q_id row = i) q"
  defines "q' \<equiv> takeWhile (\<lambda>row. q_id row \<noteq> i) q @ [m] @ tl (dropWhile (\<lambda>row. q_id row \<noteq> i) q)"
  shows "m \<in> set q' \<and> set q' \<subseteq> insert m (set q) \<and> (\<forall>x \<in> set q. q_id x \<noteq> i \<longrightarrow> x \<in> set q')"
proof -
  have d: "dropWhile (\<lambda>row. q_id row \<noteq> i) q \<noteq> []"
    using assms(1) by (auto simp: list_ex_iff)
  define y where "y = hd (dropWhile (\<lambda>row. q_id row \<noteq> i) q)"
  have q: "q = takeWhile (\<lambda>row. q_id row \<noteq> i) q @ y # tl (dropWhile (\<lambda>row. q_id row \<noteq> i) q)"
    using d by (simp add: y_def)
  have y: "q_id y = i" using hd_dropWhile [OF d] by (simp add: y_def)
  have "set q = set (takeWhile (\<lambda>row. q_id row \<noteq> i) q) \<union> insert y (set (tl (dropWhile (\<lambda>row. q_id row \<noteq> i) q)))"
    by (subst q) simp
  with y show ?thesis unfolding q'_def by auto
qed

lemma saveQueuedItem_result:
  assumes "device_ok env d" and "saveQueuedItem env m d = (b, d')"
  shows "device_ok env d' \<and> d_off d' = d_off d \<and>
    (if b then m \<in> on_phone env d' \<and> on_phone env d' \<subseteq> insert m (on_phone env d) \<and>
       (\<forall>x \<in> on_phone env d. q_id x \<noteq> q_id m \<longrightarrow> x \<in> on_phone env d')
     else on_phone env d' = on_phone env d)"
proof (cases "d_off d")
  case False
  with assms idbPut_result [OF assms(1)] show ?thesis
    by (auto simp: saveQueuedItem_def on_phone_def split: if_splits)
next
  case True
  define q where "q = (if list_ex (\<lambda>row. q_id row = q_id m) (d_ls d)
    then takeWhile (\<lambda>row. q_id row \<noteq> q_id m) (d_ls d) @ [m] @ tl (dropWhile (\<lambda>row. q_id row \<noteq> q_id m) (d_ls d))
    else d_ls d @ [m])"
  have w: "lsWrite env q d = (b, d')"
    using assms(2) True by (auto simp: saveQueuedItem_def lsRead_def q_def Let_def split: if_splits)
  have "m \<in> set q \<and> set q \<subseteq> insert m (set (d_ls d)) \<and> (\<forall>x \<in> set (d_ls d). q_id x \<noteq> q_id m \<longrightarrow> x \<in> set q)"
    using replace_first [of "q_id m" "d_ls d" m] by (auto simp: q_def)
  with lsWrite_result [OF w] assms(1) device_ok_cong [of d' d env] idb_items_cong [of d' d env]
  show ?thesis by (auto simp: on_phone_def)
qed

lemma removeQueuedItem_result:
  assumes "device_ok env d" and "removeQueuedItem env i d = (b, d')"
  shows "device_ok env d' \<and> d_off d' = d_off d \<and>
    (if b then on_phone env d' \<subseteq> on_phone env d \<and> (\<forall>x \<in> on_phone env d. q_id x \<noteq> i \<longrightarrow> x \<in> on_phone env d')
     else on_phone env d' = on_phone env d)"
proof (cases "d_off d")
  case False
  with assms idbDelete_result [OF assms(1)] show ?thesis
    by (auto simp: removeQueuedItem_def on_phone_def split: if_splits)
next
  case True
  then have w: "lsWrite env (filter (\<lambda>m. q_id m \<noteq> i) (d_ls d)) d = (b, d')"
    using assms(2) by (simp add: removeQueuedItem_def lsRead_def)
  with lsWrite_result [OF w] assms(1) device_ok_cong [of d' d env] idb_items_cong [of d' d env]
  show ?thesis by (auto simp: on_phone_def)
qed

interpretation oq: mutation_store "saveQueuedItem env" "removeQueuedItem env" "on_phone env" "device_ok env"
  for env :: "'c queue_env"
proof unfold_locales
  fix d d' :: "'c device" and m i b
  assume d: "device_ok env d"
  { assume s: "saveQueuedItem env m d = (b, d')" show "device_ok env d'" using saveQueuedItem_result [OF d s] by simp }
  { assume s: "saveQueuedItem env m d = (True, d')"
    show "m \<in> on_phone env d' \<and> on_phone env d' \<subseteq> insert m (on_phone env d) \<and>
      (\<forall>x \<in> on_phone env d. q_id x \<noteq> q_id m \<longrightarrow> x \<in> on_phone env d')"
      using saveQueuedItem_result [OF d s] by simp }
  { assume s: "saveQueuedItem env m d = (False, d')"
    show "on_phone env d' = on_phone env d" using saveQueuedItem_result [OF d s] by simp }
  { assume s: "removeQueuedItem env i d = (b, d')" show "device_ok env d'" using removeQueuedItem_result [OF d s] by simp }
  { assume s: "removeQueuedItem env i d = (True, d')"
    show "on_phone env d' \<subseteq> on_phone env d \<and> (\<forall>x \<in> on_phone env d. q_id x \<noteq> i \<longrightarrow> x \<in> on_phone env d')"
      using removeQueuedItem_result [OF d s] by simp }
  { assume s: "removeQueuedItem env i d = (False, d')"
    show "on_phone env d' = on_phone env d" using removeQueuedItem_result [OF d s] by simp }
qed

section \<open>Reading and starting\<close>

lemma js_less_orders: "orders_by by_queuedAt (\<lambda>m. str_key (q_queuedAt m))"
  by (simp add: orders_by_def by_queuedAt_def js_less_def)

lemma those_Some: "those xs = Some ys \<Longrightarrow> xs = map Some ys"
  by (induction xs arbitrary: ys) (auto split: option.splits)

lemma set_rows_in_key_order: "set (rows_in_key_order rows) = snd ` set rows"
  by (simp add: rows_in_key_order_def)

lemma idbReadAll_result:
  assumes "idbReadAll env d = (r, d')"
  shows "d' = tick d \<and> (\<forall>q. r = Some q \<longrightarrow> set q = idb_items env d \<and>
    sorted (map (\<lambda>m. str_key (q_queuedAt m)) q))"
proof -
  have "set q = idb_items env d \<and> sorted (map (\<lambda>m. str_key (q_queuedAt m)) q)" if rq: "r = Some q" for q
  proof -
    from assms rq obtain ms where ms: "map (decode_row env) (rows_in_key_order (d_idb d)) = map Some ms"
        and q: "q = js_sort by_queuedAt ms"
      by (auto simp: idbReadAll_def dest!: those_Some split: if_splits)
    have "x \<in> set ms \<longleftrightarrow> Some x \<in> decode_row env ` snd ` set (d_idb d)" for x
      using arg_cong [OF ms, of set] by (auto simp: set_rows_in_key_order)
    then have "set ms = idb_items env d"
      by (force simp: idb_items_def)
    with sorted_js_sort [OF js_less_orders, of ms] show ?thesis by (simp add: q)
  qed
  with assms show ?thesis by (simp add: idbReadAll_def)
qed

lemma put_all_result:
  assumes "device_ok env d" and "put_all env ms d = (b, d')"
    and "ids_agree (idb_items env d \<union> set ms)"
  shows "device_ok env d' \<and> d_ls d' = d_ls d \<and> d_off d' = d_off d \<and>
    covers (idb_items env d) (idb_items env d') \<and> idb_items env d' \<subseteq> idb_items env d \<union> set ms \<and>
    (b \<longrightarrow> covers (set ms) (idb_items env d'))"
  using assms
proof (induction ms arbitrary: d)
  case Nil
  then show ?case by (simp add: covers_def)
next
  case (Cons m ms)
  obtain b1 d1 where p: "idbPut env m d = (b1, d1)" by force
  note r = idbPut_result [OF Cons.prems(1) p]
  show ?case
  proof (cases b1)
    case False
    with Cons.prems(2) p have "b = False" "d' = d1" by auto
    with r False show ?thesis by auto
  next
    case True
    have ag: "ids_agree (insert m (idb_items env d))"
      using Cons.prems(3) by (rule ids_agree_mono) auto
    have i: "idb_items env d1 = insert m {x \<in> idb_items env d. q_id x \<noteq> q_id m}" using r True by simp
    have "\<exists>y \<in> idb_items env d1. core y = core x" if x: "x \<in> idb_items env d" for x
    proof (cases "q_id x = q_id m")
      case True
      then have "core m = core x" using ag x unfolding ids_agree_def by (metis insertCI)
      then show ?thesis using i by blast
    next
      case False
      then show ?thesis using i x by blast
    qed
    then have c: "covers (idb_items env d) (idb_items env d1)" by (simp add: covers_def)
    have sub: "idb_items env d1 \<union> set ms \<subseteq> idb_items env d \<union> set (m # ms)" using i by auto
    have e: "put_all env ms d1 = (b, d')" using Cons.prems(2) p True by simp
    have ok1: "device_ok env d1" using r by simp
    note IH = Cons.IH [OF ok1 e ids_agree_mono [OF Cons.prems(3) sub]]
    have "covers {m} (idb_items env d')" using IH i by (auto elim!: covers_mono)
    then have "b \<longrightarrow> covers (set (m # ms)) (idb_items env d')"
      using IH covers_Un [of "{m}" "set ms"] by simp
    then show ?thesis using IH r c sub by (auto intro: covers_trans)
  qed
qed

lemma merge_rows_keyed:
  "map_ok (merge_rows ex leg) \<and> (\<forall>(k, m) \<in> set (merge_rows ex leg). q_id m = k \<and> m \<in> set ex \<union> set leg) \<and>
   (\<forall>m \<in> set ex \<union> set leg. map_has (merge_rows ex leg) (q_id m))"
proof -
  define P where "P (S :: mutation set) rows \<longleftrightarrow> map_ok rows \<and> (\<forall>(k, m) \<in> set rows. q_id m = k \<and> m \<in> S) \<and>
    (\<forall>m \<in> S. map_has rows (q_id m))" for S rows
  have step: "P (insert m S) (map_set (q_id m) m rows)" if "P S rows" for S rows m
    using that set_map_set_eq [of rows "q_id m" m]
    by (auto simp: P_def map_ok_set map_has_get map_get_set)
  have skip: "P (insert m S) rows" if "P S rows" "map_has rows (q_id m)" for S rows m
    using that by (auto simp: P_def)
  have 1: "P (S \<union> set ms) (fold (\<lambda>m. map_set (q_id m) m) ms rows)" if "P S rows" for S ms rows
    using that
  proof (induction ms arbitrary: S rows)
    case (Cons m ms)
    from Cons.IH [OF step [OF Cons.prems, of m]] show ?case by simp
  qed simp
  have 2: "P (S \<union> set ms) (fold (\<lambda>m rows. if map_has rows (q_id m) then rows else map_set (q_id m) m rows) ms rows)"
    if "P S rows" for S ms rows
    using that
  proof (induction ms arbitrary: S rows)
    case (Cons m ms)
    then have "P (insert m S) (if map_has rows (q_id m) then rows else map_set (q_id m) m rows)"
      using step skip by simp
    from Cons.IH [OF this] show ?case by simp
  qed simp
  have "P {} []" by (simp add: P_def)
  from 2 [OF 1 [OF this, of ex], of leg] show ?thesis by (simp add: merge_rows_def P_def)
qed

lemma merge_rows_covers:
  assumes "ids_agree (set ex \<union> set leg)"
  shows "set (map_values (merge_rows ex leg)) \<subseteq> set ex \<union> set leg \<and>
    covers (set ex \<union> set leg) (set (map_values (merge_rows ex leg)))"
proof
  note M = merge_rows_keyed [of ex leg]
  show sub: "set (map_values (merge_rows ex leg)) \<subseteq> set ex \<union> set leg"
    using M by (auto simp: map_values_def)
  have "\<exists>y \<in> set (map_values (merge_rows ex leg)). core y = core x" if x: "x \<in> set ex \<union> set leg" for x
  proof -
    from M x have "map_has (merge_rows ex leg) (q_id x)" by blast
    then obtain y where y: "(q_id x, y) \<in> set (merge_rows ex leg)" by (auto simp: map_has_def)
    with M have "q_id y = q_id x" "y \<in> set ex \<union> set leg" by auto
    with assms x have "core y = core x" unfolding ids_agree_def by blast
    moreover have "y \<in> set (map_values (merge_rows ex leg))" using y by (force simp: map_values_def)
    ultimately show ?thesis by blast
  qed
  then show "covers (set ex \<union> set leg) (set (map_values (merge_rows ex leg)))" by (simp add: covers_def)
qed

lemma emitChange_same [simp]: "d_idb (emitChange n d) = d_idb d" "d_ls (emitChange n d) = d_ls d"
  "d_off (emitChange n d) = d_off d" "d_ready (emitChange n d) = d_ready d"
  by (simp_all add: emitChange_def)

text \<open>A transition of the device that loses no item and invents none.\<close>

definition keeps_all :: "'c queue_env \<Rightarrow> 'c device \<Rightarrow> 'c device \<Rightarrow> bool" where
  "keeps_all env d d' \<longleftrightarrow> device_ok env d' \<and> covers (on_phone env d) (on_phone env d') \<and>
     on_phone env d' \<subseteq> on_phone env d"

lemma keeps_all_cong:
  "device_ok env d \<Longrightarrow> d_idb d' = d_idb d \<Longrightarrow> d_ls d' = d_ls d \<Longrightarrow> keeps_all env d d'"
  using device_ok_cong [of d' d env] idb_items_cong [of d' d env]
  by (simp add: keeps_all_def on_phone_def)

lemma keeps_all_trans: "keeps_all env d d1 \<Longrightarrow> keeps_all env d1 d2 \<Longrightarrow> keeps_all env d d2"
  unfolding keeps_all_def by (blast intro: covers_trans)

lemma put_all_keeps:
  assumes "device_ok env d" and "put_all env ms d = (b, d')" and "ids_agree (on_phone env d)"
    and "set ms \<subseteq> on_phone env d"
  shows "keeps_all env d d' \<and> d_off d' = d_off d \<and> d_ls d' = d_ls d \<and>
    (b \<longrightarrow> covers (set ms) (idb_items env d'))"
proof -
  have "ids_agree (idb_items env d \<union> set ms)"
    using assms(3) by (rule ids_agree_mono) (use assms(4) in \<open>auto simp: on_phone_def\<close>)
  note r = put_all_result [OF assms(1,2) this]
  have "covers (on_phone env d) (on_phone env d')"
    using r covers_sub [of "set (d_ls d)" "idb_items env d' \<union> set (d_ls d)"]
    by (auto simp: on_phone_def covers_Un elim: covers_mono)
  with r assms(4) show ?thesis by (auto simp: keeps_all_def on_phone_def)
qed

text \<open>Clearing the legacy list loses nothing once the database covers it.\<close>

lemma clear_keeps:
  assumes "keeps_all env d d'" and "covers (on_phone env d) (idb_items env d')"
  shows "keeps_all env d (lsClear d')"
  using assms idb_items_cong [of "lsClear d'" d' env] device_ok_cong [of "lsClear d'" d' env]
  by (auto simp: keeps_all_def on_phone_def lsClear_def)

lemma nativeInit_keeps:
  assumes "device_ok env d" and "nativeInit env d = (b, d')" and "ids_agree (on_phone env d)"
  shows "keeps_all env d d'"
proof -
  obtain r d1 where ra: "idbReadAll env d = (r, d1)" by force
  note R = idbReadAll_result [OF ra]
  have k1: "keeps_all env d d1" using R assms(1) by (intro keeps_all_cong) auto
  show ?thesis
  proof (cases r)
    case None
    with ra assms(2) k1 show ?thesis by (simp add: nativeInit_def)
  next
    case (Some ex)
    define rows where "rows = map_values (merge_rows ex (lsRead d1))"
    have ex: "set ex = idb_items env d" "d_ls d1 = d_ls d" using R Some by auto
    have m: "set rows \<subseteq> on_phone env d" "covers (on_phone env d) (set rows)"
      using merge_rows_covers [of ex "lsRead d1"] assms(3)
      by (auto simp: rows_def on_phone_def ex lsRead_def)
    obtain b2 d2 where p: "put_all env rows d1 = (b2, d2)" by force
    have o1: "on_phone env d1 = on_phone env d" "device_ok env d1"
      using R assms(1) idb_items_cong [of d1 d env] device_ok_cong [of d1 d env] by (auto simp: on_phone_def)
    have "keeps_all env d1 d2 \<and> (b2 \<longrightarrow> covers (set rows) (idb_items env d2))"
      using put_all_keeps [OF o1(2) p] assms(3) m(1) by (simp add: o1)
    then have k2: "keeps_all env d d2" and c2: "b2 \<longrightarrow> covers (on_phone env d) (idb_items env d2)"
      using k1 m(2) by (auto intro: keeps_all_trans covers_trans)
    have e: "nativeInit env d = (if b2 then (True, emitChange (pending_count rows) (lsClear d2)) else (False, d2))"
      using ra Some p by (simp add: nativeInit_def rows_def [symmetric] split: bool.split)
    have "keeps_all env d (emitChange n (lsClear d2))" if b2 for n
    proof (rule keeps_all_trans)
      show "keeps_all env d (lsClear d2)" using clear_keeps [OF k2] c2 that by blast
      then show "keeps_all env (lsClear d2) (emitChange n (lsClear d2))"
        by (intro keeps_all_cong) (auto simp: keeps_all_def)
    qed
    with e assms(2) k2 show ?thesis by (auto split: if_splits)
  qed
qed

lemma idb_gave_up_keeps: "keeps_all env d d1 \<Longrightarrow> keeps_all env d (snd (idb_gave_up d1))"
  using keeps_all_cong [of env d1 "snd (idb_gave_up d1)"]
  by (auto simp: idb_gave_up_def keeps_all_def intro: covers_trans)

lemma webInit_keeps:
  assumes "device_ok env d" and "webInit env d = (b, d')" and "ids_agree (on_phone env d)"
  shows "keeps_all env d d'"
proof -
  obtain b1 d1 where p: "(if lsRead d = [] then (True, d) else put_all env (lsRead d) d) = (b1, d1)" by force
  have k1: "keeps_all env d d1" and c1: "b1 \<longrightarrow> lsRead d \<noteq> [] \<longrightarrow> covers (on_phone env d) (idb_items env d1)"
  proof -
    have "keeps_all env d d1 \<and> (b1 \<longrightarrow> lsRead d \<noteq> [] \<longrightarrow> covers (on_phone env d) (idb_items env d1))"
    proof (cases "lsRead d = []")
      case True
      with p assms(1) show ?thesis by (auto intro: keeps_all_cong)
    next
      case False
      then have pa: "put_all env (d_ls d) d = (b1, d1)" using p by (simp add: lsRead_def)
      have "ids_agree (idb_items env d \<union> set (d_ls d))" using assms(3) by (simp add: on_phone_def)
      from put_all_result [OF assms(1) pa this] put_all_keeps [OF assms(1) pa assms(3)]
      show ?thesis by (auto simp: on_phone_def covers_Un)
    qed
    then show "keeps_all env d d1" "b1 \<longrightarrow> lsRead d \<noteq> [] \<longrightarrow> covers (on_phone env d) (idb_items env d1)"
      by auto
  qed
  define d2 where "d2 = (if lsRead d = [] then d1 else lsClear d1)"
  obtain r d3 where ra: "idbReadAll env d2 = (r, d3)" by force
  have e: "webInit env d = (if \<not> b1 then idb_gave_up d1 else case r of None \<Rightarrow> idb_gave_up d3
      | Some q \<Rightarrow> (True, emitChange (pending_count q) d3))"
    using ra by (simp add: webInit_def Let_def p d2_def [symmetric] split: bool.split)
  have "keeps_all env d d2" if b1
    using k1 c1 that clear_keeps [OF k1] by (auto simp: d2_def)
  moreover have "d3 = tick d2" using idbReadAll_result [OF ra] by simp
  ultimately have k3: "keeps_all env d d3" "keeps_all env d (emitChange n d3)" if b1 for n
    using that keeps_all_cong [of env d2 d3] keeps_all_cong [of env d2 "emitChange n d3"]
    by (auto simp: keeps_all_def intro: covers_trans)
  show ?thesis
    using e assms(2) k3 idb_gave_up_keeps [OF k1] idb_gave_up_keeps [OF k3(1)]
    by (auto split: if_splits option.splits) (metis snd_conv)+
qed

lemma ensureInit_keeps:
  assumes "device_ok env d" and "ensureInit env d = (b, d')" and "ids_agree (on_phone env d)"
  shows "keeps_all env d d'"
proof (cases "d_ready d")
  case True
  with assms show ?thesis by (auto simp: ensureInit_def intro: keeps_all_cong)
next
  case False
  obtain d1 where "(if q_native env then nativeInit env d else webInit env d) = (b, d1)"
    and d': "d' = d1\<lparr>d_ready := b\<rparr>"
    using assms(2) False by (auto simp: ensureInit_def split: prod.splits)
  then have k: "keeps_all env d d1"
    using nativeInit_keeps [OF assms(1) _ assms(3)] webInit_keeps [OF assms(1) _ assms(3)]
    by (auto split: if_splits)
  then show ?thesis using keeps_all_cong [of env d1 d'] unfolding d'
    by (auto simp: keeps_all_def intro: covers_trans)
qed

lemma readQueue_keeps:
  assumes "device_ok env d" and "readQueue env d = (r, d')" and "ids_agree (on_phone env d)"
  shows "keeps_all env d d' \<and> (\<forall>q. r = Some q \<longrightarrow> set q \<subseteq> on_phone env d')"
proof -
  obtain b d1 where i: "ensureInit env d = (b, d1)" by force
  have k: "keeps_all env d d1" by (rule ensureInit_keeps [OF assms(1) i assms(3)])
  show ?thesis
  proof (cases "b \<and> \<not> d_off d1")
    case False
    then have "d' = d1 \<and> (\<forall>q. r = Some q \<longrightarrow> q = d_ls d1)"
      using assms(2) i by (auto simp: readQueue_def lsRead_def split: bool.splits if_splits)
    with k show ?thesis by (auto simp: on_phone_def)
  next
    case True
    then have ra: "idbReadAll env d1 = (r, d')"
      using assms(2) i by (simp add: readQueue_def split: bool.splits)
    note R = idbReadAll_result [OF ra]
    have "keeps_all env d1 d'" using R k by (intro keeps_all_cong) (auto simp: keeps_all_def)
    with k R show ?thesis using idb_items_cong [of d' d1 env] by (auto simp: on_phone_def intro: keeps_all_trans)
  qed
qed

end
