(* ===== verification/OfflineQueueRuns.thy ===== *)
theory OfflineQueueRuns
  imports OfflineQueue "HOL-Library.Sublist"
begin

text \<open>
  Whole runs of the offline queue: saves, flushes one item at a time, failures of the storage and of
  the network, and reloads of the app, in any order (\<open>queue_step\<close>).  The invariant shows that an edit
  whose save was confirmed to the scout is on the phone or confirmed by the server.  The second part
  is about one flush: the order in which the edits of one record are sent, and what a refusal leaves.
\<close>

section \<open>The step relation\<close>

text \<open>\<open>y_flight\<close> is the running flush, if any: the items it has yet to replay, the records that wait
  and the number delivered.  \<open>y_used\<close> are the ids drawn so far, \<open>y_saved\<close> the items whose
  \<open>enqueue\<close> resolved and \<open>y_confirmed\<close> those the server confirmed.\<close>

record 'c queue_sys =
  y_dev :: "'c device"
  y_flight :: "(mutation list \<times> string list \<times> nat) option"
  y_used :: "string set"
  y_saved :: "mutation set"
  y_confirmed :: "mutation set"

text \<open>A reload forgets the module state and keeps what is stored.\<close>

definition reload :: "'c device \<Rightarrow> 'c device" where
  "reload d = d\<lparr>d_ready := False, d_off := False, d_known := 0\<rparr>"

definition resume_flush :: "'d \<Rightarrow> string list \<Rightarrow> nat \<Rightarrow> 'd flush_state" where
  "resume_flush d waiting n =
     \<lparr>fs_dev = d, fs_waiting = waiting, fs_success = n, fs_log = [], fs_dropped = []\<rparr>"

inductive queue_step :: "'c queue_env \<Rightarrow> 'c queue_sys \<Rightarrow> 'c queue_sys \<Rightarrow> bool" for env where
  Save: "q_id m \<notin> y_used s \<Longrightarrow> enqueue env m (y_dev s) = (okay, dropped, d) \<Longrightarrow>
    queue_step env s (s\<lparr>y_dev := d, y_used := insert (q_id m) (y_used s),
      y_saved := (if okay then insert m (y_saved s) else y_saved s)\<rparr>)"
| StartFlush: "y_flight s = None \<Longrightarrow> readQueue env (y_dev s) = (r, d) \<Longrightarrow>
    queue_step env s (s\<lparr>y_dev := d, y_flight := (case r of None \<Rightarrow> None
      | Some q \<Rightarrow> if q = [] then None else Some (q, [], 0))\<rparr>)"
| Replay: "y_flight s = Some (m # ms, waiting, n) \<Longrightarrow>
    replay_item (saveQueuedItem env) (removeQueuedItem env) net m (resume_flush (y_dev s) waiting n)
      = (okay, fs) \<Longrightarrow>
    queue_step env s (s\<lparr>y_dev := fs_dev fs,
      y_flight := (if okay then Some (ms, fs_waiting fs, fs_success fs) else None),
      y_confirmed := y_confirmed s \<union> {z. (z, Delivered) \<in> set (fs_log fs)}\<rparr>)"
| EndFlush: "y_flight s = Some ([], waiting, n) \<Longrightarrow> readQueue env (y_dev s) = (r, d) \<Longrightarrow>
    queue_step env s (s\<lparr>y_dev := (case r of None \<Rightarrow> d | Some q \<Rightarrow> emitChange (pending_count q) d),
      y_flight := None\<rparr>)"
| Reload: "queue_step env s (s\<lparr>y_dev := reload (y_dev s), y_flight := None\<rparr>)"

inductive queue_runs :: "'c queue_env \<Rightarrow> 'c queue_sys \<Rightarrow> 'c queue_sys \<Rightarrow> bool" for env where
  Here: "queue_runs env s s"
| Then: "queue_runs env s t \<Longrightarrow> queue_step env t u \<Longrightarrow> queue_runs env s u"

text \<open>The app before its first save: an empty or a legacy queue, all ids of it used.\<close>

definition sys_start :: "'c queue_env \<Rightarrow> 'c queue_sys \<Rightarrow> bool" where
  "sys_start env s \<longleftrightarrow> device_ok env (y_dev s) \<and> ids_agree (on_phone env (y_dev s)) \<and>
     q_id ` on_phone env (y_dev s) \<subseteq> y_used s \<and> y_flight s = None \<and> y_saved s = {} \<and> y_confirmed s = {}"

section \<open>The invariant\<close>

definition in_flight :: "'c queue_sys \<Rightarrow> mutation set" where
  "in_flight s = (case y_flight s of None \<Rightarrow> {} | Some (q, _, _) \<Rightarrow> set q)"

definition everything :: "'c queue_env \<Rightarrow> 'c queue_sys \<Rightarrow> mutation set" where
  "everything env s = on_phone env (y_dev s) \<union> in_flight s \<union> y_saved s \<union> y_confirmed s"

definition sys_inv :: "'c queue_env \<Rightarrow> 'c queue_sys \<Rightarrow> bool" where
  "sys_inv env s \<longleftrightarrow> device_ok env (y_dev s) \<and> ids_agree (everything env s) \<and>
     q_id ` everything env s \<subseteq> y_used s \<and>
     covers (y_saved s) (on_phone env (y_dev s) \<union> y_confirmed s)"

lemma sys_inv_start: "sys_start env s \<Longrightarrow> sys_inv env s"
  by (auto simp: sys_start_def sys_inv_def everything_def in_flight_def covers_def)

text \<open>A step whose new items are copies of old ones up to the replay count, and which loses nothing.\<close>

lemma sys_inv_keep:
  assumes "sys_inv env s" and "device_ok env (y_dev s')"
    and "covers (everything env s') (everything env s)" and "y_used s \<subseteq> y_used s'"
    and "y_saved s' = y_saved s" and "y_confirmed s \<subseteq> y_confirmed s'"
    and "covers (on_phone env (y_dev s)) (on_phone env (y_dev s') \<union> y_confirmed s')"
  shows "sys_inv env s'"
proof -
  have ids: "q_id ` everything env s' \<subseteq> y_used s'"
  proof
    fix i assume "i \<in> q_id ` everything env s'"
    then obtain x where "x \<in> everything env s'" "i = q_id x" by blast
    with assms(3) obtain y where "y \<in> everything env s" "core y = core x" by (auto simp: covers_def)
    with core_id [of y x] assms(1,4) \<open>i = q_id x\<close> show "i \<in> y_used s'" by (force simp: sys_inv_def)
  qed
  have "ids_agree (everything env s \<union> everything env s')"
    using assms(1,3) by (intro ids_agree_core) (auto simp: sys_inv_def)
  then have ag: "ids_agree (everything env s')" by (rule ids_agree_mono) auto
  have "covers (y_confirmed s) (on_phone env (y_dev s') \<union> y_confirmed s')"
    using assms(6) by (intro covers_sub) auto
  then have "covers (on_phone env (y_dev s) \<union> y_confirmed s) (on_phone env (y_dev s') \<union> y_confirmed s')"
    using assms(7) by (simp add: covers_Un)
  then have "covers (y_saved s') (on_phone env (y_dev s') \<union> y_confirmed s')"
    using assms(1,5) by (auto simp: sys_inv_def intro: covers_trans)
  with ids ag assms(2) show ?thesis by (simp add: sys_inv_def)
qed

lemma inv_phone: "sys_inv env s \<Longrightarrow> device_ok env (y_dev s) \<and> ids_agree (on_phone env (y_dev s))"
  unfolding sys_inv_def everything_def by (auto elim: ids_agree_mono)

text \<open>What \<open>enqueue\<close> does to the contents of the phone.\<close>

lemma enqueue_result:
  assumes "device_ok env d" and "ids_agree (insert m (on_phone env d))"
    and "enqueue env m d = (okay, dropped, d')"
  shows "device_ok env d' \<and> covers (on_phone env d) (on_phone env d') \<and>
    covers (on_phone env d') (insert m (on_phone env d)) \<and>
    (okay \<longrightarrow> covers {m} (on_phone env d') \<and> dropped = []) \<and>
    (dropped \<noteq> [] \<longrightarrow> \<not> okay \<and> keeps_all env d d' \<and>
       dropped = [\<lparr>di_reason = StorageFailure, di_count = 1, di_labels = [label_or m]\<rparr>])"
proof -
  define item where "item = m\<lparr>q_attempts := 0, q_failure := None\<rparr>"
  have ci: "core item = core m" "label_or item = label_or m" by (simp_all add: item_def label_or_def)
  have ag: "ids_agree (on_phone env d)" using assms(2) by (rule ids_agree_mono) auto
  obtain b1 d1 where i: "ensureInit env d = (b1, d1)" by force
  have k1: "keeps_all env d d1" by (rule ensureInit_keeps [OF assms(1) i ag])
  then have k1': "device_ok env d1" "covers (on_phone env d) (on_phone env d1)" "on_phone env d1 \<subseteq> on_phone env d"
    by (simp_all add: keeps_all_def)
  show ?thesis
  proof (cases b1)
    case False
    then have "okay = False" "dropped = []" "d' = d1"
      using assms(3) i by (simp_all add: enqueue_def)
    with k1' show ?thesis by (auto intro: covers_sub)
  next
    case True
    obtain b2 d2 where s: "saveQueuedItem env item d1 = (b2, d2)" by force
    have cov: "covers {item} {m}" using ci by (simp add: covers_def)
    have ag1: "ids_agree (insert item (on_phone env d1))"
    proof -
      have "covers {item} (insert m (on_phone env d))" using cov by (auto elim: covers_mono)
      from ids_agree_core [OF assms(2) this] show ?thesis by (rule ids_agree_mono) (use k1'(3) in auto)
    qed
    note P = oq.put_covers [OF k1'(1) s ag1] oq.put_ok [OF k1'(1) s]
    have bk: "covers (on_phone env d2) (insert m (on_phone env d))"
      using P k1'(3) covers_insert [of "on_phone env d2" item "on_phone env d" m] ci by auto
    show ?thesis
    proof (cases b2)
      case False
      then have e: "okay = False" "d' = d2" "dropped = [\<lparr>di_reason = StorageFailure, di_count = 1, di_labels = [label_or m]\<rparr>]"
        using assms(3) i True s ci by (simp_all add: enqueue_def item_def [symmetric])
      have "on_phone env d2 = on_phone env d1" using oq.put_fails [OF k1'(1)] s False by simp
      with e P k1' bk show ?thesis by (simp add: keeps_all_def)
    next
      case T2: True
      obtain r d3 where q: "readQueue env d2 = (r, d3)" by force
      have ag2: "ids_agree (on_phone env d2)" using ag1 by (rule ids_agree_mono) (use P in auto)
      have K: "keeps_all env d2 d3" using readQueue_keeps [OF _ q ag2] P by blast
      have e: "dropped = []" "d' = d3 \<or> (\<exists>n. d' = emitChange n d3)"
        using assms(3) i True s T2 q by (auto simp: enqueue_def item_def [symmetric] split: option.splits)
      have "keeps_all env d3 d'"
        using e(2) K by (intro keeps_all_cong) (auto simp: keeps_all_def)
      then have K': "keeps_all env d2 d'" by (rule keeps_all_trans [OF K])
      have "covers {item} (on_phone env d2)" using P T2 by (auto intro: covers_sub)
      then have "covers {item} (on_phone env d')" using K' by (auto simp: keeps_all_def intro: covers_trans)
      moreover have "covers {m} {item}" using ci by (simp add: covers_def)
      ultimately have "covers {m} (on_phone env d')" by (rule covers_trans [rotated])
      moreover have "covers (on_phone env d) (on_phone env d')"
        using k1'(2) P K' by (auto simp: keeps_all_def intro: covers_trans)
      moreover have "covers (on_phone env d') (insert m (on_phone env d))"
        using bk K' by (auto simp: keeps_all_def intro: covers_mono)
      moreover have "device_ok env d'" using K' by (simp add: keeps_all_def)
      ultimately show ?thesis using e(1) by simp
    qed
  qed
qed

lemma sys_inv_step:
  assumes "queue_step env s s'" and "sys_inv env s"
  shows "sys_inv env s'"
  using assms(1)
proof cases
  case (Save m okay dropped d)
  have fresh: "q_id m \<notin> q_id ` everything env s" using Save(2) assms(2) by (auto simp: sys_inv_def)
  then have ag: "ids_agree (insert m (everything env s))"
    using assms(2) unfolding sys_inv_def ids_agree_def by (metis image_eqI insert_iff)
  have "ids_agree (insert m (on_phone env (y_dev s)))"
    using ag by (rule ids_agree_mono) (auto simp: everything_def)
  note E = enqueue_result [OF _ this Save(3)]
  have dev: "device_ok env (y_dev s)" using assms(2) by (simp add: sys_inv_def)
  note E = E [OF dev]
  have sub: "covers (everything env s') (insert m (everything env s))"
  proof -
    have "covers (on_phone env d) (insert m (on_phone env (y_dev s)))" using E by blast
    then have "covers (on_phone env d) (insert m (everything env s))"
      by (rule covers_mono [OF _ order_refl]) (auto simp: everything_def)
    moreover have "covers (in_flight s \<union> insert m (y_saved s) \<union> y_confirmed s) (insert m (everything env s))"
      by (rule covers_sub) (auto simp: everything_def)
    ultimately have "covers (on_phone env d \<union> (in_flight s \<union> insert m (y_saved s) \<union> y_confirmed s)) (insert m (everything env s))"
      by (rule covers_Un [THEN iffD2, OF conjI])
    then show ?thesis by (rule covers_mono) (auto simp: everything_def Save(1) in_flight_def)
  qed
  have "ids_agree (insert m (everything env s) \<union> everything env s')"
    by (rule ids_agree_core [OF ag sub])
  then have "ids_agree (everything env s')" by (rule ids_agree_mono) auto
  moreover have "q_id ` everything env s' \<subseteq> y_used s'"
  proof
    fix i assume "i \<in> q_id ` everything env s'"
    then obtain x where x: "x \<in> everything env s'" "i = q_id x" by blast
    with sub obtain y where "y \<in> insert m (everything env s)" "core y = core x" by (auto simp: covers_def)
    with core_id [of y x] x(2) assms(2) show "i \<in> y_used s'" by (auto simp: sys_inv_def Save(1))
  qed
  moreover have "covers (y_saved s') (on_phone env (y_dev s') \<union> y_confirmed s')"
  proof -
    have "covers (on_phone env (y_dev s) \<union> y_confirmed s) (on_phone env d \<union> y_confirmed s)"
      using E by (auto simp: covers_Un elim: covers_mono intro: covers_sub)
    then have 1: "covers (y_saved s) (on_phone env d \<union> y_confirmed s)"
      using assms(2) by (auto simp: sys_inv_def intro: covers_trans)
    have "covers {m} (on_phone env d \<union> y_confirmed s)" if okay
      using E that by (auto elim: covers_mono)
    with 1 covers_Un [of "{m}" "y_saved s"] show ?thesis by (auto simp: Save(1))
  qed
  moreover have "device_ok env (y_dev s')" using conjunct1 [OF E] by (simp add: Save(1))
  ultimately show ?thesis unfolding sys_inv_def by (intro conjI)
next
  case (StartFlush r d)
  note K = readQueue_keeps [OF _ StartFlush(3)]
  have K: "keeps_all env (y_dev s) d" "\<forall>q. r = Some q \<longrightarrow> set q \<subseteq> on_phone env d"
    using K inv_phone [OF assms(2)] by auto
  have "in_flight s' \<subseteq> on_phone env d"
    using K(2) by (auto simp: in_flight_def StartFlush(1) split: option.splits if_splits)
  then have "covers (everything env s') (everything env s)"
    using K(1) by (intro covers_sub) (auto simp: everything_def StartFlush(1) keeps_all_def)
  then show ?thesis
    using K(1) by (intro sys_inv_keep [OF assms(2)])
      (auto simp: StartFlush(1) keeps_all_def elim: covers_mono)
next
  case (Replay m ms waiting n net okay fs)
  have m: "m \<in> in_flight s" "set ms \<subseteq> in_flight s" using Replay(2) by (auto simp: in_flight_def)
  have ag: "ids_agree (insert m (on_phone env (y_dev s)))"
    using assms(2) m unfolding sys_inv_def by (auto simp: everything_def elim: ids_agree_mono)
  have dev: "device_ok env (fs_dev (resume_flush (y_dev s) waiting n))"
    using inv_phone [OF assms(2)] by (simp add: resume_flush_def)
  have R: "device_ok env (fs_dev fs) \<and>
      covers (on_phone env (y_dev s)) (on_phone env (fs_dev fs) \<union> {z. (z, Delivered) \<in> set (fs_log fs)}) \<and>
      covers (on_phone env (fs_dev fs)) (insert m (on_phone env (y_dev s))) \<and>
      (\<forall>z v. (z, v) \<in> set (fs_log fs) \<longrightarrow> z = m)"
    using oq.replay_item_keeps [OF dev Replay(3)] ag by (simp add: resume_flush_def)
  have "covers (on_phone env (fs_dev fs)) (everything env s)"
    using R m by (auto simp: everything_def elim: covers_mono)
  moreover have "covers (in_flight s' \<union> y_saved s' \<union> y_confirmed s') (everything env s)"
    using R m by (intro covers_sub) (auto simp: everything_def Replay(1) in_flight_def split: if_splits)
  ultimately have "covers (everything env s') (everything env s)"
    by (simp add: everything_def covers_Un Replay(1))
  then show ?thesis
    using R by (intro sys_inv_keep [OF assms(2)]) (auto simp: Replay(1) elim: covers_mono)
next
  case (EndFlush waiting n r d)
  have K: "keeps_all env (y_dev s) d" using readQueue_keeps [OF _ EndFlush(3)] inv_phone [OF assms(2)] by auto
  have "keeps_all env d (y_dev s')"
    using K by (intro keeps_all_cong) (auto simp: EndFlush(1) keeps_all_def split: option.split)
  then have K': "keeps_all env (y_dev s) (y_dev s')" by (rule keeps_all_trans [OF K])
  then have "covers (everything env s') (everything env s)"
    by (intro covers_sub) (auto simp: everything_def in_flight_def EndFlush(1) keeps_all_def)
  then show ?thesis
    using K' by (intro sys_inv_keep [OF assms(2)]) (auto simp: EndFlush(1) keeps_all_def elim: covers_mono)
next
  case Reload
  have K: "keeps_all env (y_dev s) (reload (y_dev s))"
    using inv_phone [OF assms(2)] by (intro keeps_all_cong) (auto simp: reload_def)
  then have "covers (everything env s') (everything env s)"
    by (intro covers_sub) (auto simp: everything_def in_flight_def Reload(1) keeps_all_def)
  then show ?thesis
    using K by (intro sys_inv_keep [OF assms(2)]) (auto simp: Reload(1) keeps_all_def elim: covers_mono)
qed

lemma sys_inv_runs: "queue_runs env s t \<Longrightarrow> sys_inv env s \<Longrightarrow> sys_inv env t"
  by (induction rule: queue_runs.induct) (auto intro: sys_inv_step)


inductive_cases queue_step_reload: "queue_step env s (s\<lparr>y_dev := reload (y_dev s), y_flight := None\<rparr>)"

lemmas queue_run_intros = queue_runs.Here queue_runs.Then queue_step.intros

section \<open>One flush\<close>

text \<open>Which items a flush sends, and the verdicts, without the storage.\<close>

fun sendings :: "(mutation \<Rightarrow> reply) \<Rightarrow> string option list \<Rightarrow> mutation list \<Rightarrow> (mutation \<times> verdict) list" where
  "sendings net waiting [] = []"
| "sendings net waiting (m # ms) =
     (if q_failure m \<noteq> None \<or> recordKey m \<in> set waiting then sendings net waiting ms
      else (m, judge (net m)) #
        sendings net (if judge (net m) = Retry then recordKey m # waiting else waiting) ms)"

text \<open>The flush sends a prefix of them, and all of them when the storage does not fail.\<close>

lemma replay_item_sends:
  assumes "replay_item put del net m fs = (okay, fs')"
  shows "if okay
    then fs_log fs' @ sendings net (map Some (fs_waiting fs')) ms
      = fs_log fs @ sendings net (map Some (fs_waiting fs)) (m # ms)
    else prefix (fs_log fs') (fs_log fs @ sendings net (map Some (fs_waiting fs)) (m # ms)) \<and> prefix (fs_log fs) (fs_log fs')"
proof (cases "q_failure m \<noteq> None \<or> recordKey m \<in> set (map Some (fs_waiting fs))")
  case True
  then have "fs' = fs" using assms by (auto simp: replay_item_def split: if_splits option.splits)
  with True show ?thesis by simp
next
  case False
  show ?thesis
  proof (cases "recordKey m")
    case None
    with False assms have "fs' = fs" "\<not> okay" by (auto simp: replay_item_def)
    then show ?thesis by simp
  next
    case (Some key)
    with False have "q_failure m = None" "key \<notin> set (fs_waiting fs)" by auto
    with Some assms have l: "fs_log fs' = fs_log fs @ [(m, judge (net m))] \<and>
        (okay \<longrightarrow> fs_waiting fs' = (if judge (net m) = Retry then key # fs_waiting fs else fs_waiting fs))"
      by (cases "judge (net m)") (auto simp: replay_item_def Let_def split: prod.splits if_splits)
    have e: "sendings net (map Some (fs_waiting fs)) (m # ms) = (m, judge (net m)) #
        sendings net (if judge (net m) = Retry then recordKey m # map Some (fs_waiting fs) else map Some (fs_waiting fs)) ms"
      using False by (simp only: sendings.simps if_False)
    show ?thesis
    proof (cases okay)
      case True
      with l Some show ?thesis unfolding e by auto
    next
      case False
      with l show ?thesis unfolding e by simp
    qed
  qed
qed

lemma replay_loop_sends:
  assumes "replay_loop put del net ms fs = (okay, fs')"
  shows "if okay then fs_log fs' = fs_log fs @ sendings net (map Some (fs_waiting fs)) ms
    else prefix (fs_log fs') (fs_log fs @ sendings net (map Some (fs_waiting fs)) ms)"
  using assms
proof (induction ms arbitrary: fs)
  case (Cons m ms)
  obtain b f where b: "replay_item put del net m fs = (b, f)" by force
  note S = replay_item_sends [OF b, of ms]
  show ?case
  proof (cases b)
    case True
    then have "replay_loop put del net ms f = (okay, fs')" using Cons.prems b by simp
    from Cons.IH [OF this] show ?thesis using S True by (simp only: if_True)
  next
    case False
    then have "okay = False" "fs' = f" using Cons.prems b by simp_all
    then show ?thesis using S False by (simp only: if_False)
  qed
qed simp

lemma sendings_subseq: "subseq (map fst (sendings net w ms)) ms"
  by (induction ms arbitrary: w) auto

lemma sendings_pending: "(m, v) \<in> set (sendings net w ms) \<Longrightarrow> q_failure m = None \<and> v = judge (net m) \<and> recordKey m \<notin> set w"
proof (induction ms arbitrary: w)
  case (Cons a ms)
  from Cons.prems Cons.IH [of w] Cons.IH [of "recordKey a # w"] show ?case
    by (auto split: if_splits simp del: not_None_eq)
qed simp

lemma sendings_order:
  assumes "sendings net w ms = pre @ (y, v) # post" and "subseq [x, y] ms" and "distinct ms"
    and "q_failure x = None" and "recordKey x = recordKey y"
  shows "\<exists>u. u \<noteq> Retry \<and> (x, u) \<in> set pre"
  using assms(1-3)
proof (induction ms arbitrary: w pre)
  case (Cons m ms)
  have ky: "recordKey y \<notin> set w" using sendings_pending [of y v net w "m # ms"] Cons.prems(1) by simp
  show ?case
  proof (cases "m = x")
    case True
    then have "subseq [y] ms" "y \<noteq> x" using Cons.prems by (auto simp: subseq_singleton_left)
    have e: "sendings net w (m # ms) = (x, judge (net x)) #
        sendings net (if judge (net x) = Retry then recordKey x # w else w) ms"
      using True ky assms(4,5) by simp
    then obtain pre' where p: "pre = (x, judge (net x)) # pre'"
        and q: "sendings net (if judge (net x) = Retry then recordKey x # w else w) ms = pre' @ (y, v) # post"
      using Cons.prems(1) \<open>y \<noteq> x\<close> by (cases pre) auto
    then have "recordKey y \<notin> set (if judge (net x) = Retry then recordKey x # w else w)"
      using sendings_pending [of y v net _ ms] by (metis in_set_conv_decomp)
    with assms(5) have "judge (net x) \<noteq> Retry" by auto
    with p show ?thesis by auto
  next
    case False
    then have sub: "subseq [x, y] ms" using Cons.prems(2) by simp
    have "y \<in> set ms" by (rule list_emb_set [OF sub, of y]) auto
    then have ym: "y \<noteq> m" using Cons.prems(3) by auto
    have d: "distinct ms" using Cons.prems(3) by simp
    show ?thesis
    proof (cases "q_failure m \<noteq> None \<or> recordKey m \<in> set w")
      case True
      then have "sendings net w ms = pre @ (y, v) # post" using Cons.prems(1) by auto
      from Cons.IH [OF this sub d] show ?thesis .
    next
      case send: False
      then obtain pre' where "pre = (m, judge (net m)) # pre'"
        "sendings net (if judge (net m) = Retry then recordKey m # w else w) ms = pre' @ (y, v) # post"
        using Cons.prems(1) ym by (cases pre) auto
      with Cons.IH [OF this(2) sub d] show ?thesis by auto
    qed
  qed
qed simp


lemma flush_sends:
  assumes "flushQueue env net d = (r, fs)" and "readQueue env d = (Some q, d1)"
  shows "prefix (fs_log fs) (sendings net [] q) \<and> (r \<noteq> None \<longrightarrow> fs_log fs = sendings net [] q)"
proof (cases "q = []")
  case True
  with assms show ?thesis by (auto simp: flushQueue_def start_flush_def)
next
  case False
  obtain b f where l: "replay_loop (saveQueuedItem env) (removeQueuedItem env) net q (start_flush d1) = (b, f)"
    by force
  note S = replay_loop_sends [OF l]
  have "fs_log fs = fs_log f \<and> (r \<noteq> None \<longrightarrow> b)"
    using assms l False by (auto simp: flushQueue_def split: bool.splits option.splits prod.splits)
  with S show ?thesis by (cases b) (auto simp: start_flush_def)
qed

lemma flush_order:
  assumes "flushQueue env net d = (r, fs)" and "readQueue env d = (Some q, d1)" and "distinct q"
    and "subseq [x, y] q" and "q_failure x = None" and "recordKey x = recordKey y"
    and "fs_log fs = pre @ (y, v) # post"
  shows "\<exists>u. u \<noteq> Retry \<and> (x, u) \<in> set pre"
proof -
  obtain rest where "sendings net [] q = pre @ (y, v) # (post @ rest)"
    using flush_sends [OF assms(1,2)] assms(7) by (auto simp: prefix_def)
  from sendings_order [OF this assms(4,3,5,6)] show ?thesis .
qed

lemma flush_skips_refused:
  assumes "flushQueue env net d = (r, fs)" and "readQueue env d = (Some q, d1)"
  shows "subseq (map fst (fs_log fs)) q \<and> (\<forall>(m, v) \<in> set (fs_log fs). q_failure m = None \<and> v = judge (net m))"
proof -
  obtain rest where e: "sendings net [] q = fs_log fs @ rest"
    using flush_sends [OF assms] by (auto simp: prefix_def)
  have "subseq (map fst (fs_log fs)) (map fst (sendings net [] q))"
    unfolding e map_append by (rule prefix_imp_subseq) simp
  moreover have "\<forall>(m, v) \<in> set (fs_log fs). q_failure m = None \<and> v = judge (net m)"
    using sendings_pending [of _ _ net "[]" q] by (fastforce simp: e simp del: not_None_eq)
  ultimately show ?thesis using sendings_subseq subseq_order.trans by blast
qed

text \<open>A refused item stays, with the refusal and a raised attempt count, and is reported once.\<close>

lemma replay_refused:
  assumes "device_ok env (fs_dev fs)" and "q_failure m = None" and "recordKey m = Some key"
    and "key \<notin> set (fs_waiting fs)" and "judge (net m) = Refuse reason status"
    and "replay_item (saveQueuedItem env) (removeQueuedItem env) net m fs = (True, fs')"
  shows "m\<lparr>q_attempts := q_attempts m + 1, q_failure := Some (reason, status)\<rparr> \<in> on_phone env (fs_dev fs') \<and>
    fs_dropped fs' = fs_dropped fs @ [\<lparr>di_reason = Refused reason, di_count = 1, di_labels = [label_or m]\<rparr>] \<and>
    fs_success fs' = fs_success fs \<and> fs_waiting fs' = fs_waiting fs"
proof -
  obtain d where "saveQueuedItem env ((bump m)\<lparr>q_failure := Some (reason, status)\<rparr>) (fs_dev fs) = (True, d)"
    and "fs' = fs\<lparr>fs_log := fs_log fs @ [(m, Refuse reason status)], fs_dev := d, fs_dropped := fs_dropped fs @
      [\<lparr>di_reason = Refused reason, di_count = 1, di_labels = [label_or m]\<rparr>]\<rparr>"
    using assms(2-) by (auto simp: replay_item_def Let_def split: prod.splits if_splits)
  with oq.put_stores [OF assms(1)] show ?thesis by (simp add: bump_def)
qed

section \<open>Properties\<close>

definition web_env :: "mutation queue_env" where
  "web_env = \<lparr>q_native = False, q_fails = (\<lambda>_. False), q_seal = (\<lambda>m. m), q_open = Some\<rparr>"

definition fresh_device :: "mutation device" where
  "fresh_device = \<lparr>d_idb = [], d_ls = [], d_off = False, d_ready = False, d_known = 0, d_tick = 0\<rparr>"

definition edit :: "string \<Rightarrow> string \<Rightarrow> mutation" where
  "edit i time = \<lparr>q_id = i, q_queuedAt = time, q_url = ''/api/scouting/entries'', q_method = ''POST'',
     q_body = None, q_headers = [], q_attempts = 0, q_label = None, q_failure = None\<rparr>"

lemma enqueue_fresh: "fst (enqueue web_env (edit ''1'' ''t'') fresh_device)"
  by code_simp

text \<open>Claim C1: no edit is lost.  From a phone with an empty or a legacy queue, after any sequence of
  saves, flushes that stop anywhere, storage failures, network answers and reloads, every edit whose
  save was confirmed to the scout is still on the phone or was confirmed by the server, the same but
  for its attempt count and its refusal.\<close>

theorem no_edit_lost:
  assumes "sys_start env s" and "queue_runs env s t" and "m \<in> y_saved t"
  shows "\<exists>x \<in> on_phone env (y_dev t) \<union> y_confirmed t.
    x\<lparr>q_attempts := 0, q_failure := None\<rparr> = m\<lparr>q_attempts := 0, q_failure := None\<rparr>"
  using sys_inv_runs [OF assms(2) sys_inv_start [OF assms(1)]] assms(3)
  by (auto simp: sys_inv_def covers_def core_def)

lemma no_edit_lost_witness:
  "\<exists>t. queue_runs web_env \<lparr>y_dev = fresh_device, y_flight = None, y_used = {}, y_saved = {}, y_confirmed = {}\<rparr> t \<and>
     d_ready (y_dev t) = False \<and> (\<exists>x \<in> on_phone web_env (y_dev t) \<union> y_confirmed t.
       x\<lparr>q_attempts := 0, q_failure := None\<rparr> = edit ''1'' ''t'')"
proof -
  let ?s = "\<lparr>y_dev = fresh_device, y_flight = None, y_used = {}, y_saved = {}, y_confirmed = {}\<rparr>"
  obtain drp d where e: "enqueue web_env (edit ''1'' ''t'') fresh_device = (True, drp, d)"
    using enqueue_fresh by (cases "enqueue web_env (edit ''1'' ''t'') fresh_device") simp
  let ?u = "?s\<lparr>y_dev := d, y_used := {''1''}, y_saved := {edit ''1'' ''t''}\<rparr>"
  have st: "queue_step web_env ?s ?u"
    using queue_step.Save [of "edit ''1'' ''t''" ?s web_env True drp d] e by (simp add: edit_def)
  then have u: "queue_runs web_env ?s (?u\<lparr>y_dev := reload d, y_flight := None\<rparr>)" (is "queue_runs _ _ ?t")
    using queue_runs.Then [OF queue_runs.Then [OF queue_runs.Here st] queue_step.Reload] by simp
  have start: "sys_start web_env ?s"
    by (simp add: sys_start_def device_ok_def on_phone_def idb_items_def fresh_device_def ids_agree_def map_ok_def web_env_def)
  have "edit ''1'' ''t'' \<in> y_saved ?t" by simp
  from no_edit_lost [OF start u this] u show ?thesis
    by (intro exI [of _ ?t]) (simp add: reload_def edit_def)
qed


definition two_edits :: "mutation device" where
  "two_edits = fresh_device\<lparr>d_ls := [edit ''1'' ''t'', edit ''2'' ''u''], d_off := True, d_ready := True\<rparr>"

definition all_well :: "mutation \<Rightarrow> reply" where
  "all_well m = Reply 200 (Some (Raw [])) None"

lemma read_two_edits: "readQueue web_env two_edits = (Some [edit ''1'' ''t'', edit ''2'' ''u''], two_edits)"
  by (simp add: readQueue_def ensureInit_def two_edits_def lsRead_def)

text \<open>Claim C2: edits of one record reach the server in the order they were queued.  When a flush
  sends an edit, every earlier edit of the same record that the server has not refused was sent before
  it in the same flush, and was delivered or refused, never left to be tried again.\<close>

theorem edits_of_a_record_stay_in_order:
  assumes "flushQueue env net d = (r, fs)" and "readQueue env d = (Some q, d1)" and "distinct q"
    and "subseq [x, y] q" and "q_failure x = None" and "recordKey x = recordKey y"
    and "fs_log fs = pre @ (y, v) # post"
  shows "\<exists>u. u \<noteq> Retry \<and> (x, u) \<in> set pre"
  by (rule flush_order [OF assms])

lemma edits_of_a_record_stay_in_order_witness:
  "\<exists>pre v. fs_log (snd (flushQueue web_env all_well two_edits)) = pre @ [(edit ''2'' ''u'', v)] \<and>
     (\<exists>u. u \<noteq> Retry \<and> (edit ''1'' ''t'', u) \<in> set pre)"
proof -
  have l: "fs_log (snd (flushQueue web_env all_well two_edits)) =
      [(edit ''1'' ''t'', Delivered)] @ [(edit ''2'' ''u'', Delivered)]" by code_simp
  have k: "recordKey (edit ''1'' ''t'') = recordKey (edit ''2'' ''u'')" "q_failure (edit ''1'' ''t'') = None"
    "distinct [edit ''1'' ''t'', edit ''2'' ''u'']"
    by (simp_all add: edit_def recordKey_def)
  show ?thesis
    using edits_of_a_record_stay_in_order [OF prod.collapse [symmetric] read_two_edits k(3) _ k(2,1) l] l by auto
qed

text \<open>Claim C3: a flush sends the waiting edits in their order, none twice for one entry of the queue
  and none that the server has refused before; the verdict on each is that of its reply.  When the
  flush resolves it has sent all it may: the ones it skipped are refused or wait behind an edit of
  the same record.\<close>

theorem flush_sends_waiting_edits:
  assumes "flushQueue env net d = (r, fs)" and "readQueue env d = (Some q, d1)"
  shows "subseq (map fst (fs_log fs)) q \<and>
    (\<forall>(m, v) \<in> set (fs_log fs). q_failure m = None \<and> v = judge (net m)) \<and>
    (r \<noteq> None \<longrightarrow> fs_log fs = sendings net [] q)"
  using flush_skips_refused [OF assms] flush_sends [OF assms] by blast

lemma flush_sends_waiting_edits_witness:
  "fs_log (snd (flushQueue web_env all_well two_edits)) = sendings all_well [] [edit ''1'' ''t'', edit ''2'' ''u'']"
proof -
  have "fst (flushQueue web_env all_well two_edits) \<noteq> None" by code_simp
  with flush_sends_waiting_edits [OF prod.collapse [symmetric] read_two_edits] show ?thesis by blast
qed

text \<open>Claim C4: an edit the server refuses is kept on the phone with the refusal and its attempts
  raised by one, the drop is reported once under the label of the edit, and neither the count of
  delivered edits nor the other edits of the record are affected.\<close>

theorem refused_edit_is_kept:
  assumes "device_ok env (fs_dev fs)" and "q_failure m = None" and "recordKey m = Some key"
    and "key \<notin> set (fs_waiting fs)" and "judge (net m) = Refuse reason status"
    and "replay_item (saveQueuedItem env) (removeQueuedItem env) net m fs = (True, fs')"
  shows "m\<lparr>q_attempts := q_attempts m + 1, q_failure := Some (reason, status)\<rparr> \<in> on_phone env (fs_dev fs') \<and>
    fs_dropped fs' = fs_dropped fs @ [\<lparr>di_reason = Refused reason, di_count = 1, di_labels = [label_or m]\<rparr>] \<and>
    fs_success fs' = fs_success fs \<and> fs_waiting fs' = fs_waiting fs"
  by (rule replay_refused [OF assms])

lemma refused_edit_is_kept_witness:
  "(edit ''1'' ''t'')\<lparr>q_attempts := 1, q_failure := Some (Conflict, 409)\<rparr> \<in> on_phone web_env
     (fs_dev (snd (replay_item (saveQueuedItem web_env) (removeQueuedItem web_env) (\<lambda>_. Reply 409 None None)
       (edit ''1'' ''t'') (start_flush two_edits))))"
proof -
  let ?R = "replay_item (saveQueuedItem web_env) (removeQueuedItem web_env) (\<lambda>_. Reply 409 None None)
       (edit ''1'' ''t'') (start_flush two_edits)"
  have "fst ?R" by code_simp
  then have r: "?R = (True, snd ?R)" by (metis prod.collapse)
  have ok: "device_ok web_env (fs_dev (start_flush two_edits))"
    by (simp add: start_flush_def two_edits_def fresh_device_def device_ok_def map_ok_def web_env_def)
  have q: "q_failure (edit ''1'' ''t'') = None" "q_attempts (edit ''1'' ''t'') = 0" by (simp_all add: edit_def)
  obtain k where k: "recordKey (edit ''1'' ''t'') = Some k" by (simp add: recordKey_def edit_def)
  have j: "judge ((\<lambda>_. Reply 409 None None) (edit ''1'' ''t'')) = Refuse Conflict 409"
    by (simp add: judge_def res_ok_def)
  have w: "k \<notin> set (fs_waiting (start_flush two_edits))" by (simp add: start_flush_def)
  from refused_edit_is_kept [OF ok q(1) k w j r] q(2) show ?thesis by simp
qed

text \<open>Claim C5: what a save tells the scout is true.  When it resolves the edit is on the phone and
  nothing was reported as dropped; when it reports a storage failure the edit is the one report, the
  save rejects and the phone holds what it held; and on no path does a save lose an older edit.\<close>

theorem enqueue_tells_the_truth:
  assumes "device_ok env d" and "ids_agree (insert m (on_phone env d))"
    and "enqueue env m d = (okay, dropped, d')"
  shows "covers (on_phone env d) (on_phone env d') \<and>
    (okay \<longrightarrow> covers {m} (on_phone env d') \<and> dropped = []) \<and>
    (dropped \<noteq> [] \<longrightarrow> \<not> okay \<and> on_phone env d' \<subseteq> on_phone env d \<and>
       dropped = [\<lparr>di_reason = StorageFailure, di_count = 1, di_labels = [label_or m]\<rparr>])"
  using enqueue_result [OF assms] unfolding keeps_all_def by blast

lemma enqueue_tells_the_truth_witness:
  "covers {edit ''1'' ''t''} (on_phone web_env (snd (snd (enqueue web_env (edit ''1'' ''t'') fresh_device))))"
proof -
  have e: "enqueue web_env (edit ''1'' ''t'') fresh_device = (True,
      fst (snd (enqueue web_env (edit ''1'' ''t'') fresh_device)), snd (snd (enqueue web_env (edit ''1'' ''t'') fresh_device)))"
    using enqueue_fresh by (simp add: prod_eq_iff)
  have "device_ok web_env fresh_device" "ids_agree (insert (edit ''1'' ''t'') (on_phone web_env fresh_device))"
    by (simp_all add: device_ok_def on_phone_def idb_items_def fresh_device_def ids_agree_def map_ok_def web_env_def)
  from enqueue_tells_the_truth [OF this e]
  show ?thesis by simp
qed

section \<open>What modelling showed\<close>

text \<open>On the web a start whose second put fails leaves the first edit in both stores.  The fallback
  then delivers it and removes its own copy, and the next start finds the other one waiting again.
  (A native start keeps what the database holds; the web start has no such rule.)\<close>

definition flaky_env :: "mutation queue_env" where
  "flaky_env = web_env\<lparr>q_fails := (\<lambda>n. n = 1)\<rparr>"

lemma delivered_edit_comes_back:
  "let fs = snd (flushQueue flaky_env all_well (two_edits\<lparr>d_off := False, d_ready := False\<rparr>))
   in (edit ''1'' ''t'', Delivered) \<in> set (fs_log fs) \<and>
      edit ''1'' ''t'' \<in> set (the (fst (readQueue flaky_env (reload (fs_dev fs)))))"
  by code_simp

text \<open>A save can reject although the edit is stored: when reading the queue back fails.\<close>

lemma rejected_save_is_stored:
  "let r = enqueue (web_env\<lparr>q_fails := (\<lambda>n. n = 2)\<rparr>) (edit ''1'' ''t'') fresh_device
   in \<not> fst r \<and> fst (snd r) = [] \<and>
      d_idb (snd (snd r)) = [(''1'', Plain (edit ''1'' ''t''))]"
  by code_simp

end
