(* ===== verification/ByteCodecs.thy ===== *)
theory ByteCodecs
  imports Prelude "HOL-Library.Word"
begin

text \<open>
  The two byte formats the QR codes of \<open>src/ScoutingApp/src/pages/qrUtils.ts\<close> go through: UTF-8
  (\<open>TextEncoder\<close>, \<open>TextDecoder\<close>) on code units up to 255 and base64url on bytes, with the browser's
  \<open>btoa\<close> and \<open>atob\<close>.  The locale \<open>codec\<close> is what a user of a format relies on; it is interpreted on
  both.
\<close>

locale codec =
  fixes enc :: "'a \<Rightarrow> 'b" and dec :: "'b \<Rightarrow> 'a option" and fits :: "'a \<Rightarrow> bool"
  assumes dec_enc: "fits x \<Longrightarrow> dec (enc x) = Some x"
begin

lemma enc_inj: "fits x \<Longrightarrow> fits y \<Longrightarrow> enc x = enc y \<longleftrightarrow> x = y"
  by (metis dec_enc option.inject)

end

section \<open>UTF-8\<close>

type_synonym bytes = "8 word list"

definition utf8_char :: "char \<Rightarrow> bytes" where
  "utf8_char c = (let n = of_char c :: nat in
     if n < 128 then [of_nat n] else [of_nat (192 + n div 64), of_nat (128 + n mod 64)])"

definition utf8_encode :: "string \<Rightarrow> bytes" where
  "utf8_encode s = concat (map utf8_char s)"

text \<open>\<open>None\<close> for a text with a code unit beyond 255, the mark of a malformed sequence among them.\<close>

fun utf8_units :: "bytes \<Rightarrow> string option" where
  "utf8_units [] = Some []"
| "utf8_units (b # bs) =
     (if unat b < 128 then map_option ((#) (char_of (unat b))) (utf8_units bs)
      else case bs of [] \<Rightarrow> None
        | d # ds \<Rightarrow> if 194 \<le> unat b \<and> unat b \<le> 195 \<and> 128 \<le> unat d \<and> unat d < 192
            then map_option ((#) (char_of ((unat b - 192) * 64 + (unat d - 128)))) (utf8_units ds)
            else None)"

definition utf8_decode :: "bytes \<Rightarrow> string option" where
  "utf8_decode bs = utf8_units (if take 3 bs = [0xEF, 0xBB, 0xBF] then drop 3 bs else bs)"

lemma unat_byte: "n < 256 \<Longrightarrow> unat (of_nat n :: 8 word) = n"
  by (simp add: unsigned_of_nat take_bit_eq_mod)

lemma utf8_two:
  assumes "\<not> of_char c < (128 :: nat)"
  obtains x y :: "8 word" where "utf8_char c = [x, y]" "194 \<le> unat x" "unat x \<le> 195" "128 \<le> unat y"
    "unat y < 192" "char_of ((unat x - 192) * 64 + (unat y - 128)) = c"
proof -
  define n where "n = (of_char c :: nat)"
  have n: "n < 256" "128 \<le> n" using assms by (simp_all add: n_def of_char_less_256)
  have d: "2 \<le> n div 64" "n div 64 \<le> 3" "n mod 64 < 64" using n by auto
  define x y :: "8 word" where "x = of_nat (192 + n div 64)" and "y = of_nat (128 + n mod 64)"
  have u: "unat x = 192 + n div 64" "unat y = 128 + n mod 64"
    unfolding x_def y_def by (rule unat_byte; use d in simp)+
  have "char_of ((unat x - 192) * 64 + (unat y - 128)) = c" by (simp add: u n_def)
  moreover have "utf8_char c = [x, y]"
    using n by (simp add: utf8_char_def n_def [symmetric] x_def y_def Let_def)
  ultimately show ?thesis using that d u by simp
qed

lemma utf8_one: "of_char c < (128 :: nat) \<Longrightarrow> utf8_char c = [of_nat (of_char c)]"
  by (simp add: utf8_char_def)

lemma utf8_units_char: "utf8_units (utf8_char c @ bs) = map_option ((#) c) (utf8_units bs)"
proof (cases "of_char c < (128 :: nat)")
  case True
  then show ?thesis by (simp add: utf8_one unat_byte)
next
  case False
  then show ?thesis by (rule utf8_two) auto
qed

lemma utf8_units_encode: "utf8_units (utf8_encode s) = Some s"
  by (induction s) (simp_all add: utf8_encode_def utf8_units_char)

lemma utf8_no_bom: "take 3 (utf8_encode s) \<noteq> [0xEF, 0xBB, 0xBF]"
proof (cases s)
  case (Cons c cs)
  have "\<exists>x xs. utf8_encode s = x # xs \<and> unat x \<noteq> 239"
  proof (cases "of_char c < (128 :: nat)")
    case True
    then show ?thesis by (simp add: Cons utf8_encode_def utf8_one unat_byte)
  next
    case False
    then show ?thesis by (rule utf8_two) (simp add: Cons utf8_encode_def)
  qed
  then show ?thesis by auto
qed (simp add: utf8_encode_def)

interpretation utf8: codec utf8_encode utf8_decode "\<lambda>_. True"
  by unfold_locales (simp add: utf8_decode_def utf8_no_bom utf8_units_encode)

section \<open>Base64\<close>

definition b64_alphabet :: string where
  "b64_alphabet = ''ABCDEFGHIJKLMNOPQRSTUVWXYZabcdefghijklmnopqrstuvwxyz0123456789+/''"

definition b64_char :: "nat \<Rightarrow> char" where
  "b64_char i = b64_alphabet ! i"

definition b64_val :: "char \<Rightarrow> nat option" where
  "b64_val c = (let i = length (takeWhile (\<lambda>d. d \<noteq> c) b64_alphabet) in if i < 64 then Some i else None)"

fun sixes :: "nat list \<Rightarrow> nat list" where
  "sixes [] = []"
| "sixes [a] = [a div 4, a mod 4 * 16]"
| "sixes [a, b] = [a div 4, a mod 4 * 16 + b div 16, b mod 16 * 4]"
| "sixes (a # b # c # r) = [a div 4, a mod 4 * 16 + b div 16, b mod 16 * 4 + c div 64, c mod 64] @ sixes r"

fun eights :: "nat list \<Rightarrow> nat list" where
  "eights [a, b] = [a * 4 + b div 16]"
| "eights [a, b, c] = [a * 4 + b div 16, b mod 16 * 16 + c div 4]"
| "eights (a # b # c # d # r) = [a * 4 + b div 16, b mod 16 * 16 + c div 4, c mod 4 * 64 + d] @ eights r"
| "eights _ = []"

definition btoa :: "string \<Rightarrow> string" where
  "btoa s = map b64_char (sixes (map of_char s)) @ replicate ((3 - length s mod 3) mod 3) (CHR ''='')"

text \<open>\<open>atob\<close> skips white space, takes off one or two signs of padding and throws (\<open>None\<close>) on any
  other character and on a length no text has.\<close>

definition atob :: "string \<Rightarrow> string option" where
  "atob s =
     (let t = filter (\<lambda>c. of_char c \<notin> {9, 10, 12, 13, 32 :: nat}) s;
          ends = (\<lambda>k. k \<le> length t \<and> drop (length t - k) t = replicate k (CHR ''=''));
          u = (if length t mod 4 = 0 then (if ends 2 then take (length t - 2) t
                 else if ends 1 then take (length t - 1) t else t) else t)
      in if length u mod 4 = 1 then None
         else map_option (\<lambda>ns. map char_of (eights ns)) (those (map b64_val u)))"

definition url_char :: "char \<Rightarrow> char" where
  "url_char c = (if c = CHR ''+'' then CHR ''-'' else if c = CHR ''/'' then CHR ''_'' else c)"

definition unurl_char :: "char \<Rightarrow> char" where
  "unurl_char c = (if c = CHR ''-'' then CHR ''+'' else if c = CHR ''_'' then CHR ''/'' else c)"

definition uint8ToBase64url :: "bytes \<Rightarrow> string" where
  "uint8ToBase64url bytes =
     (let binary = map (\<lambda>b. char_of (unat b)) bytes;
          s = map url_char (btoa binary)
      in rev (dropWhile (\<lambda>c. c = CHR ''='') (rev s)))"

definition base64urlToUint8 :: "string \<Rightarrow> bytes option" where
  "base64urlToUint8 str =
     (let b64 = map unurl_char str;
          padded = b64 @ replicate ((4 - length b64 mod 4) mod 4) (CHR ''='')
      in map_option (map (\<lambda>c. of_nat (of_char c))) (atob padded))"

lemma sixes_small: "\<forall>n \<in> set ns. n < 256 \<Longrightarrow> i \<in> set (sixes ns) \<Longrightarrow> i < 64"
  by (induction ns rule: sixes.induct) auto

lemma length_sixes_mod: "length (sixes ns) mod 4 = (if length ns mod 3 = 0 then 0 else length ns mod 3 + 1)"
  by (induction ns rule: sixes.induct) (auto simp: mod_Suc)

lemma eights_sixes: "\<forall>n \<in> set ns. n < 256 \<Longrightarrow> eights (sixes ns) = ns"
proof (induction ns rule: sixes.induct)
  case (4 a b c r)
  then have "a < 256" "b < 256" "c < 256" "eights (sixes r) = r" by auto
  moreover have "b mod 16 * 16 + (b mod 16 * 4 + c div 64) div 4 \<ge> 0" by simp
  ultimately show ?case by simp
qed auto

lemma b64_table:
  "i < 64 \<Longrightarrow> b64_val (b64_char i) = Some i \<and> b64_char i \<notin> {CHR ''='', CHR ''-'', CHR ''_''} \<and>
     \<not> is_space (b64_char i)"
proof -
  have "list_all (\<lambda>i. b64_val (b64_char i) = Some i \<and> b64_char i \<notin> {CHR ''='', CHR ''-'', CHR ''_''} \<and>
     \<not> is_space (b64_char i)) [0..<64]" by code_simp
  then show "i < 64 \<Longrightarrow> ?thesis" by (simp add: list_all_iff)
qed


lemma url_table:
  "i < 64 \<Longrightarrow> \<not> is_space (url_char (b64_char i)) \<and> unurl_char (url_char (b64_char i)) = b64_char i \<and>
     url_char (b64_char i) \<noteq> CHR ''=''"
  using b64_table [of i] by (simp add: url_char_def unurl_char_def is_space_def)

lemma those_map_Some: "those (map Some xs) = Some xs"
  by (induction xs) auto

lemma padding_end:
  assumes "\<forall>c \<in> set cs. c \<noteq> p"
  shows "j \<le> length (cs @ replicate k p) \<and> drop (length (cs @ replicate k p) - j) (cs @ replicate k p) = replicate j p
    \<longleftrightarrow> j \<le> k"
proof (cases "j \<le> k")
  case True
  then have "drop (length cs + k - j) (cs @ replicate k p) = replicate j p" by simp
  with True show ?thesis by simp
next
  case False
  have "drop (length cs + k - j) (cs @ replicate k p) \<noteq> replicate j p" if "j \<le> length cs + k"
  proof
    assume "drop (length cs + k - j) (cs @ replicate k p) = replicate j p"
    moreover have "drop (length cs + k - j) (cs @ replicate k p) ! 0 = cs ! (length cs + k - j)"
      using False that by (simp add: nth_append)
    moreover have "replicate j p ! 0 = p" using False by simp
    moreover have "cs ! (length cs + k - j) \<in> set cs" using False that by (intro nth_mem) linarith
    ultimately show False using assms by metis
  qed
  with False show ?thesis by auto
qed

lemma atob_sixes:
  assumes ns: "\<forall>n \<in> set ns. n < 256" and cs: "cs = map b64_char (sixes ns)"
  shows "atob (cs @ replicate ((4 - length cs mod 4) mod 4) (CHR ''='')) = Some (map char_of ns)"
proof -
  define k where "k = (4 - length cs mod 4) mod 4"
  define t where "t = cs @ replicate k (CHR ''='')"
  have l: "length cs mod 4 \<in> {0, 2, 3}" using length_sixes_mod [of ns] mod_less_divisor [of 3 "length ns"]
    by (simp add: cs) linarith
  then have k: "k \<le> 2" "(length cs + k) mod 4 = 0" unfolding k_def by (auto, presburger+)
  have c: "\<forall>c \<in> set cs. c \<noteq> CHR ''=''" "\<forall>c \<in> set t. of_char c \<notin> {9, 10, 12, 13, 32 :: nat}"
    using b64_table sixes_small [OF ns] by (auto simp: cs t_def is_space_def)
  have f: "filter (\<lambda>c. of_char c \<notin> {9, 10, 12, 13, 32 :: nat}) t = t" using c(2) by (intro filter_True) auto
  have e: "(j \<le> length t \<and> drop (length t - j) t = replicate j (CHR ''='')) \<longleftrightarrow> j \<le> k" for j
    unfolding t_def by (rule padding_end [OF c(1)])
  have u: "(if length t mod 4 = 0 then (if (2::nat) \<le> k then take (length t - 2) t
      else if 1 \<le> k then take (length t - 1) t else t) else t) = cs"
    using k by (auto simp: t_def not_le le_Suc_eq numeral_2_eq_2)
  have v: "map b64_val cs = map Some (sixes ns)"
    using b64_table sixes_small [OF ns] by (auto simp: cs)
  have "atob t = Some (map char_of ns)"
    unfolding atob_def f Let_def e u using l eights_sixes [OF ns] by (auto simp: v those_map_Some)
  then show ?thesis by (simp add: t_def k_def)
qed

lemma strip_padding:
  assumes "\<forall>c \<in> set cs. c \<noteq> p"
  shows "rev (dropWhile (\<lambda>c. c = p) (rev (cs @ replicate k p))) = cs"
proof -
  have "dropWhile (\<lambda>c. c = p) (replicate k p @ rev cs) = rev cs"
    using assms by (induction k) (cases "rev cs" rule: list.exhaust; force intro: dropWhile_hd_id simp: hd_rev)+
  then show ?thesis by simp
qed

text \<open>What is sent has the characters of the URL-safe alphabet only and no padding.\<close>

lemma bytes_small: "\<forall>n \<in> set (map unat (bs :: bytes)). n < 256"
proof -
  have "unat b < 256" for b :: "8 word" using unsigned_less [of b, where ?'a = nat] by simp
  then show ?thesis by auto
qed

lemma uint8ToBase64url_sixes: "uint8ToBase64url bs = map url_char (map b64_char (sixes (map unat bs)))"
proof -
  define ns where "ns = map unat bs"
  define cs where "cs = map b64_char (sixes ns)"
  have ns: "\<forall>n \<in> set ns. n < 256" unfolding ns_def by (rule bytes_small)
  have m: "map of_char (map (\<lambda>b. char_of (unat b)) bs) = ns"
    using ns by (simp add: ns_def of_char_of_small)
  have p: "\<forall>c \<in> set (map url_char cs). c \<noteq> CHR ''=''"
    using url_table sixes_small [OF ns] by (simp add: cs_def)
  have "uint8ToBase64url bs = rev (dropWhile (\<lambda>c. c = CHR ''='')
      (rev (map url_char cs @ replicate ((3 - length bs mod 3) mod 3) (CHR ''=''))))"
    unfolding uint8ToBase64url_def btoa_def Let_def m cs_def [symmetric] map_append
    by (simp add: url_char_def)
  also have "\<dots> = map url_char cs" by (rule strip_padding [OF p])
  finally show ?thesis by (simp only: cs_def ns_def)
qed

lemma base64url_not_space: "c \<in> set (uint8ToBase64url bs) \<Longrightarrow> \<not> is_space c"
  using url_table sixes_small [OF bytes_small [of bs]] by (auto simp: uint8ToBase64url_sixes)

lemma base64url_round_trip: "base64urlToUint8 (uint8ToBase64url bs) = Some bs"
proof -
  define ns where "ns = map unat bs"
  define cs where "cs = map b64_char (sixes ns)"
  have ns: "\<forall>n \<in> set ns. n < 256" unfolding ns_def by (rule bytes_small)
  have un: "map unurl_char (uint8ToBase64url bs) = cs"
    using url_table sixes_small [OF ns] by (simp add: uint8ToBase64url_sixes cs_def ns_def)
  have "map_option (map (\<lambda>c. of_nat (of_char c) :: 8 word)) (atob (cs @ replicate ((4 - length cs mod 4) mod 4) (CHR ''=''))) = Some bs"
    using ns by (simp add: atob_sixes [OF ns cs_def] ns_def of_char_of_small map_idI)
  then show ?thesis unfolding base64urlToUint8_def Let_def un .
qed

interpretation b64url: codec uint8ToBase64url base64urlToUint8 "\<lambda>_. True"
  by unfold_locales (rule base64url_round_trip)

end
