(* ===== verification/QrCode.thy ===== *)
theory QrCode
  imports ScoutReaders JsonText ByteCodecs
begin

text \<open>
  QR codes that carry a report or the key of a scouting room, \<open>src/ScoutingApp/src/pages/qrUtils.ts\<close>,
  and what the import dialog of \<open>pages/QrShareModals.tsx\<close> does with a scanned text.  The browser's
  deflate streams are parameters (\<open>None\<close> where the browser has none; a decompressor may throw), and
  so is the parser of URLs, which gives the query parameters and the path.  Texts are texts here:
  \<open>JSON.stringify\<close>, \<open>JSON.parse\<close>, UTF-8 and base64 are those of \<open>JsonText\<close> and \<open>ByteCodecs\<close>.
  A text that leads out of the code units 0 to 255 has the result \<open>Outside\<close>, about which the model
  says nothing.
\<close>

datatype 'a outcome = Outside | Outcome 'a

record qr_env =
  qr_compress :: "(bytes \<Rightarrow> bytes) option"
  qr_decompress :: "(bytes \<Rightarrow> bytes option) option"
  qr_nstr :: "real \<Rightarrow> string"
  qr_url :: "string \<Rightarrow> ((string \<times> string) list \<times> string) option"

section \<open>Compact reports\<close>

definition FORM_KEYS :: "string list" where
  "FORM_KEYS = [''auto_mobility'', ''auto_scored'', ''auto_missed'', ''auto_pickups'', ''auto_cycles'',
     ''auto_path_quality_1_5'', ''teleop_scored'', ''teleop_missed'', ''teleop_under_defense_scored'',
     ''teleop_under_defense_attempts'', ''teleop_cycles'', ''teleop_drops'', ''intake_failures'',
     ''foul_count'', ''offense_level_1_5'', ''defense_level_1_5'', ''field_awareness_1_5'',
     ''decision_quality_1_5'', ''communication_1_5'', ''anti_defense_level_1_5'', ''escape_level_1_5'',
     ''reroute_level_1_5'', ''hit_recovery_level_1_5'', ''bump_crosses'', ''trench_crosses'',
     ''climbed_under_pressure'', ''protected_zone_risk'', ''endgame_mode'']"

definition packForm :: "scout_form \<Rightarrow> jsval list" where
  "packForm form = map (jget (form_raw form)) FORM_KEYS"

text \<open>\<open>values.length\<close> and \<open>values[i]\<close> on whatever was parsed: \<open>None\<close> where reading a property throws.\<close>

definition below_length :: "(real \<Rightarrow> string) \<Rightarrow> nat \<Rightarrow> jsval \<Rightarrow> bool" where
  "below_length nstr i values = (case values of JArr vs \<Rightarrow> i < length vs | JStr s \<Rightarrow> i < length s
     | JObj m \<Rightarrow> (case to_number nstr (jget m ''length'') of Fin x \<Rightarrow> real i < x | PosInf \<Rightarrow> True | _ \<Rightarrow> False)
     | _ \<Rightarrow> False)"

definition value_at :: "jsval \<Rightarrow> nat \<Rightarrow> jsval" where
  "value_at values i = (case values of JArr vs \<Rightarrow> vs ! i | JStr s \<Rightarrow> JStr [s ! i]
     | JObj m \<Rightarrow> jget m (digits_of i) | _ \<Rightarrow> JUndef)"

definition unpackForm :: "(real \<Rightarrow> string) \<Rightarrow> jsval \<Rightarrow> (string \<times> jsval) list option" where
  "unpackForm nstr values = (if values = JUndef \<or> values = JNull then None
     else Some (map (\<lambda>i. (FORM_KEYS ! i, value_at values i))
       (takeWhile (\<lambda>i. below_length nstr i values) [0..<length FORM_KEYS])))"

definition entryToCompact :: "saved_entry \<Rightarrow> (string \<times> jsval) list" where
  "entryToCompact e =
     [(''v'', num_raw 1), (''t'', num_raw (of_int (e_saved_at_ms e))), (''sp'', JStr (e_scout_profile e)),
      (''m'', JStr (case e_mode e of SM_match \<Rightarrow> ''match'' | SM_rapid \<Rightarrow> ''rapid'')),
      (''ek'', JStr (e_event_key e)), (''mk'', JStr (e_match_key e)), (''md'', JStr (e_match_display e)),
      (''tk'', JStr (e_team_key e)), (''tl'', JStr (e_team_label e)),
      (''al'', JStr (case e_alliance e of Red \<Rightarrow> ''red'' | Blue \<Rightarrow> ''blue'')),
      (''st'', opt_str_raw (e_station e)), (''f'', JArr (packForm (e_form e))), (''rp'', num_raw 0),
      (''n'', JStr (e_notes e))]"

definition compactToRaw :: "(real \<Rightarrow> string) \<Rightarrow> (string \<times> jsval) list \<Rightarrow> (string \<times> jsval) list option" where
  "compactToRaw nstr c = (case unpackForm nstr (jget c ''f'') of None \<Rightarrow> None
     | Some form \<Rightarrow> Some
        [(''saved_at_ms'', jget c ''t''), (''scout_profile'', jget c ''sp''), (''mode'', jget c ''m''),
         (''event_key'', jget c ''ek''), (''match_key'', jget c ''mk''), (''match_display'', jget c ''md''),
         (''team_key'', jget c ''tk''), (''team_label'', jget c ''tl''), (''alliance'', jget c ''al''),
         (''station'', jget c ''st''), (''form'', JObj form), (''notes'', jget c ''n'')])"

section \<open>Codes of reports\<close>

definition QR_PREFIX :: string where "QR_PREFIX = ''FRCMOB1:''"

definition ROOM_QR_PREFIX :: string where "ROOM_QR_PREFIX = ''FRCROOM1:''"

definition compressBytes :: "qr_env \<Rightarrow> bytes \<Rightarrow> bytes" where
  "compressBytes env data = (case qr_compress env of None \<Rightarrow> data | Some f \<Rightarrow> f data)"

definition decompressBytes :: "qr_env \<Rightarrow> bytes \<Rightarrow> bytes option" where
  "decompressBytes env data = (case qr_decompress env of None \<Rightarrow> Some data | Some f \<Rightarrow> f data)"

definition encodeEntryForQr :: "qr_env \<Rightarrow> saved_entry \<Rightarrow> string" where
  "encodeEntryForQr env entry =
     QR_PREFIX @ uint8ToBase64url (compressBytes env
       (utf8_encode (json_text (qr_nstr env) (JObj (entryToCompact entry)))))"

text \<open>\<open>compact.v !== 1\<close> throws on \<open>null\<close>; no value but an object has a property \<open>v\<close>.\<close>

definition decodeEntryFromQr :: "qr_env \<Rightarrow> string \<Rightarrow> (string \<times> jsval) list option outcome" where
  "decodeEntryFromQr env qrString =
     (let str = js_trim qrString
      in if \<not> starts_with str QR_PREFIX then Outcome None
         else (case base64urlToUint8 (drop (length QR_PREFIX) str) of None \<Rightarrow> Outcome None
           | Some compressed \<Rightarrow> (case decompressBytes env compressed of None \<Rightarrow> Outcome None
             | Some raw \<Rightarrow> (case utf8_decode raw of None \<Rightarrow> Outside
               | Some jsonStr \<Rightarrow> (case json_read jsonStr of Inl f \<Rightarrow> if f = Beyond then Outside else Outcome None
                 | Inr parsed \<Rightarrow> (case parsed of
                     JObj c \<Rightarrow> if jget c ''v'' \<noteq> num_raw 1 then Outcome None
                       else Outcome (compactToRaw (qr_nstr env) c)
                   | _ \<Rightarrow> Outcome None))))))"

definition isQrEntryString :: "string \<Rightarrow> bool" where
  "isQrEntryString str = starts_with (js_trim str) QR_PREFIX"

section \<open>Codes of rooms\<close>

definition normalizeRoomKeyToken :: "string \<Rightarrow> string" where
  "normalizeRoomKeyToken raw = take 48 (replace_runs (\<lambda>c. \<not> room_char c) [] (js_lower (js_trim raw)))"

text \<open>The class \<open>[a-z0-9_-]\<close> under the flag \<open>i\<close>.\<close>

definition room_char_any :: "char \<Rightarrow> bool" where
  "room_char_any c \<longleftrightarrow> room_char c \<or> is_upper_alpha c"

definition roomKeyFromCandidate :: "(real \<Rightarrow> string) \<Rightarrow> jsval \<Rightarrow> string option" where
  "roomKeyFromCandidate nstr value =
     (let raw = js_trim (js_string nstr (js_nullish value (JStr [])))
      in if raw \<noteq> [] \<and> length raw \<le> 48 \<and> (\<forall>c \<in> set raw. room_char_any c)
         then some_str (normalizeRoomKeyToken raw) else None)"

definition encodeRoomKeyForQr :: "(real \<Rightarrow> string) \<Rightarrow> string \<Rightarrow> string" where
  "encodeRoomKeyForQr nstr roomKey = (case roomKeyFromCandidate nstr (JStr roomKey) of
     None \<Rightarrow> [] | Some normalized \<Rightarrow> ROOM_QR_PREFIX @ normalized)"

text \<open>\<open>pathname.match(/\/scouting\/rooms\/([a-z0-9_-]{1,48})(?:\/|$)/i)\<close>, leftmost match first.\<close>

fun room_in_path :: "string \<Rightarrow> string option" where
  "room_in_path [] = None"
| "room_in_path (c # cs) =
     (let here = drop 16 (c # cs); run = takeWhile room_char_any here; rest = dropWhile room_char_any here
      in if js_lower (take 16 (c # cs)) = ''/scouting/rooms/'' \<and> 1 \<le> length run \<and> length run \<le> 48 \<and>
            (rest = [] \<or> hd rest = CHR ''/'')
         then Some run else room_in_path cs)"

definition url_param :: "(string \<times> string) list \<Rightarrow> string \<Rightarrow> jsval" where
  "url_param params name = (case map_of params name of None \<Rightarrow> JNull | Some v \<Rightarrow> JStr v)"

definition room_from_json :: "(real \<Rightarrow> string) \<Rightarrow> string \<Rightarrow> string option outcome" where
  "room_from_json nstr raw =
     (if starts_with raw ''{'' \<and> last raw = CHR ''}'' then
        (case json_read raw of
           Inl f \<Rightarrow> if f = Beyond then Outside else Outcome None
         | Inr (JObj row) \<Rightarrow> Outcome (roomKeyFromCandidate nstr
             (js_nullish (jget row ''room_key'') (js_nullish (jget row ''roomKey'')
               (js_nullish (jget row ''scouting_room_key'') (js_nullish (jget row ''scoutingRoomKey'')
                 (jget row ''room''))))))
         | Inr _ \<Rightarrow> Outcome None)
      else Outcome None)"

definition room_from_url :: "qr_env \<Rightarrow> string \<Rightarrow> string option" where
  "room_from_url env raw = (case qr_url env raw of None \<Rightarrow> None
     | Some (params, pathname) \<Rightarrow>
        (case roomKeyFromCandidate (qr_nstr env) (js_or (js_or (url_param params ''room_key'')
            (url_param params ''room'')) (url_param params ''rk'')) of
           Some k \<Rightarrow> Some k
         | None \<Rightarrow> (case room_in_path pathname of None \<Rightarrow> None
             | Some m \<Rightarrow> roomKeyFromCandidate (qr_nstr env) (JStr m))))"

definition parseRoomKeyFromQr :: "qr_env \<Rightarrow> string \<Rightarrow> string option outcome" where
  "parseRoomKeyFromQr env text =
     (let raw = js_trim text
      in if raw = [] \<or> isQrEntryString raw then Outcome None
         else if starts_with (js_upper raw) ROOM_QR_PREFIX
         then Outcome (roomKeyFromCandidate (qr_nstr env) (JStr (drop (length ROOM_QR_PREFIX) raw)))
         else (case roomKeyFromCandidate (qr_nstr env) (JStr raw) of
             Some direct \<Rightarrow> Outcome (Some direct)
           | None \<Rightarrow> (case room_from_json (qr_nstr env) raw of
               Outside \<Rightarrow> Outside
             | Outcome (Some k) \<Rightarrow> Outcome (Some k)
             | Outcome None \<Rightarrow> Outcome (room_from_url env raw))))"

section \<open>Importing\<close>

datatype scan = ScanError string | ScanImport saved_entry string | ScanJoin string

definition natural_key :: "saved_entry \<Rightarrow> string" where
  "natural_key e = e_match_key e @ ''__'' @ e_team_key e @ ''__'' @ e_scout_profile e"

definition dot_between :: string where
  "dot_between = [CHR '' '', CHR 0xB7, CHR '' '']"

definition processQrString :: "qr_env \<Rightarrow> js_env \<Rightarrow> string list \<Rightarrow> bool \<Rightarrow> string \<Rightarrow> scan outcome" where
  "processQrString qr env existingIds hasRoomJoin text =
     (if isQrEntryString text then
        (case decodeEntryFromQr qr text of Outside \<Rightarrow> Outside
         | Outcome None \<Rightarrow> Outcome (ScanError ''Failed to decode entry data. The QR code may be corrupted.'')
         | Outcome (Some raw) \<Rightarrow> (case normalizeEntry env (JObj raw) of
             None \<Rightarrow> Outcome (ScanError ''Decoded data is not a valid scouting entry.'')
           | Some entry \<Rightarrow> Outcome
              (if natural_key entry \<in> set existingIds
               then ScanError (''Entry for '' @ e_team_label entry @ '' in '' @ e_match_display entry @
                 '' by '' @ e_scout_profile entry @ '' already exists.'')
               else ScanImport entry (''Imported: '' @ e_team_label entry @ dot_between @
                 e_match_display entry @ dot_between @ e_scout_profile entry))))
      else if hasRoomJoin then
        (case parseRoomKeyFromQr qr text of Outside \<Rightarrow> Outside
         | Outcome None \<Rightarrow> Outcome (ScanError ''Not a valid scouting entry or scouting room QR code.'')
         | Outcome (Some roomKey) \<Rightarrow> Outcome (ScanJoin roomKey))
      else Outcome (ScanError ''Not a valid FRCMOB scouting entry QR code.''))"


section \<open>The round trip of a report\<close>

lemma packForm_raw: "packForm f = map snd (form_raw f)"
  by (simp add: packForm_def FORM_KEYS_def form_raw_def)

lemma FORM_KEYS_raw: "FORM_KEYS = map fst (form_raw f)"
  by (simp add: FORM_KEYS_def form_raw_def)

lemma unpack_pack: "unpackForm nstr (JArr (packForm f)) = Some (form_raw f)"
proof -
  have t: "takeWhile (\<lambda>i. i < length (form_raw f)) [0..<length (form_raw f)] = [0..<length (form_raw f)]"
    by (simp add: takeWhile_eq_all_conv)
  have "map (\<lambda>i. (map fst xs ! i, map snd xs ! i)) [0..<length xs] = xs" for xs :: "(string \<times> jsval) list"
    by (rule nth_equalityI) auto
  then show ?thesis
    by (simp add: unpackForm_def below_length_def value_at_def packForm_raw FORM_KEYS_raw [of f] t del: nth_map)
qed

interpretation qr_json: codec "json_text nstr" "\<lambda>t. case json_read t of Inl f \<Rightarrow> None | Inr v \<Rightarrow> Some v" json_plain
  for nstr by unfold_locales (simp add: json_read_text)

lemma code_trimmed: "trimmed (encodeEntryForQr env e)"
proof -
  have "\<not> is_space (last (QR_PREFIX @ uint8ToBase64url bs))" for bs
    using base64url_not_space [of "last (uint8ToBase64url bs)" bs]
    by (cases "uint8ToBase64url bs = []") (simp_all add: QR_PREFIX_def is_space_def)
  then show ?thesis by (simp add: encodeEntryForQr_def trimmed_def) (simp add: QR_PREFIX_def is_space_def)
qed

lemma decode_encode:
  assumes "\<And>b. decompressBytes r (compressBytes s b) = Some b"
    and "json_plain (JObj (entryToCompact e))"
  shows "decodeEntryFromQr r (encodeEntryForQr s e) = Outcome (compactToRaw (qr_nstr r) (entryToCompact e))"
proof -
  have j: "json_read (json_text (qr_nstr s) (JObj (entryToCompact e))) = Inr (JObj (entryToCompact e))"
    by (rule json_read_text [OF assms(2)])
  have v: "jget (entryToCompact e) ''v'' = num_raw 1" by (simp add: entryToCompact_def)
  show ?thesis
    by (simp add: decodeEntryFromQr_def trim_idle [OF code_trimmed] Let_def)
      (simp add: encodeEntryForQr_def assms(1) base64url_round_trip utf8.dec_enc j v del: json_text.simps)
qed


text \<open>What a code leaves out of a report, and what the reader puts in its place.\<close>

definition rebuilt :: "js_env \<Rightarrow> saved_entry \<Rightarrow> saved_entry" where
  "rebuilt env e =
     (let f = e_form e; points = pointsFromForm f; driver = driverCompetency f;
          manual = manualScoutingRating f driver
      in e\<lparr>e_id := int_str (env_now env) @ ''-'' @ env_random env, e_room_key := None, e_points := points,
           e_driver := driver, e_manual := manual, e_overall := overallScoutRating points manual driver,
           e_api_rating := None, e_api_snapshot := None, e_tags := [], e_source := Manual,
           e_auto_meta := None, e_overrides := None, e_server_synced := False\<rparr>)"

lemma compact_fields:
  "jget (entryToCompact e) ''t'' = num_raw (of_int (e_saved_at_ms e))"
  "jget (entryToCompact e) ''sp'' = JStr (e_scout_profile e)"
  "jget (entryToCompact e) ''m'' = JStr (case e_mode e of SM_match \<Rightarrow> ''match'' | SM_rapid \<Rightarrow> ''rapid'')"
  "jget (entryToCompact e) ''ek'' = JStr (e_event_key e)" "jget (entryToCompact e) ''mk'' = JStr (e_match_key e)"
  "jget (entryToCompact e) ''md'' = JStr (e_match_display e)" "jget (entryToCompact e) ''tk'' = JStr (e_team_key e)"
  "jget (entryToCompact e) ''tl'' = JStr (e_team_label e)"
  "jget (entryToCompact e) ''al'' = JStr (case e_alliance e of Red \<Rightarrow> ''red'' | Blue \<Rightarrow> ''blue'')"
  "jget (entryToCompact e) ''st'' = opt_str_raw (e_station e)"
  "jget (entryToCompact e) ''f'' = JArr (packForm (e_form e))" "jget (entryToCompact e) ''n'' = JStr (e_notes e)"
  by (simp_all add: entryToCompact_def)

lemma read_compact:
  assumes "keys_wf e" and "texts_wf e" and "wf_form (e_form e)"
  shows "\<exists>raw. compactToRaw nstr (entryToCompact e) = Some raw \<and> normalizeEntry env (JObj raw) = Some (rebuilt env e)"
proof -
  obtain raw where raw: "compactToRaw nstr (entryToCompact e) = Some raw"
    and get: "jget raw ''saved_at_ms'' = num_raw (of_int (e_saved_at_ms e))"
      "jget raw ''scout_profile'' = JStr (e_scout_profile e)"
      "jget raw ''mode'' = JStr (case e_mode e of SM_match \<Rightarrow> ''match'' | SM_rapid \<Rightarrow> ''rapid'')"
      "jget raw ''event_key'' = JStr (e_event_key e)" "jget raw ''match_key'' = JStr (e_match_key e)"
      "jget raw ''match_display'' = JStr (e_match_display e)" "jget raw ''team_key'' = JStr (e_team_key e)"
      "jget raw ''team_label'' = JStr (e_team_label e)"
      "jget raw ''alliance'' = JStr (case e_alliance e of Red \<Rightarrow> ''red'' | Blue \<Rightarrow> ''blue'')"
      "jget raw ''station'' = opt_str_raw (e_station e)" "jget raw ''form'' = JObj (form_raw (e_form e))"
      "jget raw ''notes'' = JStr (e_notes e)"
      "jget raw ''id'' = JUndef" "jget raw ''room_key'' = JUndef" "jget raw ''points'' = JUndef"
      "jget raw ''driver_competency'' = JUndef" "jget raw ''manual_rating'' = JUndef"
      "jget raw ''overall_scout_rating'' = JUndef" "jget raw ''scouting_api_rating'' = JUndef"
      "jget raw ''api_snapshot'' = JUndef" "jget raw ''tags'' = JUndef" "jget raw ''entry_source'' = JUndef"
      "jget raw ''auto_scout_meta'' = JUndef" "jget raw ''field_overrides'' = JUndef"
      "jget raw ''server_synced'' = JUndef"
    by (simp add: compactToRaw_def compact_fields unpack_pack)
  have n: "str_of JUndef = None" "normalizeNoteTags n JUndef = []" "source_of JUndef = Manual"
    "normalizePoints None f = pointsFromForm f" for n f
    by (simp_all add: str_of_def normalizeNoteTags_def source_of_def normalizePoints_def jget_opt_def Let_def)
  have "normalizeEntry env (JObj raw) = Some (rebuilt env e)"
    using assms
    by (simp add: normalizeEntry_def Let_def get n reader_simps keys_wf_def texts_wf_def rebuilt_def
        normalizeEventKeyInput_def normalizeForm_raw normalizeDriver_def normalizeManualRating_def
        normalizeOverallScoutRating_def normalizeScoutingApiRating_def normalizeApiSnapshot_def
        normalizeAutoScoutMeta_def normalizeFieldOverrides_def)
  with raw show ?thesis by blast
qed

lemma scan_report:
  assumes "\<And>b. decompressBytes r (compressBytes s b) = Some b" and "json_plain (JObj (entryToCompact e))"
    and "keys_wf e" and "texts_wf e" and "wf_form (e_form e)"
  shows "processQrString r env existing rooms (encodeEntryForQr s e) = Outcome
    (if natural_key e \<in> set existing
     then ScanError (''Entry for '' @ e_team_label e @ '' in '' @ e_match_display e @ '' by '' @
       e_scout_profile e @ '' already exists.'')
     else ScanImport (rebuilt env e) (''Imported: '' @ e_team_label e @ dot_between @ e_match_display e @
       dot_between @ e_scout_profile e))"
proof -
  have q: "isQrEntryString (encodeEntryForQr s e)"
    by (simp add: isQrEntryString_def trim_idle [OF code_trimmed]) (simp add: encodeEntryForQr_def)
  obtain raw where "compactToRaw (qr_nstr r) (entryToCompact e) = Some raw"
      "normalizeEntry env (JObj raw) = Some (rebuilt env e)"
    using read_compact [OF assms(3-5)] by blast
  moreover have "natural_key (rebuilt env e) = natural_key e" "e_team_label (rebuilt env e) = e_team_label e"
    "e_match_display (rebuilt env e) = e_match_display e" "e_scout_profile (rebuilt env e) = e_scout_profile e"
    by (simp_all add: rebuilt_def natural_key_def Let_def)
  ultimately show ?thesis by (simp add: processQrString_def q decode_encode [OF assms(1,2)])
qed

section \<open>Room keys\<close>

lemma candidate_result:
  assumes "roomKeyFromCandidate nstr v = Some k"
  shows "k \<noteq> [] \<and> length k \<le> 48 \<and> (\<forall>c \<in> set k. room_char c) \<and> normalizeRoomKey k = k"
proof -
  have "k \<noteq> [] \<and> (\<exists>raw. k = normalizeRoomKey raw)"
    using assms by (auto simp: roomKeyFromCandidate_def Let_def some_str_def normalizeRoomKeyToken_def
        normalizeRoomKey_def split: if_splits)
  then show ?thesis using normalizeRoomKey_length normalizeRoomKey_chars by auto
qed

lemma lower_room_char: "room_char_any c \<Longrightarrow> room_char (lower_char c)"
  by (auto simp: room_char_any_def room_char_lower) (auto simp: lower_char_def room_char_def is_upper_alpha_def is_lower_alpha_def Let_def of_char_of_small)

lemma candidate_str:
  "roomKeyFromCandidate nstr (JStr s) =
     (if js_trim s \<noteq> [] \<and> length (js_trim s) \<le> 48 \<and> (\<forall>c \<in> set (js_trim s). room_char_any c)
      then Some (js_lower (js_trim s)) else None)"
proof (cases "js_trim s \<noteq> [] \<and> length (js_trim s) \<le> 48 \<and> (\<forall>c \<in> set (js_trim s). room_char_any c)")
  case True
  then have "\<forall>c \<in> set (js_lower (js_trim s)). room_char c" by (auto simp: js_lower_def lower_room_char)
  then have "normalizeRoomKeyToken (js_trim s) = js_lower (js_trim s)"
    using True by (simp add: normalizeRoomKeyToken_def replace_runs_Nil filter_True)
  with True show ?thesis by (simp add: roomKeyFromCandidate_def js_nullish_def some_str_def)
qed (auto simp: roomKeyFromCandidate_def js_nullish_def Let_def)

lemma parse_encode_room:
  "parseRoomKeyFromQr env (encodeRoomKeyForQr (qr_nstr env) key) = Outcome (roomKeyFromCandidate (qr_nstr env) (JStr key))"
proof (cases "roomKeyFromCandidate (qr_nstr env) (JStr key)")
  case None
  then show ?thesis by (simp add: encodeRoomKeyForQr_def parseRoomKeyFromQr_def)
next
  case (Some k)
  note k = candidate_result [OF Some]
  have code: "encodeRoomKeyForQr (qr_nstr env) key = ROOM_QR_PREFIX @ k" by (simp add: encodeRoomKeyForQr_def Some)
  have "trimmed (ROOM_QR_PREFIX @ k)"
    using k room_char_not_space [of "last k"] by (simp add: trimmed_def) (simp add: ROOM_QR_PREFIX_def is_space_def)
  then have t: "js_trim (ROOM_QR_PREFIX @ k) = ROOM_QR_PREFIX @ k" by (rule trim_idle)
  have tk: "js_trim k = k" using k by (intro trim_idle) (auto simp: trimmed_def room_char_not_space)
  have u: "starts_with (js_upper (ROOM_QR_PREFIX @ k)) ROOM_QR_PREFIX"
  proof -
    have "js_upper ROOM_QR_PREFIX = ROOM_QR_PREFIX" by code_simp
    then show ?thesis by (simp add: js_upper_def)
  qed
  have "\<not> isQrEntryString (ROOM_QR_PREFIX @ k)"
    by (simp add: isQrEntryString_def t) (simp add: starts_with_def QR_PREFIX_def ROOM_QR_PREFIX_def)
  moreover have "roomKeyFromCandidate (qr_nstr env) (JStr k) = Some k"
    using k tk by (simp add: candidate_str js_lower_def room_char_any_def map_idI room_char_lower)
  moreover have "ROOM_QR_PREFIX @ k \<noteq> []" by (simp add: ROOM_QR_PREFIX_def)
  ultimately show ?thesis by (simp add: code parseRoomKeyFromQr_def t u Some Let_def)
qed

lemma room_from_json_candidate:
  "room_from_json nstr raw = Outcome (Some k) \<Longrightarrow> \<exists>v. roomKeyFromCandidate nstr v = Some k"
  by (auto simp: room_from_json_def split: if_splits sum.splits jsval.splits)

lemma room_from_url_candidate:
  "room_from_url env raw = Some k \<Longrightarrow> \<exists>v. roomKeyFromCandidate (qr_nstr env) v = Some k"
  by (auto simp: room_from_url_def split: option.splits prod.splits)

lemma parsed_room:
  assumes "parseRoomKeyFromQr env text = Outcome (Some k)"
  shows "(\<exists>v. roomKeyFromCandidate (qr_nstr env) v = Some k) \<and> \<not> isQrEntryString text"
proof -
  have "js_trim text \<noteq> [] \<and> \<not> isQrEntryString (js_trim text)"
    using assms by (auto simp: parseRoomKeyFromQr_def Let_def split: if_splits)
  moreover have "\<exists>v. roomKeyFromCandidate (qr_nstr env) v = Some k"
    using assms room_from_json_candidate [of "qr_nstr env" "js_trim text" k] room_from_url_candidate [of env "js_trim text" k]
    by (fastforce simp: parseRoomKeyFromQr_def Let_def split: if_splits option.splits outcome.splits)
  ultimately show ?thesis by (simp add: isQrEntryString_def)
qed

section \<open>Properties\<close>

definition plain_browser :: qr_env where
  "plain_browser = \<lparr>qr_compress = None, qr_decompress = None, qr_nstr = (\<lambda>_. []), qr_url = (\<lambda>_. None)\<rparr>"

definition js_env_7 :: js_env where
  "js_env_7 = \<lparr>env_now = 7, env_random = ''x'', env_nstr = (\<lambda>_. [])\<rparr>"

text \<open>Claim C6: a report scanned from another phone's code is the report: the same form, notes, match,
  team, alliance, station, scout and time, with the points and ratings the app computes from that
  form and a new id.  It is imported unless the list already has a report of the same match, team and
  scout.  (Its room, its quick tags, its official rating and its link to an automatic draft are not
  part of a code.)  The browsers need only undo each other's compression.\<close>

theorem scanned_report_is_the_report:
  assumes "\<And>b. decompressBytes r (compressBytes s b) = Some b" and "json_plain (JObj (entryToCompact e))"
    and "keys_wf e" and "texts_wf e" and "wf_form (e_form e)"
  shows "processQrString r env existing rooms (encodeEntryForQr s e) = Outcome
    (if natural_key e \<in> set existing
     then ScanError (''Entry for '' @ e_team_label e @ '' in '' @ e_match_display e @ '' by '' @
       e_scout_profile e @ '' already exists.'')
     else ScanImport (rebuilt env e) (''Imported: '' @ e_team_label e @ dot_between @ e_match_display e @
       dot_between @ e_scout_profile e))"
  by (rule scan_report [OF assms])

lemma scanned_report_is_the_report_witness:
  "\<exists>note. processQrString plain_browser js_env_7 [] False
      (encodeEntryForQr plain_browser (buildSavedScoutingEntry js_env_7 example_payload))
    = Outcome (ScanImport (rebuilt js_env_7 (buildSavedScoutingEntry js_env_7 example_payload)) note)"
proof -
  let ?e = "buildSavedScoutingEntry js_env_7 example_payload"
  have wf: "entry_wf ?e" by (rule built_entry_wf [OF example_payload_ok])
  have d: "decompressBytes plain_browser (compressBytes plain_browser b) = Some b" for b
    by (simp add: decompressBytes_def compressBytes_def plain_browser_def)
  have "e_form ?e = EMPTY_FORM\<lparr>teleop_scored := 12, offense_level_1_5 := Some 4\<rparr>"
    by (simp add: buildSavedScoutingEntry_def example_payload_def Let_def normalizeForm_raw wf_form_def EMPTY_FORM_def level_ok_def)
  then have f: "\<forall>v \<in> set (packForm (e_form ?e)). json_plain v"
    by (simp add: packForm_raw form_raw_def EMPTY_FORM_def level_raw_def)
  have "\<bar>real_of_int (e_saved_at_ms ?e)\<bar> < 10 ^ 21"
    by (simp add: buildSavedScoutingEntry_def example_payload_def Let_def)
  then have "json_plain (JObj (entryToCompact ?e))"
    using f by (simp add: entryToCompact_def num_raw_def opt_str_raw_def split: option.split)
  from scanned_report_is_the_report [OF d this] wf show ?thesis by (simp add: entry_wf_def)
qed

text \<open>a room key shared as a code is joined as the same room: the reader gives the trimmed
  key in lower case, and nothing for a key that is empty, longer than 48 or has other characters.\<close>

theorem room_code_round_trip:
  "parseRoomKeyFromQr env (encodeRoomKeyForQr (qr_nstr env) key) = Outcome
     (if js_trim key \<noteq> [] \<and> length (js_trim key) \<le> 48 \<and> (\<forall>c \<in> set (js_trim key). room_char_any c)
      then Some (js_lower (js_trim key)) else None)"
  unfolding parse_encode_room candidate_str ..

lemma room_code_round_trip_witness:
  "parseRoomKeyFromQr plain_browser (encodeRoomKeyForQr (qr_nstr plain_browser) ''Room 7'') = Outcome None"
proof -
  have "\<not> list_all room_char_any (js_trim ''Room 7'')" by code_simp
  then show ?thesis using room_code_round_trip [of plain_browser "''Room 7''"] by (auto simp: list_all_iff)
qed

text \<open>whatever is scanned, and whatever the URL parser makes of it, a room key read from it
  is one the app itself would make: not empty, at most 48 of the characters a-z, 0-9, dash and
  underscore, and unchanged by \<open>normalizeRoomKey\<close>; and the code of a report is never one.\<close>

theorem scanned_room_key_is_normal:
  assumes "parseRoomKeyFromQr env text = Outcome (Some k)"
  shows "k \<noteq> [] \<and> length k \<le> 48 \<and> (\<forall>c \<in> set k. room_char c) \<and> normalizeRoomKey k = k \<and> \<not> isQrEntryString text"
  using parsed_room [OF assms] candidate_result by blast

lemma scanned_room_key_is_normal_witness:
  "normalizeRoomKey ''room-7'' = ''room-7''"
proof -
  have "parseRoomKeyFromQr plain_browser ''FRCROOM1:Room-7'' = Outcome (Some ''room-7'')" by code_simp
  from scanned_room_key_is_normal [OF this] show ?thesis by blast
qed

section \<open>What modelling showed\<close>

text \<open>A browser without \<open>CompressionStream\<close> writes a code that a browser with \<open>DecompressionStream\<close>
  cannot read, and the other way round: nothing in the code says whether it is compressed.\<close>

lemma mixed_browsers_fail:
  assumes "qr_compress s = None" and "qr_decompress r = Some f"
    and "f (utf8_encode (json_text (qr_nstr s) (JObj (entryToCompact e)))) = None"
  shows "decodeEntryFromQr r (encodeEntryForQr s e) = Outcome None"
  by (simp add: decodeEntryFromQr_def trim_idle [OF code_trimmed] Let_def)
    (simp add: encodeEntryForQr_def compressBytes_def decompressBytes_def assms base64url_round_trip del: json_text.simps)

end
