(* ===== verification/PicklistDraft.thy ===== *)
theory PicklistDraft
  imports MatchInfo
begin

text \<open>
  Alliance selection on a picklist, \<open>src/ScoutingApp/src/features/picklists/draft.ts\<close> and
  \<open>rankMove.ts\<close>.  The board keeps no state of its own: \<open>draftFromSlots\<close> reads it from the slots of the
  list, and every operation returns new slots.  After the definitions the board is described without
  its loops (\<open>captain_of\<close>, \<open>picks_of\<close>, the first open seat), and the operations by what they do to
  that description; the serpentine order of a whole selection follows.
\<close>

section \<open>Data\<close>

datatype slot_tier = TierFirst | TierSecond | TierDnp

datatype slot_status = SlotAvailable | SlotPicked | SlotDeclined | SlotCaptain

record picklist_slot =
  ps_team :: string
  ps_tier :: slot_tier
  ps_status :: slot_status
  ps_by :: "int option"
  ps_dnp_reason :: string
  ps_notes :: string

definition ALLIANCE_COUNT :: nat where "ALLIANCE_COUNT = 8"

definition PICK_ORDER :: "nat list" where
  "PICK_ORDER = map (\<lambda>i. i + 1) [0..<ALLIANCE_COUNT] @ map (\<lambda>i. ALLIANCE_COUNT - i) [0..<ALLIANCE_COUNT]"

record draft_alliance =
  al_number :: nat
  al_captain :: "string option"
  al_picks :: "string list"

record draft_state =
  ds_alliances :: "draft_alliance list"
  ds_picksMade :: nat
  ds_onClock :: "(nat \<times> nat) option"
  ds_taken :: "string set"
  ds_refused :: "string set"
  ds_hasCaptains :: bool

text \<open>A captain counts when the property is neither null nor the empty string.\<close>

definition has_captain :: "draft_alliance \<Rightarrow> bool" where
  "has_captain a \<longleftrightarrow> opt_str (al_captain a) \<noteq> []"

section \<open>Reading the board\<close>

definition board_slot :: "draft_alliance list \<times> string set \<times> nat \<Rightarrow> picklist_slot \<Rightarrow>
    draft_alliance list \<times> string set \<times> nat" where
  "board_slot board slot = (case board of (alliances, taken, picksMade) \<Rightarrow>
     (case ps_by slot of None \<Rightarrow> board
      | Some number \<Rightarrow>
          if number < 1 \<or> number > int ALLIANCE_COUNT then board
          else (let i = nat (number - 1); alliance = alliances ! i
                in if ps_status slot = SlotCaptain \<and> \<not> has_captain alliance
                   then (alliances[i := alliance\<lparr>al_captain := Some (ps_team slot)\<rparr>],
                     insert (ps_team slot) taken, picksMade)
                   else if ps_status slot = SlotPicked
                   then (alliances[i := alliance\<lparr>al_picks := al_picks alliance @ [ps_team slot]\<rparr>],
                     insert (ps_team slot) taken, picksMade + 1)
                   else board)))"

text \<open>The loop over the pick order; \<open>owed\<close> counts the seats of an alliance passed so far.\<close>

fun clock_from :: "(nat \<Rightarrow> nat) \<Rightarrow> (nat \<Rightarrow> nat) \<Rightarrow> nat \<Rightarrow> nat list \<Rightarrow> (nat \<times> nat) option" where
  "clock_from picks owed i [] = None"
| "clock_from picks owed i (number # rest) =
     (let owed' = owed(number := owed number + 1)
      in if picks number < owed' number then Some (number, if i < ALLIANCE_COUNT then 1 else 2)
         else clock_from picks owed' (i + 1) rest)"

definition draftFromSlots :: "picklist_slot list \<Rightarrow> string set \<Rightarrow> draft_state" where
  "draftFromSlots slots refusedCaptains =
     (let refused = refusedCaptains \<union> ps_team ` {s \<in> set slots. ps_status s = SlotDeclined};
          empty = map (\<lambda>i. \<lparr>al_number = i + 1, al_captain = None, al_picks = []\<rparr>) [0..<ALLIANCE_COUNT]
      in case foldl board_slot (empty, {}, 0) slots of (alliances, taken, picksMade) \<Rightarrow>
        (let hasCaptains = list_all has_captain alliances
         in \<lparr>ds_alliances = alliances, ds_picksMade = picksMade,
             ds_onClock = (if hasCaptains
               then clock_from (\<lambda>n. length (al_picks (alliances ! (n - 1)))) (\<lambda>_. 0) 0 PICK_ORDER else None),
             ds_taken = taken, ds_refused = refused, ds_hasCaptains = hasCaptains\<rparr>))"

section \<open>Rankings\<close>

definition is_team_key :: "string \<Rightarrow> bool" where
  "is_team_key s \<longleftrightarrow> starts_with s ''frc'' \<and> drop 3 s \<noteq> [] \<and> (\<forall>c \<in> set (drop 3 s). is_digit c)"

text \<open>A comparator's result counts by its sign.\<close>

definition sign_of :: "real \<Rightarrow> int" where
  "sign_of x = (if x < 0 then - 1 else if x > 0 then 1 else 0)"

text \<open>\<open>None\<close> where reading a row throws, for a row that is \<open>null\<close>.  A row that is no object has no
  properties and drops out with its empty key.\<close>

definition rankedTeamKeys :: "(real \<Rightarrow> string) \<Rightarrow> (string \<times> jsval) list option \<Rightarrow> string list option" where
  "rankedTeamKeys nstr rankings =
     (let rows = (case jget_opt rankings ''rankings'' of JArr vs \<Rightarrow> vs | _ \<Rightarrow> []);
          named = map (\<lambda>row. (js_lower (js_string nstr (js_nullish (jget_opt (asRecord row) ''team_key'') (JStr []))),
            to_number nstr (jget_opt (asRecord row) ''rank''))) rows
      in if JNull \<in> set rows then None
         else Some (map fst (js_sort (\<lambda>a b. sign_of (snd a - snd b)) (List.map_filter
           (\<lambda>(team, rank). case rank of Fin x \<Rightarrow> if is_team_key team then Some (team, x) else None | _ \<Rightarrow> None)
           named))))"

definition standingsFromForecast :: "(string \<times> real option) list option \<Rightarrow> string list" where
  "standingsFromForecast teams = map (\<lambda>row. js_lower (fst row))
     (js_sort (\<lambda>a b. sign_of (nullish (snd a) 0 - nullish (snd b) 0))
       (filter (\<lambda>row. snd row \<noteq> None) (nullish teams [])))"

section \<open>Operations\<close>

definition blankSlot :: "string \<Rightarrow> picklist_slot" where
  "blankSlot teamKey = \<lparr>ps_team = teamKey, ps_tier = TierSecond, ps_status = SlotAvailable,
     ps_by = None, ps_dnp_reason = [], ps_notes = []\<rparr>"

definition withTeams :: "picklist_slot list \<Rightarrow> string list \<Rightarrow> picklist_slot list" where
  "withTeams slots teamKeys = fold (\<lambda>key slots'. if key \<in> set (map ps_team slots') then slots'
     else slots' @ [blankSlot key]) teamKeys slots"

fun setSlot :: "string \<Rightarrow> (picklist_slot \<Rightarrow> picklist_slot) \<Rightarrow> picklist_slot list \<Rightarrow> picklist_slot list" where
  "setSlot teamKey patch [] = []"
| "setSlot teamKey patch (s # ss) = (if ps_team s = teamKey then patch s # ss else s # setSlot teamKey patch ss)"

definition seedCaptains :: "picklist_slot list \<Rightarrow> string list \<Rightarrow> picklist_slot list" where
  "seedCaptains slots ranked =
     (let captains = take ALLIANCE_COUNT ranked;
          cleared = map (\<lambda>s. if ps_status s = SlotCaptain \<or> ps_status s = SlotPicked
            then s\<lparr>ps_status := SlotAvailable, ps_by := None\<rparr> else s) (withTeams slots captains)
      in fold (\<lambda>(team, i). setSlot team (\<lambda>s. s\<lparr>ps_status := SlotCaptain, ps_by := Some (int i + 1)\<rparr>))
           (zip captains [0..<length captains]) cleared)"

definition isCaptainBelow :: "draft_state \<Rightarrow> string \<Rightarrow> nat \<Rightarrow> bool" where
  "isCaptainBelow state teamKey picker =
     (case find (\<lambda>a. al_captain a = Some teamKey) (ds_alliances state) of
        None \<Rightarrow> False
      | Some a \<Rightarrow> al_number a > picker \<and> map_option snd (ds_onClock state) = Some 1)"

definition canBePicked :: "draft_state \<Rightarrow> string \<Rightarrow> bool" where
  "canBePicked state teamKey = (case ds_onClock state of None \<Rightarrow> False
     | Some (picker, _) \<Rightarrow> if teamKey \<in> ds_refused state then False
         else teamKey \<notin> ds_taken state \<or> isCaptainBelow state teamKey picker)"

definition pickTeam :: "picklist_slot list \<Rightarrow> string \<Rightarrow> string list \<Rightarrow> picklist_slot list" where
  "pickTeam slots teamKey ranked =
     (let state = draftFromSlots slots {}
      in case ds_onClock state of None \<Rightarrow> slots
       | Some (picker, _) \<Rightarrow>
         if \<not> canBePicked state teamKey then slots
         else
           (let leaving = find (\<lambda>a. al_captain a = Some teamKey) (ds_alliances state);
                next1 = setSlot teamKey (\<lambda>s. s\<lparr>ps_status := SlotPicked, ps_by := Some (int picker)\<rparr>)
                  (withTeams slots [teamKey])
            in case leaving of None \<Rightarrow> next1
             | Some gone \<Rightarrow>
                (let next2 = fold (\<lambda>a slots'. if al_number a \<le> al_number gone \<or> \<not> has_captain a then slots'
                       else setSlot (opt_str (al_captain a)) (\<lambda>s. s\<lparr>ps_by := Some (int (al_number a) - 1)\<rparr>) slots')
                       (ds_alliances state) next1
                 in case find (\<lambda>team. team \<notin> ds_taken state) ranked of
                      None \<Rightarrow> next2
                    | Some promoted \<Rightarrow> if promoted = [] then next2
                        else setSlot promoted (\<lambda>s. s\<lparr>ps_status := SlotCaptain, ps_by := Some (int ALLIANCE_COUNT)\<rparr>)
                          (withTeams next2 [promoted]))))"

definition declineTeam :: "picklist_slot list \<Rightarrow> string \<Rightarrow> picklist_slot list" where
  "declineTeam slots teamKey =
     (if list_ex (\<lambda>s. ps_team s = teamKey \<and> ps_status s = SlotCaptain) slots then slots
      else setSlot teamKey (\<lambda>s. s\<lparr>ps_status := SlotDeclined, ps_by := None\<rparr>) (withTeams slots [teamKey]))"

definition bestAvailable :: "picklist_slot list \<Rightarrow> draft_state \<Rightarrow> nat \<Rightarrow> picklist_slot list" where
  "bestAvailable slots state limit = take limit
     (filter (\<lambda>s. ps_tier s \<noteq> TierDnp \<and> ps_status s \<noteq> SlotDeclined \<and> canBePicked state (ps_team s)) slots)"

definition allianceOf :: "draft_state \<Rightarrow> string option \<Rightarrow> draft_alliance option" where
  "allianceOf state teamKey = (if opt_str teamKey = [] then None
     else find (\<lambda>a. al_captain a = teamKey \<or> opt_str teamKey \<in> set (al_picks a)) (ds_alliances state))"

text \<open>\<open>slotIndexForRank\<close>: \<open>seen\<close> and \<open>i\<close> are the loop's variables.\<close>

fun rank_loop :: "slot_tier list \<Rightarrow> int \<Rightarrow> int \<Rightarrow> nat \<Rightarrow> nat option" where
  "rank_loop [] rank seen i = None"
| "rank_loop (t # ts) rank seen i =
     (if t = TierDnp then rank_loop ts rank seen (i + 1)
      else if seen + 1 = rank then Some i else rank_loop ts rank (seen + 1) (i + 1))"

definition slotIndexForRank :: "picklist_slot list \<Rightarrow> int \<Rightarrow> nat" where
  "slotIndexForRank slots rank = (case rank_loop (map ps_tier slots) rank 0 0 of
     Some i \<Rightarrow> i | None \<Rightarrow> length slots - 1)"


section \<open>The board without loops\<close>

definition captain_of :: "picklist_slot list \<Rightarrow> nat \<Rightarrow> string option" where
  "captain_of slots n = map_option ps_team
     (find (\<lambda>s. ps_status s = SlotCaptain \<and> ps_by s = Some (int n)) slots)"

definition picks_of :: "picklist_slot list \<Rightarrow> nat \<Rightarrow> string list" where
  "picks_of slots n = map ps_team (filter (\<lambda>s. ps_status s = SlotPicked \<and> ps_by s = Some (int n)) slots)"

definition seats :: "nat list" where "seats = [1..<Suc ALLIANCE_COUNT]"

definition on_board :: "picklist_slot list \<Rightarrow> string set" where
  "on_board slots = (\<Union>n \<in> set seats. set_option (captain_of slots n) \<union> set (picks_of slots n))"

definition named :: "picklist_slot list \<Rightarrow> bool" where
  "named slots \<longleftrightarrow> (\<forall>s \<in> set slots. ps_team s \<noteq> [])"

definition rows_of :: "picklist_slot list \<Rightarrow> draft_alliance list" where
  "rows_of slots = map (\<lambda>n. \<lparr>al_number = n, al_captain = captain_of slots n, al_picks = picks_of slots n\<rparr>) seats"

lemma seats_nth: "i < ALLIANCE_COUNT \<Longrightarrow> seats ! i = i + 1" and length_seats: "length seats = ALLIANCE_COUNT"
  by (simp_all add: seats_def del: upt_Suc)

lemma set_seats: "n \<in> set seats \<longleftrightarrow> 1 \<le> n \<and> n \<le> ALLIANCE_COUNT"
  by (auto simp: seats_def)

lemma find_snoc: "find P (xs @ [x]) = (case find P xs of None \<Rightarrow> if P x then Some x else None | Some y \<Rightarrow> Some y)"
  by (induction xs) auto

lemma captain_of_snoc: "captain_of (ss @ [s]) n = (case captain_of ss n of Some k \<Rightarrow> Some k
    | None \<Rightarrow> if ps_status s = SlotCaptain \<and> ps_by s = Some (int n) then Some (ps_team s) else None)"
  by (simp add: captain_of_def find_snoc split: option.split)

lemma picks_of_snoc: "picks_of (ss @ [s]) n = picks_of ss n @
    (if ps_status s = SlotPicked \<and> ps_by s = Some (int n) then [ps_team s] else [])"
  by (simp add: picks_of_def)

lemma captain_of_named: "named slots \<Longrightarrow> captain_of slots n = Some k \<Longrightarrow> k \<noteq> []"
  by (auto simp: captain_of_def named_def find_Some_iff)

definition pick_count :: "picklist_slot list \<Rightarrow> nat" where
  "pick_count slots = length (filter (\<lambda>s. ps_status s = SlotPicked \<and> (\<exists>n \<in> set seats. ps_by s = Some (int n))) slots)"

lemma rows_of_nth:
  "i < ALLIANCE_COUNT \<Longrightarrow> rows_of slots ! i = \<lparr>al_number = i + 1, al_captain = captain_of slots (i + 1), al_picks = picks_of slots (i + 1)\<rparr>"
  by (simp add: rows_of_def seats_nth length_seats)

lemma UN_one_changed:
  assumes "n \<in> N" and "\<And>m. m \<noteq> n \<Longrightarrow> Y m = X m" and "X n \<subseteq> Y n"
  shows "(\<Union>m \<in> N. Y m) = (\<Union>m \<in> N. X m) \<union> Y n"
proof -
  have "Y m \<subseteq> X m \<union> Y n" "X m \<subseteq> Y m" for m using assms(2,3) by (cases "m = n"; auto)+
  then show ?thesis using assms(1) by blast
qed

lemma board_of_slots:
  assumes "named slots"
  shows "foldl board_slot (map (\<lambda>i. \<lparr>al_number = i + 1, al_captain = None, al_picks = []\<rparr>) [0..<ALLIANCE_COUNT], {}, 0) slots
    = (rows_of slots, on_board slots, pick_count slots)"
  using assms
proof (induction slots rule: rev_induct)
  case Nil
  then show ?case
    by (auto simp: rows_of_def on_board_def pick_count_def captain_of_def picks_of_def seats_def ALLIANCE_COUNT_def
        simp del: upt_Suc intro!: nth_equalityI)
next
  case (snoc s ss)
  then have IH: "foldl board_slot (map (\<lambda>i. \<lparr>al_number = i + 1, al_captain = None, al_picks = []\<rparr>) [0..<ALLIANCE_COUNT], {}, 0) ss
    = (rows_of ss, on_board ss, pick_count ss)" and s: "ps_team s \<noteq> []" "named ss" by (auto simp: named_def)
  have "board_slot (rows_of ss, on_board ss, pick_count ss) s = (rows_of (ss @ [s]), on_board (ss @ [s]), pick_count (ss @ [s]))"
  proof (cases "\<exists>n \<in> set seats. ps_by s = Some (int n)")
    case False
    then have "rows_of (ss @ [s]) = rows_of ss" "on_board (ss @ [s]) = on_board ss"
      by (auto simp: rows_of_def on_board_def captain_of_snoc picks_of_snoc split: option.splits)
    moreover have "pick_count (ss @ [s]) = pick_count ss" using False by (simp add: pick_count_def)
    moreover have "\<not> (1 \<le> x \<and> x \<le> int ALLIANCE_COUNT)" if "ps_by s = Some x" for x
    proof
      assume "1 \<le> x \<and> x \<le> int ALLIANCE_COUNT"
      then have "nat x \<in> set seats" "x = int (nat x)" by (auto simp: set_seats)
      with False that show False by metis
    qed
    ultimately show ?thesis by (auto simp: board_slot_def not_less not_le split: option.split)
  next
    case True
    then obtain n where n: "n \<in> set seats" "ps_by s = Some (int n)" by blast
    define i where "i = n - 1"
    have i: "i < ALLIANCE_COUNT" "n = i + 1" using n(1) by (auto simp: i_def set_seats)
    have row: "rows_of ss ! i = \<lparr>al_number = n, al_captain = captain_of ss n, al_picks = picks_of ss n\<rparr>"
      using rows_of_nth [OF i(1)] i(2) by simp
    have hc: "has_captain (rows_of ss ! i) \<longleftrightarrow> captain_of ss n \<noteq> None"
      using captain_of_named [OF s(2)]
      by (cases "captain_of ss n") (auto simp: row has_captain_def opt_str_def)
    have len: "length (rows_of ss') = ALLIANCE_COUNT" for ss' by (simp add: rows_of_def length_seats)
    have other: "captain_of (ss @ [s]) m = captain_of ss m" "picks_of (ss @ [s]) m = picks_of ss m" if "m \<noteq> n" for m
      using that n(2) by (auto simp: captain_of_snoc picks_of_snoc split: option.split)
    have upd: "(rows_of ss)[i := \<lparr>al_number = n, al_captain = captain_of (ss @ [s]) n, al_picks = picks_of (ss @ [s]) n\<rparr>]
        = rows_of (ss @ [s])"
    proof (rule nth_equalityI)
      fix j assume "j < length ((rows_of ss)[i := \<lparr>al_number = n, al_captain = captain_of (ss @ [s]) n, al_picks = picks_of (ss @ [s]) n\<rparr>])"
      then have j: "j < ALLIANCE_COUNT" by (simp add: len)
      show "(rows_of ss)[i := \<lparr>al_number = n, al_captain = captain_of (ss @ [s]) n, al_picks = picks_of (ss @ [s]) n\<rparr>] ! j
          = rows_of (ss @ [s]) ! j"
        using j i by (cases "j = i") (simp_all add: len rows_of_nth other)
    qed (simp add: len)
    have board: "on_board (ss @ [s]) = on_board ss \<union> set_option (captain_of (ss @ [s]) n) \<union> set (picks_of (ss @ [s]) n)"
      if "set_option (captain_of ss n) \<subseteq> set_option (captain_of (ss @ [s]) n)"
    proof -
      have "set (picks_of ss n) \<subseteq> set (picks_of (ss @ [s]) n)" by (auto simp: picks_of_snoc)
      then show ?thesis unfolding on_board_def Un_assoc
        by (intro UN_one_changed) (use n(1) that other in auto)
    qed
    have c: "board_slot (rows_of ss, on_board ss, pick_count ss) s =
      (if ps_status s = SlotCaptain \<and> captain_of ss n = None
       then ((rows_of ss)[i := (rows_of ss ! i)\<lparr>al_captain := Some (ps_team s)\<rparr>], insert (ps_team s) (on_board ss), pick_count ss)
       else if ps_status s = SlotPicked
       then ((rows_of ss)[i := (rows_of ss ! i)\<lparr>al_picks := al_picks (rows_of ss ! i) @ [ps_team s]\<rparr>],
         insert (ps_team s) (on_board ss), pick_count ss + 1)
       else (rows_of ss, on_board ss, pick_count ss))"
      using n i hc by (simp add: board_slot_def Let_def i_def [symmetric] nat_diff_distrib set_seats del: not_None_eq)
    have pc: "pick_count (ss @ [s]) = pick_count ss + (if ps_status s = SlotPicked then 1 else 0)"
      using n by (auto simp: pick_count_def)
    consider "ps_status s = SlotCaptain" "captain_of ss n = None" | "ps_status s = SlotPicked"
      | "\<not> (ps_status s = SlotCaptain \<and> captain_of ss n = None)" "ps_status s \<noteq> SlotPicked" by metis
    then show ?thesis
    proof cases
      case 1
      then have "captain_of (ss @ [s]) n = Some (ps_team s)" "picks_of (ss @ [s]) n = picks_of ss n"
        using n(2) by (simp_all add: captain_of_snoc picks_of_snoc)
      moreover have "set (picks_of ss n) \<subseteq> on_board ss" using n(1) by (auto simp: on_board_def)
      ultimately show ?thesis using 1 upd board by (auto simp: c row pc)
    next
      case 2
      then have "captain_of (ss @ [s]) n = captain_of ss n" "picks_of (ss @ [s]) n = picks_of ss n @ [ps_team s]"
        using n(2) by (simp_all add: captain_of_snoc picks_of_snoc split: option.split)
      moreover have "set (picks_of ss n) \<subseteq> on_board ss" "set_option (captain_of ss n) \<subseteq> on_board ss"
        using n(1) by (auto simp: on_board_def)
      ultimately show ?thesis using 2 upd board by (auto simp: c row pc)
    next
      case 3
      then have "captain_of (ss @ [s]) n = captain_of ss n" "picks_of (ss @ [s]) n = picks_of ss n"
        using n(2) by (auto simp: captain_of_snoc picks_of_snoc split: option.split)
      then have "captain_of (ss @ [s]) m = captain_of ss m \<and> picks_of (ss @ [s]) m = picks_of ss m" for m
        by (cases "m = n") (simp_all add: other)
      then have "rows_of (ss @ [s]) = rows_of ss" "on_board (ss @ [s]) = on_board ss"
        by (simp_all add: rows_of_def on_board_def)
      then show ?thesis by (simp only: c pc if_not_P [OF 3(1)] 3(2) if_False add_0_right)
    qed
  qed
  with IH show ?case by simp
qed


definition full_board :: "picklist_slot list \<Rightarrow> bool" where
  "full_board slots \<longleftrightarrow> (\<forall>n \<in> set seats. captain_of slots n \<noteq> None)"

definition open_seat :: "picklist_slot list \<Rightarrow> (nat \<times> nat) option" where
  "open_seat slots = (if full_board slots
     then clock_from (\<lambda>n. length (picks_of slots n)) (\<lambda>_. 0) 0 PICK_ORDER else None)"

lemma clock_from_cong:
  "(\<And>n. n \<in> set ns \<Longrightarrow> f n = g n) \<Longrightarrow> clock_from f owed i ns = clock_from g owed i ns"
  by (induction ns arbitrary: owed i) (simp_all add: Let_def)

lemma set_PICK_ORDER: "set PICK_ORDER = set seats"
  by code_simp

lemma draft_board:
  assumes "named slots"
  shows "draftFromSlots slots refused =
    \<lparr>ds_alliances = rows_of slots, ds_picksMade = pick_count slots, ds_onClock = open_seat slots,
     ds_taken = on_board slots, ds_refused = refused \<union> ps_team ` {s \<in> set slots. ps_status s = SlotDeclined},
     ds_hasCaptains = full_board slots\<rparr>"
proof -
  have h: "list_all has_captain (rows_of slots) \<longleftrightarrow> full_board slots"
  proof -
    have "opt_str (captain_of slots n) \<noteq> [] \<longleftrightarrow> captain_of slots n \<noteq> None" for n
      using captain_of_named [OF assms] by (cases "captain_of slots n") (auto simp: opt_str_def)
    then show ?thesis by (simp add: list_all_iff rows_of_def full_board_def has_captain_def)
  qed
  have "clock_from (\<lambda>n. length (al_picks (rows_of slots ! (n - 1)))) (\<lambda>_. 0) 0 PICK_ORDER =
      clock_from (\<lambda>n. length (picks_of slots n)) (\<lambda>_. 0) 0 PICK_ORDER"
  proof (rule clock_from_cong)
    fix n assume "n \<in> set PICK_ORDER"
    then have "n - 1 < ALLIANCE_COUNT" "n = n - 1 + 1" by (auto simp: set_PICK_ORDER set_seats)
    then show "length (al_picks (rows_of slots ! (n - 1))) = length (picks_of slots n)"
      using rows_of_nth [of "n - 1" slots] by simp
  qed
  then show ?thesis
    unfolding draftFromSlots_def Let_def board_of_slots [OF assms] by (simp add: h open_seat_def)
qed

section \<open>What an operation changes\<close>

definition listed :: "picklist_slot list \<Rightarrow> bool" where
  "listed slots \<longleftrightarrow> distinct (map ps_team slots)"

definition captains :: "picklist_slot list \<Rightarrow> nat \<Rightarrow> string set" where
  "captains slots n = ps_team ` {s \<in> set slots. ps_status s = SlotCaptain \<and> ps_by s = Some (int n)}"

definition one_captain :: "picklist_slot list \<Rightarrow> bool" where
  "one_captain slots \<longleftrightarrow> (\<forall>n \<in> set seats. captains slots n = set_option (captain_of slots n))"

lemma captain_of_None: "captain_of slots n = None \<longleftrightarrow> captains slots n = {}"
  by (auto simp: captain_of_def captains_def find_None_iff)

lemma captain_of_in: "captain_of slots n = Some k \<Longrightarrow> k \<in> captains slots n"
  unfolding captain_of_def captains_def by (auto simp: find_Some_iff)

lemma captain_of_single: "captains slots n = {k} \<Longrightarrow> captain_of slots n = Some k"
  using captain_of_None [of slots n] captain_of_in [of slots n] by (cases "captain_of slots n") auto

lemma one_captainI:
  assumes "\<And>n. n \<in> set seats \<Longrightarrow> captains slots n = set_option (c n)"
  shows "one_captain slots" and "n \<in> set seats \<Longrightarrow> captain_of slots n = c n"
proof -
  have "captain_of slots n = c n" if "n \<in> set seats" for n
    using assms [OF that] captain_of_None [of slots n] captain_of_single [of slots n] by (cases "c n") auto
  then show "n \<in> set seats \<Longrightarrow> captain_of slots n = c n" "one_captain slots"
    using assms by (auto simp: one_captain_def)
qed

lemma setSlot_map: "listed slots \<Longrightarrow> setSlot k f slots = map (\<lambda>s. if ps_team s = k then f s else s) slots"
  unfolding listed_def by (induction slots) (auto intro!: map_idI [symmetric] simp: image_iff)

lemma fold_setSlot:
  assumes "listed slots" and "distinct (map fst ups)" and "\<And>k f s. (k, f) \<in> set ups \<Longrightarrow> ps_team (f s) = ps_team s"
  shows "fold (\<lambda>(k, f). setSlot k f) ups slots =
    map (\<lambda>s. case map_of ups (ps_team s) of None \<Rightarrow> s | Some f \<Rightarrow> f s) slots"
  using assms
proof (induction ups arbitrary: slots)
  case (Cons u ups)
  obtain k f where u: "u = (k, f)" by force
  have f: "ps_team (f s) = ps_team s" for s using Cons.prems(3) [of k f] u by simp
  have m: "setSlot k f slots = map (\<lambda>s. if ps_team s = k then f s else s) slots"
    by (rule setSlot_map [OF Cons.prems(1)])
  have "map ps_team (setSlot k f slots) = map ps_team slots" by (simp add: m f)
  then have l: "listed (setSlot k f slots)" using Cons.prems(1) by (simp only: listed_def)
  have k: "map_of ups k = None" using Cons.prems(2) u by (simp add: map_of_eq_None_iff)
  have "fold (\<lambda>(k, f). setSlot k f) ups (setSlot k f slots) =
      map (\<lambda>s. case map_of ups (ps_team s) of None \<Rightarrow> s | Some f \<Rightarrow> f s) (setSlot k f slots)"
    by (rule Cons.IH [OF l]) (use Cons.prems in auto)
  then have "fold (\<lambda>(k, f). setSlot k f) (u # ups) slots =
      map (\<lambda>s. case map_of ups (ps_team s) of None \<Rightarrow> s | Some f \<Rightarrow> f s) (setSlot k f slots)"
    by (simp add: u)
  also have "\<dots> = map (\<lambda>s. case map_of (u # ups) (ps_team s) of None \<Rightarrow> s | Some f \<Rightarrow> f s) slots"
    by (auto simp: m u f k)
  finally show ?case .
qed simp

lemma withTeams_props:
  assumes "listed slots" and "named slots" and "[] \<notin> set keys"
  shows "listed (withTeams slots keys) \<and> named (withTeams slots keys) \<and>
    ps_team ` set (withTeams slots keys) = ps_team ` set slots \<union> set keys \<and>
    (\<exists>added. withTeams slots keys = slots @ added \<and> (\<forall>s \<in> set added. ps_status s = SlotAvailable \<and> ps_by s = None))"
  using assms
proof (induction keys arbitrary: slots)
  case (Cons k ks)
  show ?case
  proof (cases "k \<in> set (map ps_team slots)")
    case True
    with Cons show ?thesis by (force simp: withTeams_def)
  next
    case False
    have w: "withTeams slots (k # ks) = withTeams (slots @ [blankSlot k]) ks" using False by (simp add: withTeams_def)
    have "listed (slots @ [blankSlot k])" "named (slots @ [blankSlot k])"
      using False Cons.prems by (auto simp: listed_def named_def blankSlot_def)
    from Cons.IH [OF this] Cons.prems(3) obtain added where
      "listed (withTeams (slots @ [blankSlot k]) ks)" "named (withTeams (slots @ [blankSlot k]) ks)"
      "ps_team ` set (withTeams (slots @ [blankSlot k]) ks) = ps_team ` set (slots @ [blankSlot k]) \<union> set ks"
      "withTeams (slots @ [blankSlot k]) ks = (slots @ [blankSlot k]) @ added"
      "\<forall>s \<in> set added. ps_status s = SlotAvailable \<and> ps_by s = None" by auto
    then show ?thesis unfolding w by (auto simp: blankSlot_def)
  qed
qed (simp add: withTeams_def)

lemma added_same:
  assumes "\<forall>s \<in> set added. ps_status s = SlotAvailable \<and> ps_by s = None"
  shows "captains (slots @ added) n = captains slots n" "picks_of (slots @ added) n = picks_of slots n"
  using assms by (auto simp: captains_def picks_of_def filter_empty_conv)


lemma captains_map: "(\<And>s. ps_team (h s) = ps_team s) \<Longrightarrow>
    captains (map h slots) n = ps_team ` {s \<in> set slots. ps_status (h s) = SlotCaptain \<and> ps_by (h s) = Some (int n)}"
  unfolding captains_def set_map by (simp add: image_iff set_eq_iff) metis

lemma captains_iff: "k \<in> captains slots n \<longleftrightarrow> (\<exists>s \<in> set slots. ps_team s = k \<and> ps_status s = SlotCaptain \<and> ps_by s = Some (int n))"
  by (auto simp: captains_def)

lemma captains_map_iff: "(\<And>s. ps_team (h s) = ps_team s) \<Longrightarrow> k \<in> captains (map h slots) n \<longleftrightarrow>
    (\<exists>s \<in> set slots. ps_team s = k \<and> ps_status (h s) = SlotCaptain \<and> ps_by (h s) = Some (int n))"
  by (simp add: captains_iff)

lemma picks_of_map:
  assumes "\<And>s. s \<in> set slots \<Longrightarrow> ps_team (h s) = ps_team s \<and> ((ps_status (h s) = SlotPicked \<and> ps_by (h s) = Some (int n))
    \<longleftrightarrow> (ps_status s = SlotPicked \<and> ps_by s = Some (int n)))"
  shows "picks_of (map h slots) n = picks_of slots n"
  using assms by (induction slots) (simp_all add: picks_of_def)

lemma listed_map: "(\<And>s. ps_team (h s) = ps_team s) \<Longrightarrow> listed (map h slots) = listed slots"
  by (simp add: listed_def o_def)

lemma named_map: "(\<And>s. ps_team (h s) = ps_team s) \<Longrightarrow> named (map h slots) = named slots"
  by (simp add: named_def)

lemma picks_of_pick:
  assumes "listed slots" and "t \<in> ps_team ` set slots" and "t \<notin> set (picks_of slots p)"
  shows "length (picks_of (map (\<lambda>s. if ps_team s = t then s\<lparr>ps_status := SlotPicked, ps_by := Some (int p)\<rparr> else s) slots) p)
      = Suc (length (picks_of slots p)) \<and>
    set (picks_of (map (\<lambda>s. if ps_team s = t then s\<lparr>ps_status := SlotPicked, ps_by := Some (int p)\<rparr> else s) slots) p)
      = insert t (set (picks_of slots p))"
  using assms
proof (induction slots)
  case (Cons a ss)
  show ?case
  proof (cases "ps_team a = t")
    case True
    then have "map (\<lambda>s. if ps_team s = t then s\<lparr>ps_status := SlotPicked, ps_by := Some (int p)\<rparr> else s) ss = ss"
      using Cons.prems(1) by (intro map_idI) (auto simp: listed_def image_iff)
    then show ?thesis using True Cons.prems(3) by (auto simp: picks_of_def)
  next
    case False
    then show ?thesis using Cons by (auto simp: picks_of_def listed_def)
  qed
qed simp

lemma seed_result:
  assumes "listed slots" and "named slots" and "distinct ranked" and "[] \<notin> set ranked" and "ALLIANCE_COUNT \<le> length ranked"
  shows "listed (seedCaptains slots ranked) \<and> named (seedCaptains slots ranked) \<and>
    (\<forall>n \<in> set seats. captains (seedCaptains slots ranked) n = {ranked ! (n - 1)} \<and>
       picks_of (seedCaptains slots ranked) n = [])"
proof -
  define top where "top = take ALLIANCE_COUNT ranked"
  define W where "W = withTeams slots top"
  define clear where "clear s = (if ps_status s = SlotCaptain \<or> ps_status s = SlotPicked
    then s\<lparr>ps_status := SlotAvailable, ps_by := None\<rparr> else s)" for s :: picklist_slot
  define patch where "patch i s = s\<lparr>ps_status := SlotCaptain, ps_by := Some (int i + 1)\<rparr>" for i and s :: picklist_slot
  define ups where "ups = zip top (map patch [0..<length top])"
  have top: "length top = ALLIANCE_COUNT" "distinct top" "[] \<notin> set top"
    using assms(3-5) by (auto simp: top_def dest: in_set_takeD)
  have W: "listed W" "named W" "set top \<subseteq> ps_team ` set W"
    using withTeams_props [OF assms(1,2) top(3)] by (auto simp: W_def)
  have team [simp]: "ps_team (clear s) = ps_team s" "ps_team (patch i s) = ps_team s" for i s
    by (simp_all add: clear_def patch_def)
  have cl: "listed (map clear W)" using W(1) by (simp add: listed_map)
  have "seedCaptains slots ranked = fold (\<lambda>(k, f). setSlot k f) ups (map clear W)"
    unfolding seedCaptains_def Let_def top_def [symmetric] W_def [symmetric] ups_def
    by (simp add: clear_def [abs_def] patch_def [abs_def] zip_map2 fold_map case_prod_unfold o_def)
  also have "\<dots> = map (\<lambda>s. case map_of ups (ps_team s) of None \<Rightarrow> s | Some f \<Rightarrow> f s) (map clear W)"
    using top(1,2) by (intro fold_setSlot [OF cl]) (auto simp: ups_def set_zip patch_def)
  finally have e: "seedCaptains slots ranked = map (\<lambda>s. case map_of ups (ps_team s) of None \<Rightarrow> clear s | Some f \<Rightarrow> f (clear s)) W"
    by (simp add: o_def)
  define h where "h s = (case map_of ups (ps_team s) of None \<Rightarrow> clear s | Some f \<Rightarrow> f (clear s))" for s
  have found: "map_of ups k = Some f \<longleftrightarrow> (\<exists>i < length top. k = top ! i \<and> f = patch i)" for k f
    using top(2) unfolding ups_def by (subst map_of_eq_Some_iff) (auto simp: set_zip)
  have th: "ps_team (h s) = ps_team s" for s
  proof (cases "map_of ups (ps_team s)")
    case (Some f)
    moreover from Some obtain i where "f = patch i" by (auto simp: found)
    ultimately show ?thesis by (simp add: h_def)
  qed (simp add: h_def)
  have s: "(ps_status (h s) = SlotCaptain \<and> ps_by (h s) = Some (int n) \<longleftrightarrow> ps_team s = top ! (n - 1)) \<and>
      \<not> ps_status (h s) = SlotPicked" if n: "n \<in> set seats" for s n
  proof (cases "map_of ups (ps_team s)")
    case None
    then have "ps_team s \<notin> set top" using found [of "ps_team s"] by (metis in_set_conv_nth option.distinct(1))
    moreover have "top ! (n - 1) \<in> set top" using n top(1) by (intro nth_mem) (auto simp: set_seats)
    ultimately show ?thesis using None by (auto simp: h_def clear_def)
  next
    case (Some f)
    then obtain i where i: "i < length top" "ps_team s = top ! i" "f = patch i" by (auto simp: found)
    have "top ! i = top ! (n - 1) \<longleftrightarrow> i = n - 1"
      using i(1) n top by (intro nth_eq_iff_index_eq) (auto simp: set_seats)
    moreover have "int i + 1 = int n \<longleftrightarrow> i = n - 1" using n by (auto simp: set_seats)
    ultimately show ?thesis using Some i by (simp add: h_def patch_def)
  qed
  have R: "seedCaptains slots ranked = map h W" by (simp add: e h_def)
  have "captains (map h W) n = {ranked ! (n - 1)} \<and> picks_of (map h W) n = []" if n: "n \<in> set seats" for n
  proof
    have i: "n - 1 < length top" "top ! (n - 1) = ranked ! (n - 1)" using n top(1) by (auto simp: top_def set_seats)
    then have "top ! (n - 1) \<in> ps_team ` set W" using W(3) by (meson nth_mem subsetD)
    then show "captains (map h W) n = {ranked ! (n - 1)}"
      using s [OF n] i by (auto simp: captains_map th image_iff)
    show "picks_of (map h W) n = []" using s [OF n] by (simp add: picks_of_def filter_empty_conv)
  qed
  then show ?thesis using W(1,2) by (simp add: R listed_map named_map th)
qed


definition board_ok :: "picklist_slot list \<Rightarrow> bool" where
  "board_ok slots \<longleftrightarrow> listed slots \<and> named slots \<and> one_captain slots"

lemma team_unique: "listed slots \<Longrightarrow> s \<in> set slots \<Longrightarrow> s' \<in> set slots \<Longrightarrow> ps_team s = ps_team s' \<Longrightarrow> s = s'"
  by (auto simp: listed_def distinct_map inj_on_def)

lemma find_map_list: "find P (map f xs) = map_option f (find (\<lambda>x. P (f x)) xs)"
  by (induction xs) auto

lemma find_in: "find P xs = Some x \<Longrightarrow> P x \<and> x \<in> set xs"
  by (induction xs) (auto split: if_splits)

lemma find_unique: "(\<And>x. x \<in> set xs \<Longrightarrow> P x \<Longrightarrow> x = m) \<Longrightarrow> m \<in> set xs \<Longrightarrow> P m \<Longrightarrow> find P xs = Some m"
proof (induction xs)
  case (Cons x xs)
  show ?case
  proof (cases "P x")
    case True
    moreover from this have "x = m" by (intro Cons.prems(1)) simp_all
    ultimately show ?thesis by simp
  next
    case False
    then have "m \<in> set xs" using Cons.prems(2,3) by auto
    then have "find P xs = Some m" using Cons.prems(1,3) by (intro Cons.IH) simp_all
    with False show ?thesis by simp
  qed
qed simp

lemma find_captain_row:
  "find (\<lambda>a. al_captain a = Some t) (rows_of slots) =
     map_option (\<lambda>n. \<lparr>al_number = n, al_captain = captain_of slots n, al_picks = picks_of slots n\<rparr>)
       (find (\<lambda>n. captain_of slots n = Some t) seats)"
  by (simp add: rows_of_def find_map_list)

lemma captain_seat_unique:
  assumes "listed slots" and "captain_of slots n = Some t" and "captain_of slots m = Some t"
  shows "n = m"
proof -
  obtain s s' where "s \<in> set slots" "s' \<in> set slots" "ps_team s = t" "ps_team s' = t"
      "ps_by s = Some (int n)" "ps_by s' = Some (int m)"
    using captain_of_in [OF assms(2)] captain_of_in [OF assms(3)] by (auto simp: captains_def)
  with team_unique [OF assms(1), of s s'] show ?thesis by simp
qed

lemma find_seat: "listed slots \<Longrightarrow> find (\<lambda>n. captain_of slots n = Some t) seats = Some m \<longleftrightarrow> m \<in> set seats \<and> captain_of slots m = Some t"
  using find_in [of "\<lambda>n. captain_of slots n = Some t" seats m] captain_seat_unique [of slots _ t m]
  by (auto intro: find_unique)

text \<open>The first half of a pick: the team joins the alliance on the clock.\<close>

lemma pick_joins:
  assumes ok: "board_ok slots" and t: "t \<noteq> []" and p: "p \<in> set seats"
    and free: "\<forall>n \<in> set seats. t \<notin> set (picks_of slots n)"
  defines "joined \<equiv> setSlot t (\<lambda>s. s\<lparr>ps_status := SlotPicked, ps_by := Some (int p)\<rparr>) (withTeams slots [t])"
  shows "listed joined \<and> named joined \<and> (\<forall>n \<in> set seats.
      captains joined n = captains slots n - {t} \<and>
      length (picks_of joined n) = length (picks_of slots n) + (if n = p then 1 else 0) \<and>
      set (picks_of joined n) = set (picks_of slots n) \<union> (if n = p then {t} else {}))"
proof -
  define h where "h s = (if ps_team s = t then s\<lparr>ps_status := SlotPicked, ps_by := Some (int p)\<rparr> else s)" for s :: picklist_slot
  obtain added where w: "withTeams slots [t] = slots @ added" "\<forall>s \<in> set added. ps_status s = SlotAvailable \<and> ps_by s = None"
      "listed (slots @ added)" "named (slots @ added)" "t \<in> ps_team ` set (slots @ added)"
    using withTeams_props [of slots "[t]"] ok t by (auto simp: board_ok_def)
  have j: "joined = map h (slots @ added)" unfolding joined_def w(1) h_def [abs_def] by (rule setSlot_map [OF w(3)])
  have th: "ps_team (h s) = ps_team s" for s by (simp add: h_def)
  note same = added_same [OF w(2), of slots]
  have "captains joined n = captains (slots @ added) n - {t}" for n
    unfolding j captains_map [of h, OF th] by (auto simp: captains_def h_def)
  moreover have "length (picks_of joined n) = length (picks_of slots n) + (if n = p then 1 else 0) \<and>
      set (picks_of joined n) = set (picks_of slots n) \<union> (if n = p then {t} else {})" if n: "n \<in> set seats" for n
  proof (cases "n = p")
    case True
    from picks_of_pick [OF w(3,5), of p] free p same show ?thesis by (simp add: j True h_def [abs_def])
  next
    case False
    have "picks_of joined n = picks_of (slots @ added) n" unfolding j
    proof (rule picks_of_map)
      fix s assume s: "s \<in> set (slots @ added)"
      have "t \<notin> set (picks_of (slots @ added) n)" using free n same by simp
      with s False show "ps_team (h s) = ps_team s \<and> ((ps_status (h s) = SlotPicked \<and> ps_by (h s) = Some (int n)) \<longleftrightarrow>
          (ps_status s = SlotPicked \<and> ps_by s = Some (int n)))"
        by (auto simp: h_def picks_of_def)
    qed
    with same False show ?thesis by simp
  qed
  moreover have "listed joined" "named joined" using w(3,4) unfolding j by (simp_all only: listed_map named_map th)
  ultimately show ?thesis using same by simp
qed


lemma promote_joins:
  assumes "listed slots" and "named slots" and t: "t \<noteq> []"
    and free: "\<forall>n \<in> set seats. t \<notin> set (picks_of slots n) \<and> t \<notin> captains slots n"
  defines "R \<equiv> setSlot t (\<lambda>s. s\<lparr>ps_status := SlotCaptain, ps_by := Some (int ALLIANCE_COUNT)\<rparr>) (withTeams slots [t])"
  shows "listed R \<and> named R \<and> (\<forall>n \<in> set seats.
      captains R n = captains slots n \<union> (if n = ALLIANCE_COUNT then {t} else {}) \<and> picks_of R n = picks_of slots n)"
proof -
  define h where "h s = (if ps_team s = t then s\<lparr>ps_status := SlotCaptain, ps_by := Some (int ALLIANCE_COUNT)\<rparr> else s)" for s :: picklist_slot
  obtain added where w: "withTeams slots [t] = slots @ added" "\<forall>s \<in> set added. ps_status s = SlotAvailable \<and> ps_by s = None"
      "listed (slots @ added)" "named (slots @ added)" "t \<in> ps_team ` set (slots @ added)"
    using withTeams_props [of slots "[t]"] assms(1,2) t by auto
  have j: "R = map h (slots @ added)" unfolding R_def w(1) h_def [abs_def] by (rule setSlot_map [OF w(3)])
  have th: "ps_team (h s) = ps_team s" for s by (simp add: h_def)
  note same = added_same [OF w(2), of slots]
  have "captains R n = captains (slots @ added) n \<union> (if n = ALLIANCE_COUNT then {t} else {})" if n: "n \<in> set seats" for n
  proof -
    have "t \<notin> captains (slots @ added) n" using free n same by simp
    have "k \<in> captains R n \<longleftrightarrow> k \<in> captains (slots @ added) n \<union> (if n = ALLIANCE_COUNT then {t} else {})" for k
    proof (cases "k = t")
      case True
      with w(5) \<open>t \<notin> captains (slots @ added) n\<close> show ?thesis
        by (auto simp: j captains_map_iff th h_def image_iff simp del: set_append map_append)
    next
      case False
      then show ?thesis by (auto simp: j captains_map_iff th captains_iff h_def simp del: set_append map_append)
    qed
    then show ?thesis by blast
  qed
  moreover have "picks_of R n = picks_of (slots @ added) n" if n: "n \<in> set seats" for n unfolding j
  proof (rule picks_of_map)
    fix s assume s: "s \<in> set (slots @ added)"
    have "t \<notin> set (picks_of (slots @ added) n)" using free n same by simp
    with s show "ps_team (h s) = ps_team s \<and> ((ps_status (h s) = SlotPicked \<and> ps_by (h s) = Some (int n)) \<longleftrightarrow>
        (ps_status s = SlotPicked \<and> ps_by s = Some (int n)))"
      by (auto simp: h_def picks_of_def)
  qed
  moreover have "listed R" "named R" using w(3,4) unfolding j by (simp_all only: listed_map named_map th)
  ultimately show ?thesis using same by simp
qed

lemma fold_if_filter: "fold (\<lambda>x acc. if P x then acc else g x acc) xs acc = fold g (filter (\<lambda>x. \<not> P x) xs) acc"
  by (induction xs arbitrary: acc) auto

text \<open>The second half, for a captain who accepts: the alliances below move up.\<close>

lemma shift_up:
  assumes ok: "board_ok slots" and full: "full_board slots" and joined: "listed joined" "named joined"
    and cj: "\<forall>n \<in> set seats. captains joined n = captains slots n - {t}"
    and m: "m \<in> set seats" "captain_of slots m = Some t"
  defines "R \<equiv> fold (\<lambda>a slots'. if al_number a \<le> m \<or> \<not> has_captain a then slots'
      else setSlot (opt_str (al_captain a)) (\<lambda>s. s\<lparr>ps_by := Some (int (al_number a) - 1)\<rparr>) slots') (rows_of slots) joined"
  shows "listed R \<and> named R \<and> (\<forall>n \<in> set seats. picks_of R n = picks_of joined n \<and>
    captains R n = (if n < m then captains slots n else if n < ALLIANCE_COUNT then captains slots (n + 1) else {}))"
proof -
  have l: "listed slots" and nm: "named slots" and one: "\<And>n. n \<in> set seats \<Longrightarrow> captains slots n = set_option (captain_of slots n)"
    using ok by (auto simp: board_ok_def one_captain_def)
  define c where "c n = the (captain_of slots n)" for n
  have c: "captain_of slots n = Some (c n)" "captains slots n = {c n}" if "n \<in> set seats" for n
    using full that one [OF that] by (auto simp: full_board_def c_def)
  have inj: "n = k" if "n \<in> set seats" "k \<in> set seats" "c n = c k" for n k
    using captain_seat_unique [OF l] c that by metis
  have cne: "c n \<noteq> []" if "n \<in> set seats" for n using captain_of_named [OF nm c(1) [OF that]] .
  have cm: "c m = t" using c m by simp
  define move where "move n s = s\<lparr>ps_by := Some (int n - 1)\<rparr>" for n :: nat and s :: picklist_slot
  define ups where "ups = map (\<lambda>n. (c n, move n)) (filter (\<lambda>n. m < n) seats)"
  have "R = fold (\<lambda>n. if n \<le> m then (\<lambda>acc. acc) else setSlot (c n) (move n)) seats joined"
    unfolding R_def rows_of_def fold_map o_def
    by (rule List.fold_cong) (auto simp: fun_eq_iff has_captain_def opt_str_def c cne move_def [abs_def])
  also have "\<dots> = fold (\<lambda>n acc. if n \<le> m then acc else setSlot (c n) (move n) acc) seats joined"
    by (rule List.fold_cong) (auto simp: fun_eq_iff)
  also have "\<dots> = fold (\<lambda>(k, f). setSlot k f) ups joined"
    by (simp add: fold_if_filter ups_def fold_map o_def not_le)
  also have "\<dots> = map (\<lambda>s. case map_of ups (ps_team s) of None \<Rightarrow> s | Some f \<Rightarrow> f s) joined"
  proof (rule fold_setSlot [OF joined(1)])
    show "distinct (map fst ups)"
      using inj by (auto simp: ups_def o_def distinct_map inj_on_def seats_def)
  qed (auto simp: ups_def move_def)
  finally have R: "R = map (\<lambda>s. case map_of ups (ps_team s) of None \<Rightarrow> s | Some f \<Rightarrow> f s) joined" .
  define h where "h s = (case map_of ups (ps_team s) of None \<Rightarrow> s | Some f \<Rightarrow> f s)" for s
  have Rh: "R = map h joined" by (simp add: R h_def [abs_def])
  have found: "map_of ups k = Some f \<longleftrightarrow> (\<exists>n \<in> set seats. m < n \<and> k = c n \<and> f = move n)" for k f
  proof -
    have "distinct (map fst ups)" using inj by (auto simp: ups_def o_def distinct_map inj_on_def seats_def)
    then show ?thesis by (auto simp: map_of_eq_Some_iff ups_def)
  qed
  have cap: "s \<in> set joined \<Longrightarrow> n \<in> set seats \<Longrightarrow> ps_status s = SlotCaptain \<Longrightarrow> ps_by s = Some (int n) \<Longrightarrow> ps_team s = c n \<and> n \<noteq> m" for s n
    using cj c(2) cm by (auto simp: captains_iff set_eq_iff)
  have slot: "\<exists>s \<in> set joined. ps_team s = c n \<and> ps_status s = SlotCaptain \<and> ps_by s = Some (int n)"
    if "n \<in> set seats" "n \<noteq> m" for n
  proof -
    have "c n \<noteq> t" using inj [OF that(1) m(1)] that(2) cm by auto
    then have "c n \<in> captains joined n" using cj c(2) that(1) by auto
    then show ?thesis by (auto simp: captains_iff)
  qed
  have moved: "ps_status s = SlotCaptain \<and> ps_by s = Some (int n) \<and> h s = move n s"
    if s: "s \<in> set joined" "ps_team s = c n" "n \<in> set seats" "m < n" for s n
  proof -
    obtain s' where "s' \<in> set joined" "ps_team s' = c n" "ps_status s' = SlotCaptain" "ps_by s' = Some (int n)"
      using slot [OF s(3)] s(4) by auto
    then have "s' = s" using team_unique [OF joined(1)] s by metis
    moreover have "map_of ups (ps_team s) = Some (move n)" using s by (auto simp: found)
    ultimately show ?thesis using \<open>ps_status s' = SlotCaptain\<close> \<open>ps_by s' = Some (int n)\<close> by (simp add: h_def)
  qed
  have stays: "h s = s" if "\<And>n. n \<in> set seats \<Longrightarrow> m < n \<Longrightarrow> ps_team s \<noteq> c n" for s
    using that found [of "ps_team s"] by (cases "map_of ups (ps_team s)") (auto simp: h_def)
  have cases: "(\<exists>n \<in> set seats. m < n \<and> ps_team s = c n \<and> ps_status s = SlotCaptain \<and> ps_by s = Some (int n) \<and> h s = move n s)
      \<or> ((\<forall>n \<in> set seats. m < n \<longrightarrow> ps_team s \<noteq> c n) \<and> h s = s)" if "s \<in> set joined" for s
    using moved [OF that] stays [of s] by blast
  have th: "ps_team (h s) = ps_team s" for s
  proof (cases "map_of ups (ps_team s)")
    case (Some f)
    moreover from Some obtain n where "f = move n" by (auto simp: found)
    ultimately show ?thesis by (simp add: h_def move_def)
  qed (simp add: h_def)
  have "picks_of R n = picks_of joined n" for n unfolding Rh
  proof (rule picks_of_map)
    fix s assume "s \<in> set joined"
    from cases [OF this] show "ps_team (h s) = ps_team s \<and> ((ps_status (h s) = SlotPicked \<and> ps_by (h s) = Some (int n)) \<longleftrightarrow>
        (ps_status s = SlotPicked \<and> ps_by s = Some (int n)))"
      by (auto simp: move_def)
  qed
  moreover have "captains R n = (if n < m then captains slots n else if n < ALLIANCE_COUNT then captains slots (n + 1) else {})"
    if n: "n \<in> set seats" for n
  proof -
    have "k \<in> captains R n \<longleftrightarrow> (n < m \<and> k = c n) \<or> (m \<le> n \<and> n < ALLIANCE_COUNT \<and> k = c (n + 1))" for k
    proof
      assume "k \<in> captains R n"
      then obtain s where s: "s \<in> set joined" "ps_team s = k" "ps_status (h s) = SlotCaptain" "ps_by (h s) = Some (int n)"
        by (auto simp: Rh captains_map_iff th)
      from cases [OF s(1)] show "(n < m \<and> k = c n) \<or> (m \<le> n \<and> n < ALLIANCE_COUNT \<and> k = c (n + 1))"
      proof
        assume "\<exists>j \<in> set seats. m < j \<and> ps_team s = c j \<and> ps_status s = SlotCaptain \<and> ps_by s = Some (int j) \<and> h s = move j s"
        then obtain j where j: "j \<in> set seats" "m < j" "ps_team s = c j" "h s = move j s" by blast
        then have "j = n + 1" using s(4) by (auto simp: move_def)
        with j s(2) show ?thesis by (auto simp: set_seats)
      next
        assume a: "(\<forall>j \<in> set seats. m < j \<longrightarrow> ps_team s \<noteq> c j) \<and> h s = s"
        with cap [OF s(1) n] s have "ps_team s = c n" "n \<noteq> m" by auto
        with a n s(2) show ?thesis by (metis nat_neq_iff)
      qed
    next
      assume "(n < m \<and> k = c n) \<or> (m \<le> n \<and> n < ALLIANCE_COUNT \<and> k = c (n + 1))"
      then show "k \<in> captains R n"
      proof
        assume k: "n < m \<and> k = c n"
        then obtain s where s: "s \<in> set joined" "ps_team s = c n" "ps_status s = SlotCaptain" "ps_by s = Some (int n)"
          using slot [OF n] by auto
        have "h s = s" using inj [OF n] k s(2) by (intro stays) auto
        with s k show ?thesis by (auto simp: Rh captains_map_iff th)
      next
        assume k: "m \<le> n \<and> n < ALLIANCE_COUNT \<and> k = c (n + 1)"
        then have j: "n + 1 \<in> set seats" "m < n + 1" by (auto simp: set_seats)
        then obtain s where s: "s \<in> set joined" "ps_team s = c (n + 1)" using slot [of "n + 1"] by auto
        from moved [OF s j] s k show ?thesis by (auto simp: Rh captains_map_iff th move_def)
      qed
    qed
    moreover have "captains slots n = {c n}" "n < ALLIANCE_COUNT \<Longrightarrow> captains slots (n + 1) = {c (n + 1)}"
      using c(2) n by (auto simp: set_seats)
    ultimately show ?thesis by auto
  qed
  moreover have "listed R" "named R" using joined unfolding Rh by (simp_all only: listed_map named_map th)
  ultimately show ?thesis by simp
qed


lemma clock_from_in: "clock_from f owed i ns = Some (n, r) \<Longrightarrow> n \<in> set ns"
  by (induction ns arbitrary: owed i) (auto simp: Let_def split: if_splits)

definition captain_after :: "picklist_slot list \<Rightarrow> string \<Rightarrow> string list \<Rightarrow> nat \<Rightarrow> string option" where
  "captain_after slots t ranked n = (case find (\<lambda>m. captain_of slots m = Some t) seats of
       None \<Rightarrow> captain_of slots n
     | Some m \<Rightarrow> if n < m then captain_of slots n else if n < ALLIANCE_COUNT then captain_of slots (n + 1)
         else find (\<lambda>r. r \<notin> on_board slots) ranked)"

lemma pick_result:
  assumes ok: "board_ok slots" and can: "canBePicked (draftFromSlots slots {}) t"
    and clock: "open_seat slots = Some (p, r)" and t: "t \<noteq> []" and ranked: "[] \<notin> set ranked"
  shows "board_ok (pickTeam slots t ranked) \<and> (\<forall>n \<in> set seats.
      captain_of (pickTeam slots t ranked) n = captain_after slots t ranked n \<and>
      length (picks_of (pickTeam slots t ranked) n) = length (picks_of slots n) + (if n = p then 1 else 0) \<and>
      set (picks_of (pickTeam slots t ranked) n) = set (picks_of slots n) \<union> (if n = p then {t} else {}))"
proof -
  have l: "listed slots" "named slots" and one: "n \<in> set seats \<Longrightarrow> captains slots n = set_option (captain_of slots n)" for n
    using ok by (auto simp: board_ok_def one_captain_def)
  note D = draft_board [OF l(2), of "{}"]
  have full: "full_board slots" and p: "p \<in> set seats"
    using clock clock_from_in [of _ _ _ PICK_ORDER p r] by (auto simp: open_seat_def set_PICK_ORDER split: if_splits)
  define joined where "joined = setSlot t (\<lambda>s. s\<lparr>ps_status := SlotPicked, ps_by := Some (int p)\<rparr>) (withTeams slots [t])"
  have free: "t \<notin> set (picks_of slots n)" if n: "n \<in> set seats" for n
  proof
    assume tp: "t \<in> set (picks_of slots n)"
    then have "t \<in> on_board slots" using n by (auto simp: on_board_def)
    then obtain m where m: "captain_of slots m = Some t"
      using can by (auto simp: canBePicked_def D clock isCaptainBelow_def find_captain_row dest!: find_in split: option.splits if_splits)
    obtain s s' where "s \<in> set slots" "ps_team s = t" "ps_status s = SlotPicked" "s' \<in> set slots" "ps_team s' = t" "ps_status s' = SlotCaptain"
      using tp captain_of_in [OF m] by (auto simp: picks_of_def captains_def)
    with team_unique [OF l(1), of s s'] show False by simp
  qed
  then have "\<forall>n \<in> set seats. t \<notin> set (picks_of slots n)" by blast
  note J = pick_joins [OF ok t p this, folded joined_def]
  have e: "pickTeam slots t ranked = (case find (\<lambda>m. captain_of slots m = Some t) seats of None \<Rightarrow> joined
      | Some m \<Rightarrow> (let next2 = fold (\<lambda>a slots'. if al_number a \<le> m \<or> \<not> has_captain a then slots'
          else setSlot (opt_str (al_captain a)) (\<lambda>s. s\<lparr>ps_by := Some (int (al_number a) - 1)\<rparr>) slots') (rows_of slots) joined
         in case find (\<lambda>team. team \<notin> on_board slots) ranked of None \<Rightarrow> next2
            | Some promoted \<Rightarrow> if promoted = [] then next2
                else setSlot promoted (\<lambda>s. s\<lparr>ps_status := SlotCaptain, ps_by := Some (int ALLIANCE_COUNT)\<rparr>)
                  (withTeams next2 [promoted])))"
    using can unfolding pickTeam_def Let_def D
    by (simp add: D clock find_captain_row joined_def [symmetric] split: option.split)
  show ?thesis
  proof (cases "find (\<lambda>m. captain_of slots m = Some t) seats")
    case None
    have nc: "captain_of slots n \<noteq> Some t" if "n \<in> set seats" for n
      using None that by (auto simp: find_None_iff)
    have c: "captains joined n = set_option (captain_of slots n)" if "n \<in> set seats" for n
      using J one [OF that] nc [OF that] that by auto
    have "one_captain joined" "\<And>n. n \<in> set seats \<Longrightarrow> captain_of joined n = captain_of slots n"
      using one_captainI [of joined "captain_of slots", OF c] by blast+
    with J show ?thesis by (simp add: e None captain_after_def board_ok_def)
  next
    case (Some m)
    then have m: "m \<in> set seats" "captain_of slots m = Some t" using find_in [OF Some] by auto
    define next2 where "next2 = fold (\<lambda>a slots'. if al_number a \<le> m \<or> \<not> has_captain a then slots'
          else setSlot (opt_str (al_captain a)) (\<lambda>s. s\<lparr>ps_by := Some (int (al_number a) - 1)\<rparr>) slots') (rows_of slots) joined"
    have N: "listed next2 \<and> named next2 \<and> (\<forall>n \<in> set seats. picks_of next2 n = picks_of joined n \<and>
        captains next2 n = (if n < m then captains slots n else if n < ALLIANCE_COUNT then captains slots (n + 1) else {}))"
      unfolding next2_def by (rule shift_up [OF ok full _ _ _ m]) (use J in auto)
    have c2: "captains next2 n = set_option (if n < m then captain_of slots n else if n < ALLIANCE_COUNT then captain_of slots (n + 1) else None)"
      if "n \<in> set seats" for n
      using N that one [OF that] one [of "n + 1"] by (auto simp: set_seats)
    show ?thesis
    proof (cases "find (\<lambda>team. team \<notin> on_board slots) ranked")
      case None
      have c: "captains next2 n = set_option (captain_after slots t ranked n)" if "n \<in> set seats" for n
        using c2 [OF that] by (simp add: captain_after_def Some None)
      have "one_captain next2" "\<And>n. n \<in> set seats \<Longrightarrow> captain_of next2 n = captain_after slots t ranked n"
        using one_captainI [of next2 "captain_after slots t ranked", OF c] by blast+
      with J N show ?thesis by (simp add: e Some None next2_def [symmetric] board_ok_def)
    next
      case pr: (Some pr)
      note pr' = find_in [OF pr]
      have ne: "pr \<noteq> []" using pr' ranked by auto
      have "\<forall>n \<in> set seats. pr \<notin> set (picks_of next2 n) \<and> pr \<notin> captains next2 n"
      proof (intro ballI conjI)
        fix n assume n: "n \<in> set seats"
        have "pr \<noteq> t" using pr' m by (auto simp: on_board_def)
        then show "pr \<notin> set (picks_of next2 n)" using N J n pr' by (auto simp: on_board_def)
        have "n + 1 \<in> set seats" if "n < ALLIANCE_COUNT" using that by (simp add: set_seats)
        then show "pr \<notin> captains next2 n" using c2 [OF n] n pr' by (auto simp: on_board_def split: if_splits)
      qed
      define R where "R = setSlot pr (\<lambda>s. s\<lparr>ps_status := SlotCaptain, ps_by := Some (int ALLIANCE_COUNT)\<rparr>) (withTeams next2 [pr])"
      have Q: "listed R \<and> named R \<and> (\<forall>n \<in> set seats.
          captains R n = captains next2 n \<union> (if n = ALLIANCE_COUNT then {pr} else {}) \<and> picks_of R n = picks_of next2 n)"
        unfolding R_def by (rule promote_joins) (use N ne \<open>\<forall>n \<in> set seats. pr \<notin> set (picks_of next2 n) \<and> pr \<notin> captains next2 n\<close> in auto)
      have c: "captains R n = set_option (captain_after slots t ranked n)" if n: "n \<in> set seats" for n
        using Q c2 [OF n] n m(1) by (auto simp: captain_after_def Some pr set_seats)
      have "one_captain R" "\<And>n. n \<in> set seats \<Longrightarrow> captain_of R n = captain_after slots t ranked n"
        using one_captainI [of R "captain_after slots t ranked", OF c] by blast+
      with J N Q show ?thesis by (simp add: e Some pr ne next2_def [symmetric] R_def [symmetric] board_ok_def)
    qed
  qed
qed


section \<open>A whole selection\<close>

definition clock_at :: "nat \<Rightarrow> (nat \<times> nat) option" where
  "clock_at k = (if k < 2 * ALLIANCE_COUNT then Some (PICK_ORDER ! k, if k < ALLIANCE_COUNT then 1 else 2) else None)"

lemma clock_table: "k \<le> 16 \<Longrightarrow> clock_from (count_list (take k PICK_ORDER)) (\<lambda>_. 0) 0 PICK_ORDER = clock_at k"
proof -
  have "list_all (\<lambda>k. clock_from (count_list (take k PICK_ORDER)) (\<lambda>_. 0) 0 PICK_ORDER = clock_at k) [0..<17]"
    by code_simp
  then show "k \<le> 16 \<Longrightarrow> ?thesis" by (auto simp: list_all_iff)
qed

lemma count_table: "k \<le> 16 \<Longrightarrow> (\<Sum>n \<leftarrow> seats. count_list (take k PICK_ORDER) n) = k"
proof -
  have "list_all (\<lambda>k. (\<Sum>n \<leftarrow> seats. count_list (take k PICK_ORDER) n) = k) [0..<17]"
    by code_simp
  then show "k \<le> 16 \<Longrightarrow> ?thesis" by (auto simp: list_all_iff)
qed

lemma length_PICK_ORDER: "length PICK_ORDER = 16"
  by (simp add: PICK_ORDER_def ALLIANCE_COUNT_def)

lemma pick_count_sum: "pick_count slots = (\<Sum>n \<leftarrow> seats. length (picks_of slots n))"
proof (induction slots)
  case Nil
  then show ?case by (simp add: pick_count_def picks_of_def)
next
  case (Cons s ss)
  have one: "(\<Sum>n \<leftarrow> ns. if x = Some (int n) then 1 else 0) = (if \<exists>n \<in> set ns. x = Some (int n) then 1 else 0 :: nat)"
    if "distinct ns" for x and ns :: "nat list"
    using that by (induction ns) auto
  have "(\<Sum>n \<leftarrow> seats. length (picks_of (s # ss) n)) =
      (\<Sum>n \<leftarrow> seats. (if ps_status s = SlotPicked then (if ps_by s = Some (int n) then 1 else 0) else 0) + length (picks_of ss n))"
    by (intro arg_cong [of _ _ sum_list] map_cong) (auto simp: picks_of_def)
  also have "\<dots> = (if ps_status s = SlotPicked \<and> (\<exists>n \<in> set seats. ps_by s = Some (int n)) then 1 else 0) + pick_count ss"
    using one [of seats "ps_by s"] distinct_upt [of 1 "Suc ALLIANCE_COUNT"]
    by (cases "ps_status s = SlotPicked") (simp_all only: seats_def sum_list_addf Cons if_True if_False simp_thms, simp_all)
  finally show ?case by (simp add: pick_count_def)
qed

definition in_order :: "nat \<Rightarrow> picklist_slot list \<Rightarrow> bool" where
  "in_order k slots \<longleftrightarrow> k \<le> 16 \<and> board_ok slots \<and> full_board slots \<and>
     (\<forall>n \<in> set seats. length (picks_of slots n) = count_list (take k PICK_ORDER) n)"

lemma in_order_clock:
  assumes "in_order k slots"
  shows "open_seat slots = clock_at k" and "pick_count slots = k"
proof -
  have "clock_from (\<lambda>n. length (picks_of slots n)) (\<lambda>_. 0) 0 PICK_ORDER =
      clock_from (count_list (take k PICK_ORDER)) (\<lambda>_. 0) 0 PICK_ORDER"
    using assms by (intro clock_from_cong) (simp add: in_order_def set_PICK_ORDER)
  then show "open_seat slots = clock_at k" using assms by (simp add: open_seat_def in_order_def clock_table)
  have "(\<Sum>n \<leftarrow> seats. length (picks_of slots n)) = (\<Sum>n \<leftarrow> seats. count_list (take k PICK_ORDER) n)"
    using assms by (intro arg_cong [of _ _ sum_list] map_cong) (auto simp: in_order_def)
  then show "pick_count slots = k" using assms by (simp add: pick_count_sum count_table in_order_def)
qed

lemma on_board_small:
  assumes "in_order k slots"
  shows "finite (on_board slots)" and "card (on_board slots) \<le> 8 + k"
proof -
  show "finite (on_board slots)" by (simp add: on_board_def)
  have "card (on_board slots) \<le> (\<Sum>n \<in> set seats. card (set_option (captain_of slots n) \<union> set (picks_of slots n)))"
    unfolding on_board_def by (rule card_UN_le) simp
  also have "\<dots> \<le> (\<Sum>n \<in> set seats. 1 + length (picks_of slots n))"
  proof (rule sum_mono)
    fix n
    have "card (set_option (captain_of slots n)) \<le> 1" by (cases "captain_of slots n") simp_all
    then show "card (set_option (captain_of slots n) \<union> set (picks_of slots n)) \<le> 1 + length (picks_of slots n)"
      using card_Un_le [of "set_option (captain_of slots n)" "set (picks_of slots n)"] card_length [of "picks_of slots n"] by linarith
  qed
  also have "\<dots> = 8 + pick_count slots"
    by (simp only: sum.distrib pick_count_sum sum_list_distinct_conv_sum_set [OF distinct_upt] seats_def)
      (simp add: ALLIANCE_COUNT_def)
  finally show "card (on_board slots) \<le> 8 + k" using in_order_clock(2) [OF assms] by simp
qed

fun run_picks :: "picklist_slot list \<Rightarrow> string list \<Rightarrow> string list \<Rightarrow> picklist_slot list" where
  "run_picks slots ranked [] = slots"
| "run_picks slots ranked (t # ts) = run_picks (pickTeam slots t ranked) ranked ts"

fun legal_picks :: "picklist_slot list \<Rightarrow> string list \<Rightarrow> string list \<Rightarrow> bool" where
  "legal_picks slots ranked [] \<longleftrightarrow> True"
| "legal_picks slots ranked (t # ts) \<longleftrightarrow> t \<noteq> [] \<and> canBePicked (draftFromSlots slots {}) t \<and>
     legal_picks (pickTeam slots t ranked) ranked ts"

definition ranking_ok :: "string list \<Rightarrow> bool" where
  "ranking_ok ranked \<longleftrightarrow> distinct ranked \<and> [] \<notin> set ranked \<and> 24 \<le> length ranked"

lemma in_order_pick:
  assumes io: "in_order k slots" and can: "canBePicked (draftFromSlots slots {}) t" and "t \<noteq> []" and rk: "ranking_ok ranked"
  shows "in_order (Suc k) (pickTeam slots t ranked)"
proof -
  have ok: "board_ok slots" "full_board slots" using io by (auto simp: in_order_def)
  then have nm: "named slots" by (simp add: board_ok_def)
  obtain p r where c: "open_seat slots = Some (p, r)"
    using can by (auto simp: canBePicked_def draft_board [OF nm] split: option.splits)
  then have k: "k < 16" "p = PICK_ORDER ! k"
    using in_order_clock(1) [OF io] by (auto simp: clock_at_def ALLIANCE_COUNT_def split: if_splits)
  have free: "find (\<lambda>r. r \<notin> on_board slots) ranked \<noteq> None"
  proof
    assume "find (\<lambda>r. r \<notin> on_board slots) ranked = None"
    then have "set ranked \<subseteq> on_board slots" by (auto simp: find_None_iff)
    from card_mono [OF on_board_small(1) [OF io] this] on_board_small(2) [OF io] k(1) rk
    show False by (simp add: ranking_ok_def distinct_card)
  qed
  have P: "board_ok (pickTeam slots t ranked) \<and> (\<forall>n \<in> set seats.
      captain_of (pickTeam slots t ranked) n = captain_after slots t ranked n \<and>
      length (picks_of (pickTeam slots t ranked) n) = length (picks_of slots n) + (if n = p then 1 else 0) \<and>
      set (picks_of (pickTeam slots t ranked) n) = set (picks_of slots n) \<union> (if n = p then {t} else {}))"
    by (rule pick_result [OF ok(1) can c \<open>t \<noteq> []\<close>]) (use rk in \<open>simp add: ranking_ok_def\<close>)
  have "captain_after slots t ranked n \<noteq> None" if "n \<in> set seats" for n
    using ok(2) that free by (auto simp: captain_after_def full_board_def set_seats split: option.split)
  with P have "full_board (pickTeam slots t ranked)" by (simp add: full_board_def)
  moreover have "count_list (take (Suc k) PICK_ORDER) n = count_list (take k PICK_ORDER) n + (if n = p then 1 else 0)" for n
    using k by (simp add: take_Suc_conv_app_nth length_PICK_ORDER)
  ultimately show ?thesis using P io k(1) by (simp add: in_order_def)
qed

lemma in_order_run:
  "in_order k slots \<Longrightarrow> legal_picks slots ranked ts \<Longrightarrow> ranking_ok ranked \<Longrightarrow>
     in_order (k + length ts) (run_picks slots ranked ts)"
proof (induction ts arbitrary: k slots)
  case (Cons t ts)
  then have "in_order (Suc k) (pickTeam slots t ranked)" by (intro in_order_pick) auto
  from Cons.IH [OF this] Cons.prems show ?case by simp
qed simp

lemma in_order_seed:
  assumes "listed slots" and "named slots" and "ranking_ok ranked"
  shows "in_order 0 (seedCaptains slots ranked)"
proof -
  have S: "listed (seedCaptains slots ranked) \<and> named (seedCaptains slots ranked) \<and>
    (\<forall>n \<in> set seats. captains (seedCaptains slots ranked) n = {ranked ! (n - 1)} \<and>
       picks_of (seedCaptains slots ranked) n = [])"
    using assms by (intro seed_result) (auto simp: ranking_ok_def ALLIANCE_COUNT_def)
  then have c: "captain_of (seedCaptains slots ranked) n = Some (ranked ! (n - 1))" if "n \<in> set seats" for n
    using that by (intro captain_of_single) blast
  with S show ?thesis by (simp add: in_order_def board_ok_def one_captain_def full_board_def)
qed


lemma decline_refuses:
  assumes "\<not> list_ex (\<lambda>s. ps_team s = t \<and> ps_status s = SlotCaptain) slots"
  shows "t \<in> ds_refused (draftFromSlots (declineTeam slots t) refused) \<and>
    filter (\<lambda>s. ps_team s \<noteq> t) (declineTeam slots t) = filter (\<lambda>s. ps_team s \<noteq> t) slots"
proof -
  have set: "t \<in> ps_team ` {s \<in> set (setSlot t (\<lambda>s. s\<lparr>ps_status := SlotDeclined, ps_by := None\<rparr>) ss). ps_status s = SlotDeclined}"
    if "t \<in> ps_team ` set ss" for ss
    using that
  proof (induction ss)
    case (Cons a ss)
    then show ?case by (cases "ps_team a = t") (force simp: image_iff)+
  qed simp
  have oth: "filter (\<lambda>s. ps_team s \<noteq> t) (setSlot t f ss) = filter (\<lambda>s. ps_team s \<noteq> t) ss"
    if "\<And>s. ps_team (f s) = ps_team s" for f ss
    using that by (induction ss) auto
  have "t \<in> ps_team ` set (withTeams slots [t])" "filter (\<lambda>s. ps_team s \<noteq> t) (withTeams slots [t]) = filter (\<lambda>s. ps_team s \<noteq> t) slots"
    by (auto simp: withTeams_def blankSlot_def)
  then show ?thesis using set oth assms
    by (simp add: declineTeam_def draftFromSlots_def Let_def case_prod_beta)
qed

lemma rank_loop_Some:
  "rank_loop ts rank seen i = Some k \<Longrightarrow> i \<le> k \<and> k < i + length ts \<and> ts ! (k - i) \<noteq> TierDnp \<and>
     seen + int (length (filter (\<lambda>t. t \<noteq> TierDnp) (take (k - i) ts))) + 1 = rank"
proof (induction ts arbitrary: seen i)
  case (Cons t ts)
  show ?case
  proof (cases "t \<noteq> TierDnp \<and> seen + 1 = rank")
    case True
    then show ?thesis using Cons.prems by auto
  next
    case False
    then have r: "rank_loop ts rank (if t = TierDnp then seen else seen + 1) (i + 1) = Some k"
      using Cons.prems by (auto split: if_splits)
    note IH = Cons.IH [OF r]
    then have "k - i = Suc (k - (i + 1))" by linarith
    with IH False show ?thesis by (auto split: if_splits)
  qed
qed simp

lemma rank_loop_None:
  "rank_loop ts rank seen i = None \<Longrightarrow> seen < rank \<Longrightarrow> seen + int (length (filter (\<lambda>t. t \<noteq> TierDnp) ts)) < rank"
proof (induction ts arbitrary: seen i)
  case (Cons t ts)
  then show ?case by (fastforce split: if_splits)
qed simp

lemma slotIndexForRank_result:
  assumes "1 \<le> rank"
  shows "if rank \<le> int (length (filter (\<lambda>s. ps_tier s \<noteq> TierDnp) slots))
    then slotIndexForRank slots rank < length slots \<and> ps_tier (slots ! slotIndexForRank slots rank) \<noteq> TierDnp \<and>
      int (length (filter (\<lambda>s. ps_tier s \<noteq> TierDnp) (take (slotIndexForRank slots rank) slots))) + 1 = rank
    else slotIndexForRank slots rank = length slots - 1"
proof -
  have f: "length (filter (\<lambda>t. t \<noteq> TierDnp) (map ps_tier ss)) = length (filter (\<lambda>s. ps_tier s \<noteq> TierDnp) ss)" for ss
    by (simp add: filter_map o_def)
  show ?thesis
  proof (cases "rank_loop (map ps_tier slots) rank 0 0")
    case None
    with rank_loop_None [OF None] assms f [of slots] show ?thesis by (simp add: slotIndexForRank_def)
  next
    case (Some k)
    have k: "k < length slots" "ps_tier (slots ! k) \<noteq> TierDnp" 
        "int (length (filter (\<lambda>s. ps_tier s \<noteq> TierDnp) (take k slots))) + 1 = rank"
      using rank_loop_Some [OF Some] f [of "take k slots"] by (auto simp: take_map)
    have "length (filter (\<lambda>s. ps_tier s \<noteq> TierDnp) (take (Suc k) slots)) \<le> length (filter (\<lambda>s. ps_tier s \<noteq> TierDnp) slots)"
      by (metis append_take_drop_id filter_append length_append le_add1)
    then have "rank \<le> int (length (filter (\<lambda>s. ps_tier s \<noteq> TierDnp) slots))"
      using k by (simp add: take_Suc_conv_app_nth)
    with k Some show ?thesis by (simp add: slotIndexForRank_def)
  qed
qed


section \<open>Properties\<close>

definition teams :: "nat \<Rightarrow> nat \<Rightarrow> string list" where
  "teams a b = map (\<lambda>i. ''frc'' @ digits_of i) [a..<b]"

lemma teams_ok: "ranking_ok (teams 1 25)"
proof -
  have "distinct (teams 1 25) \<and> list_all (\<lambda>t. t \<noteq> []) (teams 1 25)" by code_simp
  then show ?thesis by (auto simp: ranking_ok_def list_all_iff) (simp_all add: teams_def)
qed

lemma legal_example: "legal_picks (seedCaptains [] (teams 1 25)) (teams 1 25) [''frc2'', ''frc20'']"
  by code_simp

text \<open>Claim C7: alliance selection runs in serpentine order.  Start from any list of distinct teams and a
  ranking of at least 24, seed the captains and record any sequence of picks the board accepts,
  captains of alliances below among them.  Then all eight alliances keep a captain, as many picks are
  counted as were made, and the board has on the clock alliance 1 to 8 in round one, 8 to 1 in round
  two, and nobody after the sixteenth pick; no seventeenth is accepted.\<close>

theorem selection_is_serpentine:
  assumes "listed slots" and "named slots" and "ranking_ok ranked"
    and "legal_picks (seedCaptains slots ranked) ranked ts"
  shows "let board = draftFromSlots (run_picks (seedCaptains slots ranked) ranked ts) {}
    in length ts \<le> 16 \<and> ds_hasCaptains board \<and> ds_picksMade board = length ts \<and>
       ds_onClock board = (if length ts < 16
         then Some ([1, 2, 3, 4, 5, 6, 7, 8, 8, 7, 6, 5, 4, 3, 2, 1] ! length ts, if length ts < 8 then 1 else 2)
         else None)"
proof -
  have io: "in_order (0 + length ts) (run_picks (seedCaptains slots ranked) ranked ts)"
    by (rule in_order_run [OF in_order_seed [OF assms(1-3)] assms(4,3)])
  then have nm: "named (run_picks (seedCaptains slots ranked) ranked ts)" by (simp add: in_order_def board_ok_def)
  have po: "PICK_ORDER = [1, 2, 3, 4, 5, 6, 7, 8, 8, 7, 6, 5, 4, 3, 2, 1]" by code_simp
  from io in_order_clock [OF io] show ?thesis
    by (simp add: draft_board [OF nm] Let_def in_order_def clock_at_def ALLIANCE_COUNT_def po)
qed

lemma selection_is_serpentine_witness:
  "ds_onClock (draftFromSlots (run_picks (seedCaptains [] (teams 1 25)) (teams 1 25) [''frc2'', ''frc20'']) {}) = Some (3, 1)"
proof -
  have e: "listed []" "named []" by (simp_all add: listed_def named_def)
  from selection_is_serpentine [OF e teams_ok legal_example] show ?thesis by (simp add: Let_def)
qed

text \<open>Claim C8: what a pick does.  The team joins the alliance on the clock, which is the only one
  whose picks change; if it led no alliance, all captains stay, and if it led alliance m, the captains
  of the alliances below move up by one and the best-ranked team that was on no alliance leads the
  eighth.  The board stays well formed: one slot for each team, one captain for each alliance.  A team
  that cannot be picked leaves the list as it was.\<close>

theorem pick_moves_the_board:
  assumes "board_ok slots" and "t \<noteq> []" and "[] \<notin> set ranked"
  defines "before \<equiv> draftFromSlots slots {}" and "after \<equiv> draftFromSlots (pickTeam slots t ranked) {}"
  shows "board_ok (pickTeam slots t ranked) \<and>
    (\<not> canBePicked before t \<longrightarrow> pickTeam slots t ranked = slots) \<and>
    (canBePicked before t \<longrightarrow> (\<exists>p r. ds_onClock before = Some (p, r) \<and>
      (\<forall>n \<in> {1..8}. set (al_picks (ds_alliances after ! (n - 1))) =
          set (al_picks (ds_alliances before ! (n - 1))) \<union> (if n = p then {t} else {}) \<and>
        al_captain (ds_alliances after ! (n - 1)) =
          (case find (\<lambda>a. al_captain a = Some t) (ds_alliances before) of
             None \<Rightarrow> al_captain (ds_alliances before ! (n - 1))
           | Some gone \<Rightarrow> if n < al_number gone then al_captain (ds_alliances before ! (n - 1))
               else if n < 8 then al_captain (ds_alliances before ! n)
               else find (\<lambda>team. team \<notin> ds_taken before) ranked))))"
proof -
  have nm: "named slots" using assms(1) by (simp add: board_ok_def)
  note D = draft_board [OF nm, of "{}"]
  show ?thesis
  proof (cases "canBePicked before t")
    case False
    then have "pickTeam slots t ranked = slots"
      by (simp add: pickTeam_def before_def Let_def split: option.split)
    with False assms(1) show ?thesis by simp
  next
    case True
    then obtain p r where c: "open_seat slots = Some (p, r)"
      by (auto simp: before_def canBePicked_def D split: option.splits)
    note P = pick_result [OF assms(1) True [unfolded before_def] c assms(2,3)]
    then have nm': "named (pickTeam slots t ranked)" by (simp add: board_ok_def)
    have row: "rows_of ss ! (n - 1) = \<lparr>al_number = n, al_captain = captain_of ss n, al_picks = picks_of ss n\<rparr>"
      "n < 8 \<Longrightarrow> rows_of ss ! n = \<lparr>al_number = n + 1, al_captain = captain_of ss (n + 1), al_picks = picks_of ss (n + 1)\<rparr>"
      if "n \<in> {1..8}" for n ss
    proof -
      have "n - 1 < ALLIANCE_COUNT" "n - 1 + 1 = n" using that by (auto simp: ALLIANCE_COUNT_def)
      then show "rows_of ss ! (n - 1) = \<lparr>al_number = n, al_captain = captain_of ss n, al_picks = picks_of ss n\<rparr>"
        using rows_of_nth [of "n - 1" ss] by simp
    qed (use rows_of_nth [of n ss] in \<open>simp add: ALLIANCE_COUNT_def\<close>)
    have s: "n \<in> set seats \<longleftrightarrow> n \<in> {1..8}" for n by (auto simp: set_seats ALLIANCE_COUNT_def)
    show ?thesis
      using True P row
      by (auto simp: before_def after_def D draft_board [OF nm'] c s captain_after_def find_captain_row
          ALLIANCE_COUNT_def split: option.split)
  qed
qed


lemma seeded_board_ok: "board_ok (seedCaptains [] (teams 1 25))"
  using in_order_seed [of "[]" "teams 1 25"] teams_ok by (simp add: in_order_def listed_def named_def)

lemma pick_moves_the_board_witness:
  "al_captain (ds_alliances (draftFromSlots (pickTeam (seedCaptains [] (teams 1 25)) ''frc2'' (teams 1 25)) {}) ! 7)
    = Some ''frc9''"
proof -
  let ?s = "seedCaptains [] (teams 1 25)"
  have can: "canBePicked (draftFromSlots ?s {}) ''frc2''" by code_simp
  have b: "find (\<lambda>a. al_captain a = Some ''frc2'') (ds_alliances (draftFromSlots ?s {})) = Some \<lparr>al_number = 2, al_captain = Some ''frc2'', al_picks = []\<rparr>"
    "find (\<lambda>team. team \<notin> ds_taken (draftFromSlots ?s {})) (teams 1 25) = Some ''frc9''" by code_simp+
  have "[] \<notin> set (teams 1 25)" using teams_ok by (simp add: ranking_ok_def)
  from pick_moves_the_board [OF seeded_board_ok _ this, of "''frc2''"] can b show ?thesis
    by (auto simp del: One_nat_def dest!: bspec [of _ _ 8])
qed

text \<open>seeding starts selection over.  Whatever was on the board, the first eight of the
  ranking captain alliances 1 to 8 in order, nobody is picked, and alliance 1 is on the clock in round
  one; teams the list left out are added and the list keeps one slot for each team.\<close>

theorem seeding_starts_over:
  assumes "listed slots" and "named slots" and "ranking_ok ranked"
  defines "board \<equiv> draftFromSlots (seedCaptains slots ranked) {}"
  shows "board_ok (seedCaptains slots ranked) \<and> map al_captain (ds_alliances board) = map Some (take 8 ranked) \<and>
    (\<forall>a \<in> set (ds_alliances board). al_picks a = []) \<and> ds_picksMade board = 0 \<and> ds_onClock board = Some (1, 1)"
proof -
  have S: "listed (seedCaptains slots ranked) \<and> named (seedCaptains slots ranked) \<and>
    (\<forall>n \<in> set seats. captains (seedCaptains slots ranked) n = {ranked ! (n - 1)} \<and>
       picks_of (seedCaptains slots ranked) n = [])"
    using assms(1-3) by (intro seed_result) (auto simp: ranking_ok_def ALLIANCE_COUNT_def)
  then have c: "captain_of (seedCaptains slots ranked) n = Some (ranked ! (n - 1))" if "n \<in> set seats" for n
    using that by (intro captain_of_single) blast
  have io: "in_order 0 (seedCaptains slots ranked)" by (rule in_order_seed [OF assms(1-3)])
  have "map al_captain (rows_of (seedCaptains slots ranked)) = map Some (take 8 ranked)"
  proof (rule nth_equalityI)
    show "length (map al_captain (rows_of (seedCaptains slots ranked))) = length (map Some (take 8 ranked))"
      using assms(3) by (simp add: rows_of_def length_seats ALLIANCE_COUNT_def ranking_ok_def)
    fix i assume "i < length (map al_captain (rows_of (seedCaptains slots ranked)))"
    then have i: "i < ALLIANCE_COUNT" by (simp add: rows_of_def length_seats)
    then show "map al_captain (rows_of (seedCaptains slots ranked)) ! i = map Some (take 8 ranked) ! i"
      using c [of "i + 1"] assms(3)
      by (simp add: rows_of_nth rows_of_def length_seats seats_nth ALLIANCE_COUNT_def ranking_ok_def set_seats)
  qed
  moreover have "clock_at 0 = Some (1, 1)" by code_simp
  ultimately show ?thesis
    using S io in_order_clock [OF io] by (auto simp: board_def draft_board in_order_def board_ok_def rows_of_def)
qed

lemma seeding_starts_over_witness:
  "ds_onClock (draftFromSlots (seedCaptains [] (teams 1 25)) {}) = Some (1, 1)"
proof -
  have e: "listed []" "named []" by (simp_all add: listed_def named_def)
  from seeding_starts_over [OF e teams_ok] show ?thesis by blast
qed

text \<open>The clock without its loop: the first round goes up the eight alliances to the first with no
  pick, the second comes down again to the first with fewer than two.\<close>

lemma clock_without_loop:
  "clock_from picks (\<lambda>_. 0) 0 PICK_ORDER =
     (case find (\<lambda>n. picks n = 0) [1, 2, 3, 4, 5, 6, 7, 8] of Some n \<Rightarrow> Some (n, 1)
      | None \<Rightarrow> map_option (\<lambda>n. (n, 2)) (find (\<lambda>n. picks n < 2) [8, 7, 6, 5, 4, 3, 2, 1]))"
proof -
  have po: "PICK_ORDER = [1, 2, 3, 4, 5, 6, 7, 8, 8, 7, 6, 5, 4, 3, 2, 1]" by code_simp
  show ?thesis unfolding po by (simp add: Let_def ALLIANCE_COUNT_def)
qed

text \<open>Claim C9: the board is read from the slots as meant, without regard to the loops that do it, when
  no slot has an empty name.  Alliance n is led by the first slot that names a captain of n and holds the
  teams of the slots picked by n, in the order of the list; taken are exactly the teams of the eight
  alliances, refused those told of and those the list marks declined.  Nobody is on the clock until all
  eight have a captain; then it is, in round 1, the lowest-numbered alliance without a pick, and when
  all have one, in round 2, the highest-numbered alliance with fewer than two; the draft is over when
  all have two.\<close>

theorem board_is_read_as_meant:
  assumes "named slots"
  shows "draftFromSlots slots refused =
    \<lparr>ds_alliances = map (\<lambda>n. \<lparr>al_number = n, al_captain = captain_of slots n, al_picks = picks_of slots n\<rparr>) [1, 2, 3, 4, 5, 6, 7, 8],
     ds_picksMade = (\<Sum>n \<leftarrow> [1, 2, 3, 4, 5, 6, 7, 8]. length (picks_of slots n)),
     ds_onClock = (if \<exists>n \<in> {1..8}. captain_of slots n = None then None
       else case find (\<lambda>n. picks_of slots n = []) [1, 2, 3, 4, 5, 6, 7, 8] of Some n \<Rightarrow> Some (n, 1)
         | None \<Rightarrow> map_option (\<lambda>n. (n, 2)) (find (\<lambda>n. length (picks_of slots n) < 2) [8, 7, 6, 5, 4, 3, 2, 1])),
     ds_taken = (\<Union>n \<in> {1..8}. set_option (captain_of slots n) \<union> set (picks_of slots n)),
     ds_refused = refused \<union> ps_team ` {s \<in> set slots. ps_status s = SlotDeclined},
     ds_hasCaptains = (\<forall>n \<in> {1..8}. captain_of slots n \<noteq> None)\<rparr>"
proof -
  have e: "seats = [1, 2, 3, 4, 5, 6, 7, 8]" "set seats = {1..8}" by code_simp (auto simp: set_seats ALLIANCE_COUNT_def)
  have "open_seat slots = (if \<exists>n \<in> {1..8}. captain_of slots n = None then None
       else case find (\<lambda>n. picks_of slots n = []) [1, 2, 3, 4, 5, 6, 7, 8] of Some n \<Rightarrow> Some (n, 1)
         | None \<Rightarrow> map_option (\<lambda>n. (n, 2)) (find (\<lambda>n. length (picks_of slots n) < 2) [8, 7, 6, 5, 4, 3, 2, 1]))"
    unfolding open_seat_def full_board_def e(2) clock_without_loop length_0_conv by (auto simp del: find.simps)
  with e show ?thesis
    by (simp only: draft_board [OF assms] rows_of_def pick_count_sum on_board_def full_board_def)
qed

lemma board_is_read_as_meant_witness:
  "ds_onClock (draftFromSlots (pickTeam (seedCaptains [] (teams 1 25)) ''frc2'' (teams 1 25)) {}) = Some (2, 1)"
proof -
  let ?s = "pickTeam (seedCaptains [] (teams 1 25)) ''frc2'' (teams 1 25)"
  have nm: "named ?s" unfolding named_def by code_simp
  have "list_all (\<lambda>n. captain_of ?s n \<noteq> None) seats" by code_simp
  then have "\<not> (\<exists>n \<in> {1..8}. captain_of ?s n = None)"
    by (auto simp: list_all_iff set_seats ALLIANCE_COUNT_def)
  moreover have "find (\<lambda>n. picks_of ?s n = []) [1, 2, 3, 4, 5, 6, 7, 8] = Some 2" by code_simp
  ultimately show ?thesis
    unfolding board_is_read_as_meant [OF nm] draft_state.select_convs by simp
qed

text \<open>a team that declines an invitation cannot be picked from then on, as long as its slot
  says so, and no other team's slot is touched; a captain's slot is left alone.\<close>

theorem declined_team_is_out:
  "if list_ex (\<lambda>s. ps_team s = t \<and> ps_status s = SlotCaptain) slots then declineTeam slots t = slots
   else \<not> canBePicked (draftFromSlots (declineTeam slots t) refused) t \<and>
     filter (\<lambda>s. ps_team s \<noteq> t) (declineTeam slots t) = filter (\<lambda>s. ps_team s \<noteq> t) slots"
  using decline_refuses [of t slots refused]
  by (auto simp: declineTeam_def canBePicked_def split: option.split)

text \<open>\<open>move to rank r\<close> goes to the slot that has rank r among the teams not marked
  do-not-pick, and to the last slot when the list has fewer.\<close>

theorem rank_names_a_slot:
  assumes "1 \<le> rank"
  shows "if rank \<le> int (length (filter (\<lambda>s. ps_tier s \<noteq> TierDnp) slots))
    then slotIndexForRank slots rank < length slots \<and> ps_tier (slots ! slotIndexForRank slots rank) \<noteq> TierDnp \<and>
      int (length (filter (\<lambda>s. ps_tier s \<noteq> TierDnp) (take (slotIndexForRank slots rank) slots))) + 1 = rank
    else slotIndexForRank slots rank = length slots - 1"
  by (rule slotIndexForRank_result [OF assms])

lemma rank_names_a_slot_witness:
  "slotIndexForRank [(blankSlot ''frc1'')\<lparr>ps_tier := TierDnp\<rparr>, blankSlot ''frc2''] 7 = 1"
  using rank_names_a_slot [of 7 "[(blankSlot ''frc1'')\<lparr>ps_tier := TierDnp\<rparr>, blankSlot ''frc2'']"]
  by (simp add: blankSlot_def)

section \<open>What modelling showed\<close>

text \<open>A team that declined and is then promoted to captain the eighth alliance loses the mark: its
  slot says captain, and in round one an alliance above can pick it after all.  Here frc9 declines,
  alliance 1 picks captain 2, frc9 is promoted, and alliance 2 may pick it.\<close>

lemma declined_team_is_pickable_again:
  "let s1 = declineTeam (seedCaptains [] (teams 1 25)) ''frc9'';
       s2 = pickTeam s1 ''frc2'' (teams 1 25)
   in \<not> canBePicked (draftFromSlots s1 {}) ''frc9'' \<and> canBePicked (draftFromSlots s2 {}) ''frc9''"
  by code_simp

end
