(* ===== verification/PicklistEditor.thy ===== *)
theory PicklistEditor
  imports PicklistDraft
begin

text \<open>
  Editing a shared picklist, \<open>src/ScoutingApp/src/features/picklists/usePicklistEditor.ts\<close>: a state
  machine whose state is the module's \<open>memory\<close> of drafts, what the device stores of them, and the refs
  and the visible state of the hook.  A save is two steps, the request and its reply, with anything in
  between.  The code compares documents by identity (\<open>latest.doc === sent\<close>), so a document carries the
  name of its object, \<open>pl_obj\<close>, and every literal, parse or edit makes a new one.  The device's storage
  either can hold a draft or cannot, for each write anew; reading and removing do not fail.  The steps
  are executable (\<open>act\<close>); a run is a list of them.  The timers are in the order of the code's map, which
  a renewed timer keeps.  The page the hook belongs to is opened once per start of the app.
\<close>

section \<open>Data\<close>

record picklist =
  pl_obj :: nat
  pl_id :: int
  pl_event_key :: string
  pl_title :: string
  pl_slots :: "picklist_slot list"
  pl_version :: int
  pl_live_mode :: bool
  pl_archived :: bool

record edit_draft =
  dr_doc :: picklist
  dr_conflict :: "picklist option"
  dr_error :: "string option"

text \<open>\<open>pe_next\<close> names the next object and \<open>pe_here\<close> says whether the session is in the workspace of
  the editor.\<close>

record editor =
  pe_memory :: "int \<Rightarrow> edit_draft option"
  pe_stored :: "int \<Rightarrow> edit_draft option"
  pe_active :: "picklist option"
  pe_confirmed :: "int \<Rightarrow> picklist option"
  pe_timers :: "int list"
  pe_flights :: "int \<Rightarrow> picklist option"
  pe_mounted :: bool
  pe_here :: bool
  pe_next :: nat
  pv_doc :: "picklist option"
  pv_saving :: bool
  pv_pending :: bool
  pv_conflict :: bool
  pv_notice :: string

definition STORAGE_FULL :: string where
  "STORAGE_FULL = ''Device storage is full. Keep this tab open until your changes are shared.''"

section \<open>Drafts\<close>

definition read_draft :: "int \<Rightarrow> editor \<Rightarrow> edit_draft option \<times> editor" where
  "read_draft i ed = (case pe_memory ed i of Some d \<Rightarrow> (Some d, ed)
     | None \<Rightarrow> (case pe_stored ed i of None \<Rightarrow> (None, ed)
       | Some d \<Rightarrow> if pl_id (dr_doc d) = i
           then (let parsed = d\<lparr>dr_doc := (dr_doc d)\<lparr>pl_obj := pe_next ed\<rparr>\<rparr>
                 in (Some parsed, ed\<lparr>pe_memory := (pe_memory ed)(i := Some parsed), pe_next := pe_next ed + 1\<rparr>))
           else (None, ed)))"

text \<open>\<open>fits\<close> says whether the storage takes the write; if not, the old entry stays.\<close>

definition persist :: "bool \<Rightarrow> edit_draft \<Rightarrow> editor \<Rightarrow> editor" where
  "persist fits d ed =
     (let i = pl_id (dr_doc d)
      in if fits then ed\<lparr>pe_memory := (pe_memory ed)(i := Some d), pe_stored := (pe_stored ed)(i := Some d)\<rparr>
         else ed\<lparr>pe_memory := (pe_memory ed)(i := Some (d\<lparr>dr_error := Some STORAGE_FULL\<rparr>))\<rparr>)"

definition forget :: "int \<Rightarrow> editor \<Rightarrow> editor" where
  "forget i ed = ed\<lparr>pe_memory := (pe_memory ed)(i := None), pe_stored := (pe_stored ed)(i := None)\<rparr>"

definition notice_of :: "edit_draft option \<Rightarrow> string" where
  "notice_of draft = (case draft of None \<Rightarrow> []
     | Some d \<Rightarrow> if dr_conflict d \<noteq> None
         then ''Another scout changed this list. Your edits are kept on this device. Choose which version to share.''
         else str_or (opt_str (dr_error d)) ''Changes kept on this device; waiting to share.'')"

definition publish :: "picklist option \<Rightarrow> editor \<Rightarrow> editor" where
  "publish next ed =
     (let ed1 = ed\<lparr>pe_active := next\<rparr>
      in if \<not> pe_mounted ed then ed1
         else (case (case next of None \<Rightarrow> (None, ed1) | Some p \<Rightarrow> read_draft (pl_id p) ed1) of (draft, ed2) \<Rightarrow>
           ed2\<lparr>pv_doc := next,
               pv_saving := (case next of None \<Rightarrow> False | Some p \<Rightarrow> pe_flights ed2 (pl_id p) \<noteq> None),
               pv_pending := (draft \<noteq> None),
               pv_conflict := (case draft of None \<Rightarrow> False | Some d \<Rightarrow> dr_conflict d \<noteq> None),
               pv_notice := notice_of draft\<rparr>))"

definition is_active :: "int \<Rightarrow> editor \<Rightarrow> bool" where
  "is_active i ed = (case pe_active ed of None \<Rightarrow> False | Some p \<Rightarrow> pl_id p = i)"

section \<open>Saving\<close>

definition save_start :: "int \<Rightarrow> editor \<Rightarrow> editor" where
  "save_start i ed = (case read_draft i ed of (None, ed1) \<Rightarrow> ed1
     | (Some d, ed1) \<Rightarrow>
         if dr_conflict d \<noteq> None \<or> pe_flights ed1 i \<noteq> None \<or> \<not> pe_here ed1 then ed1
         else (let ed2 = ed1\<lparr>pe_flights := (pe_flights ed1)(i := Some (dr_doc d))\<rparr>
               in if is_active i ed2 then publish (pe_active ed2) ed2 else ed2))"

text \<open>The end of \<open>save\<close>: \<open>finally\<close>, and the next round when newer edits wait.\<close>

definition save_settle :: "int \<Rightarrow> editor \<Rightarrow> editor" where
  "save_settle i ed =
     (let ed1 = ed\<lparr>pe_flights := (pe_flights ed)(i := None)\<rparr>
      in if is_active i ed1
         then (case read_draft i ed1 of (draft, ed2) \<Rightarrow>
           publish (case draft of None \<Rightarrow> pe_active ed2 | Some d \<Rightarrow> Some (dr_doc d)) ed2)
         else ed1)"

definition save_again :: "int \<Rightarrow> picklist \<Rightarrow> editor \<Rightarrow> editor" where
  "save_again i sent ed = (case read_draft i ed of (None, ed1) \<Rightarrow> ed1
     | (Some d, ed1) \<Rightarrow> if dr_conflict d = None \<and> dr_error d = None \<and> pl_obj (dr_doc d) \<noteq> pl_obj sent
         then save_start i ed1 else ed1)"

definition set_active_if :: "int \<Rightarrow> picklist \<Rightarrow> editor \<Rightarrow> editor" where
  "set_active_if i p ed = (if is_active i ed then ed\<lparr>pe_active := Some p\<rparr> else ed)"

definition save_reply :: "int \<Rightarrow> picklist \<Rightarrow> bool \<Rightarrow> bool \<Rightarrow> editor \<Rightarrow> editor" where
  "save_reply i result conflict fits ed = (case pe_flights ed i of None \<Rightarrow> ed
     | Some sent \<Rightarrow>
        (let shared = result\<lparr>pl_obj := pe_next ed\<rparr>;
             ed1 = ed\<lparr>pe_confirmed := (pe_confirmed ed)(i := Some shared), pe_next := pe_next ed + 1\<rparr>
         in case read_draft i ed1 of
              (None, ed2) \<Rightarrow> save_settle i ed2
            | (Some latest, ed2) \<Rightarrow>
                save_again i sent (save_settle i
                  (if conflict then persist fits (latest\<lparr>dr_conflict := Some shared\<rparr>) ed2
                   else if pl_obj (dr_doc latest) = pl_obj sent
                   then set_active_if i shared (forget i ed2)
                   else (let newer = (dr_doc latest)\<lparr>pl_version := pl_version shared, pl_obj := pe_next ed2\<rparr>
                         in set_active_if i newer (persist fits \<lparr>dr_doc = newer, dr_conflict = None, dr_error = None\<rparr>
                              (ed2\<lparr>pe_next := pe_next ed2 + 1\<rparr>)))))))"

definition save_fails :: "int \<Rightarrow> string \<Rightarrow> bool \<Rightarrow> editor \<Rightarrow> editor" where
  "save_fails i message fits ed = (case pe_flights ed i of None \<Rightarrow> ed
     | Some sent \<Rightarrow> save_again i sent (save_settle i (case read_draft i ed of (None, ed1) \<Rightarrow> ed1
         | (Some latest, ed1) \<Rightarrow> persist fits (latest\<lparr>dr_error := Some message\<rparr>) ed1)))"

definition QUEUED_NOTICE :: string where
  "QUEUED_NOTICE = ''Saved on this device for sync. Reopen this list after reconnecting to review the shared version.''"

text \<open>The message of a failure: an edit queued for sync, or an error with its own message.\<close>

definition failure_text :: "string option \<Rightarrow> string" where
  "failure_text err = (case err of None \<Rightarrow> QUEUED_NOTICE
     | Some m \<Rightarrow> str_or m ''Could not share changes.'' @ '' Your edits are kept on this device. Retry when ready.'')"

section \<open>What the page does\<close>

definition select_list :: "picklist option \<Rightarrow> bool \<Rightarrow> editor \<Rightarrow> editor" where
  "select_list server fits ed = (case server of None \<Rightarrow> publish None ed
     | Some fetched \<Rightarrow>
        (let srv = (case pe_confirmed ed (pl_id fetched) of None \<Rightarrow> fetched
               | Some known \<Rightarrow> if pl_version known > pl_version fetched then known else fetched);
             i = pl_id srv
         in case read_draft i ed of
              (Some draft, ed1) \<Rightarrow>
                if pl_event_key (dr_doc draft) = pl_event_key srv then
                  (let ed2 = (if pl_version (dr_doc draft) < pl_version srv
                       then persist fits (draft\<lparr>dr_conflict := Some srv\<rparr>) ed1 else ed1)
                   in case read_draft i ed2 of
                        (None, ed3) \<Rightarrow> ed3
                      | (Some settled, ed3) \<Rightarrow>
                          (let ed4 = publish (Some (dr_doc settled)) ed3
                           in if dr_conflict settled = None \<and> dr_error settled = None \<and> i \<notin> set (pe_timers ed4)
                              then save_start i ed4 else ed4))
                else publish (Some srv) ed1
            | (None, ed1) \<Rightarrow> publish (Some srv) ed1))"

definition edit_list :: "(picklist \<Rightarrow> picklist) \<Rightarrow> bool \<Rightarrow> editor \<Rightarrow> editor" where
  "edit_list update fits ed = (case pe_active ed of None \<Rightarrow> ed
     | Some current \<Rightarrow> (case read_draft (pl_id current) ed of (previous, ed1) \<Rightarrow>
        (let next = (update current)\<lparr>pl_obj := pe_next ed1\<rparr>;
             ed2 = publish (Some next) (persist fits \<lparr>dr_doc = next,
               dr_conflict = (case previous of None \<Rightarrow> None | Some p \<Rightarrow> dr_conflict p), dr_error = None\<rparr>
               (ed1\<lparr>pe_next := pe_next ed1 + 1\<rparr>))
         in ed2\<lparr>pe_timers := (if pl_id next \<in> set (pe_timers ed2) then pe_timers ed2
               else pe_timers ed2 @ [pl_id next])\<rparr>)))"

definition timer_fires :: "int \<Rightarrow> editor \<Rightarrow> editor" where
  "timer_fires i ed = (if i \<in> set (pe_timers ed)
     then save_start i (ed\<lparr>pe_timers := removeAll i (pe_timers ed)\<rparr>) else ed)"

definition retry_list :: "bool \<Rightarrow> editor \<Rightarrow> editor" where
  "retry_list fits ed = (case pe_active ed of None \<Rightarrow> ed
     | Some current \<Rightarrow> (case read_draft (pl_id current) ed of (None, ed1) \<Rightarrow> ed1
       | (Some draft, ed1) \<Rightarrow>
          (let doc' = (dr_doc draft)\<lparr>pl_version := (case dr_conflict draft of None \<Rightarrow> pl_version (dr_doc draft)
                 | Some shared \<Rightarrow> pl_version shared), pl_obj := pe_next ed1\<rparr>
           in save_start (pl_id current) (publish (Some doc')
                (persist fits \<lparr>dr_doc = doc', dr_conflict = None, dr_error = None\<rparr> (ed1\<lparr>pe_next := pe_next ed1 + 1\<rparr>))))))"

definition discard_edits :: "editor \<Rightarrow> editor" where
  "discard_edits ed = (case pe_active ed of None \<Rightarrow> ed
     | Some current \<Rightarrow> (case read_draft (pl_id current) ed of (None, ed1) \<Rightarrow> ed1
       | (Some draft, ed1) \<Rightarrow> (case dr_conflict draft of None \<Rightarrow> ed1
           | Some shared \<Rightarrow> publish (Some shared) (forget (pl_id current) ed1))))"

definition pause_save :: "editor \<Rightarrow> editor" where
  "pause_save ed = (case pe_active ed of None \<Rightarrow> ed
     | Some p \<Rightarrow> ed\<lparr>pe_timers := removeAll (pl_id p) (pe_timers ed)\<rparr>)"

definition remove_list :: "int \<Rightarrow> editor \<Rightarrow> editor" where
  "remove_list i ed =
     (let ed1 = forget i (ed\<lparr>pe_timers := removeAll i (pe_timers ed)\<rparr>)
      in if is_active i ed1 then publish None ed1 else ed1)"

text \<open>Leaving the page sends at once what a timer would have sent.\<close>

definition leave_page :: "editor \<Rightarrow> editor" where
  "leave_page ed = (fold save_start (pe_timers ed) (ed\<lparr>pe_mounted := False\<rparr>))\<lparr>pe_timers := []\<rparr>"

definition warns_before_closing :: "int list \<Rightarrow> editor \<Rightarrow> bool" where
  "warns_before_closing ids ed \<longleftrightarrow> list_ex (\<lambda>i. pe_memory ed i \<noteq> None) ids"

text \<open>A reload of the app keeps what is stored.\<close>

definition reload_app :: "editor \<Rightarrow> editor" where
  "reload_app ed = ed\<lparr>pe_memory := \<lambda>_. None, pe_active := None, pe_confirmed := \<lambda>_. None, pe_timers := [],
     pe_flights := \<lambda>_. None, pe_mounted := True, pv_doc := None, pv_saving := False, pv_pending := False,
     pv_conflict := False, pv_notice := []\<rparr>"

datatype action = Select "picklist option" bool | Edit "picklist \<Rightarrow> picklist" bool | Timer int
  | Reply_ok int picklist bool bool | Reply_fails int "string option" bool | Retry_save bool | Discard
  | Pause | Remove int | Leave | Reload_app | Session bool

fun act :: "action \<Rightarrow> editor \<Rightarrow> editor" where
  "act (Select server fits) ed = select_list (map_option (\<lambda>p. p\<lparr>pl_obj := pe_next ed\<rparr>) server) fits
     (ed\<lparr>pe_next := pe_next ed + 1\<rparr>)"
| "act (Edit update fits) ed = edit_list update fits ed"
| "act (Timer i) ed = timer_fires i ed"
| "act (Reply_ok i result conflict fits) ed = save_reply i result conflict fits ed"
| "act (Reply_fails i err fits) ed = save_fails i (failure_text err) fits ed"
| "act (Retry_save fits) ed = retry_list fits ed"
| "act Discard ed = discard_edits ed"
| "act Pause ed = pause_save ed"
| "act (Remove i) ed = remove_list i ed"
| "act Leave ed = leave_page ed"
| "act Reload_app ed = reload_app ed"
| "act (Session here) ed = ed\<lparr>pe_here := here\<rparr>"


section \<open>No edit is lost\<close>

text \<open>The part of a list a scout edits.\<close>

definition content :: "picklist \<Rightarrow> string \<times> picklist_slot list \<times> bool" where
  "content p = (pl_title p, pl_slots p, pl_live_mode p)"

definition kept :: "editor \<Rightarrow> int \<Rightarrow> edit_draft option" where
  "kept ed i = (case pe_memory ed i of None \<Rightarrow> pe_stored ed i | Some d \<Rightarrow> Some d)"

text \<open>What the scouts of this device wish the lists to be: the last edit of each list that is not yet
  shared.  A wish ends when the server takes a save of just this content, when the scout discards it
  or removes the list, and when the app is reloaded although it said that the storage is full.\<close>

type_synonym wishes = "int \<Rightarrow> (string \<times> picklist_slot list \<times> bool) option"

fun wish_after :: "action \<Rightarrow> editor \<Rightarrow> wishes \<Rightarrow> wishes" where
  "wish_after (Edit update _) ed w = (case pe_active ed of None \<Rightarrow> w
     | Some p \<Rightarrow> w(pl_id (update p) := Some (content (update p))))"
| "wish_after (Reply_ok i _ conflict _) ed w = (case pe_flights ed i of None \<Rightarrow> w
     | Some sent \<Rightarrow> if \<not> conflict \<and> w i = Some (content sent) then w(i := None) else w)"
| "wish_after Discard ed w = (case pe_active ed of None \<Rightarrow> w
     | Some p \<Rightarrow> (case kept ed (pl_id p) of None \<Rightarrow> w
         | Some d \<Rightarrow> if dr_conflict d = None then w else w(pl_id p := None)))"
| "wish_after (Remove i) ed w = w(i := None)"
| "wish_after Reload_app ed w = (\<lambda>i. case pe_memory ed i of None \<Rightarrow> w i
     | Some d \<Rightarrow> if dr_error d = Some STORAGE_FULL then None else w i)"
| "wish_after _ ed w = w"

fun run_editor :: "action list \<Rightarrow> editor \<times> wishes \<Rightarrow> editor \<times> wishes" where
  "run_editor [] s = s"
| "run_editor (a # as) (ed, w) = run_editor as (act a ed, wish_after a ed w)"

definition new_editor :: editor where
  "new_editor = \<lparr>pe_memory = \<lambda>_. None, pe_stored = \<lambda>_. None, pe_active = None, pe_confirmed = \<lambda>_. None,
     pe_timers = [], pe_flights = \<lambda>_. None, pe_mounted = True, pe_here = True, pe_next = 0,
     pv_doc = None, pv_saving = False, pv_pending = False, pv_conflict = False, pv_notice = []\<rparr>"

definition safe :: "editor \<Rightarrow> wishes \<Rightarrow> bool" where
  "safe ed w \<longleftrightarrow>
     (\<forall>i d. pe_memory ed i = Some d \<longrightarrow> pl_id (dr_doc d) = i \<and> pl_obj (dr_doc d) < pe_next ed \<and>
        (dr_error d \<noteq> Some STORAGE_FULL \<longrightarrow>
           (\<exists>e. pe_stored ed i = Some e \<and> content (dr_doc e) = content (dr_doc d)))) \<and>
     (\<forall>i d. pe_stored ed i = Some d \<longrightarrow> pl_id (dr_doc d) = i) \<and>
     (\<forall>i s. pe_flights ed i = Some s \<longrightarrow> pl_obj s < pe_next ed \<and>
        (\<forall>d. pe_memory ed i = Some d \<longrightarrow> pl_obj (dr_doc d) = pl_obj s \<longrightarrow> dr_doc d = s)) \<and>
     (\<forall>i c. w i = Some c \<longrightarrow> (\<exists>d. kept ed i = Some d \<and> content (dr_doc d) = c))"

lemma content_simps [simp]: "content (p\<lparr>pl_obj := n\<rparr>) = content p" "content (p\<lparr>pl_version := v\<rparr>) = content p"
  by (simp_all add: content_def)

lemma safeI:
  assumes "\<And>i d. pe_memory ed i = Some d \<Longrightarrow> pl_id (dr_doc d) = i"
    "\<And>i d. pe_memory ed i = Some d \<Longrightarrow> pl_obj (dr_doc d) < pe_next ed"
    "\<And>i d. pe_memory ed i = Some d \<Longrightarrow> dr_error d \<noteq> Some STORAGE_FULL \<Longrightarrow>
       \<exists>e. pe_stored ed i = Some e \<and> content (dr_doc e) = content (dr_doc d)"
    "\<And>i d. pe_stored ed i = Some d \<Longrightarrow> pl_id (dr_doc d) = i"
    "\<And>i s. pe_flights ed i = Some s \<Longrightarrow> pl_obj s < pe_next ed"
    "\<And>i s d. pe_flights ed i = Some s \<Longrightarrow> pe_memory ed i = Some d \<Longrightarrow> pl_obj (dr_doc d) = pl_obj s \<Longrightarrow> dr_doc d = s"
    "\<And>i c. w i = Some c \<Longrightarrow> \<exists>d. kept ed i = Some d \<and> content (dr_doc d) = c"
  shows "safe ed w"
  using assms unfolding safe_def by blast

lemma safeD:
  assumes "safe ed w"
  shows "pe_memory ed i = Some d \<Longrightarrow> pl_id (dr_doc d) = i"
    "pe_memory ed i = Some d \<Longrightarrow> pl_obj (dr_doc d) < pe_next ed"
    "pe_memory ed i = Some d \<Longrightarrow> dr_error d \<noteq> Some STORAGE_FULL \<Longrightarrow>
       \<exists>e. pe_stored ed i = Some e \<and> content (dr_doc e) = content (dr_doc d)"
    "pe_stored ed i = Some d \<Longrightarrow> pl_id (dr_doc d) = i"
    "pe_flights ed i = Some s \<Longrightarrow> pl_obj s < pe_next ed"
    "pe_flights ed i = Some s \<Longrightarrow> pe_memory ed i = Some d \<Longrightarrow> pl_obj (dr_doc d) = pl_obj s \<Longrightarrow> dr_doc d = s"
    "w i = Some c \<Longrightarrow> \<exists>d. kept ed i = Some d \<and> content (dr_doc d) = c"
  using assms unfolding safe_def by blast+

lemma read_draft_cases:
  assumes "safe ed w"
  obtains "read_draft i ed = (pe_memory ed i, ed)" "kept ed i = pe_memory ed i"
  | d where "pe_memory ed i = None" "pe_stored ed i = Some d"
      "read_draft i ed = (Some (d\<lparr>dr_doc := (dr_doc d)\<lparr>pl_obj := pe_next ed\<rparr>\<rparr>),
         ed\<lparr>pe_memory := (pe_memory ed)(i := Some (d\<lparr>dr_doc := (dr_doc d)\<lparr>pl_obj := pe_next ed\<rparr>\<rparr>)), pe_next := pe_next ed + 1\<rparr>)"
  using safeD(4) [OF assms]
  by (cases "pe_memory ed i"; cases "pe_stored ed i") (auto simp: read_draft_def kept_def Let_def)

text \<open>Parsing a stored draft gives it a new object and keeps all it says.\<close>

lemma safe_parse:
  assumes s: "safe ed w" and m: "pe_memory ed i = None" and d: "pe_stored ed i = Some d"
  shows "safe (ed\<lparr>pe_memory := (pe_memory ed)(i := Some (d\<lparr>dr_doc := (dr_doc d)\<lparr>pl_obj := pe_next ed\<rparr>\<rparr>)),
    pe_next := pe_next ed + 1\<rparr>) w" (is "safe ?ed w")
proof (rule safeI)
  fix j c assume "w j = Some c"
  then show "\<exists>e. kept ?ed j = Some e \<and> content (dr_doc e) = c"
    using safeD(7) [OF s, of j c] m d by (auto simp: kept_def split: if_splits option.splits)
next
  fix j f e assume "pe_flights ?ed j = Some f" "pe_memory ?ed j = Some e" "pl_obj (dr_doc e) = pl_obj f"
  then show "dr_doc e = f"
    using safeD(5,6) [OF s] by (cases "j = i") (force simp: less_Suc_eq)+
next
  fix j f assume "pe_memory ?ed j = Some f"
  then show "pl_obj (dr_doc f) < pe_next ?ed" using safeD(2) [OF s] by (cases "j = i") (force simp: less_Suc_eq)+
qed (use s d safeD(1,3,4,5) [OF s] in \<open>force simp: less_Suc_eq split: if_splits\<close>)+

lemma safe_read:
  assumes s: "safe ed w" and r: "read_draft i ed = (r, ed')"
  shows "safe ed' w" "r = pe_memory ed' i" "r = None \<longleftrightarrow> kept ed i = None" "pe_next ed \<le> pe_next ed'"
    "pe_flights ed' = pe_flights ed" "pe_stored ed' = pe_stored ed"
    "j \<noteq> i \<Longrightarrow> pe_memory ed' j = pe_memory ed j"
proof -
  show "safe ed' w"
    by (rule read_draft_cases [OF s, of i]) (use r s safe_parse [OF s] in auto)
qed (rule read_draft_cases [OF s, of i]; use r in \<open>auto simp: kept_def\<close>)+


lemma safe_frame [simp]:
  "safe (ed\<lparr>pe_active := x\<rparr>) w = safe ed w" "safe (ed\<lparr>pe_confirmed := cf\<rparr>) w = safe ed w"
  "safe (ed\<lparr>pe_timers := ts\<rparr>) w = safe ed w" "safe (ed\<lparr>pe_mounted := m\<rparr>) w = safe ed w"
  "safe (ed\<lparr>pe_here := m\<rparr>) w = safe ed w"
  "safe (ed\<lparr>pv_doc := x, pv_saving := sv, pv_pending := pd, pv_conflict := c, pv_notice := nt\<rparr>) w = safe ed w"
  by (simp_all add: safe_def kept_def cong: option.case_cong)

lemma safe_bump: "safe ed w \<Longrightarrow> pe_next ed \<le> n \<Longrightarrow> safe (ed\<lparr>pe_next := n\<rparr>) w"
  by (rule safeI) (auto simp: kept_def cong: option.case_cong dest: safeD intro: less_le_trans [OF safeD(2)] less_le_trans [OF safeD(5)]
      dest: safeD(7) [unfolded kept_def])

lemma safe_less: "safe ed w \<Longrightarrow> safe ed (w(i := None))"
  unfolding safe_def by auto

lemma safe_land: "safe ed w \<Longrightarrow> safe (ed\<lparr>pe_flights := (pe_flights ed)(i := None)\<rparr>) w"
  by (rule safeI) (auto simp: kept_def cong: option.case_cong dest: safeD safeD(7) [unfolded kept_def] split: if_splits)

lemma safe_persist:
  assumes s: "safe ed w" and i: "pl_id (dr_doc d) = i" and n: "pl_obj (dr_doc d) < pe_next ed"
    and fl: "\<And>s. pe_flights ed i = Some s \<Longrightarrow> pl_obj (dr_doc d) = pl_obj s \<Longrightarrow> dr_doc d = s"
    and w: "\<And>j. j \<noteq> i \<Longrightarrow> w' j = w j" "\<And>c. w' i = Some c \<Longrightarrow> c = content (dr_doc d)"
  shows "safe (persist fits d ed) w'"
proof (rule safeI)
  fix j c assume "w' j = Some c"
  then show "\<exists>e. kept (persist fits d ed) j = Some e \<and> content (dr_doc e) = c"
    using safeD(7) [OF s, of j c] w i by (cases "j = i") (auto simp: persist_def Let_def kept_def cong: option.case_cong)
next
  fix j e assume "pe_memory (persist fits d ed) j = Some e" "dr_error e \<noteq> Some STORAGE_FULL"
  then show "\<exists>f. pe_stored (persist fits d ed) j = Some f \<and> content (dr_doc f) = content (dr_doc e)"
    using safeD(3) [OF s, of j e] i by (cases "j = i") (auto simp: persist_def Let_def split: if_splits)
qed (use i n fl safeD(1,2,4,5,6) [OF s] in \<open>auto simp: persist_def Let_def split: if_splits\<close>)

lemma safe_forget: "safe ed w \<Longrightarrow> w' i = None \<Longrightarrow> (\<And>j. j \<noteq> i \<Longrightarrow> w' j = w j) \<Longrightarrow> safe (forget i ed) w'"
proof (rule safeI)
  fix j c assume "safe ed w" "w' i = None" "\<And>j. j \<noteq> i \<Longrightarrow> w' j = w j" "w' j = Some c"
  then show "\<exists>e. kept (forget i ed) j = Some e \<and> content (dr_doc e) = c"
    using safeD(7) [of ed w j c] by (cases "j = i") (auto simp: forget_def kept_def cong: option.case_cong)
qed (auto simp: forget_def dest: safeD split: if_splits)

lemma safe_publish [simp]: "safe ed w \<Longrightarrow> safe (publish nx ed) w"
  by (auto simp: publish_def Let_def split: option.split prod.split dest: safe_read(1) [rotated] intro: safe_read(1) [of "ed\<lparr>pe_active := nx\<rparr>"])

lemma safe_save_start [simp]:
  assumes s: "safe ed w" shows "safe (save_start i ed) w"
proof -
  obtain r ed1 where r: "read_draft i ed = (r, ed1)" by fastforce
  note s1 = safe_read [OF s r]
  have "safe (ed1\<lparr>pe_flights := (pe_flights ed1)(i := Some (dr_doc d))\<rparr>) w" if "r = Some d" for d
    using that s1(2) by (intro safeI) (auto simp: kept_def cong: option.case_cong
      dest: safeD [OF s1(1)] safeD(7) [OF s1(1), unfolded kept_def] split: if_splits)
  then show ?thesis
    using r s1(1) by (auto simp: save_start_def Let_def split: option.split)
qed

lemma safe_save_settle [simp]: "safe ed w \<Longrightarrow> safe (save_settle i ed) w"
  using safe_read(1) [OF safe_land [of ed w i], of i]
  by (auto simp: save_settle_def Let_def safe_land split: prod.split)

lemma safe_save_again [simp]:
  assumes "safe ed w" shows "safe (save_again i sent ed) w"
  using safe_read(1) [OF assms, of i] by (auto simp: save_again_def split: prod.split option.split)

lemma safe_set_active_if [simp]: "safe (set_active_if i p ed) w = safe ed w"
  by (simp add: set_active_if_def)

lemma safe_keep:
  assumes "safe ed w" "pe_memory ed i = Some d" "dr_doc e = dr_doc d"
  shows "safe (persist fits e ed) w"
  using safeD(1,2,6,7) [OF assms(1)] assms(2,3)
  by (intro safe_persist [OF assms(1)]) (force simp: kept_def)+


lemma safe_save_reply:
  assumes s: "safe ed w"
  shows "safe (save_reply i result conflict fits ed) (wish_after (Reply_ok i result conflict fits) ed w)"
proof (cases "pe_flights ed i")
  case None
  with s show ?thesis by (simp add: save_reply_def)
next
  case (Some sent)
  define W where "W = wish_after (Reply_ok i result conflict fits) ed w"
  let ?shared = "result\<lparr>pl_obj := pe_next ed\<rparr>"
  let ?ed1 = "ed\<lparr>pe_confirmed := (pe_confirmed ed)(i := Some ?shared), pe_next := pe_next ed + 1\<rparr>"
  have s1: "safe ?ed1 w" by (rule safe_bump [of "ed\<lparr>pe_confirmed := _\<rparr>", simplified]) (use s in auto)
  have wi: "j \<noteq> i \<Longrightarrow> W j = w j" and wl: "W i = Some c \<Longrightarrow> w i = Some c \<and> (conflict \<or> c \<noteq> content sent)" for j c
    using Some by (auto simp: W_def split: if_splits)
  obtain r ed2 where r: "read_draft i ?ed1 = (r, ed2)" by fastforce
  note s2 = safe_read [OF s1 r]
  have w2: "safe ed2 W" using s2(1) safe_less [OF s2(1)] Some by (auto simp: W_def)
  show ?thesis
  proof (cases r)
    case None
    with r \<open>pe_flights ed i = Some sent\<close> w2 show ?thesis by (simp add: save_reply_def W_def [symmetric] del: wish_after.simps)
  next
    case (Some latest)
    have m: "pe_memory ed2 i = Some latest" using s2(2) Some by simp
    have fl: "pe_flights ed2 i = Some sent" using s2(5) \<open>pe_flights ed i = Some sent\<close> by simp
    have c: "w i = Some c \<Longrightarrow> c = content (dr_doc latest)" for c
      using safeD(7) [OF s2(1), of i c] m by (auto simp: kept_def)
    have newer: "safe (persist fits \<lparr>dr_doc = (dr_doc latest)\<lparr>pl_version := v, pl_obj := pe_next ed2\<rparr>,
        dr_conflict = None, dr_error = None\<rparr> (ed2\<lparr>pe_next := pe_next ed2 + 1\<rparr>)) W" for v
      by (rule safe_persist [OF safe_bump [OF s2(1)], where i = i]) (use safeD(1,5) [OF s2(1)] m fl wi wl c in auto)
    have gone: "safe (forget i ed2) W" if "\<not> conflict" "pl_obj (dr_doc latest) = pl_obj sent"
    proof (rule safe_forget [OF s2(1) _ wi])
      show "W i = None"
        using that c safeD(6) [OF s2(1) fl m] \<open>pe_flights ed i = Some sent\<close> by (cases "w i") (auto simp: W_def)
    qed
    have clash: "safe (persist fits (latest\<lparr>dr_conflict := Some ?shared\<rparr>) ed2) W"
      by (rule safe_keep [OF w2 m]) simp
    show ?thesis
      using r Some newer gone clash \<open>pe_flights ed i = Some sent\<close>
      by (simp add: save_reply_def Let_def W_def [symmetric] del: wish_after.simps)
  qed
qed

lemma safe_save_fails:
  assumes s: "safe ed w" shows "safe (save_fails i message fits ed) w"
proof -
  obtain r ed1 where r: "read_draft i ed = (r, ed1)" by fastforce
  note s1 = safe_read [OF s r]
  show ?thesis
    using s s1(1,2) r safe_keep [OF s1(1)] by (auto simp: save_fails_def split: option.split)
qed

lemma safe_select_list:
  assumes s: "safe ed w" shows "safe (select_list server fits ed) w"
proof (cases server)
  case None
  with s show ?thesis by (simp add: select_list_def)
next
  case (Some fetched)
  define srv where "srv = (case pe_confirmed ed (pl_id fetched) of None \<Rightarrow> fetched
    | Some known \<Rightarrow> if pl_version known > pl_version fetched then known else fetched)"
  obtain r ed1 where r: "read_draft (pl_id srv) ed = (r, ed1)" by fastforce
  note s1 = safe_read [OF s r]
  show ?thesis
  proof (cases r)
    case None
    with Some r s1(1) show ?thesis by (simp add: select_list_def srv_def [symmetric] Let_def)
  next
    case (Some draft)
    define ed2 where "ed2 = (if pl_version (dr_doc draft) < pl_version srv
      then persist fits (draft\<lparr>dr_conflict := Some srv\<rparr>) ed1 else ed1)"
    have s2: "safe ed2 w" using s1 Some by (auto simp: ed2_def intro!: safe_keep)
    obtain r3 ed3 where r3: "read_draft (pl_id srv) ed2 = (r3, ed3)" by fastforce
    show ?thesis
      using Some \<open>server = Some fetched\<close> r r3 s1(1) safe_read(1) [OF s2 r3]
      by (simp add: select_list_def srv_def [symmetric] Let_def ed2_def [symmetric] split: option.split)
  qed
qed

lemma safe_edit_list:
  assumes s: "safe ed w" shows "safe (edit_list update fits ed) (wish_after (Edit update fits) ed w)"
proof (cases "pe_active ed")
  case None
  with s show ?thesis by (simp add: edit_list_def)
next
  case (Some current)
  obtain r ed1 where r: "read_draft (pl_id current) ed = (r, ed1)" by fastforce
  note s1 = safe_read [OF s r]
  have "safe (persist fits \<lparr>dr_doc = (update current)\<lparr>pl_obj := pe_next ed1\<rparr>, dr_conflict = c, dr_error = None\<rparr>
      (ed1\<lparr>pe_next := pe_next ed1 + 1\<rparr>)) (w(pl_id (update current) := Some (content (update current))))" for c
    by (rule safe_persist [OF safe_bump [OF s1(1)], where i = "pl_id (update current)"])
      (use safeD(5) [OF s1(1)] in auto)
  with Some r show ?thesis by (simp add: edit_list_def Let_def)
qed

lemma safe_retry_list:
  assumes s: "safe ed w" shows "safe (retry_list fits ed) w"
proof (cases "pe_active ed")
  case None
  with s show ?thesis by (simp add: retry_list_def)
next
  case (Some current)
  let ?i = "pl_id current"
  obtain r ed1 where r: "read_draft ?i ed = (r, ed1)" by fastforce
  note s1 = safe_read [OF s r]
  have "safe (persist fits \<lparr>dr_doc = (dr_doc d)\<lparr>pl_version := v, pl_obj := pe_next ed1\<rparr>,
      dr_conflict = None, dr_error = None\<rparr> (ed1\<lparr>pe_next := pe_next ed1 + 1\<rparr>)) w" if "r = Some d" for d v
    by (rule safe_persist [OF safe_bump [OF s1(1)], where i = ?i])
      (use safeD(1,5) [OF s1(1)] safeD(7) [OF s1(1), of ?i] that s1(2) in \<open>auto simp: kept_def\<close>)
  with Some r s1(1) show ?thesis by (simp add: retry_list_def Let_def split: option.split)
qed

lemma safe_discard_edits:
  assumes s: "safe ed w" shows "safe (discard_edits ed) (wish_after Discard ed w)"
proof (cases "pe_active ed")
  case None
  with s show ?thesis by (simp add: discard_edits_def)
next
  case (Some current)
  obtain r ed1 where r: "read_draft (pl_id current) ed = (r, ed1)" by fastforce
  note s1 = safe_read [OF s r]
  have conf: "map_option dr_conflict r = map_option dr_conflict (kept ed (pl_id current))"
    by (rule read_draft_cases [OF s, of "pl_id current"]) (use r in \<open>auto simp: kept_def\<close>)
  show ?thesis
    using Some r s1(1) conf safe_forget [OF s1(1)]
    by (auto simp: discard_edits_def split: option.split)
qed

lemma safe_leave: "safe ed w \<Longrightarrow> safe (fold save_start ts ed) w"
  by (induction ts arbitrary: ed) auto

lemma safe_reload: "safe ed w \<Longrightarrow> safe (reload_app ed) (wish_after Reload_app ed w)"
proof (rule safeI)
  fix i c assume s: "safe ed w" and "wish_after Reload_app ed w i = Some c"
  then show "\<exists>d. kept (reload_app ed) i = Some d \<and> content (dr_doc d) = c"
    using safeD(3) [OF s, of i] safeD(7) [OF s, of i c]
    by (auto simp: reload_app_def kept_def split: option.splits if_splits)
qed (auto simp: reload_app_def dest: safeD)

lemma safe_act: "safe ed w \<Longrightarrow> safe (act a ed) (wish_after a ed w)"
proof (cases a)
  case (Select server fits)
  then show "safe ed w \<Longrightarrow> ?thesis" by (simp add: safe_select_list safe_bump)
qed (auto simp: safe_edit_list timer_fires_def safe_save_reply safe_save_fails safe_retry_list safe_discard_edits
  pause_save_def remove_list_def Let_def safe_forget leave_page_def safe_leave safe_reload
  simp del: wish_after.simps(1-3,5) split: option.split)

lemma safe_run: "safe ed w \<Longrightarrow> run_editor as (ed, w) = (ed', w') \<Longrightarrow> safe ed' w'"
  by (induction as arbitrary: ed w) (auto intro: safe_act)

lemma safe_new [simp]: "safe new_editor (\<lambda>_. None)"
  by (simp add: safe_def new_editor_def)


section \<open>The page shows what is kept\<close>

text \<open>Every copy of a list has the list's id and event: what the server answers and what an edit makes of
  a list.\<close>

definition copy_of :: "(int \<Rightarrow> string) \<Rightarrow> int \<Rightarrow> picklist \<Rightarrow> bool" where
  "copy_of ek i p \<longleftrightarrow> pl_id p = i \<and> pl_event_key p = ek i"

fun proper :: "(int \<Rightarrow> string) \<Rightarrow> action \<Rightarrow> bool" where
  "proper ek (Select (Some p) _) \<longleftrightarrow> copy_of ek (pl_id p) p"
| "proper ek (Edit update _) \<longleftrightarrow> (\<forall>p. pl_id (update p) = pl_id p \<and> pl_event_key (update p) = pl_event_key p)"
| "proper ek (Reply_ok i result _ _) \<longleftrightarrow> copy_of ek i result"
| "proper ek _ \<longleftrightarrow> True"

definition draft_of :: "(int \<Rightarrow> string) \<Rightarrow> int \<Rightarrow> edit_draft \<Rightarrow> bool" where
  "draft_of ek i d \<longleftrightarrow> copy_of ek i (dr_doc d) \<and> (case dr_conflict d of None \<Rightarrow> True | Some c \<Rightarrow> copy_of ek i c)"

definition base :: "(int \<Rightarrow> string) \<Rightarrow> editor \<Rightarrow> bool" where
  "base ek ed \<longleftrightarrow> (\<forall>i d. pe_memory ed i = Some d \<longrightarrow> draft_of ek i d) \<and> (\<forall>i d. pe_stored ed i = Some d \<longrightarrow> draft_of ek i d) \<and>
     (\<forall>i p. pe_confirmed ed i = Some p \<longrightarrow> copy_of ek i p) \<and>
     (\<forall>p. pe_active ed = Some p \<longrightarrow> copy_of ek (pl_id p) p)"

text \<open>A list that can be on the page: its own kept document, or a list without kept edits.\<close>

definition in_step :: "editor \<Rightarrow> picklist \<Rightarrow> bool" where
  "in_step ed p \<longleftrightarrow> (case pe_memory ed (pl_id p) of None \<Rightarrow> pe_stored ed (pl_id p) = None | Some d \<Rightarrow> dr_doc d = p)"

definition page_shows :: "editor \<Rightarrow> bool" where
  "page_shows ed \<longleftrightarrow> pv_doc ed = pe_active ed \<and> (case pe_active ed of
     None \<Rightarrow> \<not> pv_saving ed \<and> \<not> pv_pending ed \<and> \<not> pv_conflict ed \<and> pv_notice ed = []
   | Some p \<Rightarrow> (let draft = pe_memory ed (pl_id p)
       in (pv_saving ed \<longleftrightarrow> pe_flights ed (pl_id p) \<noteq> None) \<and> (pv_pending ed \<longleftrightarrow> draft \<noteq> None) \<and>
          (pv_conflict ed \<longleftrightarrow> (case draft of None \<Rightarrow> False | Some d \<Rightarrow> dr_conflict d \<noteq> None)) \<and>
          pv_notice ed = notice_of draft))"

definition synced :: "editor \<Rightarrow> bool" where
  "synced ed \<longleftrightarrow> (case pe_active ed of None \<Rightarrow> True | Some p \<Rightarrow> in_step ed p) \<and> (pe_mounted ed \<longrightarrow> page_shows ed)"

text \<open>Between its steps an operation on list \<open>i\<close> is out of step with a page that shows \<open>i\<close>, and with no
  other page.\<close>

definition off_at :: "(int \<Rightarrow> string) \<Rightarrow> int \<Rightarrow> editor \<Rightarrow> bool" where
  "off_at ek i ed \<longleftrightarrow> base ek ed \<and> (is_active i ed \<or> synced ed)"

lemma copy_simps [simp]: "copy_of ek i (p\<lparr>pl_obj := n\<rparr>) = copy_of ek i p"
  "copy_of ek i (p\<lparr>pl_version := v\<rparr>) = copy_of ek i p"
  by (simp_all add: copy_of_def)

lemmas page_simps = in_step_def page_shows_def synced_def is_active_def

lemma read_cases:
  assumes "base ek ed"
  obtains "read_draft i ed = (pe_memory ed i, ed)" "pe_memory ed i = None \<Longrightarrow> pe_stored ed i = None"
  | d where "pe_memory ed i = None" "pe_stored ed i = Some d" "draft_of ek i d"
      "read_draft i ed = (Some (d\<lparr>dr_doc := (dr_doc d)\<lparr>pl_obj := pe_next ed\<rparr>\<rparr>),
         ed\<lparr>pe_memory := (pe_memory ed)(i := Some (d\<lparr>dr_doc := (dr_doc d)\<lparr>pl_obj := pe_next ed\<rparr>\<rparr>)), pe_next := pe_next ed + 1\<rparr>)"
proof -
  have "pe_stored ed i = Some d \<Longrightarrow> draft_of ek i d" for d using assms by (simp add: base_def)
  then show thesis
    using that by (cases "pe_memory ed i"; cases "pe_stored ed i")
      (auto simp: read_draft_def Let_def draft_of_def copy_of_def)
qed

lemma read_in_step: "in_step ed p \<Longrightarrow> read_draft (pl_id p) ed = (pe_memory ed (pl_id p), ed)"
  by (auto simp: in_step_def read_draft_def split: option.splits)

lemma base_read:
  assumes b: "base ek ed" and r: "read_draft i ed = (r, ed')"
  shows "base ek ed'" "r = pe_memory ed' i" "r = None \<Longrightarrow> pe_stored ed' i = None" "is_active j ed' = is_active j ed"
    "synced ed \<Longrightarrow> synced ed'" "r = Some d \<Longrightarrow> draft_of ek i d" "pe_here ed' = pe_here ed" "pe_timers ed' = pe_timers ed"
    "pe_flights ed' = pe_flights ed" "pe_active ed' = pe_active ed" "j \<noteq> i \<Longrightarrow> pe_memory ed' j = pe_memory ed j"
    "pe_confirmed ed' = pe_confirmed ed"
proof -
  show "base ek ed'" "r = Some d \<Longrightarrow> draft_of ek i d"
    by (rule read_cases [OF b, of i]; use b r in \<open>auto simp: base_def draft_of_def split: if_splits\<close>)+
  show "synced ed'" if "synced ed"
    by (rule read_cases [OF b, of i])
      (use r that in \<open>auto simp: page_simps split: option.splits if_splits\<close>)
qed (rule read_cases [OF b, of i]; use r in \<open>auto simp: is_active_def\<close>)+

lemma base_frame [simp]:
  "base ek (ed\<lparr>pe_timers := ts\<rparr>) = base ek ed" "base ek (ed\<lparr>pe_mounted := m\<rparr>) = base ek ed"
  "base ek (ed\<lparr>pe_here := m\<rparr>) = base ek ed" "base ek (ed\<lparr>pe_next := n\<rparr>) = base ek ed"
  "base ek (ed\<lparr>pe_flights := fl\<rparr>) = base ek ed"
  "base ek (ed\<lparr>pv_doc := x, pv_saving := sv, pv_pending := pd, pv_conflict := c, pv_notice := nt\<rparr>) = base ek ed"
  by (simp_all add: base_def)

lemma publish_synced:
  assumes b: "base ek ed" and n: "\<And>p. nx = Some p \<Longrightarrow> copy_of ek (pl_id p) p \<and> in_step ed p"
  shows "base ek (publish nx ed) \<and> synced (publish nx ed)"
proof (cases nx)
  case None
  with b show ?thesis by (auto simp: publish_def Let_def base_def page_simps notice_of_def)
next
  case (Some p)
  have "in_step (ed\<lparr>pe_active := Some p\<rparr>) p" using n [OF Some] by (simp add: in_step_def cong: option.case_cong)
  from read_in_step [OF this] show ?thesis
    using b n [OF Some] Some
    by (auto simp: publish_def Let_def base_def page_simps cong: option.case_cong)
qed

lemma off_publish:
  "off_at ek i ed \<Longrightarrow> (\<And>p. nx = Some p \<Longrightarrow> copy_of ek (pl_id p) p \<and> in_step ed p) \<Longrightarrow>
    base ek (publish nx ed) \<and> synced (publish nx ed)"
  by (rule publish_synced) (auto simp: off_at_def)


definition level :: "(int \<Rightarrow> string) \<Rightarrow> editor \<Rightarrow> bool" where
  "level ek ed \<longleftrightarrow> base ek ed \<and> synced ed"

lemma level_off: "level ek ed \<Longrightarrow> off_at ek i ed"
  by (simp add: level_def off_at_def)

lemma level_read: "level ek ed \<Longrightarrow> read_draft i ed = (r, ed') \<Longrightarrow> level ek ed'"
  unfolding level_def using base_read(1,5) by blast

lemma publish_level:
  "base ek ed \<Longrightarrow> (\<And>p. nx = Some p \<Longrightarrow> copy_of ek (pl_id p) p \<and> in_step ed p) \<Longrightarrow> level ek (publish nx ed)"
  unfolding level_def by (rule publish_synced)

lemma active_in_step: "level ek ed \<Longrightarrow> pe_active ed = Some p \<Longrightarrow> copy_of ek (pl_id p) p \<and> in_step ed p"
  by (simp add: level_def base_def synced_def)

lemma level_flights: "level ek ed \<Longrightarrow> \<not> is_active i ed \<Longrightarrow> level ek (ed\<lparr>pe_flights := (pe_flights ed)(i := fl)\<rparr>)"
  by (auto simp: level_def page_simps cong: option.case_cong split: option.splits)

lemma save_start_level [simp]:
  assumes l: "level ek ed" shows "level ek (save_start i ed)"
proof -
  obtain r ed1 where r: "read_draft i ed = (r, ed1)" by fastforce
  note l1 = level_read [OF l r]
  have "level ek (publish (pe_active ed1) (ed1\<lparr>pe_flights := fl\<rparr>))" for fl
    by (rule publish_level) (use l1 active_in_step [OF l1] in \<open>auto simp: level_def in_step_def cong: option.case_cong\<close>)
  then show ?thesis
    using r l1 level_flights [OF l1] by (auto simp: save_start_def Let_def is_active_def split: option.split)
qed

lemma off_flights: "off_at ek i ed \<Longrightarrow> off_at ek i (ed\<lparr>pe_flights := (pe_flights ed)(i := fl)\<rparr>)"
  using level_flights [of ek ed i fl] by (auto simp: off_at_def is_active_def level_def)

lemma off_read: "off_at ek i ed \<Longrightarrow> read_draft j ed = (r, ed') \<Longrightarrow> off_at ek i ed'"
  unfolding off_at_def using base_read(1,4,5) by blast

lemma save_settle_level:
  assumes off: "off_at ek i ed" shows "level ek (save_settle i ed)"
proof (cases "is_active i ed")
  case False
  with off have "level ek ed" by (simp add: off_at_def level_def)
  with False show ?thesis
    using level_flights [of ek ed i None] by (auto simp: save_settle_def Let_def is_active_def)
next
  case True
  let ?ed1 = "ed\<lparr>pe_flights := (pe_flights ed)(i := None)\<rparr>"
  have b: "base ek ?ed1" using off by (simp add: off_at_def)
  obtain r ed2 where r: "read_draft i ?ed1 = (r, ed2)" by fastforce
  note b2 = base_read [OF b r]
  obtain q where q: "pe_active ed2 = Some q" "pl_id q = i"
    using True b2(10) by (auto simp: is_active_def split: option.splits)
  have "level ek (publish (case r of None \<Rightarrow> pe_active ed2 | Some d \<Rightarrow> Some (dr_doc d)) ed2)"
  proof (cases r)
    case None
    moreover from None have "in_step ed2 q" using b2(2,3) q by (simp add: in_step_def)
    moreover have "copy_of ek (pl_id q) q" using b2(1) q by (simp add: base_def)
    ultimately show ?thesis using q b2(1) by (auto intro: publish_level)
  next
    case (Some d)
    then have "copy_of ek i (dr_doc d)" and "pe_memory ed2 i = Some d" using b2(2,6) by (auto simp: draft_of_def)
    moreover from this have "pl_id (dr_doc d) = i" by (simp add: copy_of_def)
    ultimately show ?thesis using Some b2(1) by (auto intro!: publish_level simp: in_step_def)
  qed
  with True r show ?thesis by (simp add: save_settle_def Let_def is_active_def)
qed

lemma save_again_level [simp]:
  assumes "level ek ed" shows "level ek (save_again i sent ed)"
  using level_read [OF assms, of i] assms by (auto simp: save_again_def split: prod.split option.split)

lemma off_active: "is_active i ed \<Longrightarrow> base ek ed \<Longrightarrow> off_at ek i ed"
  by (simp add: off_at_def)

lemma off_persist:
  assumes "off_at ek i ed" "draft_of ek i d" shows "off_at ek i (persist fits d ed)"
proof -
  have i: "pl_id (dr_doc d) = i" using assms(2) by (simp add: draft_of_def copy_of_def)
  have "synced ed \<Longrightarrow> \<not> is_active i ed \<Longrightarrow> synced (persist fits d ed)"
    by (auto simp: persist_def Let_def i page_simps split: option.splits)
  moreover have "base ek ed \<Longrightarrow> base ek (persist fits d ed)"
    using assms(2) i by (auto simp: base_def persist_def Let_def draft_of_def)
  moreover have "is_active i (persist fits d ed) = is_active i ed"
    by (simp add: is_active_def persist_def Let_def)
  ultimately show ?thesis using assms(1) unfolding off_at_def by blast
qed

lemma off_forget: "off_at ek i ed \<Longrightarrow> off_at ek i (forget i ed)"
proof -
  have "synced ed \<Longrightarrow> \<not> is_active i ed \<Longrightarrow> synced (forget i ed)"
    by (auto simp: forget_def page_simps split: option.splits)
  moreover have "base ek ed \<Longrightarrow> base ek (forget i ed)" by (simp add: base_def forget_def)
  moreover have "is_active i (forget i ed) = is_active i ed" by (simp add: is_active_def forget_def)
  ultimately show "off_at ek i ed \<Longrightarrow> ?thesis" unfolding off_at_def by blast
qed

lemma off_set_active: "off_at ek i ed \<Longrightarrow> copy_of ek i p \<Longrightarrow> off_at ek i (set_active_if i p ed)"
  by (auto simp: off_at_def set_active_if_def base_def is_active_def copy_of_def)

lemma off_next [simp]: "off_at ek i (ed\<lparr>pe_next := n\<rparr>) = off_at ek i ed"
  by (simp add: off_at_def page_simps cong: option.case_cong)

lemma off_confirmed: "off_at ek i ed \<Longrightarrow> copy_of ek i p \<Longrightarrow> off_at ek i (ed\<lparr>pe_confirmed := (pe_confirmed ed)(i := Some p)\<rparr>)"
  by (auto simp: off_at_def base_def page_simps cong: option.case_cong split: option.splits)

lemma off_base: "off_at ek i ed \<Longrightarrow> base ek ed"
  by (simp add: off_at_def)

lemma save_reply_level:
  assumes l: "level ek ed" and p: "copy_of ek i result" shows "level ek (save_reply i result conflict fits ed)"
proof (cases "pe_flights ed i")
  case None
  with l show ?thesis by (simp add: save_reply_def)
next
  case (Some sent)
  let ?shared = "result\<lparr>pl_obj := pe_next ed\<rparr>"
  let ?ed1 = "ed\<lparr>pe_confirmed := (pe_confirmed ed)(i := Some ?shared), pe_next := pe_next ed + 1\<rparr>"
  have o1: "off_at ek i ?ed1" using off_confirmed [OF level_off [OF l], of i ?shared] p by simp
  obtain r ed2 where r: "read_draft i ?ed1 = (r, ed2)" by fastforce
  note o2 = off_read [OF o1 r] and d = base_read(6) [OF off_base [OF o1] r]
  show ?thesis
  proof (cases r)
    case None
    with r Some o2 show ?thesis by (simp add: save_reply_def save_settle_level)
  next
    case (Some latest)
    have "off_at ek i (persist fits (latest\<lparr>dr_conflict := Some ?shared\<rparr>) ed2)"
      "off_at ek i (set_active_if i ?shared (forget i ed2))"
      "\<And>v n. off_at ek i (set_active_if i ((dr_doc latest)\<lparr>pl_version := v, pl_obj := n\<rparr>) (persist fits
        \<lparr>dr_doc = (dr_doc latest)\<lparr>pl_version := v, pl_obj := n\<rparr>, dr_conflict = None, dr_error = None\<rparr> (ed2\<lparr>pe_next := n + 1\<rparr>)))"
      using o2 d [OF Some] p by (auto intro!: off_persist off_set_active off_forget simp: draft_of_def)
    with r Some \<open>pe_flights ed i = Some sent\<close> show ?thesis
      by (simp add: save_reply_def Let_def save_settle_level)
  qed
qed

lemma save_fails_level:
  assumes l: "level ek ed" shows "level ek (save_fails i message fits ed)"
proof -
  obtain r ed1 where r: "read_draft i ed = (r, ed1)" by fastforce
  note o1 = off_read [OF level_off [OF l] r] and d = base_read(6) [OF off_base [OF level_off [OF l]] r]
  have "off_at ek i (persist fits (d\<lparr>dr_error := e\<rparr>) ed1)" if "r = Some d" for d e
    using o1 d [OF that] by (auto intro!: off_persist simp: draft_of_def)
  with r o1 l show ?thesis by (auto simp: save_fails_def save_settle_level split: option.split)
qed


lemma level_base: "level ek ed \<Longrightarrow> base ek ed" and level_draft: "level ek ed \<Longrightarrow> pe_memory ed i = Some d \<Longrightarrow> draft_of ek i d"
  by (simp_all add: level_def base_def)

lemma persist_in_step:
  "pl_id (dr_doc d) = i \<Longrightarrow> in_step (persist fits d ed) (dr_doc d)"
  by (simp add: in_step_def persist_def Let_def)

lemma publish_kept:
  assumes "off_at ek i ed" "draft_of ek i d" shows "level ek (publish (Some (dr_doc d)) (persist fits d ed))"
proof (rule publish_level)
  show "base ek (persist fits d ed)" using off_base [OF off_persist [OF assms]] .
qed (use assms(2) in \<open>auto simp: draft_of_def copy_of_def persist_in_step\<close>)

lemma select_list_level:
  assumes l: "level ek ed" and p: "\<And>q. server = Some q \<Longrightarrow> copy_of ek (pl_id q) q"
  shows "level ek (select_list server fits ed)"
proof (cases server)
  case None
  with l show ?thesis by (auto simp: select_list_def intro!: publish_level dest: level_base)
next
  case (Some fetched)
  define srv where "srv = (case pe_confirmed ed (pl_id fetched) of None \<Rightarrow> fetched
    | Some known \<Rightarrow> if pl_version known > pl_version fetched then known else fetched)"
  define i where "i = pl_id srv"
  have srv: "copy_of ek i srv"
    using l p [OF Some] by (auto simp: srv_def i_def level_def base_def copy_of_def split: option.split)
  obtain r ed1 where r: "read_draft i ed = (r, ed1)" by fastforce
  note b1 = base_read [OF off_base [OF level_off [OF l]] r] and l1 = level_read [OF l r]
  show ?thesis
  proof (cases r)
    case None
    then have "in_step ed1 srv" using b1(2,3) by (simp add: in_step_def i_def)
    then have "level ek (publish (Some srv) ed1)" using b1(1) srv by (auto intro!: publish_level simp: copy_of_def)
    with None Some r show ?thesis by (simp add: select_list_def srv_def [symmetric] i_def [symmetric] Let_def)
  next
    case (Some draft)
    note d = b1(6) [OF Some]
    define ed2 where "ed2 = (if pl_version (dr_doc draft) < pl_version srv
      then persist fits (draft\<lparr>dr_conflict := Some srv\<rparr>) ed1 else ed1)"
    have o2: "off_at ek i ed2"
      using level_off [OF l1] d srv by (auto simp: ed2_def draft_of_def intro!: off_persist)
    have m2: "pe_memory ed2 i \<noteq> None"
      using Some b1(2) d by (auto simp: ed2_def persist_def Let_def draft_of_def copy_of_def)
    then obtain settled where s: "pe_memory ed2 i = Some settled" by blast
    have rs: "read_draft i ed2 = (Some settled, ed2)" using s by (simp add: read_draft_def)
    have "copy_of ek i (dr_doc settled)" using off_base [OF o2] s by (simp add: base_def draft_of_def)
    then have "level ek (publish (Some (dr_doc settled)) ed2)"
      using s off_base [OF o2] by (auto intro!: publish_level simp: in_step_def copy_of_def)
    moreover have "pl_event_key (dr_doc draft) = pl_event_key srv" using d srv by (simp add: draft_of_def copy_of_def)
    ultimately show ?thesis
      using Some \<open>server = Some fetched\<close> r rs
      by (simp add: select_list_def srv_def [symmetric] i_def [symmetric] Let_def ed2_def [symmetric])
  qed
qed

lemma edit_list_level:
  assumes l: "level ek ed" and u: "\<And>p. pl_id (update p) = pl_id p \<and> pl_event_key (update p) = pl_event_key p"
  shows "level ek (edit_list update fits ed)"
proof (cases "pe_active ed")
  case None
  with l show ?thesis by (simp add: edit_list_def)
next
  case (Some current)
  let ?i = "pl_id current"
  note st = active_in_step [OF l Some]
  then have r: "read_draft ?i ed = (pe_memory ed ?i, ed)" using read_in_step by blast
  let ?d = "\<lparr>dr_doc = (update current)\<lparr>pl_obj := pe_next ed\<rparr>,
    dr_conflict = (case pe_memory ed ?i of None \<Rightarrow> None | Some p \<Rightarrow> dr_conflict p), dr_error = None\<rparr>"
  have d: "draft_of ek ?i ?d"
    using st u [of current] l by (auto simp: draft_of_def copy_of_def level_def base_def split: option.splits)
  have "off_at ek ?i (ed\<lparr>pe_next := pe_next ed + 1\<rparr>)" using level_off [OF l] by simp
  from publish_kept [OF this d, of fits] have "level ek (publish (Some (dr_doc ?d)) (persist fits ?d (ed\<lparr>pe_next := pe_next ed + 1\<rparr>)))" .
  then have "level ek ((publish (Some (dr_doc ?d)) (persist fits ?d (ed\<lparr>pe_next := pe_next ed + 1\<rparr>)))\<lparr>pe_timers := ts\<rparr>)" for ts
    by (simp add: level_def page_simps cong: option.case_cong)
  with Some r show ?thesis by (simp add: edit_list_def Let_def)
qed

lemma retry_list_level:
  assumes l: "level ek ed" shows "level ek (retry_list fits ed)"
proof (cases "pe_active ed")
  case None
  with l show ?thesis by (simp add: retry_list_def)
next
  case (Some current)
  let ?i = "pl_id current"
  have r: "read_draft ?i ed = (pe_memory ed ?i, ed)"
    using read_in_step active_in_step [OF l Some] by blast
  have "level ek (publish (Some ((dr_doc d)\<lparr>pl_version := v, pl_obj := n\<rparr>)) (persist fits
      \<lparr>dr_doc = (dr_doc d)\<lparr>pl_version := v, pl_obj := n\<rparr>, dr_conflict = None, dr_error = None\<rparr> (ed\<lparr>pe_next := m\<rparr>)))"
    if "pe_memory ed ?i = Some d" for d v n m
    using publish_kept [of ek ?i "ed\<lparr>pe_next := m\<rparr>" "\<lparr>dr_doc = (dr_doc d)\<lparr>pl_version := v, pl_obj := n\<rparr>,
      dr_conflict = None, dr_error = None\<rparr>" fits] level_off [OF l] level_draft [OF l that]
    by (simp add: draft_of_def)
  with Some r l show ?thesis by (auto simp: retry_list_def Let_def split: option.split)
qed

lemma discard_edits_level:
  assumes l: "level ek ed" shows "level ek (discard_edits ed)"
proof (cases "pe_active ed")
  case None
  with l show ?thesis by (simp add: discard_edits_def)
next
  case (Some current)
  let ?i = "pl_id current"
  have r: "read_draft ?i ed = (pe_memory ed ?i, ed)"
    using read_in_step active_in_step [OF l Some] by blast
  have "level ek (publish (Some c) (forget ?i ed))" if "pe_memory ed ?i = Some d" "dr_conflict d = Some c" for d c
  proof (rule publish_level)
    have "copy_of ek ?i c" using l that by (auto simp: level_def base_def draft_of_def split: option.splits)
    then show "copy_of ek (pl_id p) p \<and> in_step (forget ?i ed) p" if "Some c = Some p" for p
      using that by (auto simp: copy_of_def in_step_def forget_def)
  qed (use off_base [OF off_forget [OF level_off [OF l]]] in blast)
  with Some r l show ?thesis by (auto simp: discard_edits_def split: option.split)
qed

lemma level_timers [simp]: "level ek (ed\<lparr>pe_timers := ts\<rparr>) = level ek ed"
  by (simp add: level_def page_simps cong: option.case_cong)

lemma remove_list_level:
  assumes l: "level ek ed" shows "level ek (remove_list i ed)"
proof -
  have o: "off_at ek i (forget i (ed\<lparr>pe_timers := ts\<rparr>))" for ts
    using off_forget [OF level_off] l by simp
  from this [of "removeAll i (pe_timers ed)"] have "\<not> is_active i (forget i (ed\<lparr>pe_timers := removeAll i (pe_timers ed)\<rparr>)) \<Longrightarrow>
      level ek (forget i (ed\<lparr>pe_timers := removeAll i (pe_timers ed)\<rparr>))"
    by (simp add: off_at_def level_def)
  with o show ?thesis by (auto simp: remove_list_def Let_def intro!: publish_level off_base)
qed

lemma level_fold: "level ek ed \<Longrightarrow> level ek (fold save_start ts ed)"
  by (induction ts arbitrary: ed) auto

lemma level_unmount: "level ek ed \<Longrightarrow> level ek (ed\<lparr>pe_mounted := False\<rparr>)"
  by (simp add: level_def page_simps cong: option.case_cong)

lemma act_level:
  assumes "level ek ed" "proper ek a" shows "level ek (act a ed)"
proof (cases a)
  case (Select server fits)
  have "level ek (ed\<lparr>pe_next := n\<rparr>)" for n
    using assms(1) by (simp add: level_def page_simps cong: option.case_cong)
  moreover have "copy_of ek (pl_id q) q" if "map_option (\<lambda>p. p\<lparr>pl_obj := n\<rparr>) server = Some q" for q n
    using that assms(2) Select by (cases server) auto
  ultimately show ?thesis using Select by (auto intro!: select_list_level)
next
  case (Session here)
  with assms(1) show ?thesis by (simp add: level_def page_simps cong: option.case_cong)
next
  case Reload_app
  with assms(1) show ?thesis by (simp add: reload_app_def level_def base_def page_simps)
next
  case Pause
  with assms(1) show ?thesis by (simp add: pause_save_def split: option.split)
qed (use assms in \<open>auto simp: edit_list_level timer_fires_def save_reply_level save_fails_level retry_list_level
  discard_edits_level remove_list_level leave_page_def level_fold level_unmount\<close>)

lemma run_level: "level ek ed \<Longrightarrow> list_all (proper ek) as \<Longrightarrow> run_editor as (ed, w) = (ed', w') \<Longrightarrow> level ek ed'"
  by (induction as arbitrary: ed w) (auto intro: act_level)

lemma level_new [simp]: "level ek new_editor"
  by (simp add: level_def base_def page_simps new_editor_def)


section \<open>Every edit is on its way\<close>

text \<open>A draft with nothing in its way is sent by a timer of \<open>T\<close> or by the reply of a running save.\<close>

definition due :: "int set \<Rightarrow> editor \<Rightarrow> bool" where
  "due T ed \<longleftrightarrow> pe_here ed \<and> (\<forall>i d. pe_memory ed i = Some d \<longrightarrow> dr_conflict d = None \<longrightarrow> dr_error d = None \<longrightarrow>
     i \<in> T \<or> pe_flights ed i \<noteq> None)"

definition settled_at :: "int \<Rightarrow> editor \<Rightarrow> bool" where
  "settled_at i ed \<longleftrightarrow> (pe_memory ed i = None \<longrightarrow> pe_stored ed i = None)"

text \<open>Publishing a list whose draft has been read changes only what the page shows.\<close>

lemma publish_same:
  assumes "\<And>p. nx = Some p \<Longrightarrow> settled_at (pl_id p) ed"
  shows "pe_memory (publish nx ed) = pe_memory ed" "pe_flights (publish nx ed) = pe_flights ed"
    "pe_timers (publish nx ed) = pe_timers ed" "pe_here (publish nx ed) = pe_here ed"
    "pe_stored (publish nx ed) = pe_stored ed" "pe_next (publish nx ed) = pe_next ed"
proof -
  have "read_draft (pl_id p) (ed\<lparr>pe_active := nx\<rparr>) = (pe_memory ed (pl_id p), ed\<lparr>pe_active := nx\<rparr>)" if "nx = Some p" for p
    using assms [OF that] by (auto simp: settled_at_def read_draft_def split: option.splits)
  then show "pe_memory (publish nx ed) = pe_memory ed" "pe_flights (publish nx ed) = pe_flights ed"
    "pe_timers (publish nx ed) = pe_timers ed" "pe_here (publish nx ed) = pe_here ed"
    "pe_stored (publish nx ed) = pe_stored ed" "pe_next (publish nx ed) = pe_next ed"
    by (cases nx; auto simp: publish_def Let_def)+
qed

lemma read_settled: "settled_at i ed \<Longrightarrow> read_draft i ed = (pe_memory ed i, ed)"
  by (auto simp: settled_at_def read_draft_def split: option.splits)

lemma base_settles: "base ek ed \<Longrightarrow> read_draft i ed = (r, ed') \<Longrightarrow> settled_at i ed'"
  using base_read(2,3) [of ek ed i r ed'] by (auto simp: settled_at_def)

lemma in_step_settled: "in_step ed p \<Longrightarrow> settled_at (pl_id p) ed"
  by (auto simp: in_step_def settled_at_def)

lemma due_mono: "due S ed \<Longrightarrow> S \<subseteq> T \<Longrightarrow> due T ed"
  by (auto simp: due_def)

lemma due_drop:
  assumes "due (insert i T) ed"
    "\<And>d. pe_memory ed i = Some d \<Longrightarrow> dr_conflict d = None \<Longrightarrow> dr_error d = None \<Longrightarrow> pe_flights ed i \<noteq> None"
  shows "due T ed"
  using assms unfolding due_def by blast

lemma due_read:
  assumes "base ek ed" "read_draft i ed = (r, ed')" "due T ed" shows "due (insert i T) ed'"
  using assms(3) base_read(7,9,11) [OF assms(1,2)] unfolding due_def by (metis insertCI)

lemma save_start_timers:
  assumes b: "base ek ed" shows "pe_timers (save_start i ed) = pe_timers ed"
proof -
  obtain r ed1 where r: "read_draft i ed = (r, ed1)" by fastforce
  have "pe_active ed1 = Some p \<Longrightarrow> is_active i ed1 \<Longrightarrow> settled_at (pl_id p) (ed1\<lparr>pe_flights := fl\<rparr>)" for p fl
    using base_settles [OF b r] by (auto simp: is_active_def settled_at_def)
  then show ?thesis
    using r base_read(8) [OF b r] publish_same(3) [of "pe_active ed1" "ed1\<lparr>pe_flights := _\<rparr>"]
    by (auto simp: save_start_def Let_def is_active_def split: option.splits)
qed

lemma save_start_memory:
  assumes "pe_memory ed i = Some d" shows "pe_memory (save_start i ed) i = Some d"
proof -
  let ?ed2 = "ed\<lparr>pe_flights := (pe_flights ed)(i := Some (dr_doc d))\<rparr>"
  have "is_active i ed \<Longrightarrow> pe_active ed = Some p \<Longrightarrow> settled_at (pl_id p) ?ed2" for p
    using assms by (auto simp: is_active_def settled_at_def)
  then show ?thesis
    using assms publish_same(1) [of "pe_active ed" ?ed2] by (auto simp: save_start_def read_draft_def Let_def is_active_def split: option.split)
qed

lemma save_start_due:
  assumes b: "base ek ed" and d: "due (insert i T) ed" shows "due T (save_start i ed)"
proof -
  obtain r ed1 where r: "read_draft i ed = (r, ed1)" by fastforce
  note b1 = base_read [OF b r]
  have d1: "due (insert i T) ed1" using due_read [OF b r d] by simp
  have r1: "pe_memory ed1 i = r" using b1(2) by simp
  show ?thesis
  proof (cases "r = None \<or> dr_conflict (the r) \<noteq> None \<or> pe_flights ed1 i \<noteq> None")
    case True
    then have "save_start i ed = ed1" using r by (auto simp: save_start_def split: option.split)
    moreover have "due T ed1" by (rule due_drop [OF d1]) (use True r1 in auto)
    ultimately show ?thesis by simp
  next
    case False
    then obtain dr where dr: "r = Some dr" by auto
    let ?ed2 = "ed1\<lparr>pe_flights := (pe_flights ed1)(i := Some (dr_doc dr))\<rparr>"
    have "due T ?ed2" using d1 by (auto simp: due_def)
    moreover have "is_active i ed1 \<Longrightarrow> pe_active ed1 = Some p \<Longrightarrow> settled_at (pl_id p) ?ed2" for p
      using base_settles [OF b r] by (auto simp: is_active_def settled_at_def)
    moreover have "save_start i ed = (if is_active i ed1 then publish (pe_active ed1) ?ed2 else ?ed2)"
      using False dr r d1 by (simp add: save_start_def due_def is_active_def)
    ultimately show ?thesis using publish_same [of "pe_active ed1" ?ed2] by (auto simp: due_def)
  qed
qed

lemma save_settle_same:
  assumes b: "base ek ed" and s: "settled_at i ed"
  shows "pe_memory (save_settle i ed) = pe_memory ed" "pe_timers (save_settle i ed) = pe_timers ed"
    "pe_here (save_settle i ed) = pe_here ed" "pe_stored (save_settle i ed) = pe_stored ed"
    "pe_flights (save_settle i ed) = (pe_flights ed)(i := None)"
proof -
  let ?ed1 = "ed\<lparr>pe_flights := (pe_flights ed)(i := None)\<rparr>"
  let ?nx = "case pe_memory ed i of None \<Rightarrow> pe_active ed | Some d \<Rightarrow> Some (dr_doc d)"
  have s1: "settled_at i ?ed1" using s by (simp add: settled_at_def)
  have "settled_at (pl_id p) ?ed1" if "is_active i ed" "?nx = Some p" for p
  proof -
    have "pl_id p = i"
    proof (cases "pe_memory ed i")
      case None
      with that show ?thesis by (simp add: is_active_def)
    next
      case (Some d)
      then have "draft_of ek i d" using b by (simp add: base_def)
      with Some that show ?thesis by (simp add: draft_of_def copy_of_def)
    qed
    with s1 show ?thesis by simp
  qed
  moreover have "save_settle i ed = (if is_active i ed then publish ?nx ?ed1 else ?ed1)"
    using read_settled [OF s1] by (simp add: save_settle_def Let_def is_active_def cong: option.case_cong)
  ultimately show "pe_memory (save_settle i ed) = pe_memory ed" "pe_timers (save_settle i ed) = pe_timers ed"
    "pe_here (save_settle i ed) = pe_here ed" "pe_stored (save_settle i ed) = pe_stored ed"
    "pe_flights (save_settle i ed) = (pe_flights ed)(i := None)"
    using publish_same [of ?nx ?ed1] by auto
qed

text \<open>A save that ends leaves no unsent edit behind, unless the edit is what was just sent.\<close>

lemma save_ends_due:
  assumes o: "off_at ek i ed" and s: "settled_at i ed" and d: "due T ed"
    and n: "\<And>d. pe_memory ed i = Some d \<Longrightarrow> dr_conflict d = None \<Longrightarrow> dr_error d = None \<Longrightarrow> pl_obj (dr_doc d) \<noteq> pl_obj sent"
  shows "due T (save_again i sent (save_settle i ed))"
proof -
  let ?ed1 = "save_settle i ed"
  note same = save_settle_same [OF off_base [OF o] s]
  have b1: "base ek ?ed1" using save_settle_level [OF o] by (rule level_base)
  have d1: "due (insert i T) ?ed1" using d same by (auto simp: due_def)
  have "settled_at i ?ed1" using s same by (simp add: settled_at_def)
  then have r: "read_draft i ?ed1 = (pe_memory ed i, ?ed1)" using same by (simp add: read_settled)
  show ?thesis
  proof (cases "\<exists>d. pe_memory ed i = Some d \<and> dr_conflict d = None \<and> dr_error d = None")
    case True
    then show ?thesis using r n save_start_due [OF b1 d1] by (auto simp: save_again_def)
  next
    case False
    then have "save_again i sent ?ed1 = ?ed1" using r by (auto simp: save_again_def split: option.split)
    moreover have "due T ?ed1" by (rule due_drop [OF d1]) (use False same in auto)
    ultimately show ?thesis by simp
  qed
qed


lemma due_persist: "due T ed \<Longrightarrow> pl_id (dr_doc d) = i \<Longrightarrow> due (insert i T) (persist fits d ed)"
  by (auto simp: due_def persist_def Let_def split: if_splits)

lemma due_forget: "due T ed \<Longrightarrow> due (T - {i}) (forget i ed)"
  by (auto simp: due_def forget_def split: if_splits)

lemma due_frame [simp]:
  "due T (ed\<lparr>pe_timers := ts\<rparr>) = due T ed" "due T (ed\<lparr>pe_next := n\<rparr>) = due T ed" "due T (ed\<lparr>pe_mounted := m\<rparr>) = due T ed"
  "due T (ed\<lparr>pe_confirmed := cf\<rparr>) = due T ed" "due T (ed\<lparr>pe_active := a\<rparr>) = due T ed"
  by (simp_all add: due_def)

lemma frames [simp]:
  "pe_timers (persist fits d ed) = pe_timers ed" "pe_timers (forget i ed) = pe_timers ed"
  "pe_timers (set_active_if i p ed) = pe_timers ed" "due T (set_active_if i p ed) = due T ed"
  "settled_at i (set_active_if i p ed) = settled_at i ed" "settled_at i (forget i ed)"
  "pe_memory (set_active_if i p ed) = pe_memory ed" "pe_memory (forget i ed) i = None"
  by (simp_all add: persist_def forget_def set_active_if_def settled_at_def due_def Let_def)

lemma settled_persist: "pl_id (dr_doc d) = i \<Longrightarrow> settled_at i (persist fits d ed)"
  by (simp add: settled_at_def persist_def Let_def)

lemma persist_memory: "pl_id (dr_doc d) = i \<Longrightarrow> pe_memory (persist fits d ed) i = Some e \<Longrightarrow>
    dr_doc e = dr_doc d \<and> dr_conflict e = dr_conflict d \<and> (dr_error d \<noteq> None \<longrightarrow> dr_error e \<noteq> None)"
  by (auto simp: persist_def Let_def split: if_splits)

lemma save_again_timers: "base ek ed \<Longrightarrow> pe_timers (save_again i sent ed) = pe_timers ed"
  using base_read(1,8) [of ek ed i] save_start_timers by (auto simp: save_again_def split: prod.split option.split)

lemma settle_again_timers:
  "off_at ek i ed \<Longrightarrow> settled_at i ed \<Longrightarrow> pe_timers (save_again i sent (save_settle i ed)) = pe_timers ed"
  using save_again_timers [OF level_base [OF save_settle_level]] save_settle_same(2) [OF off_base] by metis

abbreviation on_its_way :: "editor \<Rightarrow> bool" where
  "on_its_way ed \<equiv> due (set (pe_timers ed)) ed"

lemma save_reply_due:
  assumes l: "level ek ed" and p: "copy_of ek i result" and s: "safe ed w" and d: "on_its_way ed"
  shows "on_its_way (save_reply i result conflict fits ed)"
proof (cases "pe_flights ed i")
  case None
  with d show ?thesis by (simp add: save_reply_def)
next
  case (Some sent)
  let ?shared = "result\<lparr>pl_obj := pe_next ed\<rparr>"
  let ?ed1 = "ed\<lparr>pe_confirmed := (pe_confirmed ed)(i := Some ?shared), pe_next := pe_next ed + 1\<rparr>"
  let ?T = "set (pe_timers ed)"
  have s1: "safe ?ed1 w" by (rule safe_bump [of "ed\<lparr>pe_confirmed := _\<rparr>", simplified]) (use s in auto)
  have o1: "off_at ek i ?ed1" using off_confirmed [OF level_off [OF l], of i ?shared] p by simp
  obtain r ed2 where r: "read_draft i ?ed1 = (r, ed2)" by fastforce
  note o2 = off_read [OF o1 r] and b2 = base_read [OF off_base [OF o1] r]
  have t2: "pe_timers ed2 = pe_timers ed" using b2(8) by simp
  have fl: "pe_flights ed2 i = Some sent" using b2(9) Some by simp
  have d2: "due (insert i ?T) ed2" using due_read [OF off_base [OF o1] r, of ?T] d by simp
  have d2': "due ?T ed2" by (rule due_drop [OF d2]) (use fl in auto)
  have st2: "settled_at i ed2" by (rule base_settles [OF off_base [OF o1] r])
  show ?thesis
  proof (cases r)
    case None
    then have "save_reply i result conflict fits ed = save_settle i ed2"
      using r \<open>pe_flights ed i = Some sent\<close> by (simp add: save_reply_def Let_def)
    moreover have "due ?T (save_settle i ed2)"
      using d2' save_settle_same [OF b2(1) st2] b2(2) None by (auto simp: due_def)
    ultimately show ?thesis using save_settle_same(2) [OF b2(1) st2] t2 by simp
  next
    case (Some latest)
    note dl = b2(6) [OF Some]
    then have i: "pl_id (dr_doc latest) = i" by (simp add: draft_of_def copy_of_def)
    have m: "pl_obj sent < pe_next ed2" by (rule safeD(5) [OF safe_read(1) [OF s1 r] fl])
    have fin: "on_its_way (save_again i sent (save_settle i e))"
      if "off_at ek i e" "settled_at i e" "due ?T e" "pe_timers e = pe_timers ed"
        "\<And>d. pe_memory e i = Some d \<Longrightarrow> dr_conflict d = None \<Longrightarrow> dr_error d = None \<Longrightarrow> pl_obj (dr_doc d) \<noteq> pl_obj sent" for e
      unfolding settle_again_timers [OF that(1,2)] that(4) by (rule save_ends_due [OF that(1-3,5)])
    have keep: "due ?T (persist fits x e)" if "pl_id (dr_doc x) = i" "pe_flights e i = Some sent" "due ?T e" for x e
      by (rule due_drop [OF due_persist [OF that(3,1)]]) (use that in \<open>auto simp: persist_def Let_def\<close>)
    let ?new = "\<lparr>dr_doc = (dr_doc latest)\<lparr>pl_version := pl_version result, pl_obj := pe_next ed2\<rparr>, dr_conflict = None, dr_error = None\<rparr>"
    have "on_its_way (save_again i sent (save_settle i (persist fits (latest\<lparr>dr_conflict := Some ?shared\<rparr>) ed2)))"
    proof (rule fin)
      show "off_at ek i (persist fits (latest\<lparr>dr_conflict := Some ?shared\<rparr>) ed2)"
        by (rule off_persist [OF o2]) (use dl p in \<open>simp add: draft_of_def\<close>)
      show "due ?T (persist fits (latest\<lparr>dr_conflict := Some ?shared\<rparr>) ed2)" by (rule keep) (use i fl d2' in auto)
    qed (use i t2 in \<open>auto simp: settled_persist dest!: persist_memory [rotated]\<close>)
    moreover have "on_its_way (save_again i sent (save_settle i (set_active_if i ?shared (forget i ed2))))"
      by (rule fin) (use o2 due_mono [OF due_forget [OF d2']] p t2 in \<open>auto intro!: off_set_active off_forget\<close>)
    moreover have "on_its_way (save_again i sent (save_settle i (set_active_if i (dr_doc ?new) (persist fits ?new (ed2\<lparr>pe_next := pe_next ed2 + 1\<rparr>)))))"
    proof (rule fin)
      have c: "copy_of ek i (dr_doc ?new)" using dl by (simp add: draft_of_def)
      have "off_at ek i (persist fits ?new (ed2\<lparr>pe_next := pe_next ed2 + 1\<rparr>))"
        by (rule off_persist) (use o2 c in \<open>simp_all add: draft_of_def\<close>)
      from off_set_active [OF this c]
      show "off_at ek i (set_active_if i (dr_doc ?new) (persist fits ?new (ed2\<lparr>pe_next := pe_next ed2 + 1\<rparr>)))" .
      have "due ?T (persist fits ?new (ed2\<lparr>pe_next := pe_next ed2 + 1\<rparr>))" by (rule keep) (use i fl d2' in auto)
      then show "due ?T (set_active_if i (dr_doc ?new) (persist fits ?new (ed2\<lparr>pe_next := pe_next ed2 + 1\<rparr>)))" by simp
      fix x assume "pe_memory (set_active_if i (dr_doc ?new) (persist fits ?new (ed2\<lparr>pe_next := pe_next ed2 + 1\<rparr>))) i = Some x"
      then have "dr_doc x = dr_doc ?new" using persist_memory [of ?new i fits "ed2\<lparr>pe_next := pe_next ed2 + 1\<rparr>" x] i by simp
      then show "pl_obj (dr_doc x) \<noteq> pl_obj sent" using m by simp
    qed (use i t2 in \<open>simp_all add: settled_persist\<close>)
    ultimately show ?thesis using r Some \<open>pe_flights ed i = Some sent\<close> by (simp add: save_reply_def Let_def)
  qed
qed


lemma save_fails_due:
  assumes l: "level ek ed" and d: "on_its_way ed" shows "on_its_way (save_fails i message fits ed)"
proof (cases "pe_flights ed i")
  case None
  with d show ?thesis by (simp add: save_fails_def)
next
  case (Some sent)
  let ?T = "set (pe_timers ed)"
  obtain r ed2 where r: "read_draft i ed = (r, ed2)" by fastforce
  note o1 = level_off [OF l, of i]
  note o2 = off_read [OF o1 r] and b2 = base_read [OF off_base [OF o1] r]
  have fl: "pe_flights ed2 i = Some sent" using b2(9) Some by simp
  have d2: "due ?T ed2" by (rule due_drop [OF due_read [OF off_base [OF o1] r d]]) (use fl in auto)
  have st2: "settled_at i ed2" by (rule base_settles [OF off_base [OF o1] r])
  have fin: "on_its_way (save_again i sent (save_settle i e))"
    if "off_at ek i e" "settled_at i e" "due ?T e" "pe_timers e = pe_timers ed"
      "\<And>d. pe_memory e i = Some d \<Longrightarrow> dr_conflict d = None \<Longrightarrow> dr_error d = None \<Longrightarrow> pl_obj (dr_doc d) \<noteq> pl_obj sent" for e
    unfolding settle_again_timers [OF that(1,2)] that(4) by (rule save_ends_due [OF that(1-3,5)])
  show ?thesis
  proof (cases r)
    case None
    have "on_its_way (save_again i sent (save_settle i ed2))"
      by (rule fin) (use o2 st2 d2 b2(2,8) None in auto)
    with None r Some show ?thesis by (simp add: save_fails_def)
  next
    case (Some latest)
    note dl = b2(6) [OF Some]
    then have i: "pl_id (dr_doc latest) = i" by (simp add: draft_of_def copy_of_def)
    let ?e = "persist fits (latest\<lparr>dr_error := Some message\<rparr>) ed2"
    have "on_its_way (save_again i sent (save_settle i ?e))"
    proof (rule fin)
      show "off_at ek i ?e" by (rule off_persist [OF o2]) (use dl in \<open>simp add: draft_of_def\<close>)
      show "due ?T ?e"
        by (rule due_drop [OF due_persist [OF d2]]) (use fl i in \<open>auto simp: persist_def Let_def\<close>)
    qed (use i b2(8) in \<open>auto simp: settled_persist dest!: persist_memory [rotated]\<close>)
    with Some r \<open>pe_flights ed i = Some sent\<close> show ?thesis by (simp add: save_fails_def)
  qed
qed

lemma publish_due: "(\<And>p. nx = Some p \<Longrightarrow> settled_at (pl_id p) ed) \<Longrightarrow> due T (publish nx ed) = due T ed"
  by (simp add: due_def publish_same)

lemma edit_list_due:
  assumes l: "level ek ed" and u: "\<And>p. pl_id (update p) = pl_id p" and d: "on_its_way ed"
  shows "on_its_way (edit_list update fits ed)"
proof (cases "pe_active ed")
  case None
  with d show ?thesis by (simp add: edit_list_def)
next
  case (Some current)
  let ?i = "pl_id current"
  have r: "read_draft ?i ed = (pe_memory ed ?i, ed)"
    using read_in_step active_in_step [OF l Some] by blast
  let ?d = "\<lparr>dr_doc = (update current)\<lparr>pl_obj := pe_next ed\<rparr>,
    dr_conflict = (case pe_memory ed ?i of None \<Rightarrow> None | Some p \<Rightarrow> dr_conflict p), dr_error = None\<rparr>"
  let ?e = "persist fits ?d (ed\<lparr>pe_next := pe_next ed + 1\<rparr>)"
  have i: "pl_id (dr_doc ?d) = ?i" using u by simp
  have st: "settled_at (pl_id (dr_doc ?d)) ?e" using settled_persist [OF i] i by simp
  have "due (insert ?i (set (pe_timers ed))) ?e" by (rule due_persist [OF _ i]) (use d in simp)
  then have "due (insert ?i (set (pe_timers ed))) (publish (Some (dr_doc ?d)) ?e)"
    using publish_due [of "Some (dr_doc ?d)" ?e] st by simp
  moreover have "pe_timers (publish (Some (dr_doc ?d)) ?e) = pe_timers ed"
    using publish_same(3) [of "Some (dr_doc ?d)" ?e] st by simp
  ultimately show ?thesis using Some r u [of current]
    by (auto simp: edit_list_def Let_def insert_absorb)
qed

lemma save_start_on: "base ek ed \<Longrightarrow> due (insert i (set (pe_timers ed))) ed \<Longrightarrow> on_its_way (save_start i ed)"
  using save_start_due save_start_timers by fastforce

lemma retry_list_due:
  assumes l: "level ek ed" and d: "on_its_way ed" shows "on_its_way (retry_list fits ed)"
proof (cases "pe_active ed")
  case None
  with d show ?thesis by (simp add: retry_list_def)
next
  case (Some current)
  let ?i = "pl_id current"
  have r: "read_draft ?i ed = (pe_memory ed ?i, ed)"
    using read_in_step active_in_step [OF l Some] by blast
  show ?thesis
  proof (cases "pe_memory ed ?i")
    case None
    with r Some d show ?thesis by (simp add: retry_list_def)
  next
    case (Some draft)
    let ?v = "case dr_conflict draft of None \<Rightarrow> pl_version (dr_doc draft) | Some shared \<Rightarrow> pl_version shared"
    let ?d = "\<lparr>dr_doc = (dr_doc draft)\<lparr>pl_version := ?v, pl_obj := pe_next ed\<rparr>, dr_conflict = None, dr_error = None\<rparr>"
    let ?e = "persist fits ?d (ed\<lparr>pe_next := pe_next ed + 1\<rparr>)"
    let ?p = "publish (Some (dr_doc ?d)) ?e"
    have dl: "draft_of ek ?i ?d" using level_draft [OF l Some] by (simp add: draft_of_def)
    then have i: "pl_id (dr_doc ?d) = ?i" by (simp only: draft_of_def copy_of_def)
    have st: "settled_at (pl_id (dr_doc ?d)) ?e" using settled_persist [OF i] i by simp
    have "due (insert ?i (set (pe_timers ed))) ?e" by (rule due_persist [OF _ i]) (use d in simp)
    then have "due (insert ?i (set (pe_timers ?p))) ?p"
      using publish_due [of "Some (dr_doc ?d)" ?e] publish_same(3) [of "Some (dr_doc ?d)" ?e] st by simp
    moreover have "base ek ?p" using publish_kept [OF _ dl] level_off [OF l] level_base by simp
    ultimately have "on_its_way (save_start ?i ?p)" using save_start_on by blast
    with Some r \<open>pe_active ed = Some current\<close> show ?thesis by (simp add: retry_list_def Let_def)
  qed
qed


lemma select_list_due:
  assumes l: "level ek ed" and p: "\<And>q. server = Some q \<Longrightarrow> copy_of ek (pl_id q) q" and on: "on_its_way ed"
  shows "on_its_way (select_list server fits ed)"
proof (cases server)
  case None
  with on show ?thesis using publish_same(3) [of None ed] publish_due [of None ed] by (simp add: select_list_def)
next
  case (Some fetched)
  define srv where "srv = (case pe_confirmed ed (pl_id fetched) of None \<Rightarrow> fetched
    | Some known \<Rightarrow> if pl_version known > pl_version fetched then known else fetched)"
  define i where "i = pl_id srv"
  have srv: "copy_of ek i srv"
    using l p [OF Some] by (auto simp: srv_def i_def level_def base_def copy_of_def split: option.split)
  obtain r ed1 where r: "read_draft i ed = (r, ed1)" by fastforce
  note b1 = base_read [OF level_base [OF l] r] and l1 = level_read [OF l r]
  let ?T = "set (pe_timers ed)"
  have d1: "due (insert i ?T) ed1" by (rule due_read [OF level_base [OF l] r on])
  have st1: "settled_at i ed1" by (rule base_settles [OF level_base [OF l] r])
  show ?thesis
  proof (cases r)
    case None
    have "due ?T ed1" by (rule due_drop [OF d1]) (use None b1(2) in simp)
    moreover have st: "\<And>q. Some srv = Some q \<Longrightarrow> settled_at (pl_id q) ed1" using st1 i_def by simp
    ultimately have "on_its_way (publish (Some srv) ed1)"
      using publish_due [of "Some srv" ed1, OF st] publish_same(3) [of "Some srv" ed1, OF st] b1(8) by simp
    with None Some r show ?thesis by (simp add: select_list_def srv_def [symmetric] i_def [symmetric] Let_def)
  next
    case (Some draft)
    note dl = b1(6) [OF Some]
    then have di: "pl_id (dr_doc draft) = i" by (simp add: draft_of_def copy_of_def)
    define ed2 where "ed2 = (if pl_version (dr_doc draft) < pl_version srv
      then persist fits (draft\<lparr>dr_conflict := Some srv\<rparr>) ed1 else ed1)"
    have o2: "off_at ek i ed2"
      using level_off [OF l1] dl srv by (auto simp: ed2_def draft_of_def intro!: off_persist)
    have "due (insert i ?T) (persist fits (draft\<lparr>dr_conflict := Some srv\<rparr>) ed1)"
      using due_persist [OF d1, of "draft\<lparr>dr_conflict := Some srv\<rparr>" i fits] di by simp
    with d1 have d2: "due (insert i ?T) ed2" by (simp add: ed2_def)
    have t2: "pe_timers ed2 = pe_timers ed" using b1(8) by (simp add: ed2_def)
    have "pe_memory ed2 i \<noteq> None" using Some b1(2) di by (auto simp: ed2_def persist_def Let_def)
    then obtain settled where s: "pe_memory ed2 i = Some settled" by blast
    then have rs: "read_draft i ed2 = (Some settled, ed2)" by (simp add: read_draft_def)
    have ds: "copy_of ek i (dr_doc settled)" using off_base [OF o2] s by (simp add: base_def draft_of_def)
    have st: "\<And>q. Some (dr_doc settled) = Some q \<Longrightarrow> settled_at (pl_id q) ed2"
      using s ds by (auto simp: settled_at_def copy_of_def)
    let ?ed4 = "publish (Some (dr_doc settled)) ed2"
    have b4: "base ek ?ed4"
      by (rule level_base, rule publish_level) (use s ds off_base [OF o2] in \<open>auto simp: in_step_def copy_of_def\<close>)
    have d4: "due (insert i (set (pe_timers ?ed4))) ?ed4"
      using publish_due [of "Some (dr_doc settled)" ed2, OF st] publish_same(3) [of "Some (dr_doc settled)" ed2, OF st] d2 t2 by simp
    have m4: "pe_memory ?ed4 i = Some settled" using publish_same(1) [of "Some (dr_doc settled)" ed2, OF st] s by simp
    have rest: "on_its_way ?ed4" if "\<not> (dr_conflict settled = None \<and> dr_error settled = None \<and> i \<notin> set (pe_timers ?ed4))"
    proof (cases "i \<in> set (pe_timers ?ed4)")
      case True
      with d4 show ?thesis by (simp add: insert_absorb)
    qed (use due_drop [OF d4] m4 that in auto)
    have "pl_event_key (dr_doc draft) = pl_event_key srv" using dl srv by (simp add: draft_of_def copy_of_def)
    then have "select_list server fits ed = (if dr_conflict settled = None \<and> dr_error settled = None \<and> i \<notin> set (pe_timers ?ed4)
        then save_start i ?ed4 else ?ed4)"
      using Some \<open>server = Some fetched\<close> r rs
      by (simp add: select_list_def srv_def [symmetric] i_def [symmetric] Let_def ed2_def [symmetric])
    then show ?thesis using rest save_start_on [OF b4 d4] by simp
  qed
qed

lemma discard_edits_due:
  assumes l: "level ek ed" and d: "on_its_way ed" shows "on_its_way (discard_edits ed)"
proof (cases "pe_active ed")
  case None
  with d show ?thesis by (simp add: discard_edits_def)
next
  case (Some current)
  let ?i = "pl_id current"
  have r: "read_draft ?i ed = (pe_memory ed ?i, ed)"
    using read_in_step active_in_step [OF l Some] by blast
  have "on_its_way (publish (Some c) (forget ?i ed))" if m: "pe_memory ed ?i = Some dr" "dr_conflict dr = Some c" for dr c
  proof -
    have "copy_of ek ?i c" using level_draft [OF l m(1)] m(2) by (simp add: draft_of_def)
    then have st: "\<And>q. Some c = Some q \<Longrightarrow> settled_at (pl_id q) (forget ?i ed)" by (auto simp: copy_of_def)
    show ?thesis
      using publish_due [of "Some c" "forget ?i ed", OF st] publish_same(3) [of "Some c" "forget ?i ed", OF st]
        due_mono [OF due_forget [OF d], of ?i "set (pe_timers ed)"] by auto
  qed
  with Some r d show ?thesis by (auto simp: discard_edits_def split: option.split)
qed

lemma remove_list_due: "on_its_way ed \<Longrightarrow> on_its_way (remove_list i ed)"
  using due_forget [of "set (pe_timers ed)" "ed\<lparr>pe_timers := removeAll i (pe_timers ed)\<rparr>" i]
    publish_due [of None] publish_same(3) [of None]
  by (auto simp: remove_list_def Let_def set_removeAll)

lemma leave_due: "level ek ed \<Longrightarrow> due (set ts) ed \<Longrightarrow> due {} (fold save_start ts ed)"
proof (induction ts arbitrary: ed)
  case (Cons i ts)
  then have "due (set ts) (save_start i ed)" using save_start_due [OF level_base] by simp
  with Cons show ?case by simp
qed simp

text \<open>The actions that leave every edit moving: all but pausing a list and leaving the workspace.\<close>

fun holds_up :: "action \<Rightarrow> bool" where
  "holds_up Pause \<longleftrightarrow> True"
| "holds_up (Session here) \<longleftrightarrow> \<not> here"
| "holds_up _ \<longleftrightarrow> False"

lemma act_due:
  assumes "level ek ed" "proper ek a" "safe ed w" "on_its_way ed" "\<not> holds_up a" shows "on_its_way (act a ed)"
proof (cases a)
  case (Select server fits)
  have "level ek (ed\<lparr>pe_next := n\<rparr>)" for n
    using assms(1) by (simp add: level_def page_simps cong: option.case_cong)
  moreover have "copy_of ek (pl_id q) q" if "map_option (\<lambda>p. p\<lparr>pl_obj := n\<rparr>) server = Some q" for q n
    using that assms(2) Select by (cases server) auto
  ultimately show ?thesis using Select assms(4) by (auto intro!: select_list_due)
next
  case (Timer i)
  have "due (insert i (set (removeAll i (pe_timers ed)))) ed" by (rule due_mono [OF assms(4)]) auto
  then have "on_its_way (save_start i (ed\<lparr>pe_timers := removeAll i (pe_timers ed)\<rparr>))"
    by (intro save_start_on) (use assms(1) level_base in auto)
  with Timer assms(4) show ?thesis by (simp add: timer_fires_def)
next
  case (Reply_ok i result conflict fits)
  with assms show ?thesis using save_reply_due by fastforce
next
  case Leave
  with leave_due [OF level_unmount [OF assms(1)], of "pe_timers ed"] assms(4) show ?thesis by (simp add: leave_page_def)
next
  case Reload_app
  with assms(4) show ?thesis by (simp add: reload_app_def due_def)
next
  case (Session here)
  with assms show ?thesis by (simp add: due_def)
qed (use assms in \<open>auto intro!: edit_list_due save_fails_due retry_list_due discard_edits_due remove_list_due\<close>)

lemma run_due:
  "level ek ed \<Longrightarrow> safe ed w \<Longrightarrow> on_its_way ed \<Longrightarrow> list_all (proper ek) as \<Longrightarrow> list_all (\<lambda>a. \<not> holds_up a) as \<Longrightarrow>
    run_editor as (ed, w) = (ed', w') \<Longrightarrow> on_its_way ed'"
proof (induction as arbitrary: ed w)
  case (Cons a as)
  then show ?case using act_level [of ek ed a] safe_act [of ed w a] act_due [of ek ed a w] by auto
qed simp


lemma on_its_way_new [simp]: "on_its_way new_editor"
  by (simp add: due_def new_editor_def)

text \<open>Opening a list reads its stored draft back into memory: unchanged, or in conflict with a newer
  list of the server.\<close>

lemma select_resumes:
  assumes l: "level ek ed" and p: "copy_of ek i fetched" and m: "pe_memory ed i = None" "pe_stored ed i = Some d"
  shows "\<exists>d'. pe_memory (select_list (Some fetched) fits ed) i = Some d' \<and> content (dr_doc d') = content (dr_doc d) \<and>
    (dr_error d' = dr_error d \<or> dr_conflict d' \<noteq> None)"
proof -
  define srv where "srv = (case pe_confirmed ed (pl_id fetched) of None \<Rightarrow> fetched
    | Some known \<Rightarrow> if pl_version known > pl_version fetched then known else fetched)"
  have srv: "copy_of ek i srv"
    using l p by (auto simp: srv_def level_def base_def copy_of_def split: option.split)
  define draft where "draft = d\<lparr>dr_doc := (dr_doc d)\<lparr>pl_obj := pe_next ed\<rparr>\<rparr>"
  define ed1 where "ed1 = ed\<lparr>pe_memory := (pe_memory ed)(i := Some draft), pe_next := pe_next ed + 1\<rparr>"
  have "draft_of ek i d" using l m(2) by (auto simp: level_def base_def)
  then have dd: "pl_id (dr_doc d) = i" "pl_id (dr_doc draft) = i" "pl_event_key (dr_doc draft) = pl_event_key srv"
    "pl_id srv = i" "content (dr_doc draft) = content (dr_doc d)" "dr_error draft = dr_error d"
    using srv by (simp_all add: draft_of_def copy_of_def draft_def)
  have r: "read_draft i ed = (Some draft, ed1)"
    using m dd(1) by (simp add: read_draft_def Let_def ed1_def draft_def)
  define ed2 where "ed2 = (if pl_version (dr_doc draft) < pl_version srv
    then persist fits (draft\<lparr>dr_conflict := Some srv\<rparr>) ed1 else ed1)"
  have "\<exists>d'. pe_memory ed2 i = Some d' \<and> content (dr_doc d') = content (dr_doc d) \<and> pl_id (dr_doc d') = i \<and>
      (dr_error d' = dr_error d \<or> dr_conflict d' \<noteq> None)"
    using dd by (auto simp: ed2_def persist_def Let_def ed1_def)
  then obtain d' where d': "pe_memory ed2 i = Some d'" "content (dr_doc d') = content (dr_doc d)" "pl_id (dr_doc d') = i"
    "dr_error d' = dr_error d \<or> dr_conflict d' \<noteq> None" by blast
  have st: "\<And>q. Some (dr_doc d') = Some q \<Longrightarrow> settled_at (pl_id q) ed2" using d' by (auto simp: settled_at_def)
  let ?ed4 = "publish (Some (dr_doc d')) ed2"
  have m4: "pe_memory ?ed4 i = Some d'" using publish_same(1) [of "Some (dr_doc d')" ed2, OF st] d'(1) by simp
  have r2: "read_draft i ed2 = (Some d', ed2)" using d'(1) by (simp add: read_draft_def)
  have "select_list (Some fetched) fits ed = (if dr_conflict d' = None \<and> dr_error d' = None \<and> i \<notin> set (pe_timers ?ed4)
      then save_start i ?ed4 else ?ed4)"
    by (simp add: select_list_def srv_def [symmetric] Let_def dd(3,4) r ed2_def [symmetric] r2 cong: if_cong)
  moreover have "pe_memory (save_start i ?ed4) i = Some d'" by (rule save_start_memory [OF m4])
  ultimately show ?thesis using m4 d' by auto
qed

lemma timer_starts:
  assumes "pe_memory ed i = Some d" "dr_conflict d = None" "pe_flights ed i = None" "pe_here ed" "i \<in> set (pe_timers ed)"
  shows "pe_memory (timer_fires i ed) = pe_memory ed" "pe_flights (timer_fires i ed) i = Some (dr_doc d)"
proof -
  let ?ed = "ed\<lparr>pe_timers := removeAll i (pe_timers ed), pe_flights := (pe_flights ed)(i := Some (dr_doc d))\<rparr>"
  have "timer_fires i ed = (if is_active i ed then publish (pe_active ed) ?ed else ?ed)"
    using assms by (simp add: timer_fires_def save_start_def read_draft_def is_active_def Let_def)
  moreover have "is_active i ed \<Longrightarrow> pe_active ed = Some p \<Longrightarrow> settled_at (pl_id p) ?ed" for p
    using assms(1) by (simp add: is_active_def settled_at_def)
  ultimately show "pe_memory (timer_fires i ed) = pe_memory ed" "pe_flights (timer_fires i ed) i = Some (dr_doc d)"
    using publish_same(1,2) [of "pe_active ed" ?ed] by auto
qed

lemma reply_forgets:
  assumes l: "level ek ed" and p: "copy_of ek i result" and m: "pe_memory ed i = Some d" and f: "pe_flights ed i = Some (dr_doc d)"
  shows "kept (save_reply i result False fits ed) i = None"
proof -
  let ?shared = "result\<lparr>pl_obj := pe_next ed\<rparr>"
  let ?ed1 = "ed\<lparr>pe_confirmed := (pe_confirmed ed)(i := Some ?shared), pe_next := pe_next ed + 1\<rparr>"
  let ?e = "set_active_if i ?shared (forget i ?ed1)"
  have "off_at ek i ?ed1" using off_confirmed [OF level_off [OF l], of i ?shared] p by simp
  then have o: "off_at ek i ?e" using p by (intro off_set_active off_forget) auto
  note same = save_settle_same [OF off_base [OF o], of i]
  have gone: "pe_memory ?e i = None" "pe_stored ?e i = None" by (simp_all add: set_active_if_def forget_def)
  then have "kept (save_settle i ?e) i = None" using same by (simp add: kept_def)
  moreover from this have "save_again i (dr_doc d) (save_settle i ?e) = save_settle i ?e"
    by (simp add: save_again_def read_draft_def kept_def split: option.splits)
  moreover have "save_reply i result False fits ed = save_again i (dr_doc d) (save_settle i ?e)"
    using m f by (simp add: save_reply_def read_draft_def Let_def)
  ultimately show ?thesis by simp
qed

section \<open>Properties\<close>

text \<open>Claim C18: Over any run of edits, timers, replies, failures, lost storage, conflicts, retries, discards and
  reloads, in any order, the last edit of a list is still read from the device until the server took a
  save of just this content, the scout discarded it or removed the list, or the app was reloaded after
  it said that the storage is full.\<close>

theorem picklist_edits_are_kept:
  assumes "run_editor as (new_editor, \<lambda>_. None) = (ed, w)" and "w i = Some c"
  shows "\<exists>d ed'. read_draft i ed = (Some d, ed') \<and> content (dr_doc d) = c"
proof -
  have s: "safe ed w" using safe_run [OF safe_new assms(1)] .
  obtain r ed' where r: "read_draft i ed = (r, ed')" by fastforce
  obtain d where "kept ed' i = Some d" "content (dr_doc d) = c"
    using safeD(7) [OF safe_read(1) [OF s r] assms(2)] by blast
  moreover have "r \<noteq> None" using safe_read(3) [OF s r] safeD(7) [OF s assms(2)] by auto
  ultimately show ?thesis using r safe_read(2) [OF s r] by (auto simp: kept_def)
qed

definition sample_list :: "int \<Rightarrow> string \<Rightarrow> picklist" where
  "sample_list v title = \<lparr>pl_obj = 0, pl_id = 7, pl_event_key = ''2026arc'', pl_title = title, pl_slots = [],
     pl_version = v, pl_live_mode = False, pl_archived = False\<rparr>"

definition retitle :: "string \<Rightarrow> picklist \<Rightarrow> picklist" where
  "retitle title p = p\<lparr>pl_title := title\<rparr>"

text \<open>A second edit while the first is being saved, whose reply finds no room on the device.\<close>

definition sample_run :: "action list" where
  "sample_run = [Select (Some (sample_list 1 ''A'')) True, Edit (retitle ''B'') True, Timer 7,
     Edit (retitle ''C'') True, Reply_ok 7 (sample_list 2 ''B'') False False]"

theorem picklist_edits_are_kept_witness:
  "\<exists>d ed'. read_draft 7 (fst (run_editor sample_run (new_editor, \<lambda>_. None))) = (Some d, ed') \<and>
     content (dr_doc d) = (''C'', [], False)"
proof (rule picklist_edits_are_kept [OF surjective_pairing])
  show "snd (run_editor sample_run (new_editor, \<lambda>_. None)) 7 = Some (''C'', [], False)" by code_simp
qed

text \<open>Claim C19: When the copies of a list the server sends have the list's id and event, the page always shows the
  list it edits, that list is the kept draft when there is one, so an edit never builds on anything
  else, and the page says truly whether it is being saved, waiting or in conflict.\<close>

theorem page_shows_what_is_kept:
  assumes "run_editor as (new_editor, \<lambda>_. None) = (ed, w)" and "list_all (proper ek) as"
  shows "(pe_mounted ed \<longrightarrow> page_shows ed) \<and> (case pe_active ed of None \<Rightarrow> True | Some p \<Rightarrow> in_step ed p)"
  using run_level [OF level_new assms(2,1)] by (auto simp: level_def synced_def)

theorem page_shows_what_is_kept_witness:
  "let ed = fst (run_editor sample_run (new_editor, \<lambda>_. None))
   in (pe_mounted ed \<longrightarrow> page_shows ed) \<and> pv_doc ed \<noteq> None \<and> in_step ed (the (pe_active ed))"
proof -
  let ?ed = "fst (run_editor sample_run (new_editor, \<lambda>_. None))"
  have "list_all (proper (\<lambda>_. ''2026arc'')) sample_run"
    by (simp add: sample_run_def copy_of_def sample_list_def retitle_def)
  note facts = page_shows_what_is_kept [OF surjective_pairing this]
  have a: "pe_active ?ed \<noteq> None" "pv_doc ?ed \<noteq> None" by code_simp+
  then have "in_step ?ed (the (pe_active ?ed))" using facts by (auto simp del: run_editor.simps)
  with facts a(2) show ?thesis unfolding Let_def by blast
qed

text \<open>Claim C20: no edit waits for the scout to press Retry, in a run without pausing a list and without
  leaving the workspace.  Take any draft kept on the device that has no conflict and no failed save.  If
  the page has it in memory, it has a timer or a save under way.  If it is only stored, because the app
  was reloaded since, nothing sends it until its list is opened; opening the list then either starts
  the save of just this draft or shows it in conflict with a newer list of the server.\<close>

theorem every_edit_is_on_its_way:
  assumes "run_editor as (new_editor, \<lambda>_. None) = (ed, w)" and "list_all (proper ek) as"
    and "list_all (\<lambda>a. \<not> holds_up a) as"
    and "kept ed i = Some d" and "dr_conflict d = None" and "dr_error d = None"
  shows "if pe_memory ed i \<noteq> None then i \<in> set (pe_timers ed) \<or> pe_flights ed i \<noteq> None
    else (\<forall>fetched fits. pl_id fetched = i \<and> pl_event_key fetched = ek i \<longrightarrow>
      (let ed' = act (Select (Some fetched) fits) ed
       in \<exists>d'. pe_memory ed' i = Some d' \<and> content (dr_doc d') = content (dr_doc d) \<and>
         (dr_conflict d' \<noteq> None \<or> i \<in> set (pe_timers ed') \<or> pe_flights ed' i \<noteq> None)))"
proof (cases "pe_memory ed i")
  case Some
  then show ?thesis
    using run_due [OF level_new safe_new on_its_way_new assms(2,3,1)] assms(4-6) by (auto simp: due_def kept_def)
next
  case None
  have l: "level ek (ed\<lparr>pe_next := n\<rparr>)" for n
    using run_level [OF level_new assms(2,1)] by (simp add: level_def page_simps cong: option.case_cong)
  have on: "on_its_way (ed\<lparr>pe_next := n\<rparr>)" for n
    using run_due [OF level_new safe_new on_its_way_new assms(2,3,1)] by simp
  have "\<exists>d'. pe_memory ed' i = Some d' \<and> content (dr_doc d') = content (dr_doc d) \<and>
      (dr_conflict d' \<noteq> None \<or> i \<in> set (pe_timers ed') \<or> pe_flights ed' i \<noteq> None)"
    if q: "pl_id fetched = i" "pl_event_key fetched = ek i" and ed': "ed' = act (Select (Some fetched) fits) ed"
    for fetched fits ed'
  proof -
    have c: "copy_of ek i (fetched\<lparr>pl_obj := pe_next ed\<rparr>)" using q by (simp add: copy_of_def)
    have "on_its_way ed'" unfolding ed' act.simps
      by (rule select_list_due [OF l _ on]) (use q in \<open>auto simp: copy_of_def\<close>)
    moreover obtain d' where "pe_memory ed' i = Some d'" "content (dr_doc d') = content (dr_doc d)"
        "dr_error d' = None \<or> dr_conflict d' \<noteq> None"
      using select_resumes [OF l c, of "pe_next ed + 1" d fits] None assms(4,6) by (auto simp: kept_def ed')
    ultimately show ?thesis by (auto simp: due_def)
  qed
  with None show ?thesis unfolding Let_def by simp
qed

definition quick_run :: "action list" where
  "quick_run = [Select (Some (sample_list 1 ''A'')) True, Edit (retitle ''B'') True, Timer 7,
     Edit (retitle ''C'') True, Timer 7, Reply_ok 7 (sample_list 2 ''B'') False True]"

definition reopened_run :: "action list" where
  "reopened_run = [Select (Some (sample_list 1 ''A'')) True, Edit (retitle ''B'') True, Reload_app]"

theorem every_edit_is_on_its_way_witness:
  "(let ed = fst (run_editor quick_run (new_editor, \<lambda>_. None))
    in pe_timers ed = [] \<and> (7 \<in> set (pe_timers ed) \<or> pe_flights ed 7 \<noteq> None)) \<and>
   (let ed = act (Select (Some (sample_list 1 ''A'')) True) (fst (run_editor reopened_run (new_editor, \<lambda>_. None)))
    in \<exists>d. pe_memory ed 7 = Some d \<and> content (dr_doc d) = (''B'', [], False) \<and>
      (dr_conflict d \<noteq> None \<or> 7 \<in> set (pe_timers ed) \<or> pe_flights ed 7 \<noteq> None))"
proof -
  let ?q = "fst (run_editor quick_run (new_editor, \<lambda>_. None))" and ?r = "fst (run_editor reopened_run (new_editor, \<lambda>_. None))"
  let ?qd = "the (kept ?q 7)" and ?rd = "the (kept ?r 7)"
  have p: "list_all (proper (\<lambda>_. ''2026arc'')) quick_run" "list_all (proper (\<lambda>_. ''2026arc'')) reopened_run"
    by (simp_all add: quick_run_def reopened_run_def copy_of_def sample_list_def retitle_def)
  have h: "list_all (\<lambda>a. \<not> holds_up a) quick_run" "list_all (\<lambda>a. \<not> holds_up a) reopened_run"
    by (simp_all add: quick_run_def reopened_run_def)
  have "kept ?q 7 \<noteq> None" "kept ?r 7 \<noteq> None" by code_simp+
  then have k: "kept ?q 7 = Some ?qd" "kept ?r 7 = Some ?rd" by simp_all
  have qd: "dr_conflict ?qd = None" "dr_error ?qd = None" and rd: "dr_conflict ?rd = None" "dr_error ?rd = None" by code_simp+
  have f: "pe_timers ?q = []" "pe_memory ?q 7 \<noteq> None" "\<not> pe_memory ?r 7 \<noteq> None" "content (dr_doc ?rd) = (''B'', [], False)"
    by code_simp+
  have l: "pl_id (sample_list 1 ''A'') = 7 \<and> pl_event_key (sample_list 1 ''A'') = ''2026arc''" by (simp add: sample_list_def)
  show ?thesis
    using every_edit_is_on_its_way [OF surjective_pairing p(1) h(1) k(1) qd, unfolded if_P [OF f(2)]] f(1)
      every_edit_is_on_its_way [OF surjective_pairing p(2) h(2) k(2) rd, unfolded if_not_P [OF f(3)] f(4), rule_format, OF l, of True]
    unfolding Let_def by blast
qed

text \<open>Claim C21: An edit whose timer fires and whose save the server takes is no longer kept on the device.\<close>

theorem accepted_edit_is_forgotten:
  assumes "run_editor as (new_editor, \<lambda>_. None) = (ed, w)" and "list_all (proper ek) as"
    and "pe_memory ed i = Some d" and "dr_conflict d = None" and "pe_flights ed i = None" and "pe_here ed"
    and "i \<in> set (pe_timers ed)" and "pl_id result = i" and "pl_event_key result = ek i"
  shows "fst (read_draft i (act (Reply_ok i result False fits) (act (Timer i) ed))) = None"
proof -
  have l: "level ek ed" by (rule run_level [OF level_new assms(2,1)])
  then have "level ek (timer_fires i ed)" using act_level [of ek ed "Timer i"] by simp
  from reply_forgets [OF this _ _ timer_starts(2) [OF assms(3-7)]]
  have "kept (save_reply i result False fits (timer_fires i ed)) i = None"
    using assms(3,8,9) timer_starts(1) [OF assms(3-7)] by (simp add: copy_of_def)
  then show ?thesis by (auto simp: kept_def read_draft_def split: option.splits)
qed

theorem accepted_edit_is_forgotten_witness:
  "fst (read_draft 7 (act (Reply_ok 7 (sample_list 2 ''B'') False True) (act (Timer 7)
     (fst (run_editor (take 2 sample_run) (new_editor, \<lambda>_. None)))))) = None"
proof -
  let ?ed = "fst (run_editor (take 2 sample_run) (new_editor, \<lambda>_. None))"
  have p: "list_all (proper (\<lambda>_. ''2026arc'')) (take 2 sample_run)"
    by (simp add: sample_run_def copy_of_def sample_list_def retitle_def)
  have k: "pe_memory ?ed 7 \<noteq> None" by code_simp
  then have m: "pe_memory ?ed 7 = Some (the (pe_memory ?ed 7))" by simp
  have "dr_conflict (the (pe_memory ?ed 7)) = None" "pe_flights ?ed 7 = None" "pe_here ?ed" "7 \<in> set (pe_timers ?ed)"
    by code_simp+
  note m = m this
  show ?thesis
    by (rule accepted_edit_is_forgotten [OF surjective_pairing p m]) (simp_all add: sample_list_def)
qed

end
