(* ===== verification/TeamAssignments.thy ===== *)
theory TeamAssignments
  imports MatchInfo
begin

text \<open>
  Who scouts which team: \<open>src/ScoutingApp/src/features/workspace/teamAssignments.ts\<close>.  The schedule and
  the assignments come from the server; the functions here list a scout's matches, count how many slots
  are covered, and plan assignments.  A plan is a list of changes the server applies; the loops of the
  planner are folds over the matches in playing order, with the maps and sets of the code as their
  state.  Competition levels are texts and not the name of a property every JavaScript object has.
\<close>

section \<open>Slots and assignments\<close>

datatype side = RedSide | BlueSide

record slot_ref =
  sr_match_key :: string
  sr_team_key :: string

record slot = slot_ref +
  sr_alliance :: side

record room_assignment =
  ra_match_key :: string
  ra_team_key :: string
  ra_member :: "int option"
  ra_name :: string
  ra_member_active :: bool
  ra_covered :: bool
  ra_covered_by_me :: bool

record assignment_change =
  ac_match_key :: string
  ac_team_key :: string
  ac_member :: "int option"

record my_assignment =
  ma_match_key :: string
  ma_team_key :: string
  ma_match_label :: string
  ma_team_number :: string
  ma_alliance :: side
  ma_start_time :: "int option"
  ma_done :: bool

definition COMP_LEVEL_ORDER :: "(string \<times> int) list" where
  "COMP_LEVEL_ORDER = [(''qm'', 0), (''ef'', 1), (''qf'', 2), (''sf'', 3), (''f'', 4)]"

definition slotKey :: "string \<Rightarrow> string \<Rightarrow> string" where
  "slotKey matchKey teamKey = js_lower matchKey @ '':'' @ js_lower teamKey"

definition teamNumber :: "string \<Rightarrow> string" where
  "teamNumber teamKey = strip_frc teamKey"

definition level_order :: "schedule_item \<Rightarrow> int" where
  "level_order m = nullish (map_of COMP_LEVEL_ORDER (m_comp_level m)) 9"

definition by_schedule :: "schedule_item \<Rightarrow> schedule_item \<Rightarrow> int" where
  "by_schedule a b =
     (let level = level_order a - level_order b
      in if level \<noteq> 0 then level
         else if m_set_number a \<noteq> m_set_number b then m_set_number a - m_set_number b
         else m_match_number a - m_match_number b)"

definition sortSchedule :: "schedule_item list \<Rightarrow> schedule_item list" where
  "sortSchedule schedule = js_sort by_schedule schedule"

definition matchSlots :: "schedule_item \<Rightarrow> slot list" where
  "matchSlots m =
     map (\<lambda>t. \<lparr>sr_match_key = m_match_key m, sr_team_key = st_team_key t, sr_alliance = RedSide\<rparr>) (m_red m) @
     map (\<lambda>t. \<lparr>sr_match_key = m_match_key m, sr_team_key = st_team_key t, sr_alliance = BlueSide\<rparr>) (m_blue m)"

abbreviation key_of :: "'a slot_ref_scheme \<Rightarrow> string" where
  "key_of s \<equiv> slotKey (sr_match_key s) (sr_team_key s)"

definition row_key :: "room_assignment \<Rightarrow> string" where
  "row_key row = slotKey (ra_match_key row) (ra_team_key row)"

definition assignmentIndex :: "room_assignment list \<Rightarrow> (string, room_assignment) jsmap" where
  "assignmentIndex assignments = fold (\<lambda>row. map_set (row_key row) row) assignments []"

section \<open>A scout's own matches and the coverage of an event\<close>

definition my_row :: "schedule_item \<Rightarrow> slot \<Rightarrow> room_assignment \<Rightarrow> my_assignment" where
  "my_row m s row = \<lparr>ma_match_key = m_match_key m, ma_team_key = sr_team_key s,
     ma_match_label = str_or (m_display_name m) (js_upper (m_match_key m)),
     ma_team_number = teamNumber (sr_team_key s), ma_alliance = sr_alliance s,
     ma_start_time = matchStartTime (Some m), ma_done = (ra_covered_by_me row \<or> m_is_completed m)\<rparr>"

definition myAssignments :: "int \<Rightarrow> room_assignment list \<Rightarrow> schedule_item list \<Rightarrow> my_assignment list" where
  "myAssignments memberId assignments schedule =
     (let mine = fold (\<lambda>row. if ra_member row = Some memberId then map_set (row_key row) row else id) assignments []
      in concat (map (\<lambda>m. List.map_filter (\<lambda>s. map_option (my_row m s) (map_get mine (key_of s))) (matchSlots m))
           (sortSchedule schedule)))"

record coverage_summary =
  cv_upcomingSlots :: nat
  cv_assignedSlots :: nat
  cv_needsReassignment :: nat

definition cover_slot :: "(string, room_assignment) jsmap \<Rightarrow> slot \<Rightarrow> coverage_summary \<Rightarrow> coverage_summary" where
  "cover_slot index s c =
     (let c1 = c\<lparr>cv_upcomingSlots := cv_upcomingSlots c + 1\<rparr>
      in case map_get index (key_of s) of
           None \<Rightarrow> c1
         | Some row \<Rightarrow> if ra_member_active row \<and> ra_member row \<noteq> None
             then c1\<lparr>cv_assignedSlots := cv_assignedSlots c1 + 1\<rparr>
             else c1\<lparr>cv_needsReassignment := cv_needsReassignment c1 + 1\<rparr>)"

definition coverageSummary :: "room_assignment list \<Rightarrow> schedule_item list \<Rightarrow> coverage_summary" where
  "coverageSummary assignments schedule =
     (let index = assignmentIndex assignments
      in fold (\<lambda>m c. if m_is_completed m then c else fold (cover_slot index) (matchSlots m) c) schedule
           \<lparr>cv_upcomingSlots = 0, cv_assignedSlots = 0, cv_needsReassignment = 0\<rparr>)"

section \<open>The planner\<close>

datatype auto_assign_mode = Fill | Redo

text \<open>The member a slot keeps, \<open>keep(row)\<close> and \<open>row.assigned_member_id\<close> in one.\<close>

definition keep :: "auto_assign_mode \<Rightarrow> room_assignment option \<Rightarrow> int option" where
  "keep mode row = (case row of None \<Rightarrow> None
     | Some r \<Rightarrow> if mode = Fill \<and> ra_member_active r then ra_member r else None)"

record plan =
  pn_busy :: "int list"
  pn_load :: "(int, nat) jsmap"
  pn_last :: "(int, int) jsmap"
  pn_changes :: "assignment_change list"

definition load_of :: "plan \<Rightarrow> int \<Rightarrow> nat" where
  "load_of p i = nullish (map_get (pn_load p) i) 0"

definition last_of :: "plan \<Rightarrow> int \<Rightarrow> int" where
  "last_of p i = nullish (map_get (pn_last p) i) (-1)"

definition count_kept_slot :: "auto_assign_mode \<Rightarrow> (string, room_assignment) jsmap \<Rightarrow> nat \<Rightarrow> slot \<Rightarrow> plan \<Rightarrow> plan" where
  "count_kept_slot mode index k s p = (case keep mode (map_get index (key_of s)) of None \<Rightarrow> p
     | Some i \<Rightarrow> if map_has (pn_load p) i
         then p\<lparr>pn_load := map_set i (load_of p i + 1) (pn_load p),
                pn_last := map_set i (max (last_of p i) (int k)) (pn_last p)\<rparr>
         else p)"

definition count_kept :: "auto_assign_mode \<Rightarrow> (string, room_assignment) jsmap \<Rightarrow> (nat \<times> schedule_item) list \<Rightarrow> plan \<Rightarrow> plan" where
  "count_kept mode index upcoming p = (if mode = Fill
     then fold (\<lambda>(k, m). fold (count_kept_slot mode index k) (matchSlots m)) upcoming p else p)"

text \<open>\<open>memberOrder.get(id)!\<close>: the place of a member in the list.\<close>

fun place :: "int list \<Rightarrow> int \<Rightarrow> int" where
  "place [] i = 0"
| "place (j # js) i = (if i = j then 0 else place js i + 1)"

definition ranks_before :: "int list \<Rightarrow> plan \<Rightarrow> int \<Rightarrow> int \<Rightarrow> bool" where
  "ranks_before members p i j =
     (let d = int (load_of p i) - int (load_of p j); e = last_of p i - last_of p j
      in (if d \<noteq> 0 then d else if e \<noteq> 0 then e else place members i - place members j) < 0)"

fun pick_loop :: "int list \<Rightarrow> plan \<Rightarrow> int list \<Rightarrow> int option \<Rightarrow> int option" where
  "pick_loop members p [] pick = pick"
| "pick_loop members p (i # is) pick =
     pick_loop members p is (if i \<in> set (pn_busy p) then pick
       else case pick of None \<Rightarrow> Some i | Some j \<Rightarrow> if ranks_before members p i j then Some i else pick)"

definition current_of :: "room_assignment option \<Rightarrow> int option" where
  "current_of row = (case row of None \<Rightarrow> None | Some r \<Rightarrow> if ra_member_active r then ra_member r else None)"

definition take_member :: "nat \<Rightarrow> int option \<Rightarrow> plan \<Rightarrow> plan" where
  "take_member k next p = (case next of None \<Rightarrow> p
     | Some i \<Rightarrow> p\<lparr>pn_busy := i # pn_busy p, pn_load := map_set i (load_of p i + 1) (pn_load p),
         pn_last := map_set i (int k) (pn_last p)\<rparr>)"

definition assign_slot :: "int list \<Rightarrow> auto_assign_mode \<Rightarrow> (string, room_assignment) jsmap \<Rightarrow> nat \<Rightarrow> slot \<Rightarrow> plan \<Rightarrow> plan" where
  "assign_slot members mode index k s p =
     (let row = map_get index (key_of s)
      in if keep mode row \<noteq> None then p
         else (let next = pick_loop members p members None;
                   p1 = take_member k next p;
                   current = current_of row
               in if next = None \<and> current = None then p1
                  else if current \<noteq> next
                  then p1\<lparr>pn_changes := pn_changes p1 @
                    [\<lparr>ac_match_key = sr_match_key s, ac_team_key = sr_team_key s, ac_member = next\<rparr>]\<rparr>
                  else p1))"

definition assign_match :: "int list \<Rightarrow> auto_assign_mode \<Rightarrow> (string, room_assignment) jsmap \<Rightarrow> nat \<times> schedule_item \<Rightarrow> plan \<Rightarrow> plan" where
  "assign_match members mode index km p =
     (let slots = matchSlots (snd km);
          busy = List.map_filter (\<lambda>s. keep mode (map_get index (key_of s))) slots
      in fold (assign_slot members mode index (fst km)) slots (p\<lparr>pn_busy := busy\<rparr>))"

definition upcoming_matches :: "schedule_item list \<Rightarrow> schedule_item list" where
  "upcoming_matches schedule = filter (\<lambda>m. \<not> m_is_completed m) (sortSchedule schedule)"

definition fresh_plan :: "int list \<Rightarrow> plan" where
  "fresh_plan members = \<lparr>pn_busy = [], pn_load = map (\<lambda>i. (i, 0)) members, pn_last = map (\<lambda>i. (i, -1)) members,
     pn_changes = []\<rparr>"

definition planAutoAssign :: "schedule_item list \<Rightarrow> room_assignment list \<Rightarrow> int list \<Rightarrow> auto_assign_mode \<Rightarrow> assignment_change list" where
  "planAutoAssign schedule assignments memberIds mode =
     (let members = firsts memberIds;
          index = assignmentIndex assignments;
          upcoming = enumerate 0 (upcoming_matches schedule)
      in pn_changes (fold (assign_match members mode index) upcoming
           (count_kept mode index upcoming (fresh_plan members))))"

section \<open>Clearing, workload and links\<close>

definition upcoming_keys :: "schedule_item list \<Rightarrow> string set" where
  "upcoming_keys schedule = set (map (\<lambda>m. js_lower (m_match_key m)) (filter (\<lambda>m. \<not> m_is_completed m) schedule))"

definition clearUpcomingChanges :: "schedule_item list \<Rightarrow> room_assignment list \<Rightarrow> assignment_change list" where
  "clearUpcomingChanges schedule assignments =
     map (\<lambda>row. \<lparr>ac_match_key = ra_match_key row, ac_team_key = ra_team_key row, ac_member = None\<rparr>)
       (filter (\<lambda>row. js_lower (ra_match_key row) \<in> upcoming_keys schedule) assignments)"

definition workloadByMember :: "room_assignment list \<Rightarrow> schedule_item list \<Rightarrow> (int, nat) jsmap" where
  "workloadByMember assignments schedule =
     fold (\<lambda>row counts. case ra_member row of None \<Rightarrow> counts
        | Some i \<Rightarrow> if js_lower (ra_match_key row) \<in> upcoming_keys schedule
            then map_set i (nullish (map_get counts i) 0 + 1) counts else counts) assignments []"

definition scoutLink :: "string \<Rightarrow> 'a slot_ref_scheme \<Rightarrow> string" where
  "scoutLink eventKey item = ''/scouting?'' @
     query_string [(''event'', eventKey), (''match'', sr_match_key item), (''team'', sr_team_key item)]"


section \<open>What a plan hands out\<close>

text \<open>The loop of a match gives every slot a holder: the member it keeps, or the one just picked.\<close>

definition next_holder :: "int list \<Rightarrow> auto_assign_mode \<Rightarrow> (string, room_assignment) jsmap \<Rightarrow> slot \<Rightarrow> plan \<Rightarrow> int option" where
  "next_holder members mode index s p = (case keep mode (map_get index (key_of s)) of
     Some i \<Rightarrow> Some i | None \<Rightarrow> pick_loop members p members None)"

fun deal :: "int list \<Rightarrow> auto_assign_mode \<Rightarrow> (string, room_assignment) jsmap \<Rightarrow> nat \<Rightarrow> slot list \<Rightarrow> plan \<Rightarrow> (slot \<times> int option) list" where
  "deal members mode index k [] p = []"
| "deal members mode index k (s # ss) p =
     (s, next_holder members mode index s p) # deal members mode index k ss (assign_slot members mode index k s p)"

fun deal_all :: "int list \<Rightarrow> auto_assign_mode \<Rightarrow> (string, room_assignment) jsmap \<Rightarrow> (nat \<times> schedule_item) list \<Rightarrow> plan \<Rightarrow> (slot \<times> int option) list" where
  "deal_all members mode index [] p = []"
| "deal_all members mode index (km # kms) p =
     deal members mode index (fst km) (matchSlots (snd km))
       (p\<lparr>pn_busy := List.map_filter (\<lambda>s. keep mode (map_get index (key_of s))) (matchSlots (snd km))\<rparr>) @
     deal_all members mode index kms (assign_match members mode index km p)"

definition change_of :: "(string, room_assignment) jsmap \<Rightarrow> slot \<times> int option \<Rightarrow> assignment_change option" where
  "change_of index d = (if current_of (map_get index (key_of (fst d))) = snd d then None
     else Some \<lparr>ac_match_key = sr_match_key (fst d), ac_team_key = sr_team_key (fst d), ac_member = snd d\<rparr>)"

text \<open>Who holds a slot once the server has applied the changes.\<close>

definition holder :: "assignment_change list \<Rightarrow> (string, room_assignment) jsmap \<Rightarrow> 'a slot_ref_scheme \<Rightarrow> int option" where
  "holder changes index s = (case find (\<lambda>c. slotKey (ac_match_key c) (ac_team_key c) = key_of s) changes of
     Some c \<Rightarrow> ac_member c | None \<Rightarrow> current_of (map_get index (key_of s)))"

definition plan_holder :: "schedule_item list \<Rightarrow> room_assignment list \<Rightarrow> int list \<Rightarrow> auto_assign_mode \<Rightarrow> 'a slot_ref_scheme \<Rightarrow> int option" where
  "plan_holder schedule assignments memberIds mode s =
     holder (planAutoAssign schedule assignments memberIds mode) (assignmentIndex assignments) s"

definition upcoming_slots :: "schedule_item list \<Rightarrow> slot list" where
  "upcoming_slots schedule = concat (map matchSlots (upcoming_matches schedule))"

lemma map_fst_deal [simp]: "map fst (deal members mode index k ss p) = ss"
  by (induction ss arbitrary: p) auto

lemma map_fst_deal_all: "map fst (deal_all members mode index kms p) = concat (map (matchSlots \<circ> snd) kms)"
  by (induction kms arbitrary: p) auto

lemma keep_current: "keep mode row = Some i \<Longrightarrow> current_of row = Some i"
  by (auto simp: keep_def current_of_def split: option.splits if_splits)

lemma assign_slot_changes: "pn_changes (assign_slot members mode index k s p) =
    pn_changes p @ List.map_filter (change_of index) [(s, next_holder members mode index s p)]"
proof (cases "keep mode (map_get index (key_of s))")
  case None
  have "pn_changes (take_member k n p) = pn_changes p" for n by (simp add: take_member_def split: option.split)
  moreover define n where "n = pick_loop members p members None"
  moreover define c where "c = current_of (map_get index (key_of s))"
  ultimately show ?thesis
    using None by (simp add: assign_slot_def next_holder_def change_of_def List.map_filter_def Let_def n_def [symmetric] c_def [symmetric])
next
  case (Some i)
  then have "assign_slot members mode index k s p = p" by (simp add: assign_slot_def)
  moreover have "change_of index (s, next_holder members mode index s p) = None"
    using Some keep_current [OF Some] by (simp add: change_of_def next_holder_def)
  ultimately show ?thesis by (simp add: List.map_filter_def)
qed

lemma map_filter_append: "List.map_filter f (xs @ ys) = List.map_filter f xs @ List.map_filter f ys"
  by (simp add: List.map_filter_def)

lemma assign_slots_changes: "pn_changes (fold (assign_slot members mode index k) ss p) =
    pn_changes p @ List.map_filter (change_of index) (deal members mode index k ss p)"
proof (induction ss arbitrary: p)
  case (Cons s ss)
  have "List.map_filter (change_of index) (deal members mode index k (s # ss) p) =
      List.map_filter (change_of index) [(s, next_holder members mode index s p)] @
      List.map_filter (change_of index) (deal members mode index k ss (assign_slot members mode index k s p))"
    by (simp add: List.map_filter_def)
  then show ?case by (simp only: fold_simps Cons assign_slot_changes append_assoc)
qed (simp add: List.map_filter_def)

lemma assign_matches_changes: "pn_changes (fold (assign_match members mode index) kms p) =
    pn_changes p @ List.map_filter (change_of index) (deal_all members mode index kms p)"
proof (induction kms arbitrary: p)
  case (Cons km kms)
  then show ?case by (simp add: assign_match_def Let_def assign_slots_changes map_filter_append)
qed (simp add: List.map_filter_def)

lemma count_kept_slots_changes: "pn_changes (fold (count_kept_slot mode index k) ss q) = pn_changes q"
proof (induction ss arbitrary: q)
  case (Cons s ss)
  then show ?case by (simp add: count_kept_slot_def split: option.split)
qed simp

lemma count_kept_changes [simp]: "pn_changes (count_kept mode index kms p) = pn_changes p"
proof -
  have "pn_changes (fold (\<lambda>(k, m). fold (count_kept_slot mode index k) (matchSlots m)) kms q) = pn_changes q" for mode q
    by (induction kms arbitrary: q) (auto simp: count_kept_slots_changes)
  then show ?thesis by (simp add: count_kept_def)
qed

text \<open>With every slot listed once, applying the changes makes each slot's holder the one dealt to it.\<close>

lemma change_of_SomeD: "change_of index d = Some c \<Longrightarrow>
    ac_member c = snd d \<and> slotKey (ac_match_key c) (ac_team_key c) = key_of (fst d)"
  and change_of_NoneD: "change_of index d = None \<Longrightarrow> current_of (map_get index (key_of (fst d))) = snd d"
  by (auto simp: change_of_def split: if_splits)

lemma find_change:
  assumes "distinct (map (\<lambda>d. key_of (fst d)) ds)" "d \<in> set ds"
  shows "holder (List.map_filter (change_of index) ds) index (fst d) = snd d"
  using assms
proof (induction ds)
  case (Cons e ds)
  have step: "List.map_filter (change_of index) (e # ds) =
      (case change_of index e of None \<Rightarrow> List.map_filter (change_of index) ds | Some c \<Rightarrow> c # List.map_filter (change_of index) ds)"
    by (simp add: List.map_filter_def split: option.split)
  have none: "find (\<lambda>c. slotKey (ac_match_key c) (ac_team_key c) = key_of (fst e)) (List.map_filter (change_of index) ds) = None"
    using Cons.prems(1) by (fastforce simp: find_None_iff List.map_filter_def change_of_def image_iff split: if_splits)
  show ?case
  proof (cases "d = e")
    case True
    with none show ?thesis
      by (cases "change_of index e") (auto simp: holder_def step dest: change_of_SomeD change_of_NoneD)
  next
    case False
    then have "key_of (fst e) \<noteq> key_of (fst d)" using Cons.prems by force
    with False Cons show ?thesis
      by (cases "change_of index e") (auto simp: holder_def step dest: change_of_SomeD)
  qed
qed simp

lemma find_no_change:
  assumes "key_of s \<notin> (\<lambda>d. key_of (fst d)) ` set ds"
  shows "holder (List.map_filter (change_of index) ds) index s = current_of (map_get index (key_of s))"
proof -
  have "find (\<lambda>c. slotKey (ac_match_key c) (ac_team_key c) = key_of s) (List.map_filter (change_of index) ds) = None"
    using assms by (force simp: find_None_iff List.map_filter_def change_of_def split: if_splits)
  then show ?thesis by (simp add: holder_def)
qed

section \<open>Picking a member\<close>

lemma pick_loop_free:
  "pick_loop members p is pick = Some i \<Longrightarrow> i \<in> set is \<and> i \<notin> set (pn_busy p) \<or> pick = Some i"
proof (induction "is" arbitrary: pick)
  case (Cons a "is")
  then show ?case
    using Cons.IH [of "if a \<in> set (pn_busy p) then pick
      else case pick of None \<Rightarrow> Some a | Some j \<Rightarrow> if ranks_before members p a j then Some a else pick"]
    by (auto split: if_splits option.splits)
qed simp

lemma pick_loop_None: "pick_loop members p is pick = None \<longleftrightarrow> pick = None \<and> set is \<subseteq> set (pn_busy p)"
  by (induction "is" arbitrary: pick) (auto split: if_splits option.splits)

lemma ranks_before_load: "ranks_before members p i j \<Longrightarrow> load_of p i \<le> load_of p j"
  "\<not> ranks_before members p i j \<Longrightarrow> load_of p j \<le> load_of p i"
  by (auto simp: ranks_before_def Let_def split: if_splits)

lemma pick_loop_least:
  "pick_loop members p is pick = Some i \<Longrightarrow>
    (\<forall>j \<in> set is. j \<notin> set (pn_busy p) \<longrightarrow> load_of p i \<le> load_of p j) \<and> (\<forall>j. pick = Some j \<longrightarrow> load_of p i \<le> load_of p j)"
proof (induction "is" arbitrary: pick)
  case (Cons a "is")
  let ?pick = "if a \<in> set (pn_busy p) then pick
    else case pick of None \<Rightarrow> Some a | Some j \<Rightarrow> if ranks_before members p a j then Some a else pick"
  have "pick_loop members p is ?pick = Some i" using Cons.prems by simp
  note IH = Cons.IH [OF this]
  show ?case
    using IH ranks_before_load [of members p a] by (auto split: if_splits option.splits intro: le_trans)
qed simp

lemma load_take: "load_of (take_member k next p) i = load_of p i + (if next = Some i then 1 else 0)"
  by (auto simp: take_member_def load_of_def dict_simps split: option.split)

lemma busy_take: "pn_busy (take_member k next p) = (case next of None \<Rightarrow> pn_busy p | Some i \<Rightarrow> i # pn_busy p)"
  by (simp add: take_member_def split: option.split)

lemma assign_slot_view:
  "pn_busy (assign_slot members mode index k s p) = (if keep mode (map_get index (key_of s)) \<noteq> None then pn_busy p
     else pn_busy (take_member k (pick_loop members p members None) p))"
  "load_of (assign_slot members mode index k s p) = (if keep mode (map_get index (key_of s)) \<noteq> None then load_of p
     else load_of (take_member k (pick_loop members p members None) p))"
  by (simp_all add: assign_slot_def Let_def load_of_def fun_eq_iff)


section \<open>One team a match for each scout\<close>

abbreviation kept_members :: "auto_assign_mode \<Rightarrow> (string, room_assignment) jsmap \<Rightarrow> slot list \<Rightarrow> int list" where
  "kept_members mode index ss \<equiv> List.map_filter (\<lambda>s. keep mode (map_get index (key_of s))) ss"

lemma map_filter_pair: "(\<And>d. d \<in> set ds \<Longrightarrow> h (fst d) = snd d) \<Longrightarrow> List.map_filter h (map fst ds) = List.map_filter snd ds"
  by (induction ds) (auto simp: List.map_filter_def)

lemma in_map_filter: "x \<in> set (List.map_filter g ys) \<longleftrightarrow> Some x \<in> g ` set ys"
  by (induction ys) (auto simp: List.map_filter_def)

lemma map_filter_Some: "g y = Some x \<Longrightarrow> List.map_filter g (y # ys) = x # List.map_filter g ys"
  and map_filter_None: "g y = None \<Longrightarrow> List.map_filter g (y # ys) = List.map_filter g ys"
  by (simp_all add: List.map_filter_def)

lemma deal_once:
  assumes "distinct (kept_members mode index ss)" "set (kept_members mode index ss) \<subseteq> set (pn_busy p)"
  shows "distinct (List.map_filter snd (deal members mode index k ss p)) \<and>
    (\<forall>i \<in> set (List.map_filter snd (deal members mode index k ss p)).
       i \<in> set (kept_members mode index ss) \<or> i \<notin> set (pn_busy p))"
  using assms
proof (induction ss arbitrary: p)
  case Nil
  show ?case by (simp add: List.map_filter_def)
next
  case (Cons s ss)
  let ?p = "assign_slot members mode index k s p"
  let ?g = "\<lambda>s. keep mode (map_get index (key_of s))"
  show ?case
  proof (cases "?g s")
    case (Some i)
    note ks = map_filter_Some [of ?g, OF Some, of ss]
    have busy: "pn_busy ?p = pn_busy p" using Some by (simp add: assign_slot_view)
    have IH: "distinct (List.map_filter snd (deal members mode index k ss ?p)) \<and>
      (\<forall>i \<in> set (List.map_filter snd (deal members mode index k ss ?p)).
         i \<in> set (kept_members mode index ss) \<or> i \<notin> set (pn_busy ?p))"
      by (rule Cons.IH) (use Cons.prems ks busy in auto)
    have n: "next_holder members mode index s p = Some i" using Some by (simp add: next_holder_def)
    show ?thesis
      using IH Cons.prems unfolding deal.simps map_filter_Some [of snd "(s, next_holder members mode index s p)", unfolded snd_conv, OF n] ks busy
      by auto
  next
    case None
    note ks = map_filter_None [of ?g, OF None, of ss]
    have n: "next_holder members mode index s p = pick_loop members p members None"
      using None by (simp add: next_holder_def)
    have busy: "pn_busy ?p = (case next_holder members mode index s p of None \<Rightarrow> pn_busy p | Some i \<Rightarrow> i # pn_busy p)"
      using None n by (simp add: assign_slot_view busy_take)
    have IH: "distinct (List.map_filter snd (deal members mode index k ss ?p)) \<and>
      (\<forall>i \<in> set (List.map_filter snd (deal members mode index k ss ?p)).
         i \<in> set (kept_members mode index ss) \<or> i \<notin> set (pn_busy ?p))"
      by (rule Cons.IH) (use Cons.prems ks busy in \<open>auto split: option.split\<close>)
    show ?thesis
    proof (cases "next_holder members mode index s p")
      case None
      then show ?thesis
        using IH unfolding deal.simps map_filter_None [of snd "(s, next_holder members mode index s p)", unfolded snd_conv, OF None] ks busy
        by auto
    next
      case (Some i)
      then have "i \<notin> set (pn_busy p)" using pick_loop_free [of members p members None i] n by auto
      then show ?thesis
        using IH Cons.prems Some unfolding deal.simps map_filter_Some [of snd "(s, next_holder members mode index s p)", unfolded snd_conv, OF Some] ks busy
        by auto
    qed
  qed
qed

lemma deal_all_match:
  "(k, m) \<in> set kms \<Longrightarrow> \<exists>p. pn_busy p = kept_members mode index (matchSlots m) \<and>
     set (deal members mode index k (matchSlots m) p) \<subseteq> set (deal_all members mode index kms q)"
proof (induction kms arbitrary: q)
  case (Cons km kms)
  show ?case
  proof (cases "km = (k, m)")
    case True
    then show ?thesis
      by (intro exI [of _ "q\<lparr>pn_busy := kept_members mode index (matchSlots m)\<rparr>"]) auto
  next
    case False
    then have "(k, m) \<in> set kms" using Cons.prems by simp
    from Cons.IH [OF this, of "assign_match members mode index km q"] show ?thesis by auto
  qed
qed simp

lemma plan_holder_dealt:
  assumes "distinct (map key_of (upcoming_slots schedule))"
  shows "\<exists>p. \<forall>d \<in> set (deal_all (firsts memberIds) mode (assignmentIndex assignments) (enumerate 0 (upcoming_matches schedule)) p).
      plan_holder schedule assignments memberIds mode (fst d) = snd d" (is "\<exists>p. \<forall>d \<in> set (?D p). _")
    and "s \<notin> set (upcoming_slots schedule) \<Longrightarrow> key_of s \<notin> key_of ` set (upcoming_slots schedule) \<Longrightarrow>
      plan_holder schedule assignments memberIds mode s = current_of (map_get (assignmentIndex assignments) (key_of s))"
proof -
  let ?ms = "enumerate 0 (upcoming_matches schedule)"
  let ?p = "count_kept mode (assignmentIndex assignments) ?ms (fresh_plan (firsts memberIds))"
  have fst: "map fst (?D p) = upcoming_slots schedule" for p
    by (simp only: map_fst_deal_all upcoming_slots_def map_map [symmetric] map_snd_enumerate)
  have ch: "planAutoAssign schedule assignments memberIds mode = List.map_filter (change_of (assignmentIndex assignments)) (?D ?p)"
    by (simp add: planAutoAssign_def Let_def assign_matches_changes fresh_plan_def)
  have keys: "map (\<lambda>d. key_of (fst d)) (?D ?p) = map key_of (upcoming_slots schedule)"
    unfolding fst [of ?p, symmetric] by simp
  have "distinct (map (\<lambda>d. key_of (fst d)) (?D ?p))" using assms unfolding keys .
  from find_change [OF this] show "\<exists>p. \<forall>d \<in> set (?D p). plan_holder schedule assignments memberIds mode (fst d) = snd d"
    unfolding plan_holder_def ch by blast
  assume "key_of s \<notin> key_of ` set (upcoming_slots schedule)"
  moreover have "(\<lambda>d. key_of (fst d)) ` set (?D ?p) = key_of ` set (upcoming_slots schedule)"
    using arg_cong [OF keys, of set] by simp
  ultimately show "plan_holder schedule assignments memberIds mode s = current_of (map_get (assignmentIndex assignments) (key_of s))"
    unfolding plan_holder_def ch by (intro find_no_change) simp
qed

lemma match_dealt:
  assumes "distinct (map key_of (upcoming_slots schedule))" "m \<in> set (upcoming_matches schedule)"
  obtains k p where "pn_busy p = kept_members mode (assignmentIndex assignments) (matchSlots m)"
    "\<And>d. d \<in> set (deal (firsts memberIds) mode (assignmentIndex assignments) k (matchSlots m) p) \<Longrightarrow>
       plan_holder schedule assignments memberIds mode (fst d) = snd d"
proof -
  obtain q where q: "\<forall>d \<in> set (deal_all (firsts memberIds) mode (assignmentIndex assignments) (enumerate 0 (upcoming_matches schedule)) q).
      plan_holder schedule assignments memberIds mode (fst d) = snd d"
    using plan_holder_dealt(1) [OF assms(1)] by blast
  obtain k where "(k, m) \<in> set (enumerate 0 (upcoming_matches schedule))"
    using assms(2) by (auto simp: in_set_conv_nth enumerate_eq_zip set_zip)
  from deal_all_match [OF this] q that show thesis by (meson subsetD)
qed

lemma keep_Fill: "keep Fill row = current_of row"
  by (simp add: keep_def current_of_def split: option.split)

lemma keep_Redo [simp]: "keep Redo row = None"
  by (simp add: keep_def split: option.split)

lemma each_scout_once:
  assumes "distinct (map key_of (upcoming_slots schedule))" "m \<in> set (upcoming_matches schedule)"
    "mode = Fill \<Longrightarrow> distinct (List.map_filter (\<lambda>s. current_of (map_get (assignmentIndex assignments) (key_of s))) (matchSlots m))"
  shows "distinct (List.map_filter (plan_holder schedule assignments memberIds mode) (matchSlots m))"
proof -
  obtain k p where p: "pn_busy p = kept_members mode (assignmentIndex assignments) (matchSlots m)"
    "\<And>d. d \<in> set (deal (firsts memberIds) mode (assignmentIndex assignments) k (matchSlots m) p) \<Longrightarrow>
       plan_holder schedule assignments memberIds mode (fst d) = snd d"
    using match_dealt [OF assms(1,2)] by blast
  have "distinct (kept_members mode (assignmentIndex assignments) (matchSlots m))"
    using assms(3) by (cases mode) (simp_all add: keep_Fill List.map_filter_def)
  then have "distinct (List.map_filter snd (deal (firsts memberIds) mode (assignmentIndex assignments) k (matchSlots m) p))"
    by (intro conjunct1 [OF deal_once]) (simp_all add: p(1))
  moreover have "List.map_filter (plan_holder schedule assignments memberIds mode)
      (map fst (deal (firsts memberIds) mode (assignmentIndex assignments) k (matchSlots m) p)) =
    List.map_filter snd (deal (firsts memberIds) mode (assignmentIndex assignments) k (matchSlots m) p)"
    by (rule map_filter_pair) (rule p(2))
  ultimately show ?thesis by simp
qed


section \<open>No slot without a scout\<close>

lemma slot_filled:
  assumes "pick_loop members p members None = None" "distinct members" shows "length members \<le> length (pn_busy p)"
proof -
  have "set members \<subseteq> set (pn_busy p)" using assms(1) by (simp add: pick_loop_None)
  then have "card (set members) \<le> card (set (pn_busy p))" by (simp add: card_mono)
  with assms(2) show ?thesis by (metis card_length distinct_card le_trans)
qed

lemma deal_fills:
  assumes "distinct members"
    "length (pn_busy p) + length (filter (\<lambda>s. keep mode (map_get index (key_of s)) = None) ss) \<le> length members"
    "d \<in> set (deal members mode index k ss p)"
  shows "case keep mode (map_get index (key_of (fst d))) of Some i \<Rightarrow> snd d = Some i
    | None \<Rightarrow> snd d \<noteq> None \<and> set_option (snd d) \<subseteq> set members"
  using assms(2,3)
proof (induction ss arbitrary: p)
  case (Cons s ss)
  let ?p = "assign_slot members mode index k s p"
  show ?case
  proof (cases "d = (s, next_holder members mode index s p)")
    case True
    have "pick_loop members p members None \<noteq> None" if "keep mode (map_get index (key_of s)) = None"
      using Cons.prems(1) that slot_filled [OF _ assms(1), of p] by fastforce
    with True show ?thesis
      by (auto simp: next_holder_def dest: pick_loop_free split: option.split)
  next
    case False
    then have d: "d \<in> set (deal members mode index k ss ?p)" using Cons.prems(2) by simp
    have "length (pn_busy ?p) + length (filter (\<lambda>s. keep mode (map_get index (key_of s)) = None) ss) \<le> length members"
      using Cons.prems(1) by (auto simp: assign_slot_view busy_take split: option.splits if_splits)
    from Cons.IH [OF this d] show ?thesis .
  qed
qed simp

lemma length_kept: "length (List.map_filter g ss) + length (filter (\<lambda>s. g s = None) ss) = length ss"
  by (induction ss) (auto simp: List.map_filter_def)

lemma every_slot_held:
  assumes "distinct (map key_of (upcoming_slots schedule))" "m \<in> set (upcoming_matches schedule)"
    "length (matchSlots m) \<le> length (firsts memberIds)" "s \<in> set (matchSlots m)"
  shows "case keep mode (map_get (assignmentIndex assignments) (key_of s)) of
      Some i \<Rightarrow> plan_holder schedule assignments memberIds mode s = Some i
    | None \<Rightarrow> \<exists>i \<in> set memberIds. plan_holder schedule assignments memberIds mode s = Some i"
proof -
  obtain k p where p: "pn_busy p = kept_members mode (assignmentIndex assignments) (matchSlots m)"
    "\<And>d. d \<in> set (deal (firsts memberIds) mode (assignmentIndex assignments) k (matchSlots m) p) \<Longrightarrow>
       plan_holder schedule assignments memberIds mode (fst d) = snd d"
    using match_dealt [OF assms(1,2)] by blast
  have "s \<in> fst ` set (deal (firsts memberIds) mode (assignmentIndex assignments) k (matchSlots m) p)"
    using assms(4) map_fst_deal [of "firsts memberIds" mode "assignmentIndex assignments" k "matchSlots m" p]
    by (metis list.set_map)
  then obtain d where d: "d \<in> set (deal (firsts memberIds) mode (assignmentIndex assignments) k (matchSlots m) p)" "s = fst d"
    by blast
  have "length (pn_busy p) + length (filter (\<lambda>s. keep mode (map_get (assignmentIndex assignments) (key_of s)) = None) (matchSlots m))
      \<le> length (firsts memberIds)"
    using length_kept [of "\<lambda>s. keep mode (map_get (assignmentIndex assignments) (key_of s))" "matchSlots m"] assms(3) p(1) by simp
  from deal_fills [OF distinct_firsts this d(1)] p(2) [OF d(1)] d(2) show ?thesis
    by (auto split: option.splits)
qed

section \<open>Even work\<close>

lemma redo_load: "load_of (fold (assign_slot members Redo index k) ss p) i =
    load_of p i + length (filter (\<lambda>d. snd d = Some i) (deal members Redo index k ss p))"
proof (induction ss arbitrary: p)
  case (Cons s ss)
  then show ?case by (simp add: assign_slot_view load_take next_holder_def)
qed simp

lemma redo_load_all: "load_of (fold (assign_match members Redo index) kms p) i =
    load_of p i + length (filter (\<lambda>d. snd d = Some i) (deal_all members Redo index kms p))"
proof (induction kms arbitrary: p)
  case (Cons km kms)
  have "load_of (p\<lparr>pn_busy := b\<rparr>) i = load_of p i" for b by (simp add: load_of_def)
  with Cons show ?case by (simp add: assign_match_def Let_def redo_load)
qed simp

text \<open>Loads differ by at most one, and within a match either the busy members are the ones ahead or the free
  ones are all level.\<close>

definition even_loads :: "int set \<Rightarrow> nat \<Rightarrow> plan \<Rightarrow> bool" where
  "even_loads M a p \<longleftrightarrow> (\<forall>i \<in> M. load_of p i = a \<or> load_of p i = a + 1) \<and>
     ((\<forall>i \<in> M. i \<in> set (pn_busy p) \<longrightarrow> load_of p i = a + 1) \<or> (\<forall>i \<in> M. i \<notin> set (pn_busy p) \<longrightarrow> load_of p i = a))"

lemma even_step:
  assumes "even_loads (set members) a p"
  shows "\<exists>a. even_loads (set members) a (assign_slot members Redo index k s p)"
proof (cases "pick_loop members p members None")
  case None
  then show ?thesis using assms by (auto simp: even_loads_def assign_slot_view take_member_def)
next
  case (Some i)
  have i: "i \<in> set members" "i \<notin> set (pn_busy p)" using pick_loop_free [OF Some] by auto
  have least: "\<And>j. j \<in> set members \<Longrightarrow> j \<notin> set (pn_busy p) \<Longrightarrow> load_of p i \<le> load_of p j"
    using pick_loop_least [OF Some] by blast
  have busy: "pn_busy (assign_slot members Redo index k s p) = i # pn_busy p"
    using Some by (simp add: assign_slot_view busy_take)
  have load: "load_of (assign_slot members Redo index k s p) j = (if j = i then load_of p i + 1 else load_of p j)" for j
    using Some by (simp add: assign_slot_view load_take)
  show ?thesis
  proof (cases "load_of p i = a")
    case True
    then have "even_loads (set members) a (assign_slot members Redo index k s p)"
      using assms unfolding even_loads_def busy load by auto
    then show ?thesis ..
  next
    case False
    then have li: "load_of p i = a + 1" using assms i by (auto simp: even_loads_def)
    have "load_of p j = a + 1" if "j \<in> set members" for j
      using assms that least [of j] li i by (cases "j \<in> set (pn_busy p)") (fastforce simp: even_loads_def)+
    then have "even_loads (set members) (a + 1) (assign_slot members Redo index k s p)"
      using i li unfolding even_loads_def busy load by auto
    then show ?thesis ..
  qed
qed

lemma even_match:
  assumes "even_loads (set members) a p"
  shows "\<exists>a. even_loads (set members) a (assign_match members Redo index km p)"
proof -
  have "\<exists>a. even_loads (set members) a (fold (assign_slot members Redo index k) ss q)"
    if "even_loads (set members) a q" for a k ss q
    using that
  proof (induction ss arbitrary: a q)
    case (Cons s ss)
    from even_step [OF Cons.prems, of index k s] show ?case using Cons.IH by auto
  qed auto
  moreover have "even_loads (set members) a (p\<lparr>pn_busy := []\<rparr>)"
    using assms by (simp add: even_loads_def load_of_def)
  ultimately show ?thesis by (simp add: assign_match_def Let_def List.map_filter_def)
qed

lemma even_all:
  "even_loads (set members) a p \<Longrightarrow> \<exists>a. even_loads (set members) a (fold (assign_match members Redo index) kms p)"
proof (induction kms arbitrary: a p)
  case (Cons km kms)
  from even_match [OF Cons.prems, of index km] show ?case using Cons.IH by auto
qed auto


lemma slots_dealt_to:
  assumes "distinct (map key_of (upcoming_slots schedule))"
  shows "\<exists>a. \<forall>i \<in> set memberIds. let n = length (filter (\<lambda>s. plan_holder schedule assignments memberIds Redo s = Some i) (upcoming_slots schedule))
    in n = a \<or> n = a + 1"
proof -
  let ?M = "firsts memberIds" and ?I = "assignmentIndex assignments" and ?U = "enumerate 0 (upcoming_matches schedule)"
  let ?D = "\<lambda>p. deal_all ?M Redo ?I ?U p"
  let ?p = "count_kept Redo ?I ?U (fresh_plan ?M)"
  have p: "?p = fresh_plan ?M" by (simp add: count_kept_def)
  have zero: "load_of (fresh_plan ?M) i = 0" for i
  proof -
    have "map_of (map (\<lambda>i. (i, 0::nat)) xs) i = Some n \<Longrightarrow> n = 0" for xs n
      by (induction xs) (auto split: if_splits)
    then show ?thesis by (cases "map_of (map (\<lambda>i. (i, 0::nat)) ?M) i") (auto simp: load_of_def fresh_plan_def map_get_def)
  qed
  have "even_loads (set ?M) 0 (fresh_plan ?M)" by (simp add: even_loads_def zero)
  from even_all [OF this] obtain a where a: "even_loads (set ?M) a (fold (assign_match ?M Redo ?I) ?U (fresh_plan ?M))" by blast
  have fst: "map fst (?D (fresh_plan ?M)) = upcoming_slots schedule"
    by (simp only: map_fst_deal_all upcoming_slots_def map_map [symmetric] map_snd_enumerate)
  have keys: "map (\<lambda>d. key_of (fst d)) (?D (fresh_plan ?M)) = map key_of (upcoming_slots schedule)"
    unfolding fst [symmetric] by simp
  have ch: "planAutoAssign schedule assignments memberIds Redo = List.map_filter (change_of ?I) (?D (fresh_plan ?M))"
    unfolding planAutoAssign_def Let_def p assign_matches_changes by (simp add: fresh_plan_def)
  have h: "plan_holder schedule assignments memberIds Redo (fst d) = snd d" if "d \<in> set (?D (fresh_plan ?M))" for d
    unfolding plan_holder_def ch by (rule find_change) (use that assms keys in simp_all)
  have "filter (\<lambda>s. plan_holder schedule assignments memberIds Redo s = Some i) (upcoming_slots schedule) =
      map fst (filter (\<lambda>d. plan_holder schedule assignments memberIds Redo (fst d) = Some i) (?D (fresh_plan ?M)))" for i
    unfolding fst [symmetric] by (simp add: filter_map o_def)
  then have "length (filter (\<lambda>s. plan_holder schedule assignments memberIds Redo s = Some i) (upcoming_slots schedule)) =
      length (filter (\<lambda>d. snd d = Some i) (?D (fresh_plan ?M)))" for i
    using h by (simp cong: filter_cong)
  then have "length (filter (\<lambda>s. plan_holder schedule assignments memberIds Redo s = Some i) (upcoming_slots schedule)) =
      load_of (fold (assign_match ?M Redo ?I) ?U (fresh_plan ?M)) i" for i
    by (simp add: redo_load_all zero)
  with a show ?thesis by (auto simp: even_loads_def Let_def)
qed

section \<open>Properties\<close>

text \<open>Claim C22: After a plan no scout holds two teams of an upcoming match: always when the plan starts over, and
  when it fills gaps if none did before.\<close>

theorem plan_books_each_scout_once:
  assumes "distinct (map key_of (upcoming_slots schedule))" and "m \<in> set (upcoming_matches schedule)"
    and "mode = Fill \<Longrightarrow> distinct (List.map_filter (\<lambda>s. current_of (map_get (assignmentIndex assignments) (key_of s))) (matchSlots m))"
  shows "distinct (List.map_filter (plan_holder schedule assignments memberIds mode) (matchSlots m))"
  using each_scout_once [OF assms] .

definition sample_match :: "int \<Rightarrow> string list \<Rightarrow> string list \<Rightarrow> bool \<Rightarrow> schedule_item" where
  "sample_match n red blue completed = \<lparr>m_match_key = ''2026arc_qm'' @ int_str n, m_display_name = [],
     m_comp_level = ''qm'', m_set_number = 1, m_match_number = n, m_scheduled_time = None, m_predicted_time = None,
     m_actual_time = None, m_has_time = False, m_red_score = None, m_blue_score = None, m_winner_alliance = None,
     m_is_completed = completed, m_winning_score = None, m_losing_score = None,
     m_red = map (\<lambda>k. \<lparr>st_team_key = k, st_team_number = 0, st_nickname = None, st_station = None\<rparr>) red,
     m_blue = map (\<lambda>k. \<lparr>st_team_key = k, st_team_number = 0, st_nickname = None, st_station = None\<rparr>) blue\<rparr>"

definition sample_schedule :: "schedule_item list" where
  "sample_schedule = [sample_match 2 [''frc1''] [''frc2''] False, sample_match 1 [''frc3''] [''frc4''] True,
     sample_match 3 [''frc1''] [''frc3''] False]"

definition sample_rows :: "room_assignment list" where
  "sample_rows = [\<lparr>ra_match_key = ''2026arc_qm2'', ra_team_key = ''frc1'', ra_member = Some 7, ra_name = ''Ada'',
     ra_member_active = True, ra_covered = False, ra_covered_by_me = False\<rparr>]"

theorem plan_books_each_scout_once_witness:
  "distinct (List.map_filter (plan_holder sample_schedule sample_rows [7, 8] Fill)
     (matchSlots (sample_match 2 [''frc1''] [''frc2''] False)))"
proof (rule plan_books_each_scout_once)
  show "distinct (map key_of (upcoming_slots sample_schedule))" by code_simp
  show "sample_match 2 [''frc1''] [''frc2''] False \<in> set (upcoming_matches sample_schedule)" by code_simp
  show "distinct (List.map_filter (\<lambda>s. current_of (map_get (assignmentIndex sample_rows) (key_of s)))
      (matchSlots (sample_match 2 [''frc1''] [''frc2''] False)))" by code_simp
qed

text \<open>Claim C23: A plan that starts over spreads the upcoming slots evenly: two scouts' numbers of slots differ by at
  most one, however many scouts there are.\<close>

theorem plan_is_even:
  assumes "distinct (map key_of (upcoming_slots schedule))" and "i \<in> set memberIds" and "j \<in> set memberIds"
  shows "length (filter (\<lambda>s. plan_holder schedule assignments memberIds Redo s = Some i) (upcoming_slots schedule))
    \<le> length (filter (\<lambda>s. plan_holder schedule assignments memberIds Redo s = Some j) (upcoming_slots schedule)) + 1"
proof -
  obtain a where a: "\<And>i. i \<in> set memberIds \<Longrightarrow>
      length (filter (\<lambda>s. plan_holder schedule assignments memberIds Redo s = Some i) (upcoming_slots schedule)) \<in> {a, a + 1}"
    using slots_dealt_to [OF assms(1), of memberIds assignments] by (auto simp: Let_def)
  show ?thesis using a [OF assms(2)] a [OF assms(3)] by auto
qed

theorem plan_is_even_witness:
  "length (filter (\<lambda>s. plan_holder sample_schedule sample_rows [7, 8, 9] Redo s = Some 7) (upcoming_slots sample_schedule))
    \<le> length (filter (\<lambda>s. plan_holder sample_schedule sample_rows [7, 8, 9] Redo s = Some 9) (upcoming_slots sample_schedule)) + 1"
  by (rule plan_is_even) (code_simp, simp_all)

text \<open>With at least as many scouts as slots in a match, every slot has a scout after a plan: the one it
  keeps, or one of the given scouts.\<close>

theorem plan_fills_every_slot:
  assumes "distinct (map key_of (upcoming_slots schedule))" and "m \<in> set (upcoming_matches schedule)"
    and "length (matchSlots m) \<le> length (firsts memberIds)" and "s \<in> set (matchSlots m)"
  shows "case keep mode (map_get (assignmentIndex assignments) (key_of s)) of
      Some i \<Rightarrow> plan_holder schedule assignments memberIds mode s = Some i
    | None \<Rightarrow> \<exists>i \<in> set memberIds. plan_holder schedule assignments memberIds mode s = Some i"
  by (rule every_slot_held [OF assms])

theorem plan_fills_every_slot_witness:
  "plan_holder sample_schedule sample_rows [7, 8] Fill
     \<lparr>sr_match_key = ''2026arc_qm2'', sr_team_key = ''frc1'', sr_alliance = RedSide\<rparr> = Some 7"
proof -
  have "distinct (map key_of (upcoming_slots sample_schedule))"
    "sample_match 2 [''frc1''] [''frc2''] False \<in> set (upcoming_matches sample_schedule)"
    "length (matchSlots (sample_match 2 [''frc1''] [''frc2''] False)) \<le> length (firsts [7, 8 :: int])"
    "\<lparr>sr_match_key = ''2026arc_qm2'', sr_team_key = ''frc1'', sr_alliance = RedSide\<rparr> \<in>
       set (matchSlots (sample_match 2 [''frc1''] [''frc2''] False))" by code_simp+
  note held = plan_fills_every_slot [OF this, where mode = Fill and assignments = sample_rows]
  have "keep Fill (map_get (assignmentIndex sample_rows) (slotKey ''2026arc_qm2'' ''frc1'')) = Some 7" by code_simp
  with held show ?thesis by simp
qed

end
