(* ===== verification/EventSearch.thy ===== *)
theory EventSearch
  imports MatchInfo
begin

text \<open>
  Finding an event: \<open>utils/mergeEventLists.ts\<close>, \<open>features/events/eventCatalog.ts\<close>,
  \<open>utils/eventSearchIndex.ts\<close> and \<open>utils/eventSearch.ts\<close>.  The server's answers are arguments: a
  search is a function from the query to a list of events, or \<open>None\<close> where the request is rejected.
  \<open>localeCompare\<close> is the argument \<open>collate\<close>.  The index of the module, the time it was filled and the
  running fill are the state \<open>index_state\<close>.  A query with the word \<open>constructor\<close>, which every
  JavaScript object maps to something, is outside the model.
\<close>

section \<open>Events\<close>

text \<open>A field that may be missing is \<open>None\<close>, \<open>null\<close> is \<open>Some None\<close>.\<close>

type_synonym field = "string option option"

record event_item =
  es_event_key :: string
  es_name :: string
  es_year :: int
  es_start_date :: field
  es_end_date :: field
  es_city :: field
  es_state_prov :: field
  es_country :: field
  es_region :: "string option"

definition field_text :: "field \<Rightarrow> string" where
  "field_text f = (case f of Some (Some s) \<Rightarrow> s | _ \<Rightarrow> [])"

text \<open>\<open>{ ...previous, ...event }\<close> on one field, and \<open>event.x || previous.x\<close>.\<close>

definition spread :: "'a option \<Rightarrow> 'a option \<Rightarrow> 'a option" where
  "spread previous e = (case e of None \<Rightarrow> previous | Some x \<Rightarrow> Some x)"

definition field_or :: "field \<Rightarrow> field \<Rightarrow> field" where
  "field_or a b = (if field_text a = [] then b else a)"

definition merge_event :: "event_item \<Rightarrow> event_item \<Rightarrow> event_item" where
  "merge_event previous event = event\<lparr>
     es_start_date := field_or (es_start_date event) (es_start_date previous),
     es_end_date := field_or (es_end_date event) (es_end_date previous),
     es_city := spread (es_city previous) (es_city event),
     es_state_prov := spread (es_state_prov previous) (es_state_prov event),
     es_country := spread (es_country previous) (es_country event),
     es_region := spread (es_region previous) (es_region event)\<rparr>"

type_synonym event_map = "(string, event_item) jsmap"

definition normalizedEventKey :: "string \<Rightarrow> string" where
  "normalizedEventKey value = js_lower (js_trim value)"

definition put_event :: "event_item \<Rightarrow> event_map \<Rightarrow> event_map" where
  "put_event event m =
     (let key = normalizedEventKey (es_event_key event)
      in if key = [] then m
         else (case map_get m key of None \<Rightarrow> map_set key event m
           | Some previous \<Rightarrow> map_set key (merge_event previous event) m))"

definition mergeEventLists :: "event_item list list \<Rightarrow> event_item list" where
  "mergeEventLists lsts = map_values (fold (\<lambda>xs m. fold put_event xs m) lsts [])"

section \<open>The catalogue of a season\<close>

text \<open>\<open>searchEvents\<close>, and \<open>getSuggestedEvents\<close> by preferred year, other year and limit.\<close>

type_synonym search_net = "string \<Rightarrow> event_item list option"
type_synonym suggest_net = "int \<Rightarrow> int \<Rightarrow> int \<Rightarrow> event_item list option"

definition loadSeasonSearchFallback :: "search_net \<Rightarrow> int \<Rightarrow> int \<Rightarrow> int \<Rightarrow> event_item list option" where
  "loadSeasonSearchFallback net preferredYear otherYear asked =
     (let limit = max 1 (min asked 900);
          primary = net (int_str preferredYear); fallback = net (int_str otherYear)
      in if primary = None \<and> fallback = None then None
         else Some (take (nat limit) (mergeEventLists [nullish primary [], nullish fallback []])))"

definition loadSeasonEventCatalog :: "search_net \<Rightarrow> suggest_net \<Rightarrow> int \<Rightarrow> int \<Rightarrow> int \<Rightarrow> int \<Rightarrow> event_item list option" where
  "loadSeasonEventCatalog net suggest preferredYear otherYear asked minT =
     (let limit = max 1 (min asked 900); minTarget = max 0 (min minT limit);
          suggested = nullish (suggest preferredYear otherYear limit) []
      in if suggested = [] then loadSeasonSearchFallback net preferredYear otherYear limit
         else if minTarget > 0 \<and> int (length suggested) < minTarget
         then (case loadSeasonSearchFallback net preferredYear otherYear limit of None \<Rightarrow> None
            | Some fallback \<Rightarrow> Some (take (nat limit) (mergeEventLists [suggested, fallback])))
         else Some (take (nat limit) suggested))"

section \<open>The search index\<close>

definition EVENT_SEARCH_INDEX_TTL_MS :: int where "EVENT_SEARCH_INDEX_TTL_MS = 5 * 60 * 1000"

definition DEFAULT_INDEX_LIMIT :: int where "DEFAULT_INDEX_LIMIT = 260"

record index_state =
  ix_events :: event_map
  ix_warming :: bool
  ix_warmed_at :: int

definition newest_season_first :: "(string \<Rightarrow> string \<Rightarrow> int) \<Rightarrow> event_item \<Rightarrow> event_item \<Rightarrow> int" where
  "newest_season_first collate a b = (if es_year a \<noteq> es_year b then es_year b - es_year a
     else collate (es_event_key a) (es_event_key b))"

definition sortedIndexSnapshot :: "(string \<Rightarrow> string \<Rightarrow> int) \<Rightarrow> event_map \<Rightarrow> event_item list" where
  "sortedIndexSnapshot collate m = js_sort (newest_season_first collate) (map_values m)"

definition eventNameFromIndex :: "event_map \<Rightarrow> string option \<Rightarrow> string option" where
  "eventNameFromIndex m eventKey = (case map_get m (normalizedEventKey (opt_str eventKey)) of None \<Rightarrow> None
     | Some e \<Rightarrow> if es_name e = [] then None else Some (es_name e))"

definition eventDisplayName :: "event_map \<Rightarrow> string option \<Rightarrow> string" where
  "eventDisplayName m eventKey =
     (let value = normalizedEventKey (opt_str eventKey)
      in case eventNameFromIndex m (Some value) of Some name \<Rightarrow> name
       | None \<Rightarrow> if \<not> event_key_form value then js_upper value
           else take 4 value @ '' '' @ js_upper (drop 4 value))"

definition mergeEventsIntoSearchIndex :: "event_item list \<Rightarrow> event_map \<Rightarrow> event_map" where
  "mergeEventsIntoSearchIndex events m = fold put_event events m"

record preload_options =
  po_preferredYear :: "int option"
  po_fallbackYear :: "int option"
  po_limit :: "int option"
  po_force :: bool

datatype preload = Served "event_item list" | Joined | Started

definition preload_limit :: "preload_options \<Rightarrow> int" where
  "preload_limit o' = max 40 (min (nullish (po_limit o') DEFAULT_INDEX_LIMIT) 400)"

definition preload_start :: "(string \<Rightarrow> string \<Rightarrow> int) \<Rightarrow> int \<Rightarrow> preload_options \<Rightarrow> index_state \<Rightarrow> preload \<times> index_state" where
  "preload_start collate now o' st =
     (if \<not> po_force o' \<and> ix_events st \<noteq> [] \<and> now - ix_warmed_at st < EVENT_SEARCH_INDEX_TTL_MS
      then (Served (sortedIndexSnapshot collate (ix_events st)), st)
      else if ix_warming st then (Joined, st) else (Started, st\<lparr>ix_warming := True\<rparr>))"

text \<open>The fill itself, from the answers to the end: its events, or \<open>None\<close> where it gives up.\<close>

definition preload_events :: "search_net \<Rightarrow> suggest_net \<Rightarrow> int \<Rightarrow> preload_options \<Rightarrow> event_item list option" where
  "preload_events net suggest thisYear o' =
     (let preferredYear = nullish (po_preferredYear o') thisYear;
          otherYear = nullish (po_fallbackYear o') (preferredYear - 1);
          limit = preload_limit o';
          first = (case loadSeasonEventCatalog net suggest preferredYear otherYear limit (min 120 limit) of
              Some es \<Rightarrow> Some es | None \<Rightarrow> loadSeasonSearchFallback net preferredYear otherYear limit)
      in case first of None \<Rightarrow> None
       | Some es \<Rightarrow>
           (if es \<noteq> [] \<and> int (length es) < min 120 limit
            then (case loadSeasonSearchFallback net preferredYear otherYear limit of None \<Rightarrow> None
               | Some fallback \<Rightarrow> Some (take (nat limit) (mergeEventLists [es, fallback])))
            else Some (take (nat limit) es)))"

definition preload_finish :: "(string \<Rightarrow> string \<Rightarrow> int) \<Rightarrow> search_net \<Rightarrow> suggest_net \<Rightarrow> int \<Rightarrow> int \<Rightarrow> preload_options \<Rightarrow>
    index_state \<Rightarrow> event_item list \<times> index_state" where
  "preload_finish collate net suggest thisYear now o' st =
     (let st1 = (case preload_events net suggest thisYear o' of None \<Rightarrow> st
            | Some es \<Rightarrow> st\<lparr>ix_events := mergeEventsIntoSearchIndex es (ix_events st), ix_warmed_at := now\<rparr>)
      in (sortedIndexSnapshot collate (ix_events st1), st1\<lparr>ix_warming := False\<rparr>))"

section \<open>Words\<close>

definition TOKEN_ALIASES :: "(string \<times> string) list" where
  "TOKEN_ALIASES = [(''house'', ''houston''), (''houson'', ''houston''), (''houstn'', ''houston''), (''hston'', ''houston''),
     (''toronot'', ''toronto''), (''tornto'', ''toronto''), (''toronro'', ''toronto''),
     (''austrilian'', ''australian''), (''austrailian'', ''australian''), (''australiane'', ''australian''),
     (''austrlia'', ''australia''), (''aus'', ''australia''), (''champs'', ''championship''), (''cmp'', ''championship'')]"

definition STOP_TOKENS :: "string list" where
  "STOP_TOKENS = [''the'', ''a'', ''an'', ''for'', ''of'', ''to'', ''please'', ''open'', ''show'', ''find'', ''search'',
     ''competition'', ''tournament'']"

definition BOOST_TOKENS :: "string list" where
  "BOOST_TOKENS = [''district'', ''regional'', ''league'', ''championship'', ''week'', ''event'']"

text \<open>
  \<open>normalize('NFKD')\<close> on the code units 0 to 255: a letter with a mark becomes the letter and a combining
  mark, signs become their plain forms.  The combining marks, the fraction slash and the Greek mu lie
  outside 0 to 255; they are neither word characters nor space, and \<open>mark\<close> stands for each of them.
\<close>

definition mark :: char where "mark = CHR 0xB7"

definition nfkd_char :: "char \<Rightarrow> string" where
  "nfkd_char c = (let n = of_char c :: nat; letter = (\<lambda>s. s @ [mark]) in
     if n = 160 then '' '' else if n \<in> {168, 175, 180, 184} then [CHR '' '', mark]
     else if n = 170 then ''a'' else if n = 178 then ''2'' else if n = 179 then ''3'' else if n = 181 then [mark]
     else if n = 185 then ''1'' else if n = 186 then ''o''
     else if n = 188 then ''1'' @ [mark] @ ''4'' else if n = 189 then ''1'' @ [mark] @ ''2''
     else if n = 190 then ''3'' @ [mark] @ ''4''
     else if 192 \<le> n \<and> n \<le> 197 then letter ''A'' else if n = 199 then letter ''C''
     else if 200 \<le> n \<and> n \<le> 203 then letter ''E'' else if 204 \<le> n \<and> n \<le> 207 then letter ''I''
     else if n = 209 then letter ''N'' else if 210 \<le> n \<and> n \<le> 214 then letter ''O''
     else if 217 \<le> n \<and> n \<le> 220 then letter ''U'' else if n = 221 then letter ''Y''
     else if 224 \<le> n \<and> n \<le> 229 then letter ''a'' else if n = 231 then letter ''c''
     else if 232 \<le> n \<and> n \<le> 235 then letter ''e'' else if 236 \<le> n \<and> n \<le> 239 then letter ''i''
     else if n = 241 then letter ''n'' else if 242 \<le> n \<and> n \<le> 246 then letter ''o''
     else if 249 \<le> n \<and> n \<le> 252 then letter ''u'' else if n = 253 \<or> n = 255 then letter ''y''
     else [c])"

definition nfkd :: "string \<Rightarrow> string" where
  "nfkd s = concat (map nfkd_char s)"

definition off_text :: "char \<Rightarrow> bool" where
  "off_text c \<longleftrightarrow> \<not> is_word c \<and> \<not> is_space c \<and> c \<noteq> CHR ''-''"

definition normalizeText :: "string \<Rightarrow> string" where
  "normalizeText value =
     replace_runs is_space '' '' (js_trim (js_lower (replace_runs is_dash '' '' (replace_runs off_text '' '' (nfkd value)))))"

definition tokenize :: "string \<Rightarrow> string list" where
  "tokenize value =
     (let normalized = normalizeText value
      in if normalized = [] then [] else filter (\<lambda>w. w \<noteq> []) (js_split (CHR '' '') normalized))"

definition alias_of :: "string \<Rightarrow> string" where
  "alias_of token = (case map_of TOKEN_ALIASES token of None \<Rightarrow> token | Some t \<Rightarrow> str_or t token)"

definition applyTokenAliases :: "string list \<Rightarrow> string list" where
  "applyTokenAliases tokens = map alias_of tokens"

definition four_digits :: "string \<Rightarrow> bool" where
  "four_digits t \<longleftrightarrow> length t = 4 \<and> list_all is_digit t"

fun extractYear :: "string list \<Rightarrow> int option" where
  "extractYear [] = None"
| "extractYear (t # ts) =
     (if four_digits t \<and> int (dec_val t) \<ge> 1992 \<and> int (dec_val t) \<le> 2100 then Some (int (dec_val t)) else extractYear ts)"

record query_plan =
  qp_corrected :: string
  qp_year :: "int option"
  qp_semantic :: "string list"
  qp_variants :: "string list"

text \<open>\<open>add(value)\<close> on the set of variants, in the order of insertion.\<close>

definition add_variant :: "string \<Rightarrow> string list \<Rightarrow> string list" where
  "add_variant value vs =
     (let cleaned = normalizeText value
      in if cleaned = [] \<or> cleaned \<in> set vs then vs else vs @ [cleaned])"

definition longest_first :: "string \<Rightarrow> string \<Rightarrow> int" where
  "longest_first a b = int (length b) - int (length a)"

definition buildQueryVariants :: "string \<Rightarrow> query_plan" where
  "buildQueryVariants rawQuery =
     (let correctedTokens = applyTokenAliases (tokenize rawQuery);
          correctedQuery = js_trim (js_join '' '' correctedTokens);
          year = extractYear correctedTokens;
          semanticTokens = filter (\<lambda>t. t \<notin> set STOP_TOKENS) correctedTokens;
          nonYear = filter (\<lambda>t. \<not> four_digits t) semanticTokens;
          v1 = add_variant (js_join '' '' nonYear) (add_variant (js_join '' '' semanticTokens)
            (add_variant correctedQuery (add_variant rawQuery [])));
          v2 = (case year of None \<Rightarrow> v1 | Some y \<Rightarrow> add_variant (int_str y) v1);
          v3 = (if nonYear \<noteq> [] then add_variant (js_join '' '' (take 3 nonYear)) v2 else v2);
          v4 = (case year of Some y \<Rightarrow> if nonYear \<noteq> [] then add_variant (int_str y @ '' '' @ js_join '' '' nonYear) v3 else v3
              | None \<Rightarrow> v3);
          v5 = (case year of Some y \<Rightarrow> if length nonYear > 1 then add_variant (js_join '' '' nonYear @ '' '' @ int_str y) v4 else v4
              | None \<Rightarrow> v4);
          v6 = (if nonYear \<noteq> [] then add_variant (hd (js_sort longest_first nonYear)) v5 else v5)
      in \<lparr>qp_corrected = correctedQuery, qp_year = year, qp_semantic = semanticTokens, qp_variants = take 7 v6\<rparr>)"


section \<open>Edit distance\<close>

text \<open>The matrix \<open>dp\<close> is a list of rows; \<open>dp[i][j] = v\<close> is \<open>put_cell\<close>.\<close>

type_synonym matrix = "nat list list"

definition put_cell :: "nat \<Rightarrow> nat \<Rightarrow> nat \<Rightarrow> matrix \<Rightarrow> matrix" where
  "put_cell i j v dp = dp[i := (dp ! i)[j := v]]"

definition first_matrix :: "string \<Rightarrow> string \<Rightarrow> matrix" where
  "first_matrix a b =
     fold (\<lambda>j dp. put_cell 0 j j dp) [0..<length b + 1]
       (fold (\<lambda>i dp. put_cell i 0 i dp) [0..<length a + 1] (replicate (length a + 1) (replicate (length b + 1) 0)))"

definition fill_cell :: "string \<Rightarrow> string \<Rightarrow> nat \<Rightarrow> nat \<Rightarrow> matrix \<Rightarrow> matrix" where
  "fill_cell a b i j dp =
     (let cost = (if a ! (i - 1) = b ! (j - 1) then 0 else 1)
      in put_cell i j (min (min (dp ! (i - 1) ! j + 1) (dp ! i ! (j - 1) + 1)) (dp ! (i - 1) ! (j - 1) + cost)) dp)"

definition editDistance :: "string \<Rightarrow> string \<Rightarrow> nat" where
  "editDistance a b = (if a = b then 0 else if a = [] then length b else if b = [] then length a
     else fold (\<lambda>i dp. fold (\<lambda>j dp. fill_cell a b i j dp) [1..<length b + 1] dp) [1..<length a + 1] (first_matrix a b)
       ! length a ! length b)"

text \<open>\<open>best\<close> starts at infinity, which is \<open>None\<close>.\<close>

fun min_distance_from :: "nat option \<Rightarrow> string \<Rightarrow> string list \<Rightarrow> nat option" where
  "min_distance_from best token [] = best"
| "min_distance_from best token (candidate # cs) =
     (if abs (int (length candidate) - int (length token)) > 2 then min_distance_from best token cs
      else (let distance = editDistance token candidate;
                best' = (case best of None \<Rightarrow> Some distance | Some d \<Rightarrow> if distance < d then Some distance else best)
            in if the best' \<le> 1 then best' else min_distance_from best' token cs))"

definition minEditDistanceWithin :: "string \<Rightarrow> string list \<Rightarrow> nat option" where
  "minEditDistanceWithin token candidates = min_distance_from None token candidates"

section \<open>Scores\<close>

record score_context =
  sx_normalizedQuery :: string
  sx_correctedQuery :: string
  sx_semanticTokens :: "string list"
  sx_year :: "int option"

definition year_score :: "int \<Rightarrow> int option \<Rightarrow> int" where
  "year_score event_year y' = (case y' of None \<Rightarrow> 0
     | Some y \<Rightarrow> if event_year = y then 30 else if \<bar>event_year - y\<bar> \<le> 1 then 8 else -4)"

definition token_score :: "string list \<Rightarrow> string \<Rightarrow> string \<Rightarrow> int" where
  "token_score hayTokens name token =
     (if token = [] \<or> token \<in> set STOP_TOKENS then 0
      else (if token \<in> set hayTokens then 16
            else if list_ex (\<lambda>c. starts_with c token \<or> starts_with token c) hayTokens then 12
            else (case minEditDistanceWithin token hayTokens of None \<Rightarrow> 0
               | Some d \<Rightarrow> if d \<le> 1 then 9 else if d \<le> 2 then 5 else 0))
        + (if token \<in> set BOOST_TOKENS \<and> js_includes name token then 3 else 0))"

definition scoreEventCandidate :: "event_item \<Rightarrow> score_context \<Rightarrow> int" where
  "scoreEventCandidate event cx =
     (let eventKey = normalizeText (es_event_key event);
          name = normalizeText (es_name event);
          city = normalizeText (field_text (es_city event));
          state = normalizeText (field_text (es_state_prov event));
          country = normalizeText (field_text (es_country event));
          haystack = js_join '' '' (filter (\<lambda>s. s \<noteq> []) [eventKey, name, city, state, country]);
          hayTokens = tokenize haystack;
          query = sx_normalizedQuery cx; corrected = sx_correctedQuery cx; tokens = sx_semanticTokens cx
      in year_score (es_year event) (sx_year cx)
         + (if query \<noteq> [] \<and> eventKey = query then 120 else 0)
         + (if query \<noteq> [] \<and> starts_with eventKey query then 76 else 0)
         + (if corrected \<noteq> [] \<and> js_includes haystack corrected then 32 else 0)
         + (if query \<noteq> [] \<and> query \<noteq> corrected \<and> js_includes haystack query then 16 else 0)
         + sum_list (map (token_score hayTokens name) tokens)
         + (if ''houston'' \<in> set tokens \<and> js_includes eventKey ''hou'' then 6 else 0)
         + (if ''toronto'' \<in> set tokens \<and> (js_includes name ''toronto'' \<or> js_includes city ''toronto'') then 8 else 0)
         + (if ''australia'' \<in> set tokens \<or> ''australian'' \<in> set tokens
            then (if js_includes country ''australia'' then 10 else 0) +
              (if js_includes name ''australia'' \<or> js_includes name ''australian'' then 6 else 0) else 0))"

section \<open>The search\<close>

record search_options =
  so_preferredYear :: "int option"
  so_fallbackYear :: "int option"
  so_maxResults :: "int option"
  so_seedEvents :: "event_item list"
  so_maxNetworkVariants :: "int option"
  so_includeSuggestedFallback :: "bool option"
  so_fastMode :: bool
  so_localOnly :: bool

record search_result =
  sm_events :: "event_item list"
  sm_bestMatch :: "event_item option"
  sm_correctedQuery :: string
  sm_queryVariants :: "string list"

definition event_key_lower :: "event_item \<Rightarrow> string" where
  "event_key_lower e = js_lower (es_event_key e)"

definition add_new :: "event_item \<Rightarrow> event_map \<Rightarrow> event_map" where
  "add_new e m = (let key = event_key_lower e
     in if key \<noteq> [] \<and> \<not> map_has m key then map_set key e m else m)"

definition add_seed :: "event_item \<Rightarrow> event_map \<Rightarrow> event_map" where
  "add_seed e m = (let key = event_key_lower e in if key = [] then m else map_set key e m)"

definition max_results :: "search_options \<Rightarrow> int" where
  "max_results o' = max 1 (min (nullish (so_maxResults o') 60) 240)"

definition max_network :: "search_options \<Rightarrow> int" where
  "max_network o' = max 0 (min (nullish (so_maxNetworkVariants o') (if so_fastMode o' then 3 else 7)) 7)"

text \<open>The candidates with the index the answers leave.\<close>

definition with_variants :: "search_net \<Rightarrow> search_options \<Rightarrow> string list \<Rightarrow> event_map \<times> event_map \<Rightarrow> event_map \<times> event_map" where
  "with_variants net o' variants st =
     (let queries = take (nat (max_network o')) variants
      in if so_localOnly o' \<or> queries = [] then st
         else fold (\<lambda>answer (found, index). case answer of None \<Rightarrow> (found, index)
                | Some es \<Rightarrow> (fold add_new es found, mergeEventsIntoSearchIndex es index)) (map net queries) st)"

definition with_suggested :: "suggest_net \<Rightarrow> search_options \<Rightarrow> event_map \<times> event_map \<Rightarrow> event_map \<times> event_map" where
  "with_suggested suggest o' st =
     (if so_localOnly o' \<or> \<not> nullish (so_includeSuggestedFallback o') (\<not> so_fastMode o' \<and> \<not> so_localOnly o')
         \<or> length (fst st) \<ge> 20 then st
      else (case suggest (nullish (so_preferredYear o') (year SEASON)) (nullish (so_fallbackYear o') (fallbackYear SEASON)) 120 of
          None \<Rightarrow> st
        | Some es \<Rightarrow> (fold add_new es (fst st), mergeEventsIntoSearchIndex es (snd st))))"

definition best_first :: "(string \<Rightarrow> string \<Rightarrow> int) \<Rightarrow> event_item \<times> int \<Rightarrow> event_item \<times> int \<Rightarrow> int" where
  "best_first collate a b = (if snd a \<noteq> snd b then snd b - snd a
     else if es_year (fst a) \<noteq> es_year (fst b) then es_year (fst b) - es_year (fst a)
     else collate (es_event_key (fst a)) (es_event_key (fst b)))"

definition search_context :: "string \<Rightarrow> score_context" where
  "search_context rawQuery = (let plan = buildQueryVariants rawQuery
     in \<lparr>sx_normalizedQuery = normalizeText rawQuery, sx_correctedQuery = qp_corrected plan,
         sx_semanticTokens = qp_semantic plan, sx_year = qp_year plan\<rparr>)"

definition ranked_events :: "(string \<Rightarrow> string \<Rightarrow> int) \<Rightarrow> string \<Rightarrow> search_options \<Rightarrow> event_map \<Rightarrow> event_item list" where
  "ranked_events collate rawQuery o' found =
     (let scored = js_sort (best_first collate)
            (map (\<lambda>e. (e, scoreEventCandidate e (search_context rawQuery))) (map_values found))
      in map fst (take (nat (max_results o')) (filter (\<lambda>row. snd row > 0) scored)))"

definition candidates :: "(string \<Rightarrow> string \<Rightarrow> int) \<Rightarrow> search_net \<Rightarrow> suggest_net \<Rightarrow> string \<Rightarrow> search_options \<Rightarrow> event_map \<Rightarrow>
    event_map \<times> event_map" where
  "candidates collate net suggest rawQuery o' index =
     with_suggested suggest o' (with_variants net o' (qp_variants (buildQueryVariants rawQuery))
       (fold add_seed (so_seedEvents o') (fold add_new (sortedIndexSnapshot collate index) []), index))"

definition smartSearchEvents :: "(string \<Rightarrow> string \<Rightarrow> int) \<Rightarrow> search_net \<Rightarrow> suggest_net \<Rightarrow> string \<Rightarrow> search_options \<Rightarrow>
    event_map \<Rightarrow> search_result \<times> event_map" where
  "smartSearchEvents collate net suggest rawQuery o' index =
     (if normalizeText rawQuery = []
      then (\<lparr>sm_events = [], sm_bestMatch = None, sm_correctedQuery = [], sm_queryVariants = []\<rparr>, index)
      else (let (found, index') = candidates collate net suggest rawQuery o' index;
                events = ranked_events collate rawQuery o' found; plan = buildQueryVariants rawQuery
            in (\<lparr>sm_events = events, sm_bestMatch = (case events of [] \<Rightarrow> None | e # _ \<Rightarrow> Some e),
                 sm_correctedQuery = qp_corrected plan, sm_queryVariants = qp_variants plan\<rparr>, index')))"


section \<open>The matrix computes the least number of edits\<close>

text \<open>\<open>edits a b n\<close>: \<open>n\<close> characters are replaced, dropped or added in turning \<open>a\<close> into \<open>b\<close>.\<close>

inductive edits :: "string \<Rightarrow> string \<Rightarrow> nat \<Rightarrow> bool" where
  empty: "edits [] [] 0"
| same: "edits a b n \<Longrightarrow> edits (a @ [x]) (b @ [x]) n"
| replace: "edits a b n \<Longrightarrow> edits (a @ [x]) (b @ [y]) (n + 1)"
| dropped: "edits a b n \<Longrightarrow> edits (a @ [x]) b (n + 1)"
| added: "edits a b n \<Longrightarrow> edits a (b @ [y]) (n + 1)"

fun prefix_edits :: "string \<Rightarrow> string \<Rightarrow> nat \<Rightarrow> nat \<Rightarrow> nat" where
  "prefix_edits a b 0 j = j"
| "prefix_edits a b (Suc i) 0 = Suc i"
| "prefix_edits a b (Suc i) (Suc j) =
     min (min (prefix_edits a b i (Suc j) + 1) (prefix_edits a b (Suc i) j + 1))
       (prefix_edits a b i j + (if a ! i = b ! j then 0 else 1))"

lemma prefix_edits_0 [simp]: "prefix_edits a b i 0 = i"
  by (cases i) auto

lemma edits_length: "edits a b n \<Longrightarrow> length a \<le> length b + n \<and> length b \<le> length a + n"
  by (induction rule: edits.induct) auto

lemma edits_from_Nil: "edits [] b (length b)"
  by (induction b rule: rev_induct) (auto intro: edits.empty dest: edits.added)

lemma edits_to_Nil: "edits a [] (length a)"
  by (induction a rule: rev_induct) (auto intro: edits.empty dest: edits.dropped)

lemma prefix_edits_reach:
  "i \<le> length a \<Longrightarrow> j \<le> length b \<Longrightarrow> edits (take i a) (take j b) (prefix_edits a b i j)"
proof (induction a b i j rule: prefix_edits.induct)
  case (1 a b j)
  then show ?case using edits_from_Nil [of "take j b"] by simp
next
  case (2 a b i)
  then show ?case using edits_to_Nil [of "take (Suc i) a"] by (simp add: min_absorb2)
next
  case (3 a b i j)
  have s: "take (Suc i) a = take i a @ [a ! i]" "take (Suc j) b = take j b @ [b ! j]"
    using "3.prems" by (simp_all add: take_Suc_conv_app_nth)
  have d: "edits (take i a @ [a ! i]) (take (Suc j) b) (prefix_edits a b i (Suc j) + 1)"
    by (rule edits.dropped) (use 3 in simp)
  have n: "edits (take (Suc i) a) (take j b @ [b ! j]) (prefix_edits a b (Suc i) j + 1)"
    by (rule edits.added) (use 3 in simp)
  have r: "edits (take i a @ [a ! i]) (take j b @ [b ! j]) (prefix_edits a b i j + (if a ! i = b ! j then 0 else 1))"
    using edits.same [of "take i a" "take j b" "prefix_edits a b i j" "a ! i"]
      edits.replace [of "take i a" "take j b" "prefix_edits a b i j" "a ! i" "b ! j"] 3
    by (cases "a ! i = b ! j") simp_all
  show ?case using d n r unfolding s by (auto simp: min_def s)
qed

lemma prefix_edits_step:
  "prefix_edits a b (Suc i) j \<le> prefix_edits a b i j + 1" "prefix_edits a b i (Suc j) \<le> prefix_edits a b i j + 1"
  by (cases j; simp) (cases i; simp)

lemma prefix_edits_least:
  "edits s t n \<Longrightarrow> s = take i a \<Longrightarrow> t = take j b \<Longrightarrow> i \<le> length a \<Longrightarrow> j \<le> length b \<Longrightarrow> prefix_edits a b i j \<le> n"
proof (induction arbitrary: i j rule: edits.induct)
  case empty
  then show ?case by (cases i; cases j) auto
next
  case (same s t n x)
  then obtain i' j' where ij: "i = Suc i'" "j = Suc j'" by (cases i; cases j) auto
  with same.prems have "s = take i' a" "x = a ! i'" "t = take j' b" "x = b ! j'"
    by (simp_all add: take_Suc_conv_app_nth)
  with same.IH [of i' j'] same.prems ij show ?case by simp
next
  case (replace s t n x y)
  then obtain i' j' where ij: "i = Suc i'" "j = Suc j'" by (cases i; cases j) auto
  with replace.prems have "s = take i' a" "t = take j' b"
    by (simp_all add: take_Suc_conv_app_nth)
  with replace.IH [of i' j'] replace.prems ij show ?case by auto
next
  case (dropped s t n x)
  then obtain i' where ij: "i = Suc i'" by (cases i) auto
  with dropped.prems have "s = take i' a" by (simp add: take_Suc_conv_app_nth)
  with dropped.IH [of i' j] dropped.prems ij prefix_edits_step(1) [of a b i' j] show ?case by simp
next
  case (added s t n y)
  then obtain j' where ij: "j = Suc j'" by (cases j) auto
  with added.prems have "t = take j' b" by (simp add: take_Suc_conv_app_nth)
  with added.IH [of i j'] added.prems ij prefix_edits_step(2) [of a b i j'] show ?case by simp
qed

definition shaped :: "nat \<Rightarrow> nat \<Rightarrow> matrix \<Rightarrow> bool" where
  "shaped m n dp \<longleftrightarrow> length dp = m + 1 \<and> (\<forall>i \<le> m. length (dp ! i) = n + 1)"

lemma shaped_put [simp]: "shaped m n dp \<Longrightarrow> shaped m n (put_cell i j v dp)"
  by (cases "i < length dp") (auto simp: shaped_def put_cell_def nth_list_update)

lemma cell_put: "shaped m n dp \<Longrightarrow> i \<le> m \<Longrightarrow> j \<le> n \<Longrightarrow> i' \<le> m \<Longrightarrow>
    put_cell i j v dp ! i' ! j' = (if i' = i \<and> j' = j then v else dp ! i' ! j')"
  by (auto simp: shaped_def put_cell_def nth_list_update)

lemma first_column:
  "k \<le> m + 1 \<Longrightarrow> shaped m n dp \<Longrightarrow> let e = fold (\<lambda>i dp. put_cell i 0 i dp) [0..<k] dp
     in shaped m n e \<and> (\<forall>i < k. e ! i ! 0 = i)"
proof (induction k)
  case (Suc k)
  then show ?case by (auto simp: Let_def cell_put [of m n] less_Suc_eq)
qed (simp add: Let_def)

lemma first_row:
  "k \<le> n + 1 \<Longrightarrow> shaped m n dp \<Longrightarrow> \<forall>i \<le> m. dp ! i ! 0 = i \<Longrightarrow> let e = fold (\<lambda>j dp. put_cell 0 j j dp) [0..<k] dp
     in shaped m n e \<and> (\<forall>i \<le> m. e ! i ! 0 = i) \<and> (\<forall>j < k. e ! 0 ! j = j)"
proof (induction k)
  case (Suc k)
  then show ?case by (auto simp: Let_def cell_put [of m n] less_Suc_eq)
qed (simp add: Let_def)

lemma first_matrix_cells:
  "shaped (length a) (length b) (first_matrix a b)" "i \<le> length a \<Longrightarrow> first_matrix a b ! i ! 0 = i"
  "j \<le> length b \<Longrightarrow> first_matrix a b ! 0 ! j = j"
proof -
  let ?z = "replicate (length a + 1) (replicate (length b + 1) (0::nat))"
  have "shaped (length a) (length b) ?z" by (simp add: shaped_def nth_append del: replicate.simps)
  note c = first_column [OF order_refl this, unfolded Let_def]
  have "\<forall>i \<le> length a. fold (\<lambda>i dp. put_cell i 0 i dp) [0..<length a + 1] ?z ! i ! 0 = i"
    using c by (simp add: less_Suc_eq_le)
  note r = first_row [OF order_refl conjunct1 [OF c] this, unfolded Let_def, folded first_matrix_def]
  show "shaped (length a) (length b) (first_matrix a b)" "i \<le> length a \<Longrightarrow> first_matrix a b ! i ! 0 = i"
    "j \<le> length b \<Longrightarrow> first_matrix a b ! 0 ! j = j"
    using r by (simp_all add: less_Suc_eq_le)
qed

text \<open>Row by row, the cells hold the least edits of the prefixes.\<close>

definition rows_done :: "string \<Rightarrow> string \<Rightarrow> nat \<Rightarrow> matrix \<Rightarrow> bool" where
  "rows_done a b i dp \<longleftrightarrow> shaped (length a) (length b) dp \<and> (\<forall>i' \<le> length a. dp ! i' ! 0 = i') \<and>
     (\<forall>i' < i. \<forall>j \<le> length b. dp ! i' ! j = prefix_edits a b i' j)"

lemma fill_row:
  assumes "rows_done a b (Suc i) dp" "Suc i \<le> length a" "k \<le> length b"
  shows "let e = fold (\<lambda>j dp. fill_cell a b (Suc i) j dp) [1..<Suc k] dp
    in rows_done a b (Suc i) e \<and> (\<forall>j \<le> k. e ! Suc i ! j = prefix_edits a b (Suc i) j)"
  using assms(3)
proof (induction k)
  case 0
  then show ?case using assms by (simp add: Let_def rows_done_def)
next
  case (Suc k)
  define e where "e = fold (\<lambda>j dp. fill_cell a b (Suc i) j dp) [1..<Suc k] dp"
  have IH: "rows_done a b (Suc i) e" "\<And>j. j \<le> k \<Longrightarrow> e ! Suc i ! j = prefix_edits a b (Suc i) j"
    using Suc by (simp_all add: Let_def e_def)
  have v: "fill_cell a b (Suc i) (Suc k) e = put_cell (Suc i) (Suc k) (prefix_edits a b (Suc i) (Suc k)) e"
    using IH Suc.prems by (simp add: fill_cell_def Let_def rows_done_def)
  have s: "shaped (length a) (length b) e" using IH(1) by (simp add: rows_done_def)
  have c: "fill_cell a b (Suc i) (Suc k) e ! i' ! j = (if i' = Suc i \<and> j = Suc k then prefix_edits a b (Suc i) (Suc k) else e ! i' ! j)"
    if "i' \<le> length a" for i' j
    unfolding v by (rule cell_put [OF s]) (use assms(2) Suc.prems that in auto)
  have "shaped (length a) (length b) (fill_cell a b (Suc i) (Suc k) e)" using s v by simp
  then have "rows_done a b (Suc i) (fill_cell a b (Suc i) (Suc k) e)"
    using IH(1) assms(2) by (auto simp: rows_done_def c)
  moreover have "fill_cell a b (Suc i) (Suc k) e ! Suc i ! j = prefix_edits a b (Suc i) j" if "j \<le> Suc k" for j
    using that IH(2) [of j] c [OF assms(2), of j] by (cases "j = Suc k") (simp_all del: prefix_edits.simps)
  moreover have "fold (\<lambda>j dp. fill_cell a b (Suc i) j dp) [1..<Suc (Suc k)] dp = fill_cell a b (Suc i) (Suc k) e"
    by (simp add: e_def)
  ultimately show ?case by (simp add: Let_def del: prefix_edits.simps upt_Suc)
qed

lemma fill_rows:
  "k \<le> length a \<Longrightarrow>
    rows_done a b (Suc k) (fold (\<lambda>i dp. fold (\<lambda>j dp. fill_cell a b i j dp) [1..<length b + 1] dp) [1..<Suc k] (first_matrix a b))"
proof (induction k)
  case 0
  then show ?case by (simp add: rows_done_def first_matrix_cells)
next
  case (Suc k)
  let ?e = "fold (\<lambda>i dp. fold (\<lambda>j dp. fill_cell a b i j dp) [1..<length b + 1] dp) [1..<Suc k] (first_matrix a b)"
  have "rows_done a b (Suc k) ?e" using Suc by simp
  from fill_row [OF this Suc.prems order_refl] show ?case
    by (auto simp: rows_done_def Let_def less_Suc_eq simp del: prefix_edits.simps)
qed

lemma edit_distance_prefix: "editDistance a b = prefix_edits a b (length a) (length b)"
proof (cases "a = b \<or> a = [] \<or> b = []")
  case True
  have "edits b b 0" by (induction b rule: rev_induct) (auto intro: edits.intros)
  then have "prefix_edits b b (length b) (length b) \<le> 0" by (rule prefix_edits_least) auto
  with True show ?thesis by (auto simp: editDistance_def)
next
  case False
  with fill_rows [of "length a" a b] show ?thesis by (simp add: editDistance_def rows_done_def)
qed

lemma edit_distance_reached: "edits a b (editDistance a b)"
  using prefix_edits_reach [of "length a" a "length b" b] by (simp add: edit_distance_prefix)

lemma edit_distance_least: "edits a b n \<Longrightarrow> editDistance a b \<le> n"
  using prefix_edits_least [of a b n "length a" a "length b" b] by (simp add: edit_distance_prefix)


text \<open>Skipping candidates of another length and stopping at the first close one lose nothing up to distance 2.\<close>

lemma far_lengths: "abs (int (length b) - int (length a)) \<le> int (editDistance a b)"
  using edits_length [OF edit_distance_reached, of a b] by linarith

lemma min_distance_from_close:
  assumes "1 \<le> k" "k \<le> 2"
  shows "(\<exists>d. min_distance_from best token cs = Some d \<and> d \<le> k) \<longleftrightarrow>
    (\<exists>d. best = Some d \<and> d \<le> k) \<or> (\<exists>c \<in> set cs. editDistance token c \<le> k)"
proof (induction cs arbitrary: best)
  case (Cons c cs)
  show ?case
  proof (cases "abs (int (length c) - int (length token)) > 2")
    case True
    then have "\<not> editDistance token c \<le> k" using far_lengths [of c token] assms(2) by linarith
    with True Cons show ?thesis by simp
  next
    case False
    define best' where "best' = (case best of None \<Rightarrow> Some (editDistance token c)
      | Some d \<Rightarrow> if editDistance token c < d then Some (editDistance token c) else best)"
    then obtain d' where d': "best' = Some d'" by (cases best) (auto split: if_splits)
    have b: "d' \<le> k \<longleftrightarrow> (\<exists>d. best = Some d \<and> d \<le> k) \<or> editDistance token c \<le> k"
      using d' by (auto simp: best'_def split: option.splits if_splits)
    have "min_distance_from best token (c # cs) = (if d' \<le> 1 then Some d' else min_distance_from best' token cs)"
      using False d' by (simp add: best'_def [symmetric] Let_def)
    then show ?thesis using Cons [of best'] b d' assms(1) by auto
  qed
qed simp

section \<open>The ranking\<close>

lemma best_first_score: "best_first collate x y < 0 \<Longrightarrow> - snd x \<le> - snd y"
  "\<not> best_first collate x y < 0 \<Longrightarrow> - snd y \<le> - snd x"
  by (auto simp: best_first_def split: if_splits)

definition score_in :: "string \<Rightarrow> event_item \<Rightarrow> int" where
  "score_in rawQuery e = scoreEventCandidate e (search_context rawQuery)"

lemma ranked_events_best:
  fixes collate rawQuery o' found
  defines "evs \<equiv> ranked_events collate rawQuery o' found" and "sc \<equiv> score_in rawQuery"
  shows "sorted (map (\<lambda>e. - sc e) evs)" "set evs \<subseteq> {e \<in> set (map_values found). sc e > 0}"
    "length evs \<le> nat (max_results o')"
    "e \<in> set (map_values found) \<Longrightarrow> sc e > 0 \<Longrightarrow> e \<notin> set evs \<Longrightarrow>
       length evs = nat (max_results o') \<and> (\<forall>f \<in> set evs. sc e \<le> sc f)"
proof -
  define rows where "rows = filter (\<lambda>row. snd row > 0) (js_sort (best_first collate)
    (map (\<lambda>e. (e, scoreEventCandidate e (search_context rawQuery))) (map_values found)))"
  define n where "n = nat (max_results o')"
  have evs: "evs = map fst (take n rows)" by (simp add: evs_def ranked_events_def rows_def n_def)
  have snd: "snd r = sc (fst r)" if "r \<in> set rows" for r
    using that by (auto simp: rows_def sc_def score_in_def)
  have "sorted (map (\<lambda>r. - snd r) (js_sort (best_first collate)
    (map (\<lambda>e. (e, scoreEventCandidate e (search_context rawQuery))) (map_values found))))"
    by (rule sorted_js_sort_weak) (rule best_first_score; assumption)+
  then have srt: "sorted (map (\<lambda>r. - snd r) rows)" unfolding rows_def by (rule sorted_filter)
  have dec: "map (\<lambda>r. - snd r) rows = map (\<lambda>e. - sc e) (map fst rows)" using snd by simp
  have "sorted (map (\<lambda>e. - sc e) (map fst rows))" using srt unfolding dec .
  then show "sorted (map (\<lambda>e. - sc e) evs)"
    unfolding evs take_map [symmetric] by (rule sorted_wrt_take)
  show "set evs \<subseteq> {e \<in> set (map_values found). sc e > 0}"
  proof
    fix x assume "x \<in> set evs"
    then obtain r where "r \<in> set rows" "x = fst r" unfolding evs using in_set_takeD by fastforce
    moreover from this have "fst r \<in> set (map_values found)" "snd r > 0" by (auto simp: rows_def)
    ultimately show "x \<in> {e \<in> set (map_values found). sc e > 0}" using snd [of r] by simp
  qed
  show "length evs \<le> nat (max_results o')" by (simp add: evs n_def)
  assume e: "e \<in> set (map_values found)" "sc e > 0" "e \<notin> set evs"
  have "(e, sc e) \<in> set rows" using e by (auto simp: rows_def sc_def score_in_def)
  then have "(e, sc e) \<in> set (drop n rows)"
    using e(3) evs by (metis append_take_drop_id Un_iff set_append image_eqI fst_conv list.set_map)
  then have len: "n < length rows" by (metis drop_all empty_iff empty_set not_le)
  have "- snd r \<le> - sc e" if "r \<in> set (take n rows)" for r
    using srt that \<open>(e, sc e) \<in> set (drop n rows)\<close>
    by (metis (no_types, lifting) append_take_drop_id map_append sorted_append image_eqI list.set_map snd_conv)
  moreover have "snd r = sc (fst r)" if "r \<in> set (take n rows)" for r
    using snd that in_set_takeD by fast
  ultimately have "\<forall>f \<in> set evs. sc e \<le> sc f" by (auto simp: evs)
  moreover have "length evs = n" using len by (simp add: evs)
  ultimately show "length evs = nat (max_results o') \<and> (\<forall>f \<in> set evs. sc e \<le> sc f)" by (simp add: n_def)
qed

section \<open>The index\<close>

lemma put_event_ok: "map_ok m \<Longrightarrow> map_ok (put_event e m)"
  by (simp add: put_event_def Let_def map_ok_set split: option.split)

lemma put_event_get: "map_get (put_event e m) k =
    (if k \<noteq> [] \<and> k = normalizedEventKey (es_event_key e)
     then Some (case map_get m k of None \<Rightarrow> e | Some p \<Rightarrow> merge_event p e) else map_get m k)"
  by (auto simp: put_event_def Let_def dict_simps split: option.split)

definition knows_more :: "event_item \<Rightarrow> event_item \<Rightarrow> bool" where
  "knows_more e f \<longleftrightarrow> (field_text (es_start_date e) \<noteq> [] \<longrightarrow> field_text (es_start_date f) \<noteq> []) \<and>
     (field_text (es_end_date e) \<noteq> [] \<longrightarrow> field_text (es_end_date f) \<noteq> []) \<and>
     (es_city e \<noteq> None \<longrightarrow> es_city f \<noteq> None) \<and> (es_state_prov e \<noteq> None \<longrightarrow> es_state_prov f \<noteq> None) \<and>
     (es_country e \<noteq> None \<longrightarrow> es_country f \<noteq> None) \<and> (es_region e \<noteq> None \<longrightarrow> es_region f \<noteq> None)"

lemma merge_knows_more: "knows_more p (merge_event p e)"
  by (auto simp: knows_more_def merge_event_def field_or_def spread_def split: option.split)

lemma knows_more_trans: "knows_more e g \<Longrightarrow> knows_more g f \<Longrightarrow> knows_more e f"
  unfolding knows_more_def by blast

lemma merge_index_knows_more:
  "map_get m k = Some e \<Longrightarrow> \<exists>f. map_get (mergeEventsIntoSearchIndex es m) k = Some f \<and> knows_more e f"
  unfolding mergeEventsIntoSearchIndex_def
proof (induction es arbitrary: m e)
  case Nil
  then show ?case by (simp add: knows_more_def)
next
  case (Cons x es)
  define g where "g = (if k \<noteq> [] \<and> k = normalizedEventKey (es_event_key x) then merge_event e x else e)"
  have "map_get (put_event x m) k = Some g" using Cons.prems by (auto simp: put_event_get g_def)
  from Cons.IH [OF this] obtain f where "map_get (fold put_event es (put_event x m)) k = Some f" "knows_more g f"
    by blast
  moreover have "knows_more e g" using merge_knows_more [of e x] by (simp add: g_def knows_more_def)
  ultimately show ?case using knows_more_trans by auto
qed

lemma index_normal:
  "map_ok m \<Longrightarrow> (\<And>k e. map_get m k = Some e \<Longrightarrow> k = normalizedEventKey (es_event_key e)) \<Longrightarrow>
    map_ok (mergeEventsIntoSearchIndex es m) \<and>
    (map_get (mergeEventsIntoSearchIndex es m) k = Some e \<longrightarrow> k = normalizedEventKey (es_event_key e))"
  unfolding mergeEventsIntoSearchIndex_def
proof (induction es arbitrary: m)
  case (Cons x es)
  have "k = normalizedEventKey (es_event_key e)" if "map_get (put_event x m) k = Some e" for k e
    using that Cons.prems(2) by (auto simp: put_event_get merge_event_def split: if_splits option.splits)
  with Cons.IH [of "put_event x m"] Cons.prems(1) put_event_ok show ?case by simp
qed simp

section \<open>Properties\<close>

text \<open>Claim C25: The matrix of \<open>editDistance\<close> computes the least number of characters to replace, drop or add in
  turning one word into the other.\<close>

theorem edit_distance_is_least:
  "edits a b (editDistance a b) \<and> editDistance a b = (LEAST n. edits a b n)"
  using edit_distance_reached [of a b] edit_distance_least [of a b]
  by (intro conjI Least_equality [symmetric]) auto

text \<open>The search for the closest word, which skips words of another length and stops early, finds a word
  within one or two edits exactly when there is one.\<close>

theorem close_words_are_found:
  assumes "1 \<le> k" and "k \<le> 2"
  shows "(\<exists>d. minEditDistanceWithin token cs = Some d \<and> d \<le> k) \<longleftrightarrow> (\<exists>c \<in> set cs. editDistance token c \<le> k)"
  unfolding minEditDistanceWithin_def using min_distance_from_close [OF assms, of None] by simp

theorem close_words_are_found_witness:
  "\<exists>d. minEditDistanceWithin ''huston'' [''dallas'', ''houston''] = Some d \<and> d \<le> 1"
proof -
  have "editDistance ''huston'' ''houston'' \<le> 1" by code_simp
  with close_words_are_found [of 1 "''huston''" "[''dallas'', ''houston'']"] show ?thesis by simp
qed

text \<open>Claim C24: A search returns candidates with a positive score only, best first, at most \<open>maxResults\<close> of them;
  a candidate with a positive score is left out only when the list is full of events at least as good.\<close>

theorem search_returns_the_best:
  assumes "normalizeText rawQuery \<noteq> []"
    and "found = fst (candidates collate net suggest rawQuery o' index)"
    and "evs = sm_events (fst (smartSearchEvents collate net suggest rawQuery o' index))"
  shows "sorted (map (\<lambda>e. - score_in rawQuery e) evs) \<and> length evs \<le> nat (max_results o') \<and>
    set evs \<subseteq> {e \<in> set (map_values found). score_in rawQuery e > 0} \<and>
    (\<forall>e \<in> set (map_values found). score_in rawQuery e > 0 \<longrightarrow> e \<notin> set evs \<longrightarrow>
       length evs = nat (max_results o') \<and> (\<forall>f \<in> set evs. score_in rawQuery e \<le> score_in rawQuery f))"
proof -
  have evs: "evs = ranked_events collate rawQuery o' found"
    using assms by (simp add: smartSearchEvents_def Let_def split: prod.split)
  note best = ranked_events_best [where collate = collate and rawQuery = rawQuery and o' = o' and found = found, folded evs]
  show ?thesis using best(1-3) best(4) by blast
qed

definition sample_event :: "string \<Rightarrow> string \<Rightarrow> int \<Rightarrow> event_item" where
  "sample_event key name y = \<lparr>es_event_key = key, es_name = name, es_year = y, es_start_date = None, es_end_date = None,
     es_city = None, es_state_prov = None, es_country = None, es_region = None\<rparr>"

definition sample_search :: search_options where
  "sample_search = \<lparr>so_preferredYear = None, so_fallbackYear = None, so_maxResults = Some 1,
     so_seedEvents = [sample_event ''2026on'' ''Ontario'' 2026, sample_event ''2026hou'' ''Houston'' 2026],
     so_maxNetworkVariants = None, so_includeSuggestedFallback = None, so_fastMode = False, so_localOnly = True\<rparr>"

theorem search_returns_the_best_witness:
  "length (sm_events (fst (smartSearchEvents (\<lambda>_ _. 0) (\<lambda>_. None) (\<lambda>_ _ _. None) ''Houston'' sample_search []))) \<le> 1"
proof -
  have "normalizeText ''Houston'' \<noteq> []" by code_simp
  from search_returns_the_best [OF this refl refl, of "\<lambda>_ _. 0" "\<lambda>_. None" "\<lambda>_ _ _. None" sample_search "[]"]
  show ?thesis by (simp add: max_results_def sample_search_def)
qed

text \<open>Merging answers into the search index never drops an event, a known date or a known place.\<close>

theorem index_never_forgets:
  assumes "map_get m k = Some e"
  shows "\<exists>f. map_get (mergeEventsIntoSearchIndex es m) k = Some f \<and> knows_more e f"
  using merge_index_knows_more [OF assms] .

theorem index_never_forgets_witness:
  "\<exists>f. map_get (mergeEventsIntoSearchIndex [sample_event ''2026HOU'' ''Houston'' 2026]
     [(''2026hou'', (sample_event ''2026hou'' ''Hou'' 2026)\<lparr>es_start_date := Some (Some ''2026-04-01'')\<rparr>)]) ''2026hou'' = Some f \<and>
     knows_more ((sample_event ''2026hou'' ''Hou'' 2026)\<lparr>es_start_date := Some (Some ''2026-04-01'')\<rparr>) f"
  by (rule index_never_forgets) (simp add: map_get_def)

text \<open>An accented letter is cut off its word: the combining mark becomes a blank instead of going away.\<close>

lemma accents_split_words: "normalizeText (''Montr'' @ [CHR 0xE9] @ ''al'') = ''montre al''"
  by code_simp

end
