(* ===== verification/HomeFeed.thy ===== *)
theory HomeFeed
  imports EventSearch
begin

text \<open>
  The home page's feed, \<open>pages/homeFeed.ts\<close>: the state of a match, the matches of a day, their filters, order
  and counts, and the choice of an event, a match and a day to show.  The time zone of the device is an
  argument: the local date of an instant and the start of its local day, in milliseconds.
  \<open>localeCompare\<close> is the argument \<open>collate\<close>.
\<close>

section \<open>Matches of a day\<close>

datatype home_filter = AllMatches | LiveMatches | UpcomingMatches | CompletedMatches

record local_clock =
  lc_date :: "int \<Rightarrow> int \<times> int \<times> int"
  lc_start :: "int \<Rightarrow> int"

definition normalizeHomeEventKey :: "string option \<Rightarrow> string" where
  "normalizeHomeEventKey eventKey = js_lower (js_trim (opt_str eventKey))"

definition hasResolvedMatchScores :: "schedule_item \<Rightarrow> bool" where
  "hasResolvedMatchScores m = (case (m_red_score m, m_blue_score m) of
     (Some red, Some blue) \<Rightarrow> red \<ge> 0 \<and> blue \<ge> 0 | _ \<Rightarrow> False)"

definition resolveHomeMatchState :: "schedule_item \<Rightarrow> int \<Rightarrow> timer_state" where
  "resolveHomeMatchState m nowMs =
     (let timer = liveTimerLabel (matchStartTime (Some m)) nowMs;
          isCompleted = (m_is_completed m \<or> m_winner_alliance m \<noteq> None \<or> hasResolvedMatchScores m)
      in if isCompleted then TEnded else t_state timer)"

definition isSameLocalDate :: "local_clock \<Rightarrow> int option \<Rightarrow> int \<Rightarrow> bool" where
  "isSameLocalDate lc unixSeconds nowMs = (case unixSeconds of None \<Rightarrow> False
     | Some s \<Rightarrow> lc_date lc (s * 1000) = lc_date lc nowMs)"

definition selectHomeWindowMatches :: "local_clock \<Rightarrow> schedule_item list \<Rightarrow> int \<Rightarrow> schedule_item list" where
  "selectHomeWindowMatches lc matches nowMs = (if matches = [] then []
     else (let nowSec = nowMs div 1000;
               timed = filter (\<lambda>m. m_scheduled_time m \<noteq> None) matches;
               rolling = filter (\<lambda>m. the (m_scheduled_time m) \<ge> nowSec - 12 * 3600 \<and> the (m_scheduled_time m) \<le> nowSec + 18 * 3600) timed;
               today = filter (\<lambda>m. isSameLocalDate lc (m_scheduled_time m) nowMs) timed
           in if rolling \<noteq> [] then rolling
              else if today \<noteq> [] then today
              else if timed = [] then matches
              else (let latest = Max (set (map (\<lambda>m. the (m_scheduled_time m)) timed))
                    in filter (\<lambda>m. isSameLocalDate lc (m_scheduled_time m) (latest * 1000)) timed)))"

definition selectHomeDayMatches :: "local_clock \<Rightarrow> schedule_item list \<Rightarrow> int \<Rightarrow> schedule_item list" where
  "selectHomeDayMatches lc matches dayMs = (if matches = [] then []
     else filter (\<lambda>m. isSameLocalDate lc (m_scheduled_time m) dayMs) matches)"

definition passes :: "home_filter \<Rightarrow> timer_state \<Rightarrow> bool" where
  "passes f state = (case f of AllMatches \<Rightarrow> True | LiveMatches \<Rightarrow> state = TLive
     | UpcomingMatches \<Rightarrow> state = TUpcoming \<or> state = TUnknown | CompletedMatches \<Rightarrow> state = TEnded)"

definition filterHomeWindowMatches :: "schedule_item list \<Rightarrow> home_filter \<Rightarrow> int \<Rightarrow> schedule_item list" where
  "filterHomeWindowMatches windowMatches activeFilter nowMs = (if activeFilter = AllMatches then windowMatches
     else filter (\<lambda>m. passes activeFilter (resolveHomeMatchState m nowMs)) windowMatches)"

section \<open>The order of the feed\<close>

definition index_of :: "'a list \<Rightarrow> 'a \<Rightarrow> int" where
  "index_of xs x = (if x \<in> set xs then int (length (takeWhile (\<lambda>y. y \<noteq> x) xs)) else -1)"

definition stages :: "string list" where "stages = [''qm'', ''ef'', ''qf'', ''sf'', ''f'']"

fun first_nonzero :: "int list \<Rightarrow> int" where
  "first_nonzero [] = 0"
| "first_nonzero (x # xs) = (if x \<noteq> 0 then x else first_nonzero xs)"

definition feed_compare :: "(string \<Rightarrow> string \<Rightarrow> int) \<Rightarrow> bool \<Rightarrow> schedule_item \<Rightarrow> schedule_item \<Rightarrow> int" where
  "feed_compare collate newestFirst a b =
     (let aTime = matchStartTime (Some a); bTime = matchStartTime (Some b)
      in if (aTime \<noteq> None) \<noteq> (bTime \<noteq> None) then (if aTime \<noteq> None then -1 else 1)
         else (let order = first_nonzero
                 [(case (aTime, bTime) of (Some s, Some t) \<Rightarrow> s - t | _ \<Rightarrow> 0),
                  index_of stages (m_comp_level a) - index_of stages (m_comp_level b),
                  m_set_number a - m_set_number b, m_match_number a - m_match_number b,
                  collate (m_match_key a) (m_match_key b)]
               in if newestFirst then - order else order))"

definition group_of :: "timer_state \<Rightarrow> int \<Rightarrow> schedule_item list \<Rightarrow> schedule_item list" where
  "group_of state nowMs matches = filter (\<lambda>m. resolveHomeMatchState m nowMs = state) matches"

definition sortHomeFeedMatches :: "(string \<Rightarrow> string \<Rightarrow> int) \<Rightarrow> schedule_item list \<Rightarrow> int \<Rightarrow> schedule_item list" where
  "sortHomeFeedMatches collate matches nowMs =
     (let live = js_sort (feed_compare collate True) (group_of TLive nowMs matches);
          upcoming = js_sort (feed_compare collate False) (group_of TUpcoming nowMs matches);
          ended = js_sort (feed_compare collate True) (group_of TEnded nowMs matches);
          unknown = js_sort (feed_compare collate False) (group_of TUnknown nowMs matches)
      in live @ take 1 upcoming @ ended @ drop 1 upcoming @ unknown)"

section \<open>Counts\<close>

record filter_counts =
  fc_all :: nat
  fc_live :: nat
  fc_upcoming :: nat
  fc_completed :: nat

definition count_state :: "int \<Rightarrow> schedule_item \<Rightarrow> filter_counts \<Rightarrow> filter_counts" where
  "count_state nowMs m c = (case resolveHomeMatchState m nowMs of
     TLive \<Rightarrow> c\<lparr>fc_live := fc_live c + 1\<rparr>
   | TUpcoming \<Rightarrow> c\<lparr>fc_upcoming := fc_upcoming c + 1\<rparr>
   | TUnknown \<Rightarrow> c\<lparr>fc_upcoming := fc_upcoming c + 1\<rparr>
   | TEnded \<Rightarrow> c\<lparr>fc_completed := fc_completed c + 1\<rparr>)"

text \<open>The schedule of an event that is not loaded is empty.\<close>

definition window_of :: "local_clock \<Rightarrow> (string \<times> schedule_item list) list \<Rightarrow> int \<Rightarrow> int option \<Rightarrow> string \<Rightarrow> schedule_item list" where
  "window_of lc scheduleByEvent nowMs dayMs eventKey =
     (let matches = nullish (map_of scheduleByEvent eventKey) []
      in case dayMs of Some d \<Rightarrow> selectHomeDayMatches lc matches d | None \<Rightarrow> selectHomeWindowMatches lc matches nowMs)"

definition buildHomeFilterCounts :: "local_clock \<Rightarrow> string list \<Rightarrow> (string \<times> schedule_item list) list \<Rightarrow> int \<Rightarrow> int option \<Rightarrow> filter_counts" where
  "buildHomeFilterCounts lc feedEventKeys scheduleByEvent nowMs dayMs =
     fold (\<lambda>eventKey c.
        let w = window_of lc scheduleByEvent nowMs dayMs eventKey
        in fold (count_state nowMs) w (c\<lparr>fc_all := fc_all c + length w\<rparr>)) feedEventKeys
       \<lparr>fc_all = 0, fc_live = 0, fc_upcoming = 0, fc_completed = 0\<rparr>"

section \<open>The event to open\<close>

record event_rank =
  er_eventKey :: string
  er_priority :: int
  er_liveCount :: int
  er_pendingCount :: int
  er_dayMatchCount :: int
  er_nextPendingSec :: "int option"

text \<open>\<open>nextPendingSec\<close> starts at infinity, which is \<open>None\<close>.\<close>

definition earlier :: "int option \<Rightarrow> int option \<Rightarrow> int option" where
  "earlier a b = (case a of None \<Rightarrow> b | Some x \<Rightarrow> (case b of None \<Rightarrow> a | Some y \<Rightarrow> Some (min x y)))"

definition compare_sec :: "int option \<Rightarrow> int option \<Rightarrow> int" where
  "compare_sec a b = (case (a, b) of (None, None) \<Rightarrow> 0 | (None, Some _) \<Rightarrow> 1 | (Some _, None) \<Rightarrow> -1 | (Some x, Some y) \<Rightarrow> x - y)"

definition rank_event :: "local_clock \<Rightarrow> (string \<times> schedule_item list) list \<Rightarrow> int \<Rightarrow> event_item \<Rightarrow> event_rank option" where
  "rank_event lc scheduleByEvent nowMs event =
     (let eventKey = normalizeHomeEventKey (Some (es_event_key event));
          dayMatches = selectHomeDayMatches lc (nullish (map_of scheduleByEvent eventKey) []) nowMs;
          live = filter (\<lambda>m. resolveHomeMatchState m nowMs = TLive) dayMatches;
          pending = filter (\<lambda>m. resolveHomeMatchState m nowMs \<noteq> TEnded) dayMatches
      in if eventKey = [] \<or> dayMatches = [] then None
         else Some \<lparr>er_eventKey = eventKey,
           er_priority = (if live \<noteq> [] then 4 else if pending \<noteq> [] then 3 else if dayMatches \<noteq> [] then 2 else 1),
           er_liveCount = int (length live), er_pendingCount = int (length pending), er_dayMatchCount = int (length dayMatches),
           er_nextPendingSec = fold (\<lambda>m best. earlier best (m_scheduled_time m)) pending None\<rparr>)"

definition rank_compare :: "(string \<Rightarrow> string \<Rightarrow> int) \<Rightarrow> event_rank \<Rightarrow> event_rank \<Rightarrow> int" where
  "rank_compare collate a b =
     (if er_priority a \<noteq> er_priority b then er_priority b - er_priority a
      else if er_liveCount a \<noteq> er_liveCount b then er_liveCount b - er_liveCount a
      else if er_pendingCount a \<noteq> er_pendingCount b then er_pendingCount b - er_pendingCount a
      else if er_dayMatchCount a \<noteq> er_dayMatchCount b then er_dayMatchCount b - er_dayMatchCount a
      else if er_nextPendingSec a \<noteq> er_nextPendingSec b then compare_sec (er_nextPendingSec a) (er_nextPendingSec b)
      else collate (er_eventKey a) (er_eventKey b))"

definition pickMobileHomeAutoEventKey :: "local_clock \<Rightarrow> (string \<Rightarrow> string \<Rightarrow> int) \<Rightarrow> event_item list \<Rightarrow>
    (string \<times> schedule_item list) list \<Rightarrow> int \<Rightarrow> string" where
  "pickMobileHomeAutoEventKey lc collate events scheduleByEvent nowMs =
     (case js_sort (rank_compare collate) (List.map_filter (rank_event lc scheduleByEvent nowMs) events) of
        [] \<Rightarrow> [] | r # _ \<Rightarrow> er_eventKey r)"

definition pickDefaultMatchKey :: "schedule_item list \<Rightarrow> int \<Rightarrow> string option" where
  "pickDefaultMatchKey rows nowMs = (if rows = [] then None
     else (case find (\<lambda>r. resolveHomeMatchState r nowMs = TLive) rows of Some live \<Rightarrow> Some (m_match_key live)
       | None \<Rightarrow> (case find (\<lambda>r. resolveHomeMatchState r nowMs = TUpcoming) rows of Some up \<Rightarrow> Some (m_match_key up)
           | None \<Rightarrow> (let finished = filter (\<lambda>r. resolveHomeMatchState r nowMs = TEnded) rows
               in if finished \<noteq> [] then Some (m_match_key (last finished)) else Some (m_match_key (hd rows))))))"

section \<open>The day to jump to\<close>

text \<open>\<open>Date.UTC(y, m, d) / 86_400_000\<close>: the number of the day, months and days running over, years 0 to 99 being
  1900 to 1999.\<close>

definition leap_year :: "int \<Rightarrow> bool" where
  "leap_year y \<longleftrightarrow> y mod 4 = 0 \<and> (y mod 100 \<noteq> 0 \<or> y mod 400 = 0)"

definition year_start :: "int \<Rightarrow> int" where
  "year_start y = 365 * (y - 1970) + (y - 1969) div 4 - (y - 1901) div 100 + (y - 1601) div 400"

definition month_start :: "int \<Rightarrow> nat \<Rightarrow> int" where
  "month_start y m = [0, 31, 59, 90, 120, 151, 181, 212, 243, 273, 304, 334] ! m + (if leap_year y \<and> m > 1 then 1 else 0)"

definition utc_day :: "int \<Rightarrow> int \<Rightarrow> int \<Rightarrow> int" where
  "utc_day y m d =
     (let y1 = (if 0 \<le> y \<and> y \<le> 99 then 1900 + y else y); ym = y1 + m div 12
      in year_start ym + month_start ym (nat (m mod 12)) + d - 1)"

definition dateTokenDayNumber :: "string \<Rightarrow> int option" where
  "dateTokenDayNumber token =
     (let y = take 4 token; m = take 2 (drop 5 token); d = take 2 (drop 8 token)
      in if length token \<ge> 10 \<and> list_all is_digit (y @ m @ d) \<and> token ! 4 = CHR ''-'' \<and> token ! 7 = CHR ''-''
         then Some (utc_day (int (dec_val y)) (int (dec_val m) - 1) (int (dec_val d))) else None)"

record near_day =
  nd_token :: string
  nd_distance :: int
  nd_future :: bool

text \<open>The day an event offers, unless it is skipped, undated or runs on the day itself.\<close>

definition event_day :: "int \<Rightarrow> string set \<Rightarrow> event_item \<Rightarrow> near_day option" where
  "event_day target skip event =
     (if js_lower (es_event_key event) \<in> skip then None
      else (let start = take 10 (field_text (es_start_date event));
                end' = str_or (take 10 (field_text (es_end_date event))) start
            in case dateTokenDayNumber start of None \<Rightarrow> None
             | Some startDay \<Rightarrow>
                (let endDay = nullish (dateTokenDayNumber end') startDay
                 in if startDay \<le> target \<and> target \<le> endDay then None
                    else (let future = startDay > target
                          in Some \<lparr>nd_token = (if future then start else end'),
                               nd_distance = (if future then startDay - target else target - endDay), nd_future = future\<rparr>))))"

definition nearer :: "near_day \<Rightarrow> near_day option \<Rightarrow> bool" where
  "nearer c best = (case best of None \<Rightarrow> True
     | Some b \<Rightarrow> nd_distance c < nd_distance b \<or> nd_distance c = nd_distance b \<and> nd_future c \<and> \<not> nd_future b)"

definition nearestEventDayToken :: "event_item list \<Rightarrow> string \<Rightarrow> string set \<Rightarrow> string option" where
  "nearestEventDayToken events dayToken skip = (case dateTokenDayNumber dayToken of None \<Rightarrow> None
     | Some target \<Rightarrow> map_option nd_token (fold (\<lambda>event best. case event_day target skip event of None \<Rightarrow> best
         | Some c \<Rightarrow> if nearer c best then Some c else best) events None))"

definition nearestLoadedMatchDayMs :: "local_clock \<Rightarrow> schedule_item list \<Rightarrow> int \<Rightarrow> int option" where
  "nearestLoadedMatchDayMs lc matches dayMs =
     (let target = lc_start lc dayMs
      in map_option fst (fold (\<lambda>m best. case matchStartTime (Some m) of None \<Rightarrow> best
          | Some startSec \<Rightarrow>
              (let day = lc_start lc (startSec * 1000); distance = \<bar>day - target\<bar>
               in if day = target then best
                  else (case best of None \<Rightarrow> Some (day, distance)
                    | Some (bd, bdist) \<Rightarrow> if distance < bdist \<or> distance = bdist \<and> day > bd
                        then Some (day, distance) else best))) matches None))"

definition closerDay :: "int option \<Rightarrow> int option \<Rightarrow> int \<Rightarrow> (int \<times> bool) option" where
  "closerDay loaded calendar selected = (case (loaded, calendar) of
     (None, None) \<Rightarrow> None | (Some l, None) \<Rightarrow> Some (l, True) | (None, Some c) \<Rightarrow> Some (c, False)
   | (Some l, Some c) \<Rightarrow> if \<bar>c - selected\<bar> < \<bar>l - selected\<bar> then Some (c, False) else Some (l, True))"

definition homeStartEvent :: "string option \<Rightarrow> string list \<Rightarrow> string" where
  "homeStartEvent stored suggested =
     (let s = js_lower (js_trim (opt_str stored))
      in if isEventKeyShape s then s else (case suggested of [] \<Rightarrow> [] | k # _ \<Rightarrow> k))"


section \<open>Counts agree with the filters\<close>

definition shown :: "local_clock \<Rightarrow> (string \<times> schedule_item list) list \<Rightarrow> int \<Rightarrow> int option \<Rightarrow> home_filter \<Rightarrow> string \<Rightarrow> schedule_item list" where
  "shown lc scheduleByEvent nowMs dayMs f eventKey =
     filterHomeWindowMatches (window_of lc scheduleByEvent nowMs dayMs eventKey) f nowMs"

lemma count_states:
  "fc_all (fold (count_state nowMs) w c) = fc_all c"
  "fc_live (fold (count_state nowMs) w c) = fc_live c + length (filterHomeWindowMatches w LiveMatches nowMs)"
  "fc_upcoming (fold (count_state nowMs) w c) = fc_upcoming c + length (filterHomeWindowMatches w UpcomingMatches nowMs)"
  "fc_completed (fold (count_state nowMs) w c) = fc_completed c + length (filterHomeWindowMatches w CompletedMatches nowMs)"
  by (induction w arbitrary: c) (auto simp: count_state_def filterHomeWindowMatches_def passes_def split: timer_state.splits)

lemma counts_from:
  "let d = fold (\<lambda>eventKey c.
      let w = window_of lc scheduleByEvent nowMs dayMs eventKey
      in fold (count_state nowMs) w (c\<lparr>fc_all := fc_all c + length w\<rparr>)) ks c;
    n = (\<lambda>f. sum_list (map (\<lambda>k. length (shown lc scheduleByEvent nowMs dayMs f k)) ks))
   in fc_all d = fc_all c + n AllMatches \<and> fc_live d = fc_live c + n LiveMatches \<and>
      fc_upcoming d = fc_upcoming c + n UpcomingMatches \<and> fc_completed d = fc_completed c + n CompletedMatches"
proof (induction ks arbitrary: c)
  case (Cons k ks)
  define w where "w = window_of lc scheduleByEvent nowMs dayMs k"
  show ?case
    using Cons [of "fold (count_state nowMs) w (c\<lparr>fc_all := fc_all c + length w\<rparr>)"]
    by (simp add: Let_def count_states shown_def w_def filterHomeWindowMatches_def)
qed (simp add: Let_def)

lemma filters_split: "length w = length (filterHomeWindowMatches w LiveMatches nowMs) +
    length (filterHomeWindowMatches w UpcomingMatches nowMs) + length (filterHomeWindowMatches w CompletedMatches nowMs)"
proof (induction w)
  case (Cons m w)
  then show ?case
    by (cases "resolveHomeMatchState m nowMs") (simp_all add: filterHomeWindowMatches_def passes_def)
qed (simp add: filterHomeWindowMatches_def)

section \<open>The nearest day\<close>

definition better :: "near_day \<Rightarrow> near_day \<Rightarrow> bool" where
  "better c b \<longleftrightarrow> nd_distance c < nd_distance b \<or> nd_distance c = nd_distance b \<and> (nd_future c \<or> \<not> nd_future b)"

lemma nearest_fold:
  "let r = fold (\<lambda>event best. case event_day target skip event of None \<Rightarrow> best
      | Some c \<Rightarrow> if nearer c best then Some c else best) events best;
    seen = set_option best \<union> \<Union> (set_option ` event_day target skip ` set events)
   in case r of None \<Rightarrow> seen = {} | Some b \<Rightarrow> b \<in> seen \<and> (\<forall>c \<in> seen. better b c)"
proof (induction events arbitrary: best)
  case Nil
  then show ?case by (auto simp: better_def split: option.split)
next
  case (Cons e es)
  show ?case
  proof (cases "event_day target skip e")
    case None
    then show ?thesis using Cons [of best] by simp
  next
    case (Some c)
    define best' where "best' = (if nearer c best then Some c else best)"
    obtain b' where b': "best' = Some b'" "b' = c \<or> best = Some b'" "better b' c" "\<And>b. best = Some b \<Longrightarrow> better b' b"
      by (cases best; cases "nearer c best") (auto simp: best'_def nearer_def better_def not_less le_less)
    have tr: "better x b' \<Longrightarrow> better b' z \<Longrightarrow> better x z" for x z by (auto simp: better_def)
    define R where "R = \<Union> (set_option ` event_day target skip ` set es)"
    define r where "r = fold (\<lambda>event best. case event_day target skip event of None \<Rightarrow> best
      | Some c \<Rightarrow> if nearer c best then Some c else best) es best'"
    have IH: "case r of None \<Rightarrow> {b'} \<union> R = {} | Some b \<Rightarrow> b \<in> {b'} \<union> R \<and> (\<forall>c \<in> {b'} \<union> R. better b c)"
      using Cons [of best'] unfolding Let_def b'(1) option.set R_def r_def .
    then obtain b where b: "r = Some b" "b \<in> {b'} \<union> R" "\<And>x. x \<in> {b'} \<union> R \<Longrightarrow> better b x"
      by (cases r) auto
    have seen: "\<Union> (set_option ` event_day target skip ` set (e # es)) = {c} \<union> R"
      by (simp add: R_def Some)
    have "b \<in> set_option best \<union> ({c} \<union> R)" using b(2) b'(2) by auto
    moreover have "better b x" if "x \<in> set_option best \<union> ({c} \<union> R)" for x
      using that b(3) b'(3,4) tr [OF b(3)] by auto
    moreover have "fold (\<lambda>event best. case event_day target skip event of None \<Rightarrow> best
      | Some c \<Rightarrow> if nearer c best then Some c else best) (e # es) best = Some b"
      using b(1) by (simp add: r_def Some best'_def)
    ultimately show ?thesis unfolding seen Let_def by simp
  qed
qed

section \<open>Properties\<close>

text \<open>Claim C26: The numbers on the filter buttons are the numbers of matches the filters show, and live, upcoming
  and completed matches are all matches.\<close>

theorem filter_counts_are_true:
  "(let c = buildHomeFilterCounts lc ks scheduleByEvent nowMs dayMs;
        n = (\<lambda>f. sum_list (map (\<lambda>k. length (shown lc scheduleByEvent nowMs dayMs f k)) ks))
    in fc_all c = n AllMatches \<and> fc_live c = n LiveMatches \<and> fc_upcoming c = n UpcomingMatches \<and>
       fc_completed c = n CompletedMatches \<and> fc_all c = fc_live c + fc_upcoming c + fc_completed c)"
proof -
  let ?n = "\<lambda>f. sum_list (map (\<lambda>k. length (shown lc scheduleByEvent nowMs dayMs f k)) ks)"
  have "?n AllMatches = ?n LiveMatches + ?n UpcomingMatches + ?n CompletedMatches"
  proof (induction ks)
    case (Cons k ks)
    then show ?case
      using filters_split [of "window_of lc scheduleByEvent nowMs dayMs k" nowMs]
      by (simp add: shown_def) (simp add: filterHomeWindowMatches_def)
  qed simp
  then show ?thesis
    using counts_from [of lc scheduleByEvent nowMs dayMs ks "\<lparr>fc_all = 0, fc_live = 0, fc_upcoming = 0, fc_completed = 0\<rparr>"]
    by (simp add: buildHomeFilterCounts_def Let_def)
qed

text \<open>The jump button's day is offered by an event and none is nearer, a future day winning a tie; there is
  no such day only when no event offers one.\<close>

theorem nearest_event_day_is_nearest:
  assumes "dateTokenDayNumber dayToken = Some target"
  shows "case nearestEventDayToken events dayToken skip of
      None \<Rightarrow> list_all (\<lambda>e. event_day target skip e = None) events
    | Some token \<Rightarrow> \<exists>e \<in> set events. \<exists>b. event_day target skip e = Some b \<and> nd_token b = token \<and>
        (\<forall>f \<in> set events. case event_day target skip f of None \<Rightarrow> True | Some c \<Rightarrow> better b c)"
proof -
  define r where "r = fold (\<lambda>event best. case event_day target skip event of None \<Rightarrow> best
      | Some c \<Rightarrow> if nearer c best then Some c else best) events None"
  have f: "case r of None \<Rightarrow> \<Union> (set_option ` event_day target skip ` set events) = {}
    | Some b \<Rightarrow> b \<in> \<Union> (set_option ` event_day target skip ` set events) \<and>
        (\<forall>c \<in> \<Union> (set_option ` event_day target skip ` set events). better b c)"
    using nearest_fold [of target skip events None]
    unfolding r_def [symmetric] Let_def option.set Un_empty_left .
  have n: "nearestEventDayToken events dayToken skip = map_option nd_token r"
    using assms by (simp add: nearestEventDayToken_def r_def)
  show ?thesis
  proof (cases r)
    case None
    with f n show ?thesis by (auto simp: list_all_iff split: option.splits)
  next
    case (Some b)
    with f obtain e where "e \<in> set events" "event_day target skip e = Some b" by (auto split: option.splits)
    moreover have "\<forall>f \<in> set events. case event_day target skip f of None \<Rightarrow> True | Some c \<Rightarrow> better b c"
      using f Some by (auto split: option.split)
    ultimately show ?thesis using n Some by auto
  qed
qed

definition dated :: "string \<Rightarrow> string \<Rightarrow> event_item" where
  "dated key day = (sample_event key key 2026)\<lparr>es_start_date := Some (Some day)\<rparr>"

theorem nearest_event_day_is_nearest_witness:
  "nearestEventDayToken [dated ''a'' ''2026-03-01'', dated ''b'' ''2026-03-07''] ''2026-03-04'' {} = Some ''2026-03-07'' \<and>
   (\<exists>e \<in> set [dated ''a'' ''2026-03-01'', dated ''b'' ''2026-03-07'']. \<exists>b. event_day 20516 {} e = Some b \<and> nd_token b = ''2026-03-07'')"
proof -
  have d: "dateTokenDayNumber ''2026-03-04'' = Some 20516" by code_simp
  have n: "nearestEventDayToken [dated ''a'' ''2026-03-01'', dated ''b'' ''2026-03-07''] ''2026-03-04'' {} = Some ''2026-03-07''"
    by code_simp
  from nearest_event_day_is_nearest [OF d, where events = "[dated ''a'' ''2026-03-01'', dated ''b'' ''2026-03-07'']" and skip = "{}"] n
  show ?thesis by auto
qed


lemma states_of_group: "map (\<lambda>m. resolveHomeMatchState m nowMs) (js_sort cmp (group_of s nowMs matches)) =
    replicate (length (group_of s nowMs matches)) s"
  by (rule replicate_eqI) (auto simp: group_of_def)

text \<open>The feed holds every match once: the live ones, the next one up, the played ones, the rest of the
  schedule, the undated ones.\<close>

theorem feed_keeps_every_match:
  "mset (sortHomeFeedMatches collate matches nowMs) = mset matches \<and>
   (let n = (\<lambda>s. length (group_of s nowMs matches))
    in map (\<lambda>m. resolveHomeMatchState m nowMs) (sortHomeFeedMatches collate matches nowMs) =
       replicate (n TLive) TLive @ replicate (min 1 (n TUpcoming)) TUpcoming @ replicate (n TEnded) TEnded @
       replicate (n TUpcoming - 1) TUpcoming @ replicate (n TUnknown) TUnknown)"
proof
  have split: "mset ms = mset (group_of TLive nowMs ms) + mset (group_of TUpcoming nowMs ms) +
      mset (group_of TEnded nowMs ms) + mset (group_of TUnknown nowMs ms)" for ms
    by (induction ms) (auto simp: group_of_def intro: timer_state.exhaust)
  have "mset (take 1 xs) + mset (drop 1 xs) = mset xs" for xs :: "schedule_item list"
    by (metis append_take_drop_id mset_append)
  then have "mset (sortHomeFeedMatches collate matches nowMs) =
      mset (group_of TLive nowMs matches) + mset (js_sort (feed_compare collate False) (group_of TUpcoming nowMs matches)) +
      mset (group_of TEnded nowMs matches) + mset (group_of TUnknown nowMs matches)"
    by (simp only: sortHomeFeedMatches_def Let_def mset_append mset_js_sort) (simp add: ac_simps del: One_nat_def)
  then show "mset (sortHomeFeedMatches collate matches nowMs) = mset matches" using split [of matches] by simp
  show "let n = (\<lambda>s. length (group_of s nowMs matches))
    in map (\<lambda>m. resolveHomeMatchState m nowMs) (sortHomeFeedMatches collate matches nowMs) =
       replicate (n TLive) TLive @ replicate (min 1 (n TUpcoming)) TUpcoming @ replicate (n TEnded) TEnded @
       replicate (n TUpcoming - 1) TUpcoming @ replicate (n TUnknown) TUnknown"
    by (simp add: sortHomeFeedMatches_def Let_def states_of_group take_map [symmetric] drop_map [symmetric])
qed

end
