(* ===== verification/WorkspaceSession.thy ===== *)
theory WorkspaceSession
  imports JsValue
begin

text \<open>
  Who is signed in to which workspace: \<open>src/ScoutingApp/src/features/workspace/workspaceSession.ts\<close>.
  A \<open>ws\<close> is the state of the module (\<open>cached\<close>, where the outer \<open>None\<close> is \<open>undefined\<close> and the inner one
  \<open>null\<close>, the revision, the reason of the end, an issued join code) with what it keeps: \<open>localStorage\<close> and,
  in the native app, the vault of the operating system with the writes that wait for it.  \<open>native\<close> is
  \<open>isNativeApp()\<close>; \<open>full key\<close> says that \<open>setItem\<close> of the key throws; the clock is an argument.  A vault
  write ends with \<open>finish_write\<close>, which also runs what the code hangs on its promise.  The badge and the
  photo cache, which signing out also empties, belong to other modules.
\<close>

section \<open>Sessions\<close>

definition STORAGE_KEY :: string where
  "STORAGE_KEY = ''frcmob_workspace_session_v1''"

definition CLEAR_PENDING_KEY :: string where
  "CLEAR_PENDING_KEY = ''frcmob_workspace_clear_pending_v1''"

definition END_REASON_KEY :: string where
  "END_REASON_KEY = ''frcmob_workspace_end_reason_v1''"

datatype end_reason = LeftTeam | Revoked | Expired

text \<open>The fields the code checks, and the whole object with the names and the role.\<close>

record workspace_session =
  ws_token :: string
  ws_expiresAt :: real
  ws_workspace :: real
  ws_me :: real
  ws_value :: "(string \<times> jsval) list"

definition session_text :: "workspace_session \<Rightarrow> jtext" where
  "session_text s = Json (JObj (ws_value s))"

definition parse_session :: "jtext option \<Rightarrow> workspace_session option" where
  "parse_session raw = (case raw of None \<Rightarrow> None
     | Some t \<Rightarrow> (case json_parse t of
         Some (JObj m) \<Rightarrow>
           (case (jget m ''token'', jget m ''expiresAt'', jget_opt (asRecord (jget m ''workspace'')) ''id'',
                jget_opt (asRecord (jget m ''me'')) ''id'') of
              (JStr token, JNum (Fin e), JNum (Fin w), JNum (Fin me)) \<Rightarrow>
                if token = [] then None
                else Some \<lparr>ws_token = token, ws_expiresAt = e, ws_workspace = w, ws_me = me, ws_value = m\<rparr>
            | _ \<Rightarrow> None)
       | _ \<Rightarrow> None))"

definition session_ok :: "workspace_session \<Rightarrow> bool" where
  "session_ok s \<longleftrightarrow> parse_session (Some (session_text s)) = Some s"

section \<open>The module\<close>

datatype vault_write = WriteSession workspace_session nat | WriteNothing nat

record ws =
  w_cached :: "workspace_session option option"
  w_revision :: nat
  w_reason :: "end_reason option"
  w_code :: "(real \<times> string) option"
  w_local :: "(string, jtext) jsmap"
  w_vault :: "jtext option"
  w_writes :: "vault_write list"
  w_emitted :: nat
  w_reported :: nat

definition emit_ws :: "ws \<Rightarrow> ws" where
  "emit_ws st = st\<lparr>w_emitted := Suc (w_emitted st)\<rparr>"

definition reason_text :: "end_reason \<Rightarrow> string" where
  "reason_text r = (case r of LeftTeam \<Rightarrow> ''left'' | Revoked \<Rightarrow> ''revoked'' | Expired \<Rightarrow> ''expired'')"

definition persistNativeSession :: "vault_write \<Rightarrow> ws \<Rightarrow> ws" where
  "persistNativeSession w st = st\<lparr>w_writes := w_writes st @ [w]\<rparr>"

definition publish_session :: "bool \<Rightarrow> (string \<Rightarrow> bool) \<Rightarrow> workspace_session \<Rightarrow> nat \<Rightarrow> ws \<Rightarrow> ws" where
  "publish_session native full session currentRevision st =
     (if currentRevision \<noteq> w_revision st then st
      else (let m = map_delete END_REASON_KEY (w_local st)
            in emit_ws (st\<lparr>w_cached := Some (Some session), w_reason := None,
                 w_local := (if native \<or> full STORAGE_KEY then m
                   else map_set STORAGE_KEY (session_text session) m)\<rparr>)))"

definition setWorkspaceSession :: "bool \<Rightarrow> (string \<Rightarrow> bool) \<Rightarrow> workspace_session \<Rightarrow> ws \<Rightarrow> ws" where
  "setWorkspaceSession native full session st =
     (let currentRevision = Suc (w_revision st); st1 = st\<lparr>w_revision := currentRevision\<rparr>
      in if native then persistNativeSession (WriteSession session currentRevision) st1
         else publish_session native full session currentRevision st1)"

definition clearWorkspaceSession :: "bool \<Rightarrow> (string \<Rightarrow> bool) \<Rightarrow> end_reason \<Rightarrow> ws \<Rightarrow> ws" where
  "clearWorkspaceSession native full r st =
     (let clearRevision = Suc (w_revision st);
          st1 = st\<lparr>w_code := None, w_revision := clearRevision\<rparr>
      in if \<not> native \<and> w_cached st1 = Some None \<and> map_get (w_local st1) STORAGE_KEY = None then st1
         else (let st2 = st1\<lparr>w_cached := Some None\<rparr>;
                   st3 = (if \<not> native then st2
                     else persistNativeSession (WriteNothing clearRevision)
                       (if full CLEAR_PENDING_KEY then st2\<lparr>w_reported := Suc (w_reported st2)\<rparr>
                        else st2\<lparr>w_local := map_set CLEAR_PENDING_KEY (Raw ''1'') (w_local st2)\<rparr>));
                   st4 = st3\<lparr>w_reason := Some r\<rparr>
               in emit_ws (if full END_REASON_KEY then st4
                    else st4\<lparr>w_local := map_delete STORAGE_KEY
                      (map_set END_REASON_KEY (Raw (reason_text r)) (w_local st4))\<rparr>)))"

definition expired_at :: "real \<Rightarrow> workspace_session \<Rightarrow> bool" where
  "expired_at now s \<longleftrightarrow> ws_expiresAt s * 1000 \<le> now"

definition getWorkspaceSession :: "bool \<Rightarrow> (string \<Rightarrow> bool) \<Rightarrow> real \<Rightarrow> ws \<Rightarrow> workspace_session option \<times> ws" where
  "getWorkspaceSession native full now st =
     (let st1 = (if w_cached st = None
            then st\<lparr>w_cached := Some (if native then None else parse_session (map_get (w_local st) STORAGE_KEY))\<rparr>
            else st);
          st2 = (case w_cached st1 of
              Some (Some s) \<Rightarrow> if expired_at now s then clearWorkspaceSession native full Expired st1 else st1
            | _ \<Rightarrow> st1)
      in (case w_cached st2 of Some c \<Rightarrow> c | None \<Rightarrow> None, st2))"

definition getWorkspaceToken :: "bool \<Rightarrow> (string \<Rightarrow> bool) \<Rightarrow> real \<Rightarrow> ws \<Rightarrow> string \<times> ws" where
  "getWorkspaceToken native full now st = (case getWorkspaceSession native full now st of
     (s, st') \<Rightarrow> (case s of None \<Rightarrow> [] | Some s \<Rightarrow> ws_token s, st'))"

definition rememberIssuedJoinCode :: "real \<Rightarrow> string \<Rightarrow> ws \<Rightarrow> ws" where
  "rememberIssuedJoinCode workspaceId code st = st\<lparr>w_code := Some (workspaceId, code)\<rparr>"

definition issuedJoinCodeFor :: "real \<Rightarrow> ws \<Rightarrow> string option" where
  "issuedJoinCodeFor workspaceId st = (case w_code st of
     Some (i, code) \<Rightarrow> if i = workspaceId then Some code else None | None \<Rightarrow> None)"

definition stored_reason :: "jtext option \<Rightarrow> end_reason option" where
  "stored_reason t = (if t = Some (Raw ''left'') then Some LeftTeam
     else if t = Some (Raw ''revoked'') then Some Revoked
     else if t = Some (Raw ''expired'') then Some Expired else None)"

definition workspaceEndReason :: "bool \<Rightarrow> (string \<Rightarrow> bool) \<Rightarrow> real \<Rightarrow> ws \<Rightarrow> end_reason option \<times> ws" where
  "workspaceEndReason native full now st =
     (if w_reason st \<noteq> None then (w_reason st, st)
      else (case getWorkspaceSession native full now st of
          (Some _, st') \<Rightarrow> (w_reason st', st')
        | (None, st') \<Rightarrow> (stored_reason (map_get (w_local st') END_REASON_KEY), st')))"

text \<open>Another tab changed \<open>localStorage\<close>.\<close>

definition storage_event :: "bool \<Rightarrow> string \<Rightarrow> jtext option \<Rightarrow> ws \<Rightarrow> ws" where
  "storage_event native key newValue st =
     (if native \<or> key \<noteq> STORAGE_KEY then st
      else emit_ws (st\<lparr>w_cached := Some (parse_session newValue)\<rparr>))"

section \<open>The vault of the native app\<close>

definition vault_after :: "vault_write \<Rightarrow> jtext option" where
  "vault_after w = (case w of WriteSession s _ \<Rightarrow> Some (session_text s) | WriteNothing _ \<Rightarrow> None)"

text \<open>The first waiting write ends, well or badly, and its continuation runs.\<close>

definition finish_write :: "(string \<Rightarrow> bool) \<Rightarrow> bool \<Rightarrow> ws \<Rightarrow> ws" where
  "finish_write full okay st = (case w_writes st of [] \<Rightarrow> st
     | w # rest \<Rightarrow>
        (let st1 = st\<lparr>w_writes := rest, w_vault := (if okay then vault_after w else w_vault st)\<rparr>
         in case w of
              WriteSession s r \<Rightarrow>
                if okay \<and> r = w_revision st1
                then publish_session True full s r (st1\<lparr>w_local :=
                  map_delete STORAGE_KEY (map_delete CLEAR_PENDING_KEY (w_local st1))\<rparr>)
                else st1
            | WriteNothing r \<Rightarrow>
                if \<not> okay then st1\<lparr>w_reported := Suc (w_reported st1)\<rparr>
                else if r = w_revision st1
                then st1\<lparr>w_local := map_delete CLEAR_PENDING_KEY (w_local st1)\<rparr>
                else st1))"

text \<open>The app is closed at any moment and opened again; \<open>applied\<close>: the write under way reached the vault.\<close>

definition reopen :: "bool \<Rightarrow> ws \<Rightarrow> ws" where
  "reopen applied st = \<lparr>w_cached = None, w_revision = 0, w_reason = None, w_code = None, w_local = w_local st,
     w_vault = (case w_writes st of [] \<Rightarrow> w_vault st
       | w # _ \<Rightarrow> if applied then vault_after w else w_vault st),
     w_writes = [], w_emitted = 0, w_reported = 0\<rparr>"

text \<open>\<open>bootstrapWorkspaceSession\<close>; \<open>ok n\<close>: the \<open>n\<close>-th call of the vault succeeds.  The result is
  whether the promise resolves.\<close>

definition bootstrapWorkspaceSession :: "bool \<Rightarrow> (nat \<Rightarrow> bool) \<Rightarrow> real \<Rightarrow> ws \<Rightarrow> bool \<times> ws" where
  "bootstrapWorkspaceSession native okay now st =
     (if \<not> native then (True, st)
      else (let waiting = (case map_get (w_local st) CLEAR_PENDING_KEY of
                  None \<Rightarrow> False | Some t \<Rightarrow> \<not> text_empty t)
            in if waiting \<and> \<not> okay 0 then (False, st)
               else (let st1 = (if waiting then st\<lparr>w_vault := None, w_local :=
                            map_delete CLEAR_PENDING_KEY (map_delete STORAGE_KEY (w_local st))\<rparr> else st)
                     in if \<not> okay 1 then (False, st1)
                        else (let protected = w_vault st1;
                                  legacy = map_get (w_local st1) STORAGE_KEY;
                                  session = parse_session (case protected of None \<Rightarrow> legacy | Some t \<Rightarrow> Some t);
                                  clean = (\<lambda>s. (True, s\<lparr>w_local := map_delete STORAGE_KEY (w_local s)\<rparr>))
                              in case session of
                                   Some s \<Rightarrow>
                                     if \<not> expired_at now s
                                     then if protected = None \<or> protected = Some (Raw [])
                                       then if okay 2 then clean (st1\<lparr>w_vault := Some (session_text s), w_cached := Some (Some s)\<rparr>)
                                         else (False, st1)
                                       else clean (st1\<lparr>w_cached := Some (Some s)\<rparr>)
                                     else if okay 2
                                     then clean (st1\<lparr>w_vault := None, w_cached := Some None, w_reason := Some Expired\<rparr>)
                                     else (False, st1)
                                 | None \<Rightarrow>
                                     if okay 2 then clean (st1\<lparr>w_vault := None, w_cached := Some None\<rparr>)
                                     else (False, st1)))))"

section \<open>Runs\<close>

definition room :: "string \<Rightarrow> bool" where
  "room key = False"

text \<open>Everything that can happen without a new sign-in, whether or not \<open>localStorage\<close> has room: reads
  (which end an expired session), further sign-outs, the end of a vault write, a join code, another tab
  signing out, and the app being closed and opened.\<close>

inductive quiet_step :: "bool \<Rightarrow> ws \<Rightarrow> ws \<Rightarrow> bool" for native where
  Read: "getWorkspaceSession native full now s = (x, s') \<Longrightarrow> quiet_step native s s'"
| Leave: "quiet_step native s (clearWorkspaceSession native full r s)"
| Vault: "quiet_step native s (finish_write full okay s)"
| Code: "quiet_step native s (rememberIssuedJoinCode i code s)"
| Event: "parse_session newValue = None \<Longrightarrow> quiet_step native s (storage_event native key newValue s)"
| Reopen: "bootstrapWorkspaceSession native okay now (reopen applied s) = (done, s') \<Longrightarrow> quiet_step native s s'"

inductive quiet :: "bool \<Rightarrow> ws \<Rightarrow> ws \<Rightarrow> bool" for native where
  stay: "quiet native s s"
| then_step: "\<lbrakk>quiet native s t; quiet_step native t u\<rbrakk> \<Longrightarrow> quiet native s u"

text \<open>All the states of the app: sign-ins too, with or without room.\<close>

inductive ws_run :: "bool \<Rightarrow> ws \<Rightarrow> bool" for native where
  Start: "bootstrapWorkspaceSession native okay now (reopen False s) = (done, s') \<Longrightarrow> ws_run native s'"
| SignIn: "ws_run native s \<Longrightarrow> ws_run native (setWorkspaceSession native full session s)"
| SignOut: "ws_run native s \<Longrightarrow> ws_run native (clearWorkspaceSession native full r s)"
| Look: "\<lbrakk>ws_run native s; getWorkspaceSession native full now s = (x, s')\<rbrakk> \<Longrightarrow> ws_run native s'"
| Written: "ws_run native s \<Longrightarrow> ws_run native (finish_write full okay s)"
| Joined: "ws_run native s \<Longrightarrow> ws_run native (rememberIssuedJoinCode i code s)"
| Noticed: "ws_run native s \<Longrightarrow> ws_run native (storage_event native key newValue s)"
| Again: "\<lbrakk>ws_run native s; bootstrapWorkspaceSession native okay now (reopen applied s) = (done, s')\<rbrakk> \<Longrightarrow>
    ws_run native s'"

section \<open>Vault writes are made in the order of their revisions\<close>

definition write_revision :: "vault_write \<Rightarrow> nat" where
  "write_revision w = (case w of WriteSession _ r \<Rightarrow> r | WriteNothing r \<Rightarrow> r)"

definition in_order :: "bool \<Rightarrow> ws \<Rightarrow> bool" where
  "in_order native st \<longleftrightarrow> sorted_wrt (<) (map write_revision (w_writes st)) \<and>
     (\<forall>w \<in> set (w_writes st). write_revision w \<le> w_revision st) \<and> (\<not> native \<longrightarrow> w_writes st = [])"

lemmas ws_ops = setWorkspaceSession_def clearWorkspaceSession_def publish_session_def emit_ws_def Let_def
  persistNativeSession_def

lemma in_order_set: "in_order native s \<Longrightarrow> in_order native (setWorkspaceSession native full session s)"
  by (auto simp: in_order_def ws_ops sorted_wrt_append write_revision_def less_Suc_eq_le)

lemma in_order_clear: "in_order native s \<Longrightarrow> in_order native (clearWorkspaceSession native full r s)"
  by (auto simp: in_order_def ws_ops sorted_wrt_append write_revision_def less_Suc_eq_le)

lemma in_order_get:
  "\<lbrakk>in_order native s; getWorkspaceSession native full now s = (x, s')\<rbrakk> \<Longrightarrow> in_order native s'"
  using in_order_clear [of native "s\<lparr>w_cached := c\<rparr>" for c] in_order_clear [of native s]
  by (auto simp: getWorkspaceSession_def Let_def in_order_def split: if_splits option.splits)

lemma in_order_finish: "in_order native s \<Longrightarrow> in_order native (finish_write full okay s)"
  by (auto simp: in_order_def finish_write_def ws_ops split: list.split vault_write.split)

lemma bootstrap_writes:
  assumes "bootstrapWorkspaceSession native okay now s = (done, s')"
  shows "w_writes s' = w_writes s \<and> w_revision s' = w_revision s"
  using assms by (auto simp: bootstrapWorkspaceSession_def Let_def split: if_splits option.splits)

lemma in_order_reopen:
  "bootstrapWorkspaceSession native okay now (reopen applied s) = (done, s') \<Longrightarrow> in_order native s'"
  by (drule bootstrap_writes) (simp add: in_order_def reopen_def)

lemma ws_run_in_order: "ws_run native s \<Longrightarrow> in_order native s"
proof (induction rule: ws_run.induct)
  case (Joined s i code)
  then show ?case by (simp add: in_order_def rememberIssuedJoinCode_def)
next
  case (Noticed s key newValue)
  then show ?case by (simp add: in_order_def storage_event_def emit_ws_def)
qed (auto intro: in_order_set in_order_clear in_order_get in_order_finish in_order_reopen)

section \<open>Signed out\<close>

definition signed_out :: "bool \<Rightarrow> ws \<Rightarrow> bool" where
  "signed_out native st \<longleftrightarrow> in_order native st \<and> (w_cached st = None \<or> w_cached st = Some None) \<and>
     map_get (w_local st) STORAGE_KEY = None \<and>
     (\<forall>s r. WriteSession s r \<in> set (w_writes st) \<longrightarrow> r < w_revision st) \<and>
     (native \<longrightarrow> map_get (w_local st) CLEAR_PENDING_KEY = Some (Raw ''1'') \<or>
        w_vault st = None \<and> (\<forall>w \<in> set (w_writes st). \<exists>r. w = WriteNothing r))"

lemma keys_distinct [simp]:
  "STORAGE_KEY \<noteq> CLEAR_PENDING_KEY" "CLEAR_PENDING_KEY \<noteq> STORAGE_KEY" "STORAGE_KEY \<noteq> END_REASON_KEY"
  "END_REASON_KEY \<noteq> STORAGE_KEY" "CLEAR_PENDING_KEY \<noteq> END_REASON_KEY" "END_REASON_KEY \<noteq> CLEAR_PENDING_KEY"
  by (simp_all add: STORAGE_KEY_def CLEAR_PENDING_KEY_def END_REASON_KEY_def)

lemma parse_None [simp]: "parse_session None = None"
  by (simp add: parse_session_def)

lemma clear_signs_out:
  assumes "in_order native s" and "\<not> full END_REASON_KEY" and "native \<Longrightarrow> \<not> full CLEAR_PENDING_KEY"
  shows "signed_out native (clearWorkspaceSession native full r s)"
proof -
  have "\<forall>x q. WriteSession x q \<in> set (w_writes s) \<longrightarrow> q \<le> w_revision s"
    using assms by (force simp: in_order_def write_revision_def)
  then show ?thesis
    using assms in_order_clear [OF assms(1), of full r]
    by (auto simp: signed_out_def ws_ops dict_simps less_Suc_eq_le in_order_def)
qed

text \<open>A further sign-out changes nothing of that, with or without room.\<close>

lemma signed_out_clear:
  assumes "signed_out native s"
  shows "signed_out native (clearWorkspaceSession native full r s)"
proof -
  have "in_order native (clearWorkspaceSession native full r s)"
    using assms in_order_clear by (simp add: signed_out_def)
  then show ?thesis
    using assms by (auto simp: signed_out_def ws_ops dict_simps less_Suc_eq)
qed

lemma signed_out_get:
  assumes "signed_out native s" and "getWorkspaceSession native full now s = (x, s')"
  shows "x = None \<and> signed_out native s'"
  using assms by (auto simp: getWorkspaceSession_def Let_def signed_out_def in_order_def split: if_splits option.splits)

text \<open>A sign-out's own write is the last of the queue.\<close>

lemma last_write:
  assumes "in_order native s" and "w_writes s = w # rest" and "write_revision w = w_revision s"
  shows "rest = []"
  using assms by (cases rest) (auto simp: in_order_def)

lemma signed_out_finish:
  assumes "signed_out native s"
  shows "signed_out native (finish_write full okay s)"
proof (cases "w_writes s")
  case Nil
  with assms show ?thesis by (simp add: finish_write_def)
next
  case (Cons w rest)
  note i = in_order_finish [of native s full okay]
  have n: "native" using assms Cons by (auto simp: signed_out_def in_order_def)
  show ?thesis
  proof (cases w)
    case (WriteSession x r)
    then have "r < w_revision s" "map_get (w_local s) CLEAR_PENDING_KEY = Some (Raw ''1'')"
      using assms n Cons by (auto simp: signed_out_def)
    with assms Cons WriteSession i show ?thesis
      by (auto simp: signed_out_def finish_write_def Let_def)
  next
    case (WriteNothing r)
    have "rest = []" if "r = w_revision s"
      using last_write [of native s w rest] assms Cons WriteNothing that
      by (simp add: signed_out_def write_revision_def)
    with assms Cons WriteNothing i show ?thesis
      by (auto simp: signed_out_def finish_write_def Let_def vault_after_def dict_simps)
  qed
qed

lemma signed_out_reopen:
  assumes "signed_out native s" and "bootstrapWorkspaceSession native okay now (reopen applied s) = (done, s')"
  shows "signed_out native s'"
proof -
  have i: "in_order native s'" by (rule in_order_reopen [OF assms(2)])
  define t where "t = reopen applied s"
  have t: "w_cached t = None" "w_writes t = []" "map_get (w_local t) STORAGE_KEY = None"
    "w_local t = w_local s" using assms(1) by (simp_all add: t_def reopen_def signed_out_def)
  have v: "native \<Longrightarrow> map_get (w_local t) CLEAR_PENDING_KEY \<noteq> Some (Raw ''1'') \<Longrightarrow> w_vault t = None"
    using assms(1) by (auto simp: t_def reopen_def signed_out_def vault_after_def split: list.split)
  show ?thesis
  proof (cases "map_get (w_local t) CLEAR_PENDING_KEY = Some (Raw ''1'')")
    case True
    then show ?thesis
      using i assms(2) [folded t_def] t
      by (auto simp: signed_out_def bootstrapWorkspaceSession_def Let_def dict_simps split: if_splits option.splits)
  next
    case False
    with v have "native \<Longrightarrow> w_vault t = None" by simp
    then show ?thesis
      using i assms(2) [folded t_def] t
      by (auto simp: signed_out_def bootstrapWorkspaceSession_def Let_def dict_simps split: if_splits option.splits)
  qed
qed

lemma quiet_signed_out: "\<lbrakk>quiet native s t; signed_out native s\<rbrakk> \<Longrightarrow> signed_out native t"
proof (induction rule: quiet.induct)
  case (then_step s t u)
  have t: "signed_out native t" using then_step by blast
  from then_step.hyps(2) show ?case
  proof cases
    case (Leave r)
    then show ?thesis using t signed_out_clear by blast
  next
    case (Event newValue key)
    with t show ?thesis by (simp add: signed_out_def storage_event_def emit_ws_def in_order_def)
  next
    case (Code i code)
    with t show ?thesis by (simp add: signed_out_def rememberIssuedJoinCode_def in_order_def)
  qed (use t signed_out_get signed_out_finish signed_out_reopen in blast)+
qed

text \<open>Claim C27: signed out stays signed out, when \<open>localStorage\<close> has room for the marks of the sign-out:
  the reason, and in the native app the mark that the vault is still to be cleared.  From any state of any
  run, once the session ends (the team left, the server revoked it, or it expired) no session is handed
  out again until a new sign-in, whatever vault writes were still waiting, whichever of them fail,
  however often the app is closed in between and however full the storage is from then on, on the web as
  in the native app.  Without that room it is false (\<open>full_storage_undoes_sign_out\<close>).\<close>

theorem signed_out_stays_out:
  assumes "ws_run native s" and "\<not> full END_REASON_KEY" and "native \<longrightarrow> \<not> full CLEAR_PENDING_KEY"
    and "quiet native (clearWorkspaceSession native full r s) t"
  shows "fst (getWorkspaceSession native full' now t) = None"
proof -
  have "signed_out native (clearWorkspaceSession native full r s)"
    by (rule clear_signs_out [of native s full r]) (use assms(2,3) ws_run_in_order [OF assms(1)] in simp_all)
  then have "signed_out native t" by (rule quiet_signed_out [OF assms(4)])
  then show ?thesis using signed_out_get by (metis prod.collapse)
qed

definition team_604 :: workspace_session where
  "team_604 = \<lparr>ws_token = ''t'', ws_expiresAt = 100, ws_workspace = 604, ws_me = 7,
     ws_value = [(''token'', JStr ''t''), (''expiresAt'', JNum (Fin 100)),
       (''workspace'', JObj [(''id'', JNum (Fin 604)), (''name'', JStr ''Quixilver'')]),
       (''me'', JObj [(''id'', JNum (Fin 7)), (''role'', JStr ''leader'')])]\<rparr>"

definition first_start :: ws where
  "first_start = \<lparr>w_cached = None, w_revision = 0, w_reason = None, w_code = None, w_local = [], w_vault = None,
     w_writes = [], w_emitted = 0, w_reported = 0\<rparr>"

lemma session_ok_604: "session_ok team_604"
  by (simp add: session_ok_def session_text_def parse_session_def team_604_def jget_opt_def)

lemma quiet_reopen: "quiet_step native s (snd (bootstrapWorkspaceSession native okay now (reopen applied s)))"
  by (rule quiet_step.Reopen [OF surjective_pairing])

lemma ws_run_first: "ws_run native (snd (bootstrapWorkspaceSession native okay now first_start))"
proof -
  have "bootstrapWorkspaceSession native okay now (reopen False first_start) =
      (fst (bootstrapWorkspaceSession native okay now first_start),
       snd (bootstrapWorkspaceSession native okay now first_start))"
    by (simp add: reopen_def first_start_def)
  then show ?thesis by (rule ws_run.Start)
qed

text \<open>A sign-in and a sign-out before either write reached the vault; the sign-in's write lands, and
  then the app is killed.\<close>

lemma signed_out_stays_out_witness:
  "fst (getWorkspaceSession True room 5 (snd (bootstrapWorkspaceSession True (\<lambda>_. True) 5
     (reopen False (finish_write room True (clearWorkspaceSession True room LeftTeam
       (setWorkspaceSession True room team_604 (snd (bootstrapWorkspaceSession True (\<lambda>_. True) 5 first_start))))))))) = None"
proof -
  define s where "s = setWorkspaceSession True room team_604 (snd (bootstrapWorkspaceSession True (\<lambda>_. True) 5 first_start))"
  have r: "ws_run True s" unfolding s_def by (rule ws_run.SignIn [OF ws_run_first])
  have q: "quiet True (clearWorkspaceSession True room LeftTeam s)
     (snd (bootstrapWorkspaceSession True (\<lambda>_. True) 5 (reopen False
       (finish_write room True (clearWorkspaceSession True room LeftTeam s)))))"
    by (rule quiet.then_step [OF quiet.then_step [OF quiet.stay quiet_step.Vault] quiet_reopen])
  have "\<not> room END_REASON_KEY" "True \<longrightarrow> \<not> room CLEAR_PENDING_KEY" by (simp_all add: room_def)
  from signed_out_stays_out [OF r this q] show ?thesis unfolding s_def .
qed

section \<open>Signed in\<close>

text \<open>Claim C28: a sign-in survives.  From any state of any run without a waiting vault write, a sign-in
  whose write succeeds is the session that is handed out, before and after the app is closed and opened
  again with a working vault; and once it has expired it is not, and the reason is known.\<close>

theorem signed_in_survives:
  assumes "ws_run native s" and "w_writes s = []" and "session_ok session"
    and "t = finish_write room True (setWorkspaceSession native room session s)"
    and "u = snd (bootstrapWorkspaceSession native (\<lambda>_. True) now (reopen applied t))"
  shows "(\<not> expired_at now session \<longrightarrow> fst (getWorkspaceSession native room now t) = Some session \<and>
      fst (getWorkspaceSession native room now u) = Some session) \<and>
    (expired_at now session \<longrightarrow> fst (getWorkspaceSession native room now t) = None \<and>
      fst (getWorkspaceSession native room now u) = None \<and>
      fst (workspaceEndReason native room now t) = Some Expired \<and>
      fst (workspaceEndReason native room now u) = Some Expired)"
proof -
  have p: "parse_session (Some (Json (JObj (ws_value session)))) = Some session"
    using assms(3) by (simp add: session_ok_def session_text_def)
  have t: "w_cached t = Some (Some session)" "w_writes t = []" "w_reason t = None"
    "map_get (w_local t) CLEAR_PENDING_KEY = None \<or> \<not> native"
    "native \<Longrightarrow> w_vault t = Some (session_text session)"
    "\<not> native \<Longrightarrow> map_get (w_local t) STORAGE_KEY = Some (session_text session)"
    using assms(2) by (auto simp: assms(4) finish_write_def ws_ops room_def vault_after_def dict_simps)
  have u: "w_cached u = (if native then Some (if expired_at now session then None else Some session) else None)"
    "w_reason u = (if native \<and> expired_at now session then Some Expired else None)"
    "\<not> native \<Longrightarrow> map_get (w_local u) STORAGE_KEY = Some (session_text session)"
    using t p by (auto simp: assms(5) bootstrapWorkspaceSession_def reopen_def Let_def session_text_def)
  show ?thesis
    using t u p
    by (cases native; cases "expired_at now session")
       (simp_all add: getWorkspaceSession_def workspaceEndReason_def ws_ops room_def session_text_def
          stored_reason_def reason_text_def dict_simps)
qed

lemma signed_in_survives_witness:
  "fst (getWorkspaceSession True room 5 (snd (bootstrapWorkspaceSession True (\<lambda>_. True) 5 (reopen False
     (finish_write room True (setWorkspaceSession True room team_604
        (snd (bootstrapWorkspaceSession True (\<lambda>_. True) 5 first_start)))))))) = Some team_604"
proof -
  have w: "w_writes (snd (bootstrapWorkspaceSession True (\<lambda>_. True) 5 first_start)) = []"
    using bootstrap_writes [OF surjective_pairing] by (simp add: first_start_def)
  have "\<not> expired_at 5 team_604" by (simp add: expired_at_def team_604_def)
  with signed_in_survives [OF ws_run_first w session_ok_604 refl refl] show ?thesis by blast
qed

text \<open>Without room for the reason, the sign-out of the web app leaves the session in \<open>localStorage\<close>: the
  removal shares a \<open>try\<close> with the write that throws.  The next load is signed in again.\<close>

lemma full_storage_undoes_sign_out:
  "fst (getWorkspaceSession False (\<lambda>_. True) 5 (reopen False (clearWorkspaceSession False (\<lambda>_. True) Revoked
     (setWorkspaceSession False room team_604 first_start)))) = Some team_604"
  using session_ok_604
  by (simp add: getWorkspaceSession_def reopen_def ws_ops first_start_def room_def session_ok_def dict_simps
      expired_at_def) (simp add: team_604_def)

end
