(* ===== verification/ApiUrls.thy ===== *)
theory ApiUrls
  imports WorkspaceSession OfflineQueue ByteCodecs
begin

text \<open>
  What the API client decides from a URL and its options before it touches a cache:
  \<open>src/ScoutingApp/src/features/live/liveVersions.ts\<close> (the versions of an event's results that the live
  socket announced) and, from \<open>src/ScoutingApp/src/api.ts\<close>, the request options, the cache key, when the
  caches are bypassed, which URLs are refused, which writes may be replayed and how errors are named.
  The base URL, the printing of numbers, \<open>URLSearchParams\<close> (\<open>query name\<close> of a text) and the path of a
  parsed URL are arguments.
\<close>

section \<open>Live versions\<close>

definition FRESH_WINDOW_MS :: int where
  "FRESH_WINDOW_MS = 10000"

definition IN_PLAY_WINDOW_SEC :: real where
  "IN_PLAY_WINDOW_SEC = 60 * 60"

record live =
  lv_versions :: "(string, string) jsmap"
  lv_freshUntil :: "(string, int) jsmap"

record schedule_match =
  sm_is_completed :: bool
  sm_actual_time :: "real option"
  sm_predicted_time :: "real option"
  sm_scheduled_time :: "real option"

definition first_time :: "schedule_match \<Rightarrow> real option" where
  "first_time m = (case sm_actual_time m of Some x \<Rightarrow> Some x
     | None \<Rightarrow> (case sm_predicted_time m of Some x \<Rightarrow> Some x | None \<Rightarrow> sm_scheduled_time m))"

definition eventInPlay :: "schedule_match list \<Rightarrow> real \<Rightarrow> bool" where
  "eventInPlay matches nowSec \<longleftrightarrow> list_ex (\<lambda>m. \<not> sm_is_completed m \<and> (case first_time m of
     None \<Rightarrow> False | Some x \<Rightarrow> \<bar>x - nowSec\<bar> \<le> IN_PLAY_WINDOW_SEC)) matches"

definition live_key :: "string \<Rightarrow> string" where
  "live_key eventKey = js_lower (js_trim eventKey)"

text \<open>The key the interest listener is told, if there is one and anything to tell.\<close>

definition noteLiveSchedule :: "bool \<Rightarrow> string \<Rightarrow> schedule_match list option \<Rightarrow> real \<Rightarrow> string option" where
  "noteLiveSchedule listening eventKey matches nowSec = (case matches of None \<Rightarrow> None
     | Some ms \<Rightarrow> if \<not> listening \<or> \<not> eventInPlay ms nowSec then None else Some (live_key eventKey))"

definition applyLiveVersion :: "string \<Rightarrow> string \<Rightarrow> int \<Rightarrow> live \<Rightarrow> bool \<times> live" where
  "applyLiveVersion eventKey version nowMs l =
     (let key = live_key eventKey; previous = map_get (lv_versions l) key;
          l1 = l\<lparr>lv_versions := map_set key version (lv_versions l)\<rparr>
      in if previous = None \<or> previous = Some version then (False, l1)
         else (True, l1\<lparr>lv_freshUntil := map_set key (nowMs + FRESH_WINDOW_MS) (lv_freshUntil l1)\<rparr>))"

text \<open>\<open>EVENT_IN_PATH\<close>, case-insensitive: what its group captures at the start of a text, and the first match.\<close>

definition event_word :: "char \<Rightarrow> bool" where
  "event_word c \<longleftrightarrow> is_digit c \<or> is_lower_alpha c \<or> is_upper_alpha c"

definition event_after :: "string \<Rightarrow> string \<Rightarrow> string option" where
  "event_after lead s =
     (let rest = drop (length lead) s; w = takeWhile event_word rest
      in if starts_with (js_lower s) lead \<and> 5 \<le> length w \<and> list_all is_digit (take 4 w) \<and>
           starts_with (drop (length w) rest) ''/'' then Some w else None)"

fun event_in_path :: "string \<Rightarrow> string option" where
  "event_in_path [] = None"
| "event_in_path (c # cs) = (case event_after ''/matches/event/'' (c # cs) of Some w \<Rightarrow> Some w
     | None \<Rightarrow> (case event_after ''/events/'' (c # cs) of Some w \<Rightarrow> Some w | None \<Rightarrow> event_in_path cs))"

definition eventsInUrl :: "(string \<Rightarrow> string \<Rightarrow> string option) \<Rightarrow> string \<Rightarrow> string list" where
  "eventsInUrl query url = (case event_in_path url of Some w \<Rightarrow> [js_lower w]
     | None \<Rightarrow>
        (let q = (case js_split (CHR ''?'') url of _ # q # _ \<Rightarrow> q | _ \<Rightarrow> [])
         in if q = [] \<or> \<not> js_includes url ''/matches/schedules'' then []
            else (case query q ''event_keys'' of None \<Rightarrow> []
              | Some keys \<Rightarrow> if keys = [] then []
                  else filter (\<lambda>k. k \<noteq> []) (map live_key (js_split (CHR '','') keys)))))"

definition liveFreshRead :: "(string \<Rightarrow> string \<Rightarrow> string option) \<Rightarrow> live \<Rightarrow> string \<Rightarrow> int \<Rightarrow> bool" where
  "liveFreshRead query l url nowMs \<longleftrightarrow> js_includes url ''lv='' \<and>
     list_ex (\<lambda>key. nullish (map_get (lv_freshUntil l) key) 0 > nowMs) (eventsInUrl query url)"

text \<open>\<open>encodeURIComponent\<close>.\<close>

definition unreserved :: "char \<Rightarrow> bool" where
  "unreserved c \<longleftrightarrow> is_digit c \<or> is_lower_alpha c \<or> is_upper_alpha c \<or> c \<in> set ''-_.!~*'' \<or> c = CHR 0x27 \<or>
     c = CHR ''('' \<or> c = CHR '')''"

definition hex_digit :: "nat \<Rightarrow> char" where
  "hex_digit n = (if n < 10 then char_of (48 + n) else char_of (55 + n))"

definition percent_byte :: "8 word \<Rightarrow> string" where
  "percent_byte b = [CHR ''%'', hex_digit (unat b div 16), hex_digit (unat b mod 16)]"

definition encodeURIComponent :: "string \<Rightarrow> string" where
  "encodeURIComponent s = concat (map (\<lambda>c. if unreserved c then [c] else concat (map percent_byte (utf8_char c))) s)"

definition withLiveVersion :: "live \<Rightarrow> string \<Rightarrow> string list \<Rightarrow> string" where
  "withLiveVersion l url eventKeys =
     (let known = js_join ''.'' (map (\<lambda>key. the (map_get (lv_versions l) key))
            (js_sort (\<lambda>a b. if js_less a b then - 1 else if a = b then 0 else 1)
              (filter (\<lambda>key. map_has (lv_freshUntil l) key \<and> map_has (lv_versions l) key)
                (map live_key eventKeys))))
      in if known = [] then url
         else url @ (if CHR ''?'' \<in> set url then ''&'' else ''?'') @ ''lv='' @ encodeURIComponent known)"

text \<open>The first \<open>lv\<close> parameter goes, with the separator before it or, if another parameter follows,
  the one after it; then a separator left at the end goes.\<close>

definition separator :: "char \<Rightarrow> bool" where
  "separator c \<longleftrightarrow> c = CHR ''?'' \<or> c = CHR ''&''"

fun cut_live :: "string \<Rightarrow> string" where
  "cut_live [] = []"
| "cut_live (c # cs) =
     (if separator c \<and> starts_with cs ''lv=''
      then (case dropWhile (\<lambda>d. d \<noteq> CHR ''&'') (drop 3 cs) of [] \<Rightarrow> [] | _ # rest \<Rightarrow> c # rest)
      else c # cut_live cs)"

definition stripLiveVersion :: "string \<Rightarrow> string" where
  "stripLiveVersion url = (let s = cut_live url in if s \<noteq> [] \<and> separator (last s) then butlast s else s)"

definition resetLiveVersionsForTests :: live where
  "resetLiveVersionsForTests = \<lparr>lv_versions = [], lv_freshUntil = []\<rparr>"

section \<open>Request options\<close>

definition DEFAULT_GET_CACHE_TTL_MS :: int where
  "DEFAULT_GET_CACHE_TTL_MS = 8000"

definition DEFAULT_GET_STALE_WHILE_REVALIDATE_MS :: int where
  "DEFAULT_GET_STALE_WHILE_REVALIDATE_MS = 45000"

definition REQUEST_TIMEOUT_MS :: int where
  "REQUEST_TIMEOUT_MS = 12000"

record api_init =
  i_method :: "string option"
  i_headers :: "(string \<times> string) list"
  i_body :: "jtext option"
  i_cacheTtlMs :: "num option"
  i_staleWhileRevalidateMs :: "num option"
  i_bypassCache :: bool
  i_timeoutMs :: "num option"
  i_liveOnly :: bool
  i_showSavedMaxAgeMs :: "num option"

definition normalizeMethod :: "string option \<Rightarrow> string" where
  "normalizeMethod m = js_upper (str_or (nullish m []) ''GET'')"

definition cacheValueInt :: "num option \<Rightarrow> int \<Rightarrow> int" where
  "cacheValueInt value fallback = (case value of Some (Fin x) \<Rightarrow> max 0 \<lfloor>x\<rfloor> | _ \<Rightarrow> max 0 fallback)"

text \<open>A window of fresh reads; its closing function closes only its own window.\<close>

definition readFreshFor :: "int \<Rightarrow> int \<Rightarrow> int" where
  "readFreshFor now ms = now + max 0 ms"

definition endFreshReads :: "int \<Rightarrow> int \<Rightarrow> int" where
  "endFreshReads until freshReadsUntilMs = (if freshReadsUntilMs = until then 0 else freshReadsUntilMs)"

definition shouldBypassCache :: "(string \<Rightarrow> string \<Rightarrow> string option) \<Rightarrow> live \<Rightarrow> int \<Rightarrow> string \<Rightarrow> api_init \<Rightarrow> int \<Rightarrow> bool" where
  "shouldBypassCache query l freshReadsUntilMs url init now \<longleftrightarrow>
     i_bypassCache init \<or> normalizeMethod (i_method init) \<noteq> ''GET'' \<or> now < freshReadsUntilMs \<or>
     js_includes url ''refresh=true'' \<or> js_includes url ''onlyModifiedSince='' \<or> liveFreshRead query l url now"

text \<open>The workspace is 0 without a session.\<close>

definition cacheKeyFor :: "(real \<Rightarrow> string) \<Rightarrow> real \<Rightarrow> string \<Rightarrow> string option \<Rightarrow> string" where
  "cacheKeyFor nstr workspaceId url m =
     normalizeMethod m @ '':w'' @ nstr workspaceId @ '':'' @ stripLiveVersion url"

record request_options =
  o_cacheTtlMs :: "real option"
  o_staleWhileRevalidateMs :: "real option"
  o_bypassCache :: "bool option"
  o_timeoutMs :: "real option"
  o_showSavedMaxAgeMs :: "real option"

definition floor_at_least :: "int \<Rightarrow> real \<Rightarrow> num" where
  "floor_at_least lo x = Fin (of_int (max lo \<lfloor>x\<rfloor>))"

definition cacheRequestOptions :: "request_options option \<Rightarrow> request_options \<Rightarrow> api_init" where
  "cacheRequestOptions base defaults =
     (let given = (\<lambda>f. case base of None \<Rightarrow> None | Some b \<Rightarrow> f b)
      in \<lparr>i_method = None, i_headers = [], i_body = None,
          i_cacheTtlMs = Some (floor_at_least 0 (case given o_cacheTtlMs of Some x \<Rightarrow> x
            | None \<Rightarrow> nullish (o_cacheTtlMs defaults) (of_int DEFAULT_GET_CACHE_TTL_MS))),
          i_staleWhileRevalidateMs = Some (floor_at_least 0 (case given o_staleWhileRevalidateMs of Some x \<Rightarrow> x
            | None \<Rightarrow> nullish (o_staleWhileRevalidateMs defaults) (of_int DEFAULT_GET_STALE_WHILE_REVALIDATE_MS))),
          i_bypassCache = (case base of Some b \<Rightarrow> nullish (o_bypassCache b) (nullish (o_bypassCache defaults) False)
            | None \<Rightarrow> nullish (o_bypassCache defaults) False),
          i_timeoutMs = (case given o_timeoutMs of Some x \<Rightarrow> Some (floor_at_least 2000 x)
            | None \<Rightarrow> map_option Fin (o_timeoutMs defaults)),
          i_liveOnly = False,
          i_showSavedMaxAgeMs = Some (floor_at_least 0 (case given o_showSavedMaxAgeMs of Some x \<Rightarrow> x
            | None \<Rightarrow> nullish (o_showSavedMaxAgeMs defaults) 0))\<rparr>)"

section \<open>URLs\<close>

definition absoluteApiUrl :: "string \<Rightarrow> string \<Rightarrow> string" where
  "absoluteApiUrl API path =
     (if starts_with path ''http://'' \<or> starts_with path ''https://'' then path else API @ path)"

definition request_url :: "string \<Rightarrow> string \<Rightarrow> string" where
  "request_url API input =
     (if starts_with input ''http://'' \<or> starts_with input ''https://'' \<or> starts_with input ''/'' then input
      else API @ ''/'' @ dropWhile (\<lambda>c. c = CHR ''/'') input)"

text \<open>The origin in front of the path, \<open>/^https?:\/\/[^/]+/i\<close>.\<close>

definition without_origin :: "string \<Rightarrow> string" where
  "without_origin url =
     (let cut = (\<lambda>lead. let rest = drop (length lead) url
            in if starts_with (js_lower url) lead \<and> rest \<noteq> [] \<and> hd rest \<noteq> CHR ''/''
               then Some (dropWhile (\<lambda>c. c \<noteq> CHR ''/'') rest) else None)
      in case cut ''https://'' of Some p \<Rightarrow> p | None \<Rightarrow> (case cut ''http://'' of Some p \<Rightarrow> p | None \<Rightarrow> url))"

definition dot_part :: "string \<Rightarrow> bool" where
  "dot_part part \<longleftrightarrow> js_lower part \<in> set [''.'', ''%2e'', ''..'', ''.%2e'', ''%2e.'', ''%2e%2e'']"

definition hasDotSegment :: "string \<Rightarrow> bool" where
  "hasDotSegment url \<longleftrightarrow>
     list_ex dot_part (js_split (CHR ''/'') (takeWhile (\<lambda>c. c \<noteq> CHR ''?'' \<and> c \<noteq> CHR ''#'') (without_origin url)))"

section \<open>Writes that may be sent twice\<close>

text \<open>The three patterns at the start of a text: what follows is the end or a question mark.\<close>

definition ends_path :: "string \<Rightarrow> bool" where
  "ends_path s \<longleftrightarrow> s = [] \<or> hd s = CHR ''?''"

definition room_entries_at :: "string \<Rightarrow> bool" where
  "room_entries_at s \<longleftrightarrow> starts_with s ''/scouting/rooms/'' \<and>
     (let rest = drop 16 s; room = takeWhile (\<lambda>c. c \<noteq> CHR ''/'' \<and> c \<noteq> CHR ''?'') rest
      in room \<noteq> [] \<and> starts_with (drop (length room) rest) ''/entries'' \<and> ends_path (drop (length room + 8) rest))"

definition pit_scouting_at :: "string \<Rightarrow> bool" where
  "pit_scouting_at s \<longleftrightarrow> starts_with s ''/pit-scouting'' \<and> ends_path (drop 13 s)"

definition picklist_at :: "string \<Rightarrow> bool" where
  "picklist_at s \<longleftrightarrow> starts_with s ''/picklists/'' \<and>
     (let rest = drop 11 s; d = takeWhile is_digit rest in d \<noteq> [] \<and> ends_path (drop (length d) rest))"

fun somewhere :: "(string \<Rightarrow> bool) \<Rightarrow> string \<Rightarrow> bool" where
  "somewhere P [] \<longleftrightarrow> P []"
| "somewhere P (c # cs) \<longleftrightarrow> P (c # cs) \<or> somewhere P cs"

definition REPLAY_SAFE_WRITES :: "(string \<times> (string \<Rightarrow> bool)) list" where
  "REPLAY_SAFE_WRITES = [(''POST'', room_entries_at), (''POST'', pit_scouting_at), (''PUT'', picklist_at)]"

definition isReplaySafeWrite :: "(string \<Rightarrow> string option) \<Rightarrow> string \<Rightarrow> string \<Rightarrow> bool" where
  "isReplaySafeWrite pathname m url \<longleftrightarrow>
     (let path = (case pathname url of Some p \<Rightarrow> p | None \<Rightarrow> url)
      in list_ex (\<lambda>(n, pattern). n = m \<and> somewhere pattern path) REPLAY_SAFE_WRITES)"

section \<open>Errors\<close>

text \<open>What can be thrown: a \<open>TypeError\<close> (what \<open>fetch\<close> throws without a connection), another error with its
  message, the error of a queued write, or a value that is no error.\<close>

datatype js_error = TypeErr string | Err string | QueuedErr string | NoErr string

definition error_message :: "js_error \<Rightarrow> string" where
  "error_message e = (case e of TypeErr m \<Rightarrow> m | Err m \<Rightarrow> m | QueuedErr m \<Rightarrow> m | NoErr m \<Rightarrow> m)"

definition isConnectionFailure :: "js_error \<Rightarrow> bool" where
  "isConnectionFailure e \<longleftrightarrow> (case e of TypeErr _ \<Rightarrow> True
     | _ \<Rightarrow> list_ex (js_includes (js_lower (error_message e)))
         [''timed out'', ''failed to fetch'', ''networkerror'', ''load failed'', ''network connection''])"

definition timeoutErrorMessage :: "int \<Rightarrow> string" where
  "timeoutErrorMessage timeoutMs =
     ''Request timed out after '' @ int_str (max 1 (math_round (real_of_int timeoutMs / 1000))) @ ''s.''"

definition isAbortLikeMessage :: "string \<Rightarrow> bool" where
  "isAbortLikeMessage message = (let normalized = js_lower (js_trim message)
     in normalized \<noteq> [] \<and> list_ex (js_includes normalized)
       [''aborted'', ''aborterror'', ''signal is aborted'', ''request was aborted'',
        ''the user aborted a request'', ''without reason''])"

text \<open>\<open>reason\<close>: the reason of the signal when it is aborted.\<close>

definition normalizeApiFetchError :: "js_error \<Rightarrow> int \<Rightarrow> bool \<Rightarrow> js_error option \<Rightarrow> js_error" where
  "normalizeApiFetchError error timeoutMs didTimeout reason =
     (if didTimeout then Err (timeoutErrorMessage timeoutMs)
      else (case (case reason of None \<Rightarrow> None
            | Some (NoErr s) \<Rightarrow> if js_trim s \<noteq> [] then Some (Err (js_trim s)) else None
            | Some e \<Rightarrow> if error_message e \<noteq> [] then Some e else None) of
          Some e \<Rightarrow> e
        | None \<Rightarrow> (case error of
            NoErr s \<Rightarrow>
              (let message = js_trim s
               in if isAbortLikeMessage message then Err ''Request was aborted.''
                  else Err (str_or message ''Request failed.''))
          | e \<Rightarrow> if isAbortLikeMessage (error_message e) then Err ''Request was aborted.'' else e)))"

section \<open>Encoded parts\<close>

text \<open>\<open>decodeURIComponent\<close> takes the encoding back.\<close>

fun percent_bytes :: "string \<Rightarrow> bytes option" where
  "percent_bytes [] = Some []"
| "percent_bytes (c # cs) =
     (if c = CHR ''%''
      then (case cs of h # l # rest \<Rightarrow> (case (hex_val h, hex_val l) of
           (Some i, Some j) \<Rightarrow> map_option ((#) (of_nat (16 * i + j))) (percent_bytes rest)
         | _ \<Rightarrow> None) | _ \<Rightarrow> None)
      else map_option ((#) (of_nat (of_char c))) (percent_bytes cs))"

definition decodeURIComponent :: "string \<Rightarrow> string option" where
  "decodeURIComponent s = (case percent_bytes s of None \<Rightarrow> None | Some bs \<Rightarrow> utf8_units bs)"

lemma hex_val_digit: "n < 16 \<Longrightarrow> hex_val (hex_digit n) = Some n"
  by (cases "n < 10")
     (simp_all add: hex_digit_def hex_val_def is_digit_def is_lower_alpha_def is_upper_alpha_def digit_val_def
        of_char_of_small Let_def)

lemma percent_bytes_byte: "percent_bytes (percent_byte b @ s) = map_option ((#) b) (percent_bytes s)"
proof -
  have "unat b < 256" using unsigned_less [of b, where 'a = nat] by simp
  then show ?thesis by (simp add: percent_byte_def hex_val_digit less_mult_imp_div_less)
qed

lemma percent_bytes_bytes:
  "percent_bytes (concat (map percent_byte bs) @ s) = map_option ((@) bs) (percent_bytes s)"
  by (induction bs) (simp_all add: percent_bytes_byte option.map_comp comp_def option.map_ident)

lemma unreserved_ascii: "unreserved c \<Longrightarrow> c \<noteq> CHR ''%'' \<and> of_char c < (128 :: nat)"
  by (auto simp: unreserved_def is_digit_def is_lower_alpha_def is_upper_alpha_def Let_def)

lemma percent_bytes_encode: "percent_bytes (encodeURIComponent s) = Some (utf8_encode s)"
  by (induction s)
     (auto simp: encodeURIComponent_def utf8_encode_def percent_bytes_bytes utf8_one dest: unreserved_ascii)

interpretation uri: codec encodeURIComponent decodeURIComponent "\<lambda>_. True"
  by unfold_locales (simp add: decodeURIComponent_def percent_bytes_encode utf8_units_encode)

lemma encode_safe: "c \<in> set (encodeURIComponent s) \<Longrightarrow> unreserved c \<or> c = CHR ''%''"
proof -
  have "unreserved (hex_digit n)" if "n < 16" for n
    using that by (cases "n < 10")
      (simp_all add: unreserved_def hex_digit_def is_digit_def is_upper_alpha_def of_char_of_small Let_def)
  moreover have "unat b div 16 < 16" for b :: "8 word"
    using unsigned_less [of b, where 'a = nat] by (simp add: less_mult_imp_div_less)
  ultimately have "d \<in> set (percent_byte b) \<Longrightarrow> unreserved d \<or> d = CHR ''%''" for d b
    by (auto simp: percent_byte_def)
  then show "c \<in> set (encodeURIComponent s) \<Longrightarrow> unreserved c \<or> c = CHR ''%''"
    by (fastforce simp: encodeURIComponent_def split: if_splits)
qed

lemma encode_plain:
  "CHR ''/'' \<notin> set (encodeURIComponent s)" "CHR ''?'' \<notin> set (encodeURIComponent s)"
  "CHR ''#'' \<notin> set (encodeURIComponent s)" "CHR ''&'' \<notin> set (encodeURIComponent s)"
  by (auto dest!: encode_safe simp: unreserved_def is_digit_def is_lower_alpha_def is_upper_alpha_def)

lemma encode_Nil [simp]: "encodeURIComponent s = [] \<longleftrightarrow> s = []"
  using uri.enc_inj [of s "[]"] by (simp add: encodeURIComponent_def)

section \<open>Dot segments\<close>

lemma js_split_none: "d \<notin> set w \<Longrightarrow> js_split d w = [w]"
  by (induction w) auto

lemma js_split_nonempty: "js_split d s \<noteq> []"
  by (cases s) (auto split: list.split)

lemma js_split_append: "js_split d (a @ d # b) = js_split d a @ js_split d b"
  by (induction a) (auto split: list.split simp: js_split_nonempty)

lemma js_split_parts:
  "(\<And>s. d \<notin> set (f s)) \<Longrightarrow> js_split d (a @ concat (map (\<lambda>s. d # f s) parts)) = js_split d a @ map f parts"
proof (induction parts arbitrary: a)
  case (Cons s parts)
  have "js_split d (a @ d # f s @ concat (map (\<lambda>s. d # f s) parts)) = js_split d a @ js_split d (f s @ concat (map (\<lambda>s. d # f s) parts))"
    by (rule js_split_append)
  with Cons show ?case by (simp add: js_split_none)
qed simp

lemma lower_char_code:
  "of_char (lower_char c) = (let n = of_char c :: nat in
     if (65 \<le> n \<and> n \<le> 90) \<or> (192 \<le> n \<and> n \<le> 222 \<and> n \<noteq> 215) then n + 32 else n)"
  by (auto simp: lower_char_def Let_def of_char_of_small)

lemma char_code: "c = d \<longleftrightarrow> of_char c = (of_char d :: nat)"
  by simp

lemma lower_char_eq:
  "lower_char c = CHR ''.'' \<longleftrightarrow> c = CHR ''.''" "lower_char c = CHR ''%'' \<longleftrightarrow> c = CHR ''%''"
  "lower_char c = CHR ''2'' \<longleftrightarrow> c = CHR ''2''" "lower_char c = CHR ''e'' \<longleftrightarrow> c = CHR ''e'' \<or> c = CHR ''E''"
  unfolding char_code lower_char_code by (auto simp: Let_def split: if_splits)

lemma hex_val_dot [simp]: "hex_val (CHR ''2'') = Some 2" "hex_val (CHR ''e'') = Some 14" "hex_val (CHR ''E'') = Some 14"
  by (simp_all add: hex_val_def is_digit_def is_lower_alpha_def is_upper_alpha_def digit_val_def Let_def)

lemma dot_part_bytes: "dot_part w \<Longrightarrow> percent_bytes w = Some (utf8_encode ''.'') \<or> percent_bytes w = Some (utf8_encode ''..'')"
  by (auto simp: dot_part_def js_lower_def lower_char_eq map_eq_Cons_conv utf8_encode_def utf8_one)

lemma dot_part_encode: "dot_part (encodeURIComponent s) \<longleftrightarrow> s = ''.'' \<or> s = ''..''"
proof
  assume "dot_part (encodeURIComponent s)"
  then show "s = ''.'' \<or> s = ''..''"
    using dot_part_bytes [of "encodeURIComponent s"] utf8.enc_inj [of s "''.''"] utf8.enc_inj [of s "''..''"]
    by (simp add: percent_bytes_encode)
next
  assume "s = ''.'' \<or> s = ''..''"
  then show "dot_part (encodeURIComponent s)"
    by (auto simp: dot_part_def encodeURIComponent_def unreserved_def js_lower_def lower_char_eq)
qed

text \<open>The base of the API: a path, or an origin with or without one.\<close>

definition api_base :: "string \<Rightarrow> string \<Rightarrow> bool" where
  "api_base API path \<longleftrightarrow> (path = [] \<or> hd path = CHR ''/'') \<and> (\<forall>c \<in> set path. c \<noteq> CHR ''?'' \<and> c \<noteq> CHR ''#'') \<and>
     (API = path \<and> path \<noteq> [] \<or> (\<exists>scheme host. scheme \<in> {''http://'', ''https://''} \<and> host \<noteq> [] \<and> CHR ''/'' \<notin> set host \<and>
        API = scheme @ host @ path))"

lemma lower_slash: "lower_char (CHR ''/'') = CHR ''/''"
  by (simp add: lower_char_def)

lemma js_lower_scheme [simp]: "js_lower ''http://'' = ''http://''" "js_lower ''https://'' = ''https://''"
  by (simp_all add: js_lower_def lower_char_def)

lemma dropWhile_host:
  "\<lbrakk>CHR ''/'' \<notin> set host; p = [] \<or> hd p = CHR ''/''\<rbrakk> \<Longrightarrow> dropWhile (\<lambda>c. c \<noteq> CHR ''/'') (host @ p) = p"
  by (induction host) (cases p; auto)+

lemma without_origin_path: "p = [] \<or> hd p = CHR ''/'' \<Longrightarrow> without_origin p = p"
  by (cases p) (simp_all add: without_origin_def js_lower_def starts_with_def lower_slash)

lemma without_origin_host:
  assumes "scheme \<in> {''http://'', ''https://''}" "host \<noteq> []" "CHR ''/'' \<notin> set host" "p = [] \<or> hd p = CHR ''/''"
  shows "without_origin (scheme @ host @ p) = p"
proof -
  have "hd host \<noteq> CHR ''/''" using assms(2,3) by (cases host) auto
  with assms show ?thesis
    by (auto simp: without_origin_def js_lower_append starts_with_def dropWhile_host js_lower_def lower_char_def)
qed

lemma without_origin_base:
  assumes "api_base API path" and "r = [] \<or> hd r = CHR ''/''"
  shows "without_origin (API @ r) = path @ r"
proof -
  have r: "path @ r = [] \<or> hd (path @ r) = CHR ''/''" using assms by (cases path) (auto simp: api_base_def)
  from assms(1) consider "API = path" | scheme host where "scheme \<in> {''http://'', ''https://''}" "host \<noteq> []"
      "CHR ''/'' \<notin> set host" "API = scheme @ host @ path"
    unfolding api_base_def by blast
  then show ?thesis
    using without_origin_path [OF r] without_origin_host [OF _ _ _ r] by cases auto
qed

text \<open>a request is refused exactly when one of its values would climb the path.  For a URL
  built from the API's base, encoded values and a query, the guard holds exactly if a value is \<open>.\<close> or
  \<open>..\<close>; a value that only looks like an encoded dot is encoded once more and passes.\<close>

theorem climbing_values_are_refused:
  assumes "api_base API path" and "\<not> hasDotSegment API" and "parts \<noteq> []"
    and "query = [] \<or> hd query = CHR ''?''"
  shows "hasDotSegment (API @ concat (map (\<lambda>s. ''/'' @ encodeURIComponent s) parts) @ query) \<longleftrightarrow>
    (\<exists>s \<in> set parts. s = ''.'' \<or> s = ''..'')"
proof -
  define r where "r = concat (map (\<lambda>s. CHR ''/'' # encodeURIComponent s) parts)"
  have plain: "\<forall>c \<in> set (path @ r). c \<noteq> CHR ''?'' \<and> c \<noteq> CHR ''#''"
    using assms(1) encode_plain by (auto simp: api_base_def r_def)
  have r: "r \<noteq> []" "hd r = CHR ''/''" using assms(3) by (cases parts; simp add: r_def)+
  have "without_origin (API @ r @ query) = path @ r @ query"
    using without_origin_base [OF assms(1), of "r @ query"] r by (cases r) auto
  moreover have "takeWhile (\<lambda>c. c \<noteq> CHR ''?'' \<and> c \<noteq> CHR ''#'') ((path @ r) @ query) = path @ r"
    using plain assms(4) by (cases query) auto
  ultimately have "hasDotSegment (API @ r @ query) \<longleftrightarrow> list_ex dot_part (js_split (CHR ''/'') path) \<or>
      list_ex dot_part (map encodeURIComponent parts)"
    by (simp add: hasDotSegment_def r_def js_split_parts encode_plain)
  moreover have "\<not> list_ex dot_part (js_split (CHR ''/'') path)"
    using assms(2) without_origin_base [OF assms(1), of "[]"] plain
    by (simp add: hasDotSegment_def takeWhile_eq_all_conv [THEN iffD2])
  ultimately show ?thesis by (simp add: r_def list_ex_iff dot_part_encode)
qed

lemma climbing_values_are_refused_witness:
  "hasDotSegment (''/api'' @ concat (map (\<lambda>s. ''/'' @ encodeURIComponent s) [''picklists'', ''..'']) @ ''?a=1'')"
proof -
  have b: "api_base ''/api'' ''/api''" by (simp add: api_base_def)
  have n: "\<not> hasDotSegment ''/api''" by code_simp
  show ?thesis
    using climbing_values_are_refused [OF b n, of "[''picklists'', ''..'']" "''?a=1''"] by simp
qed

section \<open>Cache keys\<close>

text \<open>A URL written from its path and its query parameters, and the parameters without the first live
  version.\<close>

fun query_text :: "char \<Rightarrow> string list \<Rightarrow> string" where
  "query_text d [] = []"
| "query_text d (p # ps) = d # p @ query_text (CHR ''&'') ps"

definition without_live :: "string list \<Rightarrow> string list" where
  "without_live ps = takeWhile (\<lambda>p. take 3 p \<noteq> ''lv='') ps @ tl (dropWhile (\<lambda>p. take 3 p \<noteq> ''lv='') ps)"

definition plain_part :: "string \<Rightarrow> bool" where
  "plain_part p \<longleftrightarrow> CHR ''?'' \<notin> set p \<and> CHR ''&'' \<notin> set p"

lemma without_live_simps [simp]:
  "without_live [] = []"
  "take 3 p = ''lv='' \<Longrightarrow> without_live (p # ps) = ps"
  "take 3 p \<noteq> ''lv='' \<Longrightarrow> without_live (p # ps) = p # without_live ps"
  by (simp_all add: without_live_def)

lemma set_without_live: "set (without_live ps) \<subseteq> set ps"
  by (induction ps) (auto simp: without_live_def dest: set_takeWhileD set_dropWhileD list.set_sel(2))

lemma query_text_cases: "query_text d ps = [] \<or> (\<exists>t. query_text d ps = d # t)"
  by (cases ps) simp_all

text \<open>Whether a parameter is the live version is seen without what follows it.\<close>

lemma take3_param:
  assumes "plain_part p"
  shows "take 3 (p @ query_text (CHR ''&'') ps) = ''lv='' \<longleftrightarrow> take 3 p = ''lv=''"
proof (cases "3 \<le> length p")
  case False
  then obtain k where k: "3 - length p = Suc k" by (metis Suc_diff_Suc not_le)
  have "CHR ''&'' \<in> set (take 3 (p @ query_text (CHR ''&'') ps)) \<or> take 3 (p @ query_text (CHR ''&'') ps) = p"
    using False query_text_cases [of "CHR ''&''" ps] by (auto simp: k)
  moreover have "CHR ''&'' \<notin> set ''lv=''" "length ''lv='' = 3" by simp_all
  ultimately show ?thesis using False by (metis not_le order_refl take_all_iff linear)
qed simp

lemma plain_part_last: "plain_part p \<Longrightarrow> p \<noteq> [] \<Longrightarrow> \<not> separator (last p)"
  unfolding plain_part_def separator_def by (metis last_in_set)

lemma cut_live_plain: "plain_part u \<Longrightarrow> cut_live (u @ v) = u @ cut_live v"
  by (induction u) (auto simp: plain_part_def separator_def)

lemma cut_live_query:
  "separator d \<Longrightarrow> (\<And>p. p \<in> set ps \<Longrightarrow> plain_part p) \<Longrightarrow>
     cut_live (query_text d ps) = query_text d (without_live ps)"
proof (induction ps arbitrary: d)
  case (Cons p ps)
  then have p: "plain_part p" by simp
  have l: "starts_with (p @ query_text (CHR ''&'') ps) ''lv='' \<longleftrightarrow> take 3 p = ''lv=''"
    using take3_param [OF p, of ps] by (simp only: starts_with_def list.size add_0 add_Suc numeral_3_eq_3 One_nat_def plus_1_eq_Suc add_Suc_right add_0_right)
  show ?case
  proof (cases "take 3 p = ''lv=''")
    case True
    then have "3 \<le> length p" by (metis (no_types) length_take list.size(3,4) min.cobounded1 numeral_3_eq_3 One_nat_def add.right_neutral add_Suc_right)
    have dw: "dropWhile (\<lambda>d. d \<noteq> CHR ''&'') (drop 3 p @ v) = dropWhile (\<lambda>d. d \<noteq> CHR ''&'') v" for v
      using p by (intro dropWhile_append2) (auto simp: plain_part_def dest: in_set_dropD)
    have "drop 3 (p @ v) = drop 3 p @ v" for v using \<open>3 \<le> length p\<close> by simp
    then have "cut_live (query_text d (p # ps)) =
        (case dropWhile (\<lambda>d. d \<noteq> CHR ''&'') (query_text (CHR ''&'') ps) of [] \<Rightarrow> [] | _ # rest \<Rightarrow> d # rest)"
      using True Cons.prems(1) l dw by (simp only: query_text.simps cut_live.simps simp_thms if_True)
    then show ?thesis using True by (cases ps) simp_all
  next
    case False
    have "cut_live (query_text (CHR ''&'') ps) = query_text (CHR ''&'') (without_live ps)"
      by (rule Cons.IH) (simp_all add: separator_def Cons.prems)
    with False l show ?thesis using cut_live_plain [OF p] by simp
  qed
qed simp

lemma last_query:
  "separator d \<Longrightarrow> (\<And>p. p \<in> set ps \<Longrightarrow> p \<noteq> [] \<and> plain_part p) \<Longrightarrow> ps \<noteq> [] \<Longrightarrow>
     query_text d ps \<noteq> [] \<and> \<not> separator (last (query_text d ps))"
proof (induction ps arbitrary: d)
  case (Cons p ps)
  show ?case
  proof (cases ps)
    case Nil
    with Cons.prems(2) [of p] show ?thesis by (simp add: plain_part_last)
  next
    case (Cons q qs)
    have "query_text (CHR ''&'') ps \<noteq> [] \<and> \<not> separator (last (query_text (CHR ''&'') ps))"
      using Cons.IH Cons.prems Cons by (simp add: separator_def)
    then show ?thesis by simp
  qed
qed simp

lemma strip_query:
  assumes "plain_part path" and "\<And>p. p \<in> set ps \<Longrightarrow> p \<noteq> [] \<and> plain_part p"
  shows "stripLiveVersion (path @ query_text (CHR ''?'') ps) = path @ query_text (CHR ''?'') (without_live ps)"
proof -
  have q: "separator (CHR ''?'')" by (simp add: separator_def)
  have c: "cut_live (path @ query_text (CHR ''?'') ps) = path @ query_text (CHR ''?'') (without_live ps)"
    using cut_live_plain [OF assms(1)] cut_live_query [OF q] assms(2) by metis
  show ?thesis
  proof (cases "without_live ps = []")
    case True
    with c show ?thesis using plain_part_last [OF assms(1)] by (auto simp: stripLiveVersion_def)
  next
    case False
    have "query_text (CHR ''?'') (without_live ps) \<noteq> [] \<and> \<not> separator (last (query_text (CHR ''?'') (without_live ps)))"
      using last_query [OF q _ False] assms(2) set_without_live [of ps] by blast
    then show ?thesis by (simp add: stripLiveVersion_def c)
  qed
qed

text \<open>A URL has one path and one list of parameters.\<close>

lemma before_query: "d \<notin> set u \<Longrightarrow> takeWhile (\<lambda>c. c \<noteq> d) (u @ query_text d rs) = u"
  using query_text_cases [of d rs] by (induction u) auto

lemma query_text_inj:
  "(\<And>p. p \<in> set ps \<union> set qs \<Longrightarrow> CHR ''&'' \<notin> set p) \<Longrightarrow> query_text d ps = query_text d qs \<longleftrightarrow> ps = qs"
proof (induction ps arbitrary: d qs)
  case Nil
  then show ?case by (cases qs) simp_all
next
  case (Cons p ps)
  show ?case
  proof (cases qs)
    case (Cons q qs')
    have "p = q" if "p @ query_text (CHR ''&'') ps = q @ query_text (CHR ''&'') qs'"
      using that before_query [of "CHR ''&''"] Cons.prems Cons by (metis UnI1 UnI2 list.set_intros(1))
    moreover have "query_text (CHR ''&'') ps = query_text (CHR ''&'') qs' \<longleftrightarrow> ps = qs'"
      by (rule Cons.IH) (use Cons.prems Cons in auto)
    ultimately show ?thesis using Cons by auto
  qed simp
qed

lemma url_parts_inj:
  assumes "plain_part path" and "plain_part path'" and "\<And>p. p \<in> set ps \<union> set qs \<Longrightarrow> plain_part p"
  shows "path @ query_text (CHR ''?'') ps = path' @ query_text (CHR ''?'') qs \<longleftrightarrow> path = path' \<and> ps = qs"
proof
  assume e: "path @ query_text (CHR ''?'') ps = path' @ query_text (CHR ''?'') qs"
  then have "path = path'"
    using before_query [of "CHR ''?''"] assms(1,2) unfolding plain_part_def by metis
  with e show "path = path' \<and> ps = qs"
    using query_text_inj [of ps qs "CHR ''?''"] assms(3) by (simp add: plain_part_def)
qed simp

text \<open>Claim C29: no saved copy is shared between workspaces, or between two requests that differ in more
  than the live version.  For URLs written from a path and query parameters (none of them empty, and no
  question mark or ampersand inside one), two reads have the same cache key exactly when they come from
  the same workspace, have the same path, and, in the same order, the same parameters once the first
  parameter that starts with lv= is left out of each: whatever stands before or after it counts.\<close>

theorem cache_keys_tell_apart:
  assumes "normalizeMethod m = ''GET''" and "normalizeMethod n = ''GET''"
    and "nstr (of_int a) = int_str a" and "nstr (of_int b) = int_str b"
    and "\<forall>s \<in> {path, path'} \<union> set ps \<union> set qs. CHR ''?'' \<notin> set s \<and> CHR ''&'' \<notin> set s" and "[] \<notin> set ps \<union> set qs"
  shows "cacheKeyFor nstr (of_int a) (path @ query_text (CHR ''?'') ps) m =
      cacheKeyFor nstr (of_int b) (path' @ query_text (CHR ''?'') qs) n \<longleftrightarrow>
    a = b \<and> path = path' \<and>
    takeWhile (\<lambda>p. take 3 p \<noteq> ''lv='') ps @ tl (dropWhile (\<lambda>p. take 3 p \<noteq> ''lv='') ps) =
      takeWhile (\<lambda>p. take 3 p \<noteq> ''lv='') qs @ tl (dropWhile (\<lambda>p. take 3 p \<noteq> ''lv='') qs)"
proof -
  let ?u = "path @ query_text (CHR ''?'') ps" and ?v = "path' @ query_text (CHR ''?'') qs"
  have p: "plain_part path" "plain_part path'" "\<And>p. p \<in> set ps \<Longrightarrow> p \<noteq> [] \<and> plain_part p"
      "\<And>p. p \<in> set qs \<Longrightarrow> p \<noteq> [] \<and> plain_part p"
    using assms(5,6) by (auto simp: plain_part_def)
  have "cacheKeyFor nstr (of_int a) ?u m = cacheKeyFor nstr (of_int b) ?v n \<longleftrightarrow>
      a = b \<and> stripLiveVersion ?u = stripLiveVersion ?v"
    using split_at_colon [OF int_str_no_colon int_str_no_colon, of a "stripLiveVersion ?u" b "stripLiveVersion ?v"]
    by (auto simp: cacheKeyFor_def assms dest: int_str_inj)
  also have "\<dots> \<longleftrightarrow> a = b \<and> path = path' \<and> without_live ps = without_live qs"
    using url_parts_inj [OF p(1,2), of "without_live ps" "without_live qs"] set_without_live [of ps]
      set_without_live [of qs] p(3,4) by (subst (1 2) strip_query) (blast intro: p)+
  finally show ?thesis unfolding without_live_def .
qed

lemma cache_keys_tell_apart_witness:
  "cacheKeyFor (\<lambda>x. int_str \<lfloor>x\<rfloor>) (of_int 604) ''/api/teams?lv=7&page=2'' None =
     cacheKeyFor (\<lambda>x. int_str \<lfloor>x\<rfloor>) (of_int 604) ''/api/teams?page=2'' None \<and>
   cacheKeyFor (\<lambda>x. int_str \<lfloor>x\<rfloor>) (of_int 604) ''/api/teams?lv=7&page=2'' None \<noteq>
     cacheKeyFor (\<lambda>x. int_str \<lfloor>x\<rfloor>) (of_int 604) ''/api/teams?lv=7&page=3'' None"
proof -
  have m: "normalizeMethod None = ''GET''" by code_simp
  have u: "''/api/teams'' @ query_text (CHR ''?'') [''lv=7'', ''page=2''] = ''/api/teams?lv=7&page=2''"
    "''/api/teams'' @ query_text (CHR ''?'') [''page=2''] = ''/api/teams?page=2''"
    "''/api/teams'' @ query_text (CHR ''?'') [''lv=7'', ''page=3''] = ''/api/teams?lv=7&page=3''" by simp_all
  show ?thesis
    using cache_keys_tell_apart [OF m m, of "\<lambda>x. int_str \<lfloor>x\<rfloor>" 604 604 "''/api/teams''" "''/api/teams''"
        "[''lv=7'', ''page=2'']" "[''page=2'']"]
      cache_keys_tell_apart [OF m m, of "\<lambda>x. int_str \<lfloor>x\<rfloor>" 604 604 "''/api/teams''" "''/api/teams''"
        "[''lv=7'', ''page=2'']" "[''lv=7'', ''page=3'']"]
    unfolding u by simp
qed

section \<open>News of an event\<close>

lemma js_includes_append: "js_includes (a @ t @ b) t"
proof (induction a)
  case Nil
  show ?case by (cases "t @ b") (simp_all, metis append_eq_conv_conj)
qed simp

lemma event_after_iff:
  "event_after lead s = Some w \<longleftrightarrow> (\<exists>h z. s = h @ w @ CHR ''/'' # z \<and> js_lower h = lead \<and>
     list_all event_word w \<and> 5 \<le> length w \<and> list_all is_digit (take 4 w))" (is "_ \<longleftrightarrow> ?form")
proof
  assume a: "event_after lead s = Some w"
  define rest where "rest = drop (length lead) s"
  have w: "takeWhile event_word rest = w" "take (length lead) (js_lower s) = lead"
    "starts_with (drop (length w) rest) ''/''" "5 \<le> length w" "list_all is_digit (take 4 w)"
    using a by (auto simp: event_after_def rest_def Let_def starts_with_def split: if_splits)
  have "js_lower (take (length lead) s) = lead" using w(2) by (simp add: js_lower_def take_map)
  moreover have "rest = w @ drop (length w) rest" using w(1) by (metis append_take_drop_id takeWhile_eq_take)
  moreover obtain z where "drop (length w) rest = CHR ''/'' # z"
    using w(3) by (cases "drop (length w) rest") (auto simp: starts_with_def)
  moreover have "list_all event_word w" using w(1) by (metis list_all_iff set_takeWhileD)
  moreover have "s = take (length lead) s @ rest" by (simp add: rest_def)
  ultimately show ?form using w(4,5) by metis
next
  assume ?form
  then obtain h z where f: "s = h @ w @ CHR ''/'' # z" "js_lower h = lead" "list_all event_word w" "5 \<le> length w"
    "list_all is_digit (take 4 w)" by blast
  have len: "length h = length lead" using f(2) length_js_lower by metis
  have "\<not> event_word (CHR ''/'')" by (simp add: event_word_def is_digit_def is_lower_alpha_def is_upper_alpha_def)
  then have "takeWhile event_word (w @ CHR ''/'' # z) = w"
    using f(3) by (simp add: takeWhile_append2 list_all_iff)
  then show "event_after lead s = Some w"
    using f len by (simp add: event_after_def starts_with_def js_lower_append)
qed

lemma event_after_append: "event_after lead s = Some w \<Longrightarrow> event_after lead (s @ t) = Some w"
  unfolding event_after_iff by force

definition slashes :: "string \<Rightarrow> nat" where
  "slashes s = length (filter (\<lambda>c. c = CHR ''/'') s)"

lemma slashes_simps [simp]: "slashes [] = 0" "slashes (c # s) = (if c = CHR ''/'' then 1 else 0) + slashes s"
  "slashes (s @ t) = slashes s + slashes t"
  by (simp_all add: slashes_def)

lemma lower_char_slash: "lower_char c = CHR ''/'' \<longleftrightarrow> c = CHR ''/''"
  unfolding char_code lower_char_code by (auto simp: Let_def split: if_splits)

lemma slashes_lower: "slashes (js_lower s) = slashes s"
  by (induction s) (simp_all add: js_lower_def lower_char_slash)

lemma slashes_word: "list_all event_word w \<Longrightarrow> slashes w = 0"
  by (induction w) (auto simp: event_word_def is_digit_def is_lower_alpha_def is_upper_alpha_def)

lemma slashes_event: "event_in_path s = Some w \<Longrightarrow> 3 \<le> slashes s"
proof (induction s rule: event_in_path.induct)
  case (2 c cs)
  have "3 \<le> slashes (c # cs)" if "event_after lead (c # cs) = Some v" "lead \<in> {''/matches/event/'', ''/events/''}" for lead v
  proof -
    from that(1) obtain h z where "c # cs = h @ v @ CHR ''/'' # z" "js_lower h = lead" unfolding event_after_iff by blast
    then show ?thesis using slashes_lower [of h] that(2) by (auto simp: slashes_def)
  qed
  with 2 show ?case by (fastforce split: option.splits)
qed simp

lemma event_after_none_append:
  assumes "event_after lead (c # cs) = None" and "event_in_path cs = Some w" and "slashes lead \<le> 3" and "hd lead = CHR ''/''" "lead \<noteq> []"
  shows "event_after lead ((c # cs) @ t) = None"
proof (rule ccontr)
  assume "event_after lead ((c # cs) @ t) \<noteq> None"
  then obtain v where "event_after lead ((c # cs) @ t) = Some v" by blast
  then obtain h z where f: "(c # cs) @ t = h @ v @ CHR ''/'' # z" "js_lower h = lead" "list_all event_word v" "5 \<le> length v"
    "list_all is_digit (take 4 v)" unfolding event_after_iff by blast
  show False
  proof (cases "length (h @ v) < length (c # cs)")
    case True
    define y where "y = drop (length (h @ v)) (c # cs)"
    have "take (length (h @ v)) ((c # cs) @ t) = h @ v" unfolding f(1) by simp
    then have "take (length (h @ v)) (c # cs) = h @ v" using True by (metis less_imp_le take_append append_Nil2 diff_is_0_eq take0)
    then have x: "c # cs = (h @ v) @ y" unfolding y_def by (metis append_take_drop_id)
    then have "y @ t = CHR ''/'' # z" using f(1) by simp
    then obtain y' where "c # cs = h @ v @ CHR ''/'' # y'" using x True by (cases y) auto
    with f(2-) have "event_after lead (c # cs) = Some v" unfolding event_after_iff by blast
    with assms(1) show False by simp
  next
    case False
    have "take (length (c # cs)) ((h @ v) @ CHR ''/'' # z) = c # cs" using f(1) by (metis append_eq_conv_conj append_assoc)
    then have "take (length (c # cs)) (h @ v) = c # cs" using False by (simp add: linorder_not_less)
    then obtain y where "h @ v = (c # cs) @ y" by (metis append_take_drop_id)
    then have "slashes (c # cs) \<le> slashes (h @ v)" by simp
    also have "\<dots> \<le> 3" using f(2,3) slashes_lower [of h] slashes_word assms(3) by simp
    finally have "slashes (c # cs) \<le> 3" .
    moreover have "c = CHR ''/''"
      using f(1,2) assms(4,5) lower_char_slash [of c] by (cases h) (auto simp: js_lower_def)
    ultimately show False using slashes_event [OF assms(2)] by simp
  qed
qed

lemma event_in_path_append: "event_in_path s = Some w \<Longrightarrow> event_in_path (s @ t) = Some w"
proof (induction s rule: event_in_path.induct)
  case (2 c cs)
  let ?m = "''/matches/event/''" and ?e = "''/events/''"
  note E = event_after_append [of _ "c # cs" _ t]
  have N: "event_in_path cs = Some w \<Longrightarrow> event_after lead (c # cs) = None \<Longrightarrow> lead = ?m \<or> lead = ?e \<Longrightarrow>
      event_after lead ((c # cs) @ t) = None" for lead
    by (rule event_after_none_append) auto
  have D: "event_after ?m x = None" if "event_after ?e x = Some v" for x v
  proof (rule ccontr)
    assume "event_after ?m x \<noteq> None"
    then obtain u where "event_after ?m x = Some u" by blast
    then have "take 2 (js_lower x) = ''/m''" by (auto simp: event_after_iff js_lower_append)
    moreover have "take 2 (js_lower x) = ''/e''" using that by (auto simp: event_after_iff js_lower_append)
    ultimately show False by simp
  qed
  show ?case
  proof (cases "event_after ?m (c # cs)")
    case (Some v)
    with 2 E [OF Some] show ?thesis by simp
  next
    case None
    note m = this
    show ?thesis
    proof (cases "event_after ?e (c # cs)")
      case (Some v)
      with m 2 E [OF Some] D [OF E [OF Some]] show ?thesis by simp
    next
      case None
      with m 2 N [OF _ m] N [OF _ None] show ?thesis by simp
    qed
  qed
qed simp

lemma cut_live_append:
  assumes "\<not> js_includes url ''lv=''" and "separator d" and "CHR ''&'' \<notin> set e"
  shows "cut_live (url @ d # ''lv='' @ e) = url \<and> cut_live url = url"
  using assms(1)
proof (induction url)
  case Nil
  have e: "dropWhile (\<lambda>d. d \<noteq> CHR ''&'') e = []" using assms(3) by (induction e) auto
  then have "(case dropWhile (\<lambda>d. d \<noteq> CHR ''&'') e of [] \<Rightarrow> [] | x # rest \<Rightarrow> d # rest) = []"
    by (simp only: list.case)
  moreover have "starts_with (''lv='' @ e) ''lv=''" by (rule starts_with_append)
  ultimately show ?case using assms(2) by simp
next
  case (Cons c cs)
  have d: "d \<in> {CHR ''?'', CHR ''&''}" using assms(2) by (auto simp: separator_def)
  have n: "take 3 cs \<noteq> ''lv=''"
    using Cons.prems by (cases cs) (simp_all add: numeral_2_eq_2)
  have m: "take 3 (cs @ d # ''lv='' @ e) \<noteq> ''lv=''"
  proof (cases "3 \<le> length cs")
    case True
    with n show ?thesis by simp
  next
    case False
    then have "d \<in> set (take 3 (cs @ d # ''lv='' @ e))" by (cases "3 - length cs") simp_all
    moreover have "d \<notin> set ''lv=''" using d by auto
    ultimately show ?thesis by metis
  qed
  have "cut_live (cs @ d # ''lv='' @ e) = cs \<and> cut_live cs = cs" using Cons by simp
  moreover have "length ''lv='' = 3" by simp
  then have "\<not> starts_with cs ''lv=''" "\<not> starts_with (cs @ d # ''lv='' @ e) ''lv=''"
    using n m by (simp_all only: starts_with_def not_False_eq_True)
  ultimately show ?case by (simp only: append_Cons cut_live.simps simp_thms if_False)
qed

lemma live_key_idem [simp]: "live_key (live_key k) = live_key k"
  by (simp add: live_key_def js_trim_lower)

definition live_suffix :: "string \<Rightarrow> string \<Rightarrow> string" where
  "live_suffix url known = (if CHR ''?'' \<in> set url then ''&'' else ''?'') @ ''lv='' @ encodeURIComponent known"

lemma withLiveVersion_one:
  "withLiveVersion l url [k] =
     (if map_has (lv_freshUntil l) (live_key k) \<and> map_has (lv_versions l) (live_key k) \<and>
         map_get (lv_versions l) (live_key k) \<noteq> Some []
      then url @ live_suffix url (the (map_get (lv_versions l) (live_key k))) else url)"
  by (auto simp: withLiveVersion_def live_suffix_def js_join_def js_sort_def dict_simps)



end
