(* ===== verification/ApiCache.thy ===== *)
theory ApiCache
  imports ApiUrls LocalStorage
begin

text \<open>
  The saved copies of the API's answers: the caches of \<open>src/ScoutingApp/src/api.ts\<close> (memory for this
  tab, \<open>localStorage\<close> within a budget) and \<open>utils/apiResponseStore.ts\<close>, \<open>utils/apiResponseDatabase.ts\<close> (Cache
  Storage on the web, IndexedDB in the native app and where Cache Storage fails).  An \<open>api_store\<close> is all
  of them; a store that cannot be opened is \<open>None\<close>, and the two flags say whether Cache Storage answers
  and takes a copy.  The text under a saved copy's key is what \<open>JSON.parse\<close> makes of it: \<open>Copy\<close> with the
  fields it has, or a \<open>Text\<close> it rejects; \<open>e_chars\<close> is the length of a copy's text.  Times are in
  milliseconds and a function reads the clock once.  A call of a store is one step.
\<close>

section \<open>Responses\<close>

record response =
  rs_status :: int
  rs_statusText :: string
  rs_headers :: "(string \<times> string) list"
  rs_body :: "string option"

definition rs_ok :: "response \<Rightarrow> bool" where
  "rs_ok r \<longleftrightarrow> 200 \<le> rs_status r \<and> rs_status r \<le> 299"

text \<open>\<open>new Response(body, ...)\<close> throws for a status it does not take, or a body where there is none.\<close>

definition new_response :: "int \<Rightarrow> string \<Rightarrow> (string \<times> string) list \<Rightarrow> string option \<Rightarrow> response option" where
  "new_response status statusText headers body =
     (if 200 \<le> status \<and> status \<le> 599 \<and> (body = None \<or> status \<notin> {204, 205, 304})
      then Some \<lparr>rs_status = status, rs_statusText = statusText, rs_headers = headers, rs_body = body\<rparr> else None)"

definition response_text :: "response \<Rightarrow> string" where
  "response_text r = nullish (rs_body r) []"

definition header_set :: "string \<Rightarrow> string \<Rightarrow> (string \<times> string) list \<Rightarrow> (string \<times> string) list" where
  "header_set name v hs = map_set (js_lower name) v hs"

text \<open>A server having a bad moment.\<close>

definition serverTrouble :: "response \<Rightarrow> bool" where
  "serverTrouble r \<longleftrightarrow> rs_status r \<ge> 500 \<or> rs_status r = 429 \<or> rs_status r = 408"

section \<open>The stores\<close>

record cached_response =
  cr_storedAtMs :: int
  cr_expiresAtMs :: int
  cr_response :: response

record persistent_copy =
  pc_storedAtMs :: "int option"
  pc_expiresAtMs :: "int option"
  pc_retainUntilMs :: "int option"
  pc_status :: "int option"
  pc_statusText :: "string option"
  pc_headers :: "(string \<times> string) list option"
  pc_bodyText :: "string option"

datatype copy_text = Copy persistent_copy | Text string

text \<open>A row of Cache Storage or of the database.  The retention of a copy without one is 0.\<close>

record stored_row =
  sr_status :: int
  sr_statusText :: string
  sr_headers :: "(string \<times> string) list"
  sr_body :: string
  sr_storedAt :: int
  sr_retainUntil :: int

record api_env =
  e_native :: bool
  e_quota :: nat
  e_chars :: "persistent_copy \<Rightarrow> nat"

record api_store =
  c_mem :: "(string, cached_response) jsmap"
  c_local :: "copy_text storage option"
  c_lastPruneAtMs :: int
  c_caches :: "(string, stored_row) jsmap option"
  c_match_ok :: bool
  c_put_ok :: bool
  c_db :: "(string, stored_row) jsmap option"
  c_lastStorePruneAtMs :: int
  c_notices :: nat

record cache_lookup =
  lk_fresh :: bool
  lk_response :: response
  lk_ageSec :: int

definition MAX_RESPONSE_CACHE_ENTRIES :: nat where
  "MAX_RESPONSE_CACHE_ENTRIES = 200"

definition PERSIST_GET_CACHE_TTL_MS :: int where
  "PERSIST_GET_CACHE_TTL_MS = 345600000"

definition PERSIST_GET_CACHE_MAX_ENTRIES :: nat where
  "PERSIST_GET_CACHE_MAX_ENTRIES = 300"

definition PERSIST_GET_CACHE_MAX_BODY_BYTES :: nat where
  "PERSIST_GET_CACHE_MAX_BODY_BYTES = 450000"

definition MAX_ENTRIES :: nat where
  "MAX_ENTRIES = 250"

definition age_sec :: "int \<Rightarrow> int \<Rightarrow> int" where
  "age_sec nowMs storedAtMs = max 0 ((nowMs - storedAtMs) div 1000)"

definition copy_chars :: "api_env \<Rightarrow> copy_text \<Rightarrow> nat" where
  "copy_chars env t = (case t of Copy p \<Rightarrow> e_chars env p | Text s \<Rightarrow> length s)"

text \<open>The number in the head of the text: a copy's text begins with it.\<close>

definition text_stamp :: "copy_text \<Rightarrow> int" where
  "text_stamp t = (case t of Copy p \<Rightarrow> max 0 (nullish (pc_storedAtMs p) 0) | Text s \<Rightarrow> stored_at s)"

definition persistentCacheKey :: "string \<Rightarrow> string" where
  "persistentCacheKey requestKey = API_CACHE_PREFIX @ requestKey"

section \<open>Memory\<close>

definition cacheResponse :: "int \<Rightarrow> string \<Rightarrow> cached_response \<Rightarrow> (string, cached_response) jsmap \<Rightarrow>
    (string, cached_response) jsmap" where
  "cacheResponse now requestKey entry mem =
     (let live = filter (\<lambda>(_, v). \<not> cr_expiresAtMs v \<le> now) mem;
          newer = map_set requestKey entry (map_delete requestKey live)
      in drop (length newer - MAX_RESPONSE_CACHE_ENTRIES) newer)"

definition readMemoryGetCache :: "string \<Rightarrow> int \<Rightarrow> int \<Rightarrow> (string, cached_response) jsmap \<Rightarrow>
    cache_lookup option \<times> (string, cached_response) jsmap" where
  "readMemoryGetCache requestKey nowMs staleWhileRevalidateMs mem = (case map_get mem requestKey of
       None \<Rightarrow> (None, mem)
     | Some c \<Rightarrow>
        (let withinFreshWindow = cr_expiresAtMs c > nowMs;
             withinStaleWindow = staleWhileRevalidateMs > 0 \<and> nowMs \<le> cr_expiresAtMs c + staleWhileRevalidateMs
         in if \<not> withinFreshWindow \<and> \<not> withinStaleWindow then (None, map_delete requestKey mem)
            else (Some \<lparr>lk_fresh = withinFreshWindow, lk_response = cr_response c,
                    lk_ageSec = age_sec nowMs (cr_storedAtMs c)\<rparr>, mem)))"

section \<open>Local storage\<close>

definition PROBE_KEY :: string where
  "PROBE_KEY = ''__scouting_cache_probe__''"

text \<open>Writes a probe and removes it: what is full cannot be read either.\<close>

definition localStorageAvailable :: "api_env \<Rightarrow> copy_text storage option \<Rightarrow> bool \<times> copy_text storage option" where
  "localStorageAvailable env ls = (case ls of None \<Rightarrow> (False, ls)
     | Some m \<Rightarrow> (case setItem (copy_chars env) (e_quota env) PROBE_KEY (Text ''1'') m of
         None \<Rightarrow> (False, ls) | Some m' \<Rightarrow> (True, Some (map_delete PROBE_KEY m'))))"

text \<open>The answer a copy's fields make.\<close>

definition copy_response :: "persistent_copy \<Rightarrow> response option" where
  "copy_response p = (let status = nullish (pc_status p) 0
     in new_response (if status = 0 then 200 else status) (nullish (pc_statusText p) ''OK'')
          (nullish (pc_headers p) []) (Some (nullish (pc_bodyText p) [])))"

text \<open>The copy under a key; an empty text is none.\<close>

definition raw_copy :: "copy_text storage \<Rightarrow> string \<Rightarrow> copy_text option" where
  "raw_copy m requestKey = (case map_get m (persistentCacheKey requestKey) of
     Some (Text []) \<Rightarrow> None | t \<Rightarrow> t)"

definition readPersistentGetCache :: "api_env \<Rightarrow> string \<Rightarrow> int \<Rightarrow> int \<Rightarrow> copy_text storage option \<Rightarrow>
    cache_lookup option \<times> copy_text storage option" where
  "readPersistentGetCache env requestKey nowMs staleWhileRevalidateMs ls =
     (case localStorageAvailable env ls of
        (True, Some m) \<Rightarrow>
          (let gone = Some (map_delete (persistentCacheKey requestKey) m)
           in case raw_copy m requestKey of
                None \<Rightarrow> (None, Some m)
              | Some (Text _) \<Rightarrow> (None, gone)
              | Some (Copy p) \<Rightarrow>
                 (let expiresAtMs = nullish (pc_expiresAtMs p) 0;
                      withinFreshWindow = expiresAtMs > nowMs;
                      withinStaleWindow = staleWhileRevalidateMs > 0 \<and> nowMs \<le> expiresAtMs + staleWhileRevalidateMs
                  in if \<not> withinFreshWindow \<and> \<not> withinStaleWindow
                     then (None, if nullish (pc_retainUntilMs p) 0 \<le> nowMs then gone else Some m)
                     else (case copy_response p of None \<Rightarrow> (None, gone)
                       | Some r \<Rightarrow> (Some \<lparr>lk_fresh = withinFreshWindow, lk_response = r,
                           lk_ageSec = age_sec nowMs (nullish (pc_storedAtMs p) 0)\<rparr>, Some m))))
      | (_, ls') \<Rightarrow> (None, ls'))"

text \<open>The loop over \<open>localStorage\<close> counts up although a removal moves the next key to the current
  place: it passes over the key after a removed one.\<close>

definition expired_copy :: "int \<Rightarrow> copy_text \<Rightarrow> bool" where
  "expired_copy now t = (case t of Text _ \<Rightarrow> True
     | Copy p \<Rightarrow> (let r = nullish (pc_retainUntilMs p) 0
                  in (if r \<noteq> 0 then r else nullish (pc_expiresAtMs p) 0) \<le> now))"

fun prune_scan :: "int \<Rightarrow> copy_text storage \<Rightarrow> (string \<times> int) list \<times> string list" where
  "prune_scan now [] = ([], [])"
| "prune_scan now ((k, t) # rest) =
     (if \<not> is_cache_key k \<or> t = Text [] then prune_scan now rest
      else if expired_copy now t
      then (case prune_scan now (drop 1 rest) of (rows, dead) \<Rightarrow> (rows, k # dead))
      else (case prune_scan now rest of (rows, dead) \<Rightarrow>
        ((k, case t of Copy p \<Rightarrow> nullish (pc_storedAtMs p) 0 | Text _ \<Rightarrow> 0) # rows, dead)))"

definition prunePersistentCache :: "api_env \<Rightarrow> int \<Rightarrow> nat \<Rightarrow> api_store \<Rightarrow> api_store" where
  "prunePersistentCache env now maxEntries s =
     (case localStorageAvailable env (c_local s) of
        (True, Some m) \<Rightarrow>
          (let s1 = s\<lparr>c_local := Some m\<rparr>
           in if maxEntries = 0 \<or> now - c_lastPruneAtMs s < 60000 then s1
              else (case prune_scan now m of (rows, dead) \<Rightarrow>
                 (let m1 = fold map_delete dead m;
                      oldest = take (length rows - maxEntries) (js_sort (\<lambda>a b. snd a - snd b) rows)
                  in s1\<lparr>c_lastPruneAtMs := now,
                       c_local := Some (fold map_delete (map fst oldest) m1)\<rparr>)))
      | (_, ls') \<Rightarrow> s\<lparr>c_local := ls'\<rparr>)"

text \<open>The newest of the copies in memory and in \<open>localStorage\<close>, of any age.\<close>

definition readCacheAnyAge :: "api_env \<Rightarrow> string \<Rightarrow> int \<Rightarrow> api_store \<Rightarrow> cache_lookup option \<times> api_store" where
  "readCacheAnyAge env requestKey nowMs s =
     (let mem = map_option (\<lambda>c. (cr_storedAtMs c, cr_response c)) (map_get (c_mem s) requestKey)
      in case localStorageAvailable env (c_local s) of (okay, ls') \<Rightarrow>
        (let best = (case (okay, ls') of
               (True, Some m) \<Rightarrow> (case raw_copy m requestKey of
                   Some (Copy p) \<Rightarrow>
                     (let since = nullish (pc_storedAtMs p) 0
                      in if (case mem of None \<Rightarrow> True | Some (a, _) \<Rightarrow> since > a)
                         then (case copy_response p of None \<Rightarrow> mem | Some r \<Rightarrow> Some (since, r))
                         else mem)
                 | _ \<Rightarrow> mem)
             | _ \<Rightarrow> mem)
         in (map_option (\<lambda>(since, r). \<lparr>lk_fresh = False, lk_response = r, lk_ageSec = age_sec nowMs since\<rparr>) best,
             s\<lparr>c_local := ls'\<rparr>)))"

section \<open>Cache Storage and the database\<close>

text \<open>A row read from the database, not expired; an expired one is deleted.\<close>

definition getDatabaseResponse :: "string \<Rightarrow> int \<Rightarrow> (string, stored_row) jsmap option \<Rightarrow>
    stored_row option \<times> (string, stored_row) jsmap option" where
  "getDatabaseResponse key now db = (case db of None \<Rightarrow> (None, db)
     | Some rows \<Rightarrow> (case map_get rows key of None \<Rightarrow> (None, db)
         | Some r \<Rightarrow> if sr_retainUntil r \<le> now then (None, Some (map_delete key rows)) else (Some r, db)))"

definition putDatabaseResponse :: "string \<Rightarrow> stored_row \<Rightarrow> (string, stored_row) jsmap option \<Rightarrow>
    bool \<times> (string, stored_row) jsmap option" where
  "putDatabaseResponse key row db = (case db of None \<Rightarrow> (False, db) | Some rows \<Rightarrow> (True, Some (map_set key row rows)))"

text \<open>Expired rows go, then the oldest beyond the limit.  The order of rows of the same time is the
  order of the keys in the database and of insertion in Cache Storage.\<close>

definition prune_rows :: "int \<Rightarrow> nat \<Rightarrow> (string \<times> stored_row \<Rightarrow> bool) \<Rightarrow> (string, stored_row) jsmap \<Rightarrow>
    (string, stored_row) jsmap" where
  "prune_rows now maxEntries gone rows =
     (let live = filter (\<lambda>kv. \<not> gone kv) rows;
          oldest = take (length live - maxEntries) (js_sort (\<lambda>a b. sr_storedAt (snd a) - sr_storedAt (snd b)) live)
      in filter (\<lambda>(k, _). k \<notin> fst ` set oldest) live)"

definition by_key :: "string \<times> stored_row \<Rightarrow> string \<times> stored_row \<Rightarrow> int" where
  "by_key a b = (if js_less (fst a) (fst b) then - 1 else if fst a = fst b then 0 else 1)"

definition pruneDatabaseResponses :: "int \<Rightarrow> nat \<Rightarrow> (string, stored_row) jsmap option \<Rightarrow> (string, stored_row) jsmap option" where
  "pruneDatabaseResponses now maxEntries db =
     map_option (\<lambda>rows. prune_rows now maxEntries (\<lambda>(_, r). sr_retainUntil r \<le> now) (js_sort by_key rows)) db"

definition pruneStoredResponses :: "int \<Rightarrow> api_store \<Rightarrow> api_store" where
  "pruneStoredResponses now s =
     (if now - c_lastStorePruneAtMs s < 60000 then s
      else (let s1 = s\<lparr>c_lastStorePruneAtMs := now, c_db := pruneDatabaseResponses now MAX_ENTRIES (c_db s)\<rparr>
            in case c_caches s1 of None \<Rightarrow> s1
               | Some rows \<Rightarrow> if \<not> c_match_ok s1 then s1
                   else s1\<lparr>c_caches := Some (prune_rows now MAX_ENTRIES
                     (\<lambda>(_, r). sr_retainUntil r \<noteq> 0 \<and> sr_retainUntil r \<le> now) rows)\<rparr>))"

definition row_response :: "stored_row \<Rightarrow> response option" where
  "row_response r = new_response (sr_status r) (sr_statusText r) (sr_headers r) (Some (sr_body r))"

definition database_put :: "string \<Rightarrow> stored_row \<Rightarrow> int \<Rightarrow> api_store \<Rightarrow> bool \<times> api_store" where
  "database_put key row now s = (case putDatabaseResponse key row (c_db s) of
     (saved, db) \<Rightarrow> (saved, if saved then pruneStoredResponses now (s\<lparr>c_db := db\<rparr>) else s))"

text \<open>The copy is looked for before the pruning that starts with it can remove anything.\<close>

definition putStoredResponse :: "api_env \<Rightarrow> string \<Rightarrow> stored_row \<Rightarrow> int \<Rightarrow> api_store \<Rightarrow> bool \<times> api_store" where
  "putStoredResponse env key row now s =
     (case (if e_native env then None else c_caches s) of
        None \<Rightarrow> database_put key row now s
      | Some rows \<Rightarrow>
          if row_response row = None \<or> \<not> c_put_ok s then database_put key row now s
          else (let s1 = s\<lparr>c_caches := Some (map_delete key rows @ [(key, row)])\<rparr>
                in if \<not> c_match_ok s then database_put key row now (pruneStoredResponses now s1)
                   else (True, pruneStoredResponses now s1)))"

text \<open>The copy and its time.  The outer \<open>None\<close> is the exception of a row that makes no response.\<close>

definition database_get :: "string \<Rightarrow> int \<Rightarrow> api_store \<Rightarrow> (response \<times> int) option option \<times> api_store" where
  "database_get key now s = (case getDatabaseResponse key now (c_db s) of
     (row, db) \<Rightarrow> (case row of None \<Rightarrow> Some None
        | Some r \<Rightarrow> map_option (\<lambda>x. Some (x, sr_storedAt r)) (row_response r), s\<lparr>c_db := db\<rparr>))"

definition getStoredResponse :: "api_env \<Rightarrow> string \<Rightarrow> int \<Rightarrow> api_store \<Rightarrow> (response \<times> int) option option \<times> api_store" where
  "getStoredResponse env key now s =
     (case (if e_native env then None else c_caches s) of
        None \<Rightarrow> database_get key now s
      | Some rows \<Rightarrow>
          if \<not> c_match_ok s then database_get key now s
          else (case map_get rows key of
              None \<Rightarrow> database_get key now s
            | Some r \<Rightarrow>
                if sr_retainUntil r \<noteq> 0 \<and> sr_retainUntil r \<le> now
                then database_get key now (s\<lparr>c_caches := Some (map_delete key rows)\<rparr>)
                else (Some (map_option (\<lambda>x. (x, sr_storedAt r)) (row_response r)), s)))"

section \<open>Saving and falling back\<close>

text \<open>The saved copy of any age, marked as one, and the page is told.\<close>

definition offlineStaleFallback :: "api_env \<Rightarrow> string \<Rightarrow> int \<Rightarrow> api_store \<Rightarrow> response option option \<times> api_store" where
  "offlineStaleFallback env requestKey now s =
     (case readCacheAnyAge env requestKey now s of
        (quick, s1) \<Rightarrow> (case getStoredResponse env requestKey now s1 of
            (None, s2) \<Rightarrow> (None, s2)
          | (Some stored, s2) \<Rightarrow>
              (let hit = (case stored of
                     Some (r, storedAt) \<Rightarrow>
                       if (case quick of None \<Rightarrow> True | Some h \<Rightarrow> storedAt > now - lk_ageSec h * 1000)
                       then Some r else map_option lk_response quick
                   | None \<Rightarrow> map_option lk_response quick)
               in case hit of None \<Rightarrow> (Some None, s2)
                  | Some r \<Rightarrow> (Some (Some (r\<lparr>rs_headers := header_set ''X-From-Cache'' ''offline-stale'' (rs_headers r)\<rparr>)),
                      s2\<lparr>c_notices := Suc (c_notices s2)\<rparr>))))"

definition stored_copy :: "response \<Rightarrow> int \<Rightarrow> int \<Rightarrow> stored_row" where
  "stored_copy r now retainUntilMs = \<lparr>sr_status = rs_status r, sr_statusText = rs_statusText r,
     sr_headers = rs_headers r, sr_body = response_text r, sr_storedAt = now, sr_retainUntil = retainUntilMs\<rparr>"

definition persistent_payload :: "response \<Rightarrow> int \<Rightarrow> int \<Rightarrow> int \<Rightarrow> persistent_copy" where
  "persistent_payload r now freshTtlMs retainUntilMs = \<lparr>pc_storedAtMs = Some now,
     pc_expiresAtMs = Some (now + freshTtlMs), pc_retainUntilMs = Some retainUntilMs, pc_status = Some (rs_status r),
     pc_statusText = Some (rs_statusText r), pc_headers = Some (rs_headers r), pc_bodyText = Some (response_text r)\<rparr>"

text \<open>Room is made for the copy and it is written: whether that worked, and the storage.\<close>

definition write_copy :: "api_env \<Rightarrow> string \<Rightarrow> copy_text \<Rightarrow> copy_text storage \<Rightarrow> bool \<times> copy_text storage" where
  "write_copy env storageKey entry m =
     (let room = int API_CACHE_BUDGET_CHARS - int (length storageKey) - int (copy_chars env entry)
      in if room < 0 then (False, m)
         else (case freeApiCacheSpace (copy_chars env) text_stamp room m of (m1, _) \<Rightarrow>
           (case setItem (copy_chars env) (e_quota env) storageKey entry m1 of
              None \<Rightarrow> (False, m1) | Some m2 \<Rightarrow> (True, m2))))"

definition writePersistentGetCache :: "api_env \<Rightarrow> string \<Rightarrow> response \<Rightarrow> int \<Rightarrow> int \<Rightarrow> api_store \<Rightarrow> bool \<times> api_store" where
  "writePersistentGetCache env requestKey r freshTtlMs now s =
     (if freshTtlMs \<le> 0 then (False, s)
      else (let retainUntilMs = now + max freshTtlMs PERSIST_GET_CACHE_TTL_MS;
                row = stored_copy r now retainUntilMs;
                storageKey = persistentCacheKey requestKey
            in if e_native env \<or> PERSIST_GET_CACHE_MAX_BODY_BYTES < length (response_text r)
               then (case putStoredResponse env requestKey row now s of
                   (saved, s1) \<Rightarrow> if saved \<and> e_native env
                      then (c_local s1 \<noteq> None, s1\<lparr>c_local := map_option (map_delete storageKey) (c_local s1)\<rparr>)
                      else (saved, s1))
               else (case c_local s of
                   None \<Rightarrow> putStoredResponse env requestKey row now s
                 | Some m \<Rightarrow>
                    (case write_copy env storageKey (Copy (persistent_payload r now freshTtlMs retainUntilMs)) m of
                       (False, m1) \<Rightarrow> putStoredResponse env requestKey row now (s\<lparr>c_local := Some m1\<rparr>)
                     | (True, m1) \<Rightarrow>
                        (let s1 = prunePersistentCache env now (max 20 PERSIST_GET_CACHE_MAX_ENTRIES) (s\<lparr>c_local := Some m1\<rparr>)
                         in (case c_local s1 of None \<Rightarrow> False | Some m2 \<Rightarrow> map_get m2 storageKey \<noteq> None, s1))))))"

definition hasSavedApiResponse :: "api_env \<Rightarrow> string \<Rightarrow> int \<Rightarrow> api_store \<Rightarrow> bool option \<times> api_store" where
  "hasSavedApiResponse env requestKey now s =
     (if (case c_local s of None \<Rightarrow> False
          | Some m \<Rightarrow> (case raw_copy m requestKey of
              Some (Copy p) \<Rightarrow> (case pc_retainUntilMs p of None \<Rightarrow> False | Some x \<Rightarrow> x > now)
            | _ \<Rightarrow> False))
      then (Some True, s)
      else (case getStoredResponse env requestKey now s of (r, s1) \<Rightarrow> (map_option (\<lambda>x. x \<noteq> None) r, s1)))"

definition savedCopyWithin :: "api_env \<Rightarrow> string \<Rightarrow> int \<Rightarrow> int \<Rightarrow> api_store \<Rightarrow> cache_lookup option \<times> api_store" where
  "savedCopyWithin env requestKey maxAgeMs now s =
     (case readCacheAnyAge env requestKey now s of
        (quick, s1) \<Rightarrow>
          if (case quick of None \<Rightarrow> False | Some q \<Rightarrow> lk_ageSec q * 1000 \<le> maxAgeMs) then (quick, s1)
          else (case getStoredResponse env requestKey now s1 of
              (Some (Some (r, storedAt)), s2) \<Rightarrow>
                (if storedAt \<le> 0 \<or> now - storedAt > maxAgeMs then None
                 else Some \<lparr>lk_fresh = False, lk_response = r, lk_ageSec = age_sec now storedAt\<rparr>, s2)
            | (_, s2) \<Rightarrow> (None, s2)))"

text \<open>A payload that came inside another answer; \<open>requestKey\<close> is its URL's cache key.\<close>

definition seedGetCache :: "api_env \<Rightarrow> string \<Rightarrow> string \<Rightarrow> int \<Rightarrow> int \<Rightarrow> api_store \<Rightarrow> api_store" where
  "seedGetCache env requestKey body ttlMs now s =
     (let r = \<lparr>rs_status = 200, rs_statusText = [], rs_headers = [(''content-type'', ''application/json'')], rs_body = Some body\<rparr>
      in snd (writePersistentGetCache env requestKey r ttlMs now
           (s\<lparr>c_mem := cacheResponse now requestKey
              \<lparr>cr_storedAtMs = now, cr_expiresAtMs = now + ttlMs, cr_response = r\<rparr> (c_mem s)\<rparr>)))"

section \<open>Room within the budget\<close>

lemma apiCacheChars_simps [simp]:
  "apiCacheChars len stamp [] = 0"
  "apiCacheChars len stamp ((k, v) # m) = (if is_cache_key k then length k + len v else 0) + apiCacheChars len stamp m"
  by (simp_all add: apiCacheChars_def cacheRows_def)

lemma chars_delete: "apiCacheChars len stamp (map_delete k m) \<le> apiCacheChars len stamp m"
  by (induction m) (auto simp: map_delete_def)

lemma chars_fold_delete: "apiCacheChars len stamp (fold map_delete ks m) \<le> apiCacheChars len stamp m"
  by (induction ks arbitrary: m) (simp, metis chars_delete fold_simps(2) le_trans)

lemma chars_set_other: "\<not> is_cache_key k \<Longrightarrow> apiCacheChars len stamp (map_set k v m) = apiCacheChars len stamp m"
  by (induction k v m rule: map_set.induct) auto

lemma chars_set: "apiCacheChars len stamp (map_set k v m) \<le> apiCacheChars len stamp m + length k + len v"
  by (induction k v m rule: map_set.induct) auto

lemma cacheRows_delete:
  "cacheRows len stamp (map_delete k m) = filter (\<lambda>row. row_key row \<noteq> k) (cacheRows len stamp m)"
  by (induction m) (auto simp: cacheRows_def map_delete_def)

lemma distinct_cacheRows: "map_ok m \<Longrightarrow> distinct (map row_key (cacheRows len stamp m))"
  by (auto simp: cacheRows_def map_ok_def comp_def split_def distinct_map intro: inj_on_subset)

lemma free_rows_budget:
  "\<lbrakk>map_ok m; mset (cacheRows len stamp m) = mset rows\<rbrakk> \<Longrightarrow>
     int (apiCacheChars len stamp (fst (free_rows target rows (m, int (sum_list (map row_chars rows)), fr)))) \<le> max 0 target"
proof (induction rows arbitrary: m fr)
  case Nil
  then show ?case by (simp add: apiCacheChars_def)
next
  case (Cons row rows)
  have chars: "int (apiCacheChars len stamp m) = int (sum_list (map row_chars (row # rows)))"
    using Cons.prems(2) by (metis apiCacheChars_def mset_map sum_mset_sum_list)
  show ?case
  proof (cases "int (sum_list (map row_chars (row # rows))) \<le> max 0 target")
    case True
    with chars show ?thesis by simp
  next
    case False
    have "distinct (map row_key (row # rows))"
        using distinct_cacheRows [OF Cons.prems(1)] Cons.prems(2) by (metis mset_map mset_eq_imp_distinct_iff)
    then have "filter (\<lambda>r. row_key r \<noteq> row_key row) (row # rows) = rows"
      by (auto simp: filter_id_conv image_iff)
    then have "mset (cacheRows len stamp (map_delete (row_key row) m)) = mset rows"
      using Cons.prems(2) by (metis cacheRows_delete mset_filter)
    from Cons.IH [OF map_ok_delete [OF Cons.prems(1)] this] False show ?thesis by simp
  qed
qed

lemma free_budget:
  "map_ok m \<Longrightarrow> int (apiCacheChars len stamp (fst (freeApiCacheSpace len stamp target m))) \<le> max 0 target"
  using free_rows_budget [of m len stamp "js_sort (\<lambda>a b. row_storedAtMs a - row_storedAtMs b) (cacheRows len stamp m)" target 0]
  by (simp add: freeApiCacheSpace_def Let_def split_def)

lemma free_rows_sub: "map_ok m \<Longrightarrow> map_ok (fst (free_rows target rows (m, c, fr))) \<and>
    total_chars len (fst (free_rows target rows (m, c, fr))) \<le> total_chars len m"
proof (induction rows arbitrary: m c fr)
  case (Cons row rows)
  have "total_chars len (map_delete k m) \<le> total_chars len m" for k
    by (induction m) (auto simp: total_chars_def map_delete_def)
  then have "total_chars len (fst (free_rows target rows (map_delete k m, c', fr'))) \<le> total_chars len m" for k c' fr'
    using Cons.IH [OF map_ok_delete [OF Cons.prems]] le_trans by blast
  with Cons.IH [OF map_ok_delete [OF Cons.prems]] Cons.prems show ?case by simp
qed simp

lemma free_sub: "map_ok m \<Longrightarrow> map_ok (fst (freeApiCacheSpace len stamp target m)) \<and>
    total_chars len (fst (freeApiCacheSpace len stamp target m)) \<le> total_chars len m"
  using free_rows_sub [of m] by (simp add: freeApiCacheSpace_def Let_def split_def)

text \<open>What the copies keep of \<open>localStorage\<close>: its form, the budget, the quota, and every other key.\<close>

definition tidy :: "api_env \<Rightarrow> copy_text storage \<Rightarrow> copy_text storage \<Rightarrow> bool" where
  "tidy env m m' \<longleftrightarrow> map_ok m' \<and>
     apiCacheChars (copy_chars env) text_stamp m' \<le> max API_CACHE_BUDGET_CHARS (apiCacheChars (copy_chars env) text_stamp m) \<and>
     (total_chars (copy_chars env) m \<le> e_quota env \<longrightarrow> total_chars (copy_chars env) m' \<le> e_quota env) \<and>
     (\<forall>k. \<not> is_cache_key k \<and> k \<noteq> PROBE_KEY \<longrightarrow> map_get m' k = map_get m k)"

lemma tidy_refl: "map_ok m \<Longrightarrow> tidy env m m"
  by (simp add: tidy_def)

lemma tidy_trans: "\<lbrakk>tidy env m m'; tidy env m' m''\<rbrakk> \<Longrightarrow> tidy env m m''"
  by (auto simp: tidy_def)

lemma total_delete: "total_chars len (map_delete k m) \<le> total_chars len m"
  by (induction m) (auto simp: total_chars_def map_delete_def)

lemma tidy_delete: "\<lbrakk>map_ok m; is_cache_key k \<or> k = PROBE_KEY\<rbrakk> \<Longrightarrow> tidy env m (map_delete k m)"
  using chars_delete [of "copy_chars env" text_stamp k m] total_delete [of "copy_chars env" k m]
  by (auto simp: tidy_def map_ok_delete map_get_delete)

lemma tidy_fold_delete: "\<lbrakk>map_ok m; \<forall>k \<in> set ks. is_cache_key k\<rbrakk> \<Longrightarrow> tidy env m (fold map_delete ks m)"
proof (induction ks arbitrary: m)
  case (Cons k ks)
  have "tidy env (map_delete k m) (fold map_delete ks (map_delete k m))"
    using Cons by (simp add: map_ok_delete)
  with tidy_delete [of m k env] Cons.prems show ?case by (auto intro: tidy_trans)
qed (simp add: tidy_refl)

lemma delete_set: "map_delete k (map_set k v m) = map_delete k m"
  by (induction k v m rule: map_set.induct) (auto simp: map_delete_def)

lemma available_result:
  "localStorageAvailable env ls = (okay, ls') \<Longrightarrow>
     ls' = (if okay then map_option (map_delete PROBE_KEY) ls else ls) \<and> (okay \<longrightarrow> ls \<noteq> None)"
  by (auto simp: localStorageAvailable_def setItem_def delete_set split: option.splits if_splits)

definition tidy_opt :: "api_env \<Rightarrow> copy_text storage option \<Rightarrow> copy_text storage option \<Rightarrow> bool" where
  "tidy_opt env ls ls' \<longleftrightarrow> (case ls of None \<Rightarrow> ls' = None | Some m \<Rightarrow> (\<exists>m'. ls' = Some m' \<and> tidy env m m'))"

lemma tidy_opt_refl: "(\<And>m. ls = Some m \<Longrightarrow> map_ok m) \<Longrightarrow> tidy_opt env ls ls"
  by (auto simp: tidy_opt_def tidy_refl split: option.split)

lemma tidy_opt_trans: "\<lbrakk>tidy_opt env a b; tidy_opt env b c\<rbrakk> \<Longrightarrow> tidy_opt env a c"
  by (auto simp: tidy_opt_def split: option.splits intro: tidy_trans)

lemma tidy_opt_ok: "\<lbrakk>tidy_opt env ls ls'; ls' = Some m\<rbrakk> \<Longrightarrow> map_ok m"
  by (auto simp: tidy_opt_def tidy_def split: option.splits)

lemma cache_key [simp]: "is_cache_key (persistentCacheKey k)" "\<not> is_cache_key PROBE_KEY"
  by (simp_all add: is_cache_key_def persistentCacheKey_def API_CACHE_PREFIX_def PROBE_KEY_def starts_with_def)

lemma persistent_not_probe [simp]: "persistentCacheKey k \<noteq> PROBE_KEY" "PROBE_KEY \<noteq> persistentCacheKey k"
  by (simp_all add: persistentCacheKey_def API_CACHE_PREFIX_def PROBE_KEY_def)

lemma available_tidy:
  assumes "localStorageAvailable env ls = (okay, ls')" and "\<And>m. ls = Some m \<Longrightarrow> map_ok m"
  shows "tidy_opt env ls ls'"
  using available_result [OF assms(1)] assms(2)
  by (cases ls) (auto simp: tidy_opt_def tidy_delete tidy_refl)

text \<open>A step that leaves the storages in order: \<open>localStorage\<close> tidy and the memory within its size.\<close>

definition keeps_room :: "api_env \<Rightarrow> api_store \<Rightarrow> api_store \<Rightarrow> bool" where
  "keeps_room env s s' \<longleftrightarrow> ((\<forall>m. c_local s = Some m \<longrightarrow> map_ok m) \<longrightarrow> tidy_opt env (c_local s) (c_local s')) \<and>
     (length (c_mem s) \<le> MAX_RESPONSE_CACHE_ENTRIES \<longrightarrow> length (c_mem s') \<le> MAX_RESPONSE_CACHE_ENTRIES)"

lemma keeps_room_refl [simp]: "keeps_room env s s"
  by (simp add: keeps_room_def tidy_opt_refl)

lemma keeps_room_same: "\<lbrakk>c_local s' = c_local s; c_mem s' = c_mem s\<rbrakk> \<Longrightarrow> keeps_room env s s'"
  unfolding keeps_room_def by (simp add: tidy_opt_refl)

lemma keeps_room_trans: "\<lbrakk>keeps_room env a b; keeps_room env b c\<rbrakk> \<Longrightarrow> keeps_room env a c"
proof -
  assume a: "keeps_room env a b" and b: "keeps_room env b c"
  have "tidy_opt env (c_local a) (c_local c)" if "\<forall>m. c_local a = Some m \<longrightarrow> map_ok m"
  proof -
    have t: "tidy_opt env (c_local a) (c_local b)" using a that by (simp add: keeps_room_def)
    then have "\<forall>m. c_local b = Some m \<longrightarrow> map_ok m" by (simp add: tidy_opt_ok)
    with t b show ?thesis by (auto simp: keeps_room_def intro: tidy_opt_trans)
  qed
  with a b show ?thesis by (simp add: keeps_room_def)
qed

lemma keeps_room_local:
  "((\<And>m. c_local s = Some m \<Longrightarrow> map_ok m) \<Longrightarrow> tidy_opt env (c_local s) ls') \<Longrightarrow>
     keeps_room env s (s\<lparr>c_local := ls'\<rparr>)"
  by (simp add: keeps_room_def)

lemma cacheResponse_bound: "length (cacheResponse now k entry mem) \<le> MAX_RESPONSE_CACHE_ENTRIES"
  by (simp add: cacheResponse_def Let_def)

lemma keeps_room_mem:
  "(length (c_mem s) \<le> MAX_RESPONSE_CACHE_ENTRIES \<Longrightarrow> length mem' \<le> MAX_RESPONSE_CACHE_ENTRIES) \<Longrightarrow>
     keeps_room env s (s\<lparr>c_mem := mem'\<rparr>)"
  by (simp add: keeps_room_def tidy_opt_refl)

lemma readMemory_keeps: "keeps_room env s (s\<lparr>c_mem := snd (readMemoryGetCache k now swr (c_mem s))\<rparr>)"
  by (rule keeps_room_mem) (auto simp: readMemoryGetCache_def map_delete_def Let_def split: option.split intro: le_trans [OF length_filter_le])

lemma tidy_opt_delete:
  "\<lbrakk>tidy_opt env ls (Some m); is_cache_key k\<rbrakk> \<Longrightarrow> tidy_opt env ls (Some (map_delete k m))"
  by (rule tidy_opt_trans, assumption) (simp add: tidy_opt_def tidy_delete tidy_opt_ok)

lemma readPersistent_keeps: "keeps_room env s (s\<lparr>c_local := snd (readPersistentGetCache env k now swr (c_local s))\<rparr>)"
proof (rule keeps_room_local)
  assume ok: "\<And>m. c_local s = Some m \<Longrightarrow> map_ok m"
  obtain okay ls' where a: "localStorageAvailable env (c_local s) = (okay, ls')" by force
  note t = available_tidy [OF a ok]
  show "tidy_opt env (c_local s) (snd (readPersistentGetCache env k now swr (c_local s)))"
    using t tidy_opt_delete [of env "c_local s" _ "persistentCacheKey k"]
    by (auto simp: readPersistentGetCache_def a Let_def split: bool.split option.split copy_text.split)
qed

lemma prune_scan_cache:
  "(\<forall>k \<in> set (snd (prune_scan now m)). is_cache_key k) \<and> (\<forall>x \<in> set (fst (prune_scan now m)). is_cache_key (fst x))"
proof (induction now m rule: prune_scan.induct)
  case (2 now k t rest)
  obtain r1 d1 where a: "prune_scan now (drop 1 rest) = (r1, d1)" by force
  obtain r2 d2 where b: "prune_scan now rest = (r2, d2)" by force
  show ?case
  proof (cases "\<not> is_cache_key k \<or> t = Text []")
    case True
    with 2(1) show ?thesis by simp
  next
    case False
    note out = this
    show ?thesis
    proof (cases "expired_copy now t")
      case True
      with out 2(2) [OF out True] a show ?thesis by simp
    next
      case False
      with out 2(3) [OF out False] b show ?thesis by simp
    qed
  qed
qed simp

lemma prune_scan_keys:
  "prune_scan now m = (rows, dead) \<Longrightarrow> (\<forall>k \<in> set dead. is_cache_key k) \<and> (\<forall>k \<in> fst ` set rows. is_cache_key k)"
  using prune_scan_cache [of now m] by simp

lemma prune_keeps: "keeps_room env s (prunePersistentCache env now n s)"
proof -
  obtain okay ls' where a: "localStorageAvailable env (c_local s) = (okay, ls')" by force
  have r: "c_mem (prunePersistentCache env now n s) = c_mem s"
    by (auto simp: prunePersistentCache_def a Let_def split: bool.split option.split prod.split)
  have "tidy_opt env (c_local s) (c_local (prunePersistentCache env now n s))"
    if ok: "\<And>m. c_local s = Some m \<Longrightarrow> map_ok m"
  proof -
    note t = available_tidy [OF a ok]
    have "tidy_opt env (c_local s) (Some (fold map_delete (map fst (take j (js_sort c rows))) (fold map_delete dead m)))"
      if "ls' = Some m" "prune_scan now m = (rows, dead)" for m rows dead j c
    proof -
      have "map_ok m" using tidy_opt_ok [OF t that(1)] .
      then have d: "tidy env m (fold map_delete dead m)"
        using prune_scan_keys [OF that(2)] by (intro tidy_fold_delete) auto
      then have "map_ok (fold map_delete dead m)" by (simp add: tidy_def)
      then have "tidy env (fold map_delete dead m) (fold map_delete (map fst (take j (js_sort c rows))) (fold map_delete dead m))"
        using prune_scan_keys [OF that(2)] in_set_takeD by (intro tidy_fold_delete) fastforce+
      with d t that(1) show ?thesis by (auto simp: tidy_opt_def split: option.splits intro: tidy_trans)
    qed
    with t show ?thesis
      by (auto simp: prunePersistentCache_def a Let_def split: bool.split option.split prod.split)
  qed
  with r show ?thesis by (simp add: keeps_room_def)
qed

lemma readCacheAnyAge_state:
  "readCacheAnyAge env k now s = (x, s') \<Longrightarrow> s' = s\<lparr>c_local := snd (localStorageAvailable env (c_local s))\<rparr>"
  by (auto simp: readCacheAnyAge_def Let_def split: prod.splits)

lemma available_keeps: "keeps_room env s (s\<lparr>c_local := snd (localStorageAvailable env (c_local s))\<rparr>)"
  by (rule keeps_room_local) (metis available_tidy prod.collapse)

lemma anyAge_keeps: "readCacheAnyAge env k now s = (x, s') \<Longrightarrow> keeps_room env s s'"
  by (drule readCacheAnyAge_state) (simp add: available_keeps)

lemma store_prune_same: "c_local (pruneStoredResponses now s) = c_local s \<and> c_mem (pruneStoredResponses now s) = c_mem s"
  by (auto simp: pruneStoredResponses_def Let_def split: option.split)

lemma database_put_same:
  "database_put k row now s = (x, s') \<Longrightarrow> c_local s' = c_local s \<and> c_mem s' = c_mem s"
  using store_prune_same by (auto simp: database_put_def split: prod.splits)

lemma putStored_same:
  "putStoredResponse env k row now s = (x, s') \<Longrightarrow> c_local s' = c_local s \<and> c_mem s' = c_mem s"
  by (auto simp: putStoredResponse_def Let_def store_prune_same dest!: database_put_same split: option.splits if_splits)

lemma getStored_same:
  "getStoredResponse env k now s = (x, s') \<Longrightarrow> c_local s' = c_local s \<and> c_mem s' = c_mem s"
  by (auto simp: getStoredResponse_def database_get_def split: option.splits if_splits prod.splits)

lemma fallback_keeps: "offlineStaleFallback env k now s = (x, s') \<Longrightarrow> keeps_room env s s'"
proof -
  assume f: "offlineStaleFallback env k now s = (x, s')"
  obtain q s1 where a: "readCacheAnyAge env k now s = (q, s1)" by force
  obtain g s2 where b: "getStoredResponse env k now s1 = (g, s2)" by force
  have "c_local s' = c_local s2 \<and> c_mem s' = c_mem s2"
    using f by (auto simp: offlineStaleFallback_def a b Let_def split: option.splits)
  with getStored_same [OF b] have "keeps_room env s1 s'" by (simp add: keeps_room_same)
  with anyAge_keeps [OF a] show ?thesis by (rule keeps_room_trans)
qed

lemma savedCopy_keeps: "savedCopyWithin env k maxAge now s = (x, s') \<Longrightarrow> keeps_room env s s'"
proof -
  assume f: "savedCopyWithin env k maxAge now s = (x, s')"
  obtain q s1 where a: "readCacheAnyAge env k now s = (q, s1)" by force
  obtain g s2 where b: "getStoredResponse env k now s1 = (g, s2)" by force
  have "s' = s1 \<or> s' = s2"
    using f by (auto simp: savedCopyWithin_def a b split: option.splits if_splits)
  with getStored_same [OF b] have "keeps_room env s1 s'" by (auto simp: keeps_room_same)
  with anyAge_keeps [OF a] show ?thesis by (rule keeps_room_trans)
qed

lemma write_copy_tidy:
  assumes "map_ok m" and "write_copy env (persistentCacheKey k) entry m = (okay, m')"
  shows "tidy env m m'"
proof -
  let ?len = "copy_chars env" and ?key = "persistentCacheKey k"
  define n where "n = int API_CACHE_BUDGET_CHARS - int (length ?key) - int (?len entry)"
  define m1 where "m1 = fst (freeApiCacheSpace ?len text_stamp n m)"
  show ?thesis
  proof (cases "n < 0")
    case True
    with assms show ?thesis by (simp add: write_copy_def n_def Let_def tidy_refl)
  next
    case False
    have c: "int (apiCacheChars ?len text_stamp m1) \<le> n" and f: "map_ok m1" "total_chars ?len m1 \<le> total_chars ?len m"
      using free_budget [OF assms(1), of ?len text_stamp n] free_sub [OF assms(1), of ?len text_stamp n] False
      by (simp_all add: m1_def)
    have g: "\<not> is_cache_key j \<Longrightarrow> map_get m1 j = map_get m j" for j
      unfolding m1_def by (rule freeApiCacheSpace_keeps)
    have "tidy env m m1" using c f g False by (auto simp: tidy_def n_def)
    moreover have "tidy env m (map_set ?key entry m1)" if "total_chars ?len (map_set ?key entry m1) \<le> e_quota env"
      using that c f g chars_set [of ?len text_stamp ?key entry m1]
      by (auto simp: tidy_def n_def map_ok_set map_get_set)
    moreover have "m' = m1 \<or> m' = map_set ?key entry m1 \<and> total_chars ?len m' \<le> e_quota env"
      using assms(2) False
      by (auto simp: write_copy_def setItem_def n_def m1_def Let_def split: prod.splits if_splits)
    ultimately show ?thesis by auto
  qed
qed

lemma writePersistent_keeps: "writePersistentGetCache env k r ttl now s = (x, s') \<Longrightarrow> keeps_room env s s'"
proof -
  assume w: "writePersistentGetCache env k r ttl now s = (x, s')"
  define row where "row = stored_copy r now (now + max ttl PERSIST_GET_CACHE_TTL_MS)"
  define entry where "entry = Copy (persistent_payload r now ttl (now + max ttl PERSIST_GET_CACHE_TTL_MS))"
  note def = writePersistentGetCache_def [of env k r ttl now s, folded row_def entry_def]
  have put: "keeps_room env t t'" if "putStoredResponse env k row now t = (b, t')" for b t t'
    using putStored_same [OF that] by (simp add: keeps_room_same)
  have copy: "keeps_room env s (s\<lparr>c_local := Some m1\<rparr>)"
    if "c_local s = Some m" "write_copy env (persistentCacheKey k) entry m = (b, m1)" for m b m1
    using that write_copy_tidy [OF _ that(2)] by (intro keeps_room_local) (simp add: tidy_opt_def)
  have cut: "keeps_room env t (t\<lparr>c_local := map_option (map_delete (persistentCacheKey k)) (c_local t)\<rparr>)" for t
    by (intro keeps_room_local) (auto simp: tidy_opt_def tidy_delete split: option.split)
  show ?thesis
  proof (cases "ttl \<le> 0")
    case True
    with w show ?thesis by (simp add: def)
  next
    case False
    note pos = this
    show ?thesis
    proof (cases "e_native env \<or> PERSIST_GET_CACHE_MAX_BODY_BYTES < length (response_text r)")
      case True
      obtain b t where p: "putStoredResponse env k row now s = (b, t)" by force
      have "s' = t \<or> s' = t\<lparr>c_local := map_option (map_delete (persistentCacheKey k)) (c_local t)\<rparr>"
        using w True pos p by (auto simp: def Let_def row_def split: if_splits)
      with put [OF p] cut [of t] show ?thesis by (auto intro: keeps_room_trans)
    next
      case False
      show ?thesis
      proof (cases "c_local s")
        case None
        with w False pos have "putStoredResponse env k row now s = (x, s')" by (simp add: def Let_def row_def)
        then show ?thesis by (rule put)
      next
        case (Some m)
        obtain b m1 where c: "write_copy env (persistentCacheKey k) entry m = (b, m1)" by force
        note kc = copy [OF Some c]
        show ?thesis
        proof (cases b)
          case True
          then have "s' = prunePersistentCache env now (max 20 PERSIST_GET_CACHE_MAX_ENTRIES) (s\<lparr>c_local := Some m1\<rparr>)"
            using w False pos Some c by (auto simp: def Let_def entry_def)
          with kc prune_keeps show ?thesis by (auto intro: keeps_room_trans)
        next
          case no: False
          then have "putStoredResponse env k row now (s\<lparr>c_local := Some m1\<rparr>) = (x, s')"
            using w False pos Some c by (simp add: def Let_def entry_def row_def)
          with kc put show ?thesis by (blast intro: keeps_room_trans)
        qed
      qed
    qed
  qed
qed

lemma seed_keeps: "keeps_room env s (seedGetCache env k body ttl now s)"
  unfolding seedGetCache_def Let_def
  by (rule keeps_room_trans [OF keeps_room_mem writePersistent_keeps [OF surjective_pairing]])
     (rule cacheResponse_bound)

lemma hasSaved_keeps: "hasSavedApiResponse env k now s = (x, s') \<Longrightarrow> keeps_room env s s'"
  by (auto simp: hasSavedApiResponse_def intro: keeps_room_same dest!: getStored_same split: if_splits prod.splits)

text \<open>Everything the client does to its caches, at any times.\<close>

inductive cache_steps :: "api_env \<Rightarrow> api_store \<Rightarrow> api_store \<Rightarrow> bool" for env where
  Start: "cache_steps env s s"
| Remember: "cache_steps env s t \<Longrightarrow> cache_steps env s (t\<lparr>c_mem := cacheResponse now k entry (c_mem t)\<rparr>)"
| Forget: "cache_steps env s t \<Longrightarrow> cache_steps env s (t\<lparr>c_mem := map_delete k (c_mem t)\<rparr>)"
| Read_Memory: "cache_steps env s t \<Longrightarrow> cache_steps env s (t\<lparr>c_mem := snd (readMemoryGetCache k now swr (c_mem t))\<rparr>)"
| Read_Local: "cache_steps env s t \<Longrightarrow> cache_steps env s (t\<lparr>c_local := snd (readPersistentGetCache env k now swr (c_local t))\<rparr>)"
| Fall_Back: "\<lbrakk>cache_steps env s t; offlineStaleFallback env k now t = (x, u)\<rbrakk> \<Longrightarrow> cache_steps env s u"
| Show_Saved: "\<lbrakk>cache_steps env s t; savedCopyWithin env k maxAge now t = (y, u)\<rbrakk> \<Longrightarrow> cache_steps env s u"
| Save: "\<lbrakk>cache_steps env s t; writePersistentGetCache env k r ttl now t = (b, u)\<rbrakk> \<Longrightarrow> cache_steps env s u"
| Seed: "cache_steps env s t \<Longrightarrow> cache_steps env s (seedGetCache env k body ttl now t)"
| Ask: "\<lbrakk>cache_steps env s t; hasSavedApiResponse env k now t = (z, u)\<rbrakk> \<Longrightarrow> cache_steps env s u"

lemma cache_steps_keep: "cache_steps env s t \<Longrightarrow> keeps_room env s t"
proof (induction rule: cache_steps.induct)
  case (Forget s t k)
  have "keeps_room env t (t\<lparr>c_mem := map_delete k (c_mem t)\<rparr>)"
    by (rule keeps_room_mem) (simp add: map_delete_def le_trans [OF length_filter_le])
  with Forget show ?case by (blast intro: keeps_room_trans)
qed (blast intro: keeps_room_refl keeps_room_trans keeps_room_mem [OF cacheResponse_bound] readMemory_keeps
    readPersistent_keeps fallback_keeps savedCopy_keeps writePersistent_keeps seed_keeps hasSaved_keeps)+

text \<open>Claim C32: the saved copies stay in their place.  Whatever the client reads, saves, seeds or prunes,
  at whatever times and however full the storage is: its copies in \<open>localStorage\<close> stay within their
  budget, no key that is not one of its own is touched, a storage within its quota stays so, and the
  memory of a tab holds at most two hundred answers.\<close>

theorem copies_stay_in_their_place:
  assumes "cache_steps env s t" and "c_local s = Some m" and "map_ok m"
    and "apiCacheChars (copy_chars env) text_stamp m \<le> API_CACHE_BUDGET_CHARS"
    and "length (c_mem s) \<le> MAX_RESPONSE_CACHE_ENTRIES"
  shows "\<exists>m'. c_local t = Some m' \<and> apiCacheChars (copy_chars env) text_stamp m' \<le> API_CACHE_BUDGET_CHARS \<and>
    (\<forall>k. \<not> is_cache_key k \<and> k \<noteq> PROBE_KEY \<longrightarrow> map_get m' k = map_get m k) \<and>
    (total_chars (copy_chars env) m \<le> e_quota env \<longrightarrow> total_chars (copy_chars env) m' \<le> e_quota env) \<and>
    length (c_mem t) \<le> MAX_RESPONSE_CACHE_ENTRIES"
  using cache_steps_keep [OF assms(1)] assms(2-) by (auto simp: keeps_room_def tidy_opt_def tidy_def)

definition small_env :: api_env where
  "small_env = \<lparr>e_native = False, e_quota = 1000, e_chars = (\<lambda>p. 100 + length (nullish (pc_bodyText p) []))\<rparr>"

definition empty_store :: "copy_text storage \<Rightarrow> api_store" where
  "empty_store m = \<lparr>c_mem = [], c_local = Some m, c_lastPruneAtMs = 0, c_caches = Some [], c_match_ok = True, c_put_ok = True,
     c_db = Some [], c_lastStorePruneAtMs = 0, c_notices = 0\<rparr>"

definition answer :: "string \<Rightarrow> response" where
  "answer body = \<lparr>rs_status = 200, rs_statusText = ''OK'', rs_headers = [], rs_body = Some body\<rparr>"

lemma copies_stay_in_their_place_witness:
  "\<exists>m'. c_local (snd (writePersistentGetCache small_env ''GET:w0:/a'' (answer ''[]'') 8000 5 (empty_store [(''draft'', Text ''x'')]))) = Some m' \<and>
     map_get m' ''draft'' = Some (Text ''x'')"
proof -
  let ?s = "empty_store [(''draft'', Text ''x'')]"
  obtain b u where w: "writePersistentGetCache small_env ''GET:w0:/a'' (answer ''[]'') 8000 5 ?s = (b, u)" by force
  have st: "cache_steps small_env ?s u" by (rule cache_steps.Save [OF cache_steps.Start w])
  have l: "c_local ?s = Some [(''draft'', Text ''x'')]" "map_ok [(''draft'', Text ''x'')]"
    "apiCacheChars (copy_chars small_env) text_stamp [(''draft'', Text ''x'')] \<le> API_CACHE_BUDGET_CHARS"
    "length (c_mem ?s) \<le> MAX_RESPONSE_CACHE_ENTRIES"
    by (simp_all add: empty_store_def map_ok_def is_cache_key_def starts_with_def API_CACHE_PREFIX_def)
  have k: "\<not> is_cache_key ''draft''" "''draft'' \<noteq> PROBE_KEY"
    by (simp_all add: is_cache_key_def starts_with_def API_CACHE_PREFIX_def PROBE_KEY_def)
  obtain m' where m: "c_local u = Some m'"
    "\<forall>k. \<not> is_cache_key k \<and> k \<noteq> PROBE_KEY \<longrightarrow> map_get m' k = map_get [(''draft'', Text ''x'')] k"
    using copies_stay_in_their_place [OF st l] by blast
  have "map_get m' ''draft'' = map_get [(''draft'', Text ''x'')] ''draft''" using m(2) k by blast
  with m(1) show ?thesis unfolding w by (simp add: map_get_def)
qed

section \<open>A saved copy is found again\<close>

definition mem_copy :: "string \<Rightarrow> api_store \<Rightarrow> (int \<times> response) option" where
  "mem_copy k s = map_option (\<lambda>c. (cr_storedAtMs c, cr_response c)) (map_get (c_mem s) k)"

definition local_copy :: "api_env \<Rightarrow> string \<Rightarrow> api_store \<Rightarrow> (int \<times> response) option" where
  "local_copy env k s = (case localStorageAvailable env (c_local s) of
     (True, Some m) \<Rightarrow> (case raw_copy m k of
         Some (Copy p) \<Rightarrow> map_option (\<lambda>r. (nullish (pc_storedAtMs p) 0, r)) (copy_response p) | _ \<Rightarrow> None)
   | _ \<Rightarrow> None)"

definition newest :: "(int \<times> response) option \<Rightarrow> (int \<times> response) option \<Rightarrow> (int \<times> response) option" where
  "newest mem loc = (case loc of None \<Rightarrow> mem
     | Some (t, r) \<Rightarrow> if mem = None \<or> t > fst (the mem) then loc else mem)"

definition pick_copy :: "int \<Rightarrow> (int \<times> response) option \<Rightarrow> (response \<times> int) option \<Rightarrow> response option" where
  "pick_copy now quick stored = (case stored of
     None \<Rightarrow> map_option snd quick
   | Some (r, t) \<Rightarrow> if quick = None \<or> t > now - age_sec now (fst (the quick)) * 1000 then Some r
       else map_option snd quick)"

definition marked :: "response \<Rightarrow> response" where
  "marked r = r\<lparr>rs_headers := header_set ''X-From-Cache'' ''offline-stale'' (rs_headers r)\<rparr>"

lemma readCacheAnyAge_newest:
  "fst (readCacheAnyAge env k now s) = map_option (\<lambda>(t, r). \<lparr>lk_fresh = False, lk_response = r, lk_ageSec = age_sec now t\<rparr>)
     (newest (mem_copy k s) (local_copy env k s))"
proof -
  obtain okay ls' where a: "localStorageAvailable env (c_local s) = (okay, ls')" by force
  show ?thesis
    by (cases "map_get (c_mem s) k"; cases okay; cases ls')
       (auto simp: readCacheAnyAge_def mem_copy_def local_copy_def newest_def a Let_def
          split: option.split copy_text.split)
qed

lemma getStored_local: "fst (getStoredResponse env k now (s\<lparr>c_local := ls\<rparr>)) = fst (getStoredResponse env k now s)"
  by (auto simp: getStoredResponse_def database_get_def split: option.split prod.split)

lemma fallback_pick:
  "fst (offlineStaleFallback env k now s) = (case fst (getStoredResponse env k now s) of None \<Rightarrow> None
     | Some stored \<Rightarrow> Some (map_option marked (pick_copy now (newest (mem_copy k s) (local_copy env k s)) stored)))"
proof -
  obtain q s1 where a: "readCacheAnyAge env k now s = (q, s1)" by force
  obtain g s2 where b: "getStoredResponse env k now s1 = (g, s2)" by force
  have q: "q = map_option (\<lambda>(t, r). \<lparr>lk_fresh = False, lk_response = r, lk_ageSec = age_sec now t\<rparr>)
      (newest (mem_copy k s) (local_copy env k s))"
    using readCacheAnyAge_newest [of env k now s] a by simp
  have g: "fst (getStoredResponse env k now s) = g"
    using b readCacheAnyAge_state [OF a] getStored_local by (metis fst_conv)
  show ?thesis
    by (cases "newest (mem_copy k s) (local_copy env k s)"; cases g)
       (auto simp: offlineStaleFallback_def a b g q pick_copy_def marked_def Let_def split: option.split)
qed

lemma age_span:
  assumes "since \<le> (now :: int)"
  shows "since \<le> now - age_sec now since * 1000 \<and> now - age_sec now since * 1000 < since + 1000"
proof -
  have "(now - since) div 1000 * 1000 = (now - since) - (now - since) mod 1000"
    by (simp add: minus_mod_eq_div_mult)
  moreover have "0 \<le> (now - since) div 1000" using assms by (simp add: pos_imp_zdiv_nonneg_iff)
  moreover have "0 \<le> (now - since) mod 1000" "(now - since) mod 1000 < 1000" by simp_all
  ultimately show ?thesis by (simp add: age_sec_def)
qed

lemma pick_quick:
  "\<lbrakk>tq \<le> later; \<And>r t. stored = Some (r, t) \<Longrightarrow> t \<le> tq\<rbrakk> \<Longrightarrow> pick_copy later (Some (tq, rq)) stored = Some rq"
proof -
  assume a: "tq \<le> later" "\<And>r t. stored = Some (r, t) \<Longrightarrow> t \<le> tq"
  have "tq \<le> later - age_sec later tq * 1000" using age_span [OF a(1)] by simp
  with a(2) show ?thesis by (fastforce simp: pick_copy_def split: option.split)
qed

lemma pick_stored:
  "\<lbrakk>\<And>tq rq. quick = Some (tq, rq) \<Longrightarrow> tq \<le> t - 1000; t \<le> later\<rbrakk> \<Longrightarrow> pick_copy later quick (Some (r, t)) = Some r"
proof -
  assume a: "\<And>tq rq. quick = Some (tq, rq) \<Longrightarrow> tq \<le> t - 1000" "t \<le> later"
  have "later - age_sec later tq * 1000 < t" if "tq \<le> t - 1000" for tq
    using age_span [of tq later] that a(2) by simp
  with a(1) show ?thesis by (cases quick) (auto simp: pick_copy_def)
qed

text \<open>Pruning the newest row away takes more rows of its very time than the limit.\<close>

lemma map_get_set_iff: "map_ok m \<Longrightarrow> map_get m k = Some v \<longleftrightarrow> (k, v) \<in> set m"
  unfolding map_get_def map_ok_def by (metis map_of_eq_Some_iff)

lemma prune_rows_keeps:
  assumes "map_ok rows" and "(k, row) \<in> set rows" and "\<not> gone (k, row)" and "0 < n"
    and "\<And>j r. (j, r) \<in> set rows \<Longrightarrow> j \<noteq> k \<Longrightarrow> sr_storedAt r < sr_storedAt row"
  shows "(k, row) \<in> set (prune_rows now n gone rows)"
proof -
  define live where "live = filter (\<lambda>kv. \<not> gone kv) rows"
  define ys where "ys = js_sort (\<lambda>a b. sr_storedAt (snd a) - sr_storedAt (snd b)) live"
  define j where "j = length live - n"
  have d: "distinct (map fst ys)"
    using assms(1) by (simp add: ys_def live_def map_ok_def distinct_map_filter)
  have s: "sorted (map (sr_storedAt \<circ> snd) ys)"
    unfolding ys_def by (rule sorted_js_sort) (simp add: orders_by_def)
  have len: "length ys = length live" by (simp add: ys_def)
  have m: "(k, row) \<in> set ys" using assms(2,3) by (simp add: ys_def live_def)
  have sub: "set ys \<subseteq> set rows" by (auto simp: ys_def live_def)
  have "k \<notin> fst ` set (take j ys)"
  proof
    assume "k \<in> fst ` set (take j ys)"
    then obtain r where r: "(k, r) \<in> set (take j ys)" by auto
    then have "(k, r) \<in> set rows" using sub in_set_takeD by fastforce
    then have "r = row" using assms(1,2) map_get_set_iff by (metis option.inject)
    with r obtain i where i: "i < j" "i < length ys" "ys ! i = (k, row)"
      by (metis in_set_conv_nth length_take min_less_iff_conj nth_take)
    define l where "l = length ys - 1"
    have l: "i < l" "l < length ys" using i(1,2) assms(4) len by (auto simp: j_def l_def)
    obtain k' r' where e: "ys ! l = (k', r')" by force
    have "k' \<noteq> k" using d i l e by (metis distinct_conv_nth fst_conv length_map nat_neq_iff nth_map)
    then have "sr_storedAt r' < sr_storedAt row" using assms(5) sub l e by (metis nth_mem subsetD)
    moreover have "sr_storedAt row \<le> sr_storedAt r'"
      using sorted_nth_mono [OF s, of i l] i l e by simp
    ultimately show False by simp
  qed
  then show ?thesis using assms(2,3) by (auto simp: prune_rows_def Let_def live_def ys_def j_def)
qed

text \<open>The rows were stored before \<open>now\<close>, that of the key a second before, and make responses.\<close>

definition rows_before :: "string \<Rightarrow> int \<Rightarrow> (string, stored_row) jsmap option \<Rightarrow> bool" where
  "rows_before k now st \<longleftrightarrow> (case st of None \<Rightarrow> True
     | Some rows \<Rightarrow> map_ok rows \<and> (\<forall>(j, r) \<in> set rows. row_response r \<noteq> None \<and>
         (if j = k then sr_storedAt r \<le> now - 1000 else sr_storedAt r < now)))"

definition copies_before :: "string \<Rightarrow> response \<Rightarrow> int \<Rightarrow> api_store \<Rightarrow> bool" where
  "copies_before k r now s \<longleftrightarrow>
     (\<forall>c. map_get (c_mem s) k = Some c \<longrightarrow>
        cr_storedAtMs c \<le> now - 1000 \<or> cr_storedAtMs c = now \<and> cr_response c = r) \<and>
     (\<forall>m p. c_local s = Some m \<and> raw_copy m k = Some (Copy p) \<longrightarrow> nullish (pc_storedAtMs p) 0 \<le> now - 1000) \<and>
     rows_before k now (c_caches s) \<and> rows_before k now (c_db s)"

lemma prune_rows_sub: "set (prune_rows now n gone rows) \<subseteq> set rows"
  by (auto simp: prune_rows_def Let_def)

lemma prune_rows_ok: "map_ok rows \<Longrightarrow> map_ok (prune_rows now n gone rows)"
  by (simp add: prune_rows_def Let_def map_ok_def distinct_map_filter)

lemma map_ok_sort: "map_ok (js_sort c rows) \<longleftrightarrow> map_ok rows"
  by (simp add: map_ok_def)

lemma prune_get:
  assumes "map_ok rows" and "map_get rows k = Some row" and "\<not> gone (k, row)"
    and "\<And>j r. (j, r) \<in> set rows \<Longrightarrow> j \<noteq> k \<Longrightarrow> sr_storedAt r < sr_storedAt row"
  shows "map_get (prune_rows now MAX_ENTRIES gone rows) k = Some row"
proof -
  have "(k, row) \<in> set rows" using assms(1,2) by (simp add: map_get_set_iff)
  then have "(k, row) \<in> set (prune_rows now MAX_ENTRIES gone rows)"
    using assms(1,3,4) by (intro prune_rows_keeps) (auto simp: MAX_ENTRIES_def)
  then show ?thesis by (simp add: map_get_set_iff prune_rows_ok assms(1))
qed

lemma store_prune_fields:
  "c_db (pruneStoredResponses now s) =
     (if now - c_lastStorePruneAtMs s < 60000 then c_db s else pruneDatabaseResponses now MAX_ENTRIES (c_db s))"
  "c_caches (pruneStoredResponses now s) =
     (if now - c_lastStorePruneAtMs s < 60000 \<or> \<not> c_match_ok s then c_caches s
      else map_option (prune_rows now MAX_ENTRIES (\<lambda>(_, r). sr_retainUntil r \<noteq> 0 \<and> sr_retainUntil r \<le> now)) (c_caches s))"
  "c_match_ok (pruneStoredResponses now s) = c_match_ok s" "c_put_ok (pruneStoredResponses now s) = c_put_ok s"
  by (auto simp: pruneStoredResponses_def Let_def split: option.split)

lemma rows_before_put:
  assumes "rows_before k now (Some rows)" and "sr_storedAt row = now" and "set rows' = insert (k, row) {p \<in> set rows. fst p \<noteq> k}"
    and "(j, r) \<in> set rows'" and "j \<noteq> k"
  shows "sr_storedAt r < sr_storedAt row"
  using assms by (force simp: rows_before_def)

lemma rows_before_sub:
  "\<lbrakk>rows_before k now (Some rows); map_ok rows'; set rows' \<subseteq> set rows\<rbrakk> \<Longrightarrow> rows_before k now (Some rows')"
  unfolding rows_before_def option.case by (metis (no_types, lifting) subsetD)

lemma rows_before_prune:
  "rows_before k now db \<Longrightarrow> rows_before k now (pruneDatabaseResponses now n db)"
proof (cases db)
  case (Some rows)
  assume r: "rows_before k now db"
  then have "map_ok (js_sort by_key rows)" by (simp add: rows_before_def Some map_ok_sort)
  moreover have "set (prune_rows now n gone (js_sort by_key rows)) \<subseteq> set rows" for gone
    using prune_rows_sub [of now n gone "js_sort by_key rows"] by simp
  ultimately show ?thesis
    using rows_before_sub [OF r [unfolded Some]] by (simp add: Some pruneDatabaseResponses_def prune_rows_ok)
qed (simp add: pruneDatabaseResponses_def rows_before_def)

lemma database_put_found:
  assumes "rows_before k now (c_db s)" and "sr_storedAt row = now" and "sr_retainUntil row > later" and "now \<le> later"
    and "row_response row = Some x" and "database_put k row now s = (True, s1)"
  shows "fst (database_get k later s1) = Some (Some (x, now)) \<and>
    (c_caches s1 = c_caches s \<or> c_match_ok s \<and> (\<exists>rows gone. c_caches s = Some rows \<and>
       c_caches s1 = Some (prune_rows now MAX_ENTRIES gone rows))) \<and> c_match_ok s1 = c_match_ok s"
proof -
  from assms(6) obtain rows where rows: "c_db s = Some rows"
    "s1 = pruneStoredResponses now (s\<lparr>c_db := Some (map_set k row rows)\<rparr>)"
    by (auto simp: database_put_def putDatabaseResponse_def split: option.splits)
  define new where "new = map_set k row rows"
  have ok: "map_ok rows" using assms(1) rows(1) by (simp add: rows_before_def)
  have get: "map_get new k = Some row" "map_ok new" by (simp_all add: new_def map_get_set map_ok_set ok)
  have older: "\<And>j r. (j, r) \<in> set new \<Longrightarrow> j \<noteq> k \<Longrightarrow> sr_storedAt r < sr_storedAt row"
    using rows_before_put [OF assms(1) [unfolded rows(1)] assms(2), of new] set_map_set_eq [OF ok]
    by (simp add: new_def)
  have "map_get (prune_rows now MAX_ENTRIES (\<lambda>(_, r). sr_retainUntil r \<le> now) (js_sort by_key new)) k = Some row"
  proof (rule prune_get)
    show "map_get (js_sort by_key new) k = Some row"
      using get by (simp add: map_get_set_iff map_ok_sort)
  qed (use get older assms in \<open>simp_all add: map_ok_sort\<close>)
  moreover define db where "db = (if now - c_lastStorePruneAtMs s < 60000 then new
     else prune_rows now MAX_ENTRIES (\<lambda>(_, r). sr_retainUntil r \<le> now) (js_sort by_key new))"
  moreover have "c_db s1 = Some db"
    by (simp add: rows(2) store_prune_fields pruneDatabaseResponses_def db_def new_def)
  ultimately have "c_db s1 = Some db" "map_get db k = Some row" using get(1) by simp_all
  then have "fst (database_get k later s1) = Some (Some (x, now))"
    using assms(2,3,5) by (simp add: database_get_def getDatabaseResponse_def)
  moreover have "c_caches s1 = c_caches s \<or> c_match_ok s \<and> (\<exists>rows gone. c_caches s = Some rows \<and>
       c_caches s1 = Some (prune_rows now MAX_ENTRIES gone rows))"
    by (cases "c_caches s") (auto simp: rows(2) store_prune_fields)
  ultimately show ?thesis by (simp add: rows(2) store_prune_fields)
qed

lemma putStored_found:
  assumes "rows_before k now (c_db s)" "rows_before k now (c_caches s)" and "sr_storedAt row = now"
    and "sr_retainUntil row > later" and "now \<le> later" and "row_response row = Some x"
    and "c_put_ok s \<or> (\<forall>rows. c_caches s = Some rows \<longrightarrow> map_get rows k = None)"
    and "putStoredResponse env k row now s = (True, s1)"
  shows "fst (getStoredResponse env k later s1) = Some (Some (x, now))"
proof (cases "if e_native env then None else c_caches s")
  case None
  then have "database_put k row now s = (True, s1)" using assms(8) by (simp add: putStoredResponse_def)
  note D = database_put_found [OF assms(1,3,4,5,6) this]
  with None have "(if e_native env then None else c_caches s1) = None" by (auto split: if_splits)
  with D show ?thesis by (simp add: getStoredResponse_def)
next
  case (Some rows)
  then have c: "\<not> e_native env" "c_caches s = Some rows" by (simp_all split: if_splits)
  define new where "new = map_delete k rows @ [(k, row)]"
  have ok: "map_ok rows" using assms(2) c(2) by (simp add: rows_before_def)
  show ?thesis
  proof (cases "c_put_ok s")
    case False
    then have "database_put k row now s = (True, s1)"
      using assms(8) c by (simp add: putStoredResponse_def)
    note D = database_put_found [OF assms(1,3,4,5,6) this]
    have "map_get rows k = None" using False assms(7) c by simp
    moreover have "map_get (prune_rows now MAX_ENTRIES gone rows) k = None" if "map_get rows k = None" for gone
      using that prune_rows_sub [of now MAX_ENTRIES gone rows] ok prune_rows_ok [OF ok, of now MAX_ENTRIES gone]
      by (metis map_get_set_iff not_None_eq subsetD)
    ultimately obtain rows' where "c_caches s1 = Some rows'" "map_get rows' k = None" using D c by auto
    with D c show ?thesis by (simp add: getStoredResponse_def)
  next
    case True
    have new: "map_ok new" "map_get new k = Some row" "set new = insert (k, row) {p \<in> set rows. fst p \<noteq> k}"
      using ok map_get_delete [of k rows k]
      by (auto simp: new_def map_ok_def map_delete_def distinct_map_filter)
         (simp add: map_get_def map_add_def)
    show ?thesis
    proof (cases "c_match_ok s")
      case m: True
      then have s1: "s1 = pruneStoredResponses now (s\<lparr>c_caches := Some new\<rparr>)"
        using assms(6,8) c True by (simp add: putStoredResponse_def Let_def new_def)
      have "map_get (prune_rows now MAX_ENTRIES (\<lambda>(_, r). sr_retainUntil r \<noteq> 0 \<and> sr_retainUntil r \<le> now) new) k = Some row"
        using rows_before_put [OF assms(2) [unfolded c] assms(3) new(3)] new assms(4,5)
        by (intro prune_get) auto
      then obtain rows' where "c_caches s1 = Some rows'" "map_get rows' k = Some row" "c_match_ok s1"
        using new(2) m by (cases "now - c_lastStorePruneAtMs s < 60000") (simp_all add: s1 store_prune_fields)
      then show ?thesis using c assms(3,4,6) by (simp add: getStoredResponse_def)
    next
      case m: False
      then have s1: "database_put k row now (pruneStoredResponses now (s\<lparr>c_caches := Some new\<rparr>)) = (True, s1)"
        using assms(6,8) c True by (simp add: putStoredResponse_def Let_def new_def)
      have "rows_before k now (c_db (pruneStoredResponses now (s\<lparr>c_caches := Some new\<rparr>)))"
        using rows_before_prune [OF assms(1)] assms(1) by (simp add: store_prune_fields)
      note D = database_put_found [OF this assms(3,4,5,6) s1]
      then show ?thesis using c m by (auto simp: getStoredResponse_def store_prune_fields)
    qed
  qed
qed

lemma free_rows_get: "map_get (fst (free_rows target rows (m, c, fr))) j \<in> {None, map_get m j}"
proof (induction rows arbitrary: m c fr)
  case (Cons row rows)
  have "map_get (fst (free_rows target rows (map_delete (row_key row) m, c', fr'))) j \<in> {None, map_get m j}" for c' fr'
    using Cons.IH [of "map_delete (row_key row) m" c' fr'] by (auto simp: map_get_delete split: if_splits)
  then show ?case by simp
qed simp

lemma write_copy_get:
  assumes "write_copy env key entry m = (okay, m')"
  shows "(okay \<longrightarrow> map_get m' key = Some entry) \<and> (\<not> okay \<longrightarrow> map_get m' key \<in> {None, map_get m key})"
proof -
  define n where "n = int API_CACHE_BUDGET_CHARS - int (length key) - int (copy_chars env entry)"
  define m1 where "m1 = fst (freeApiCacheSpace (copy_chars env) text_stamp n m)"
  have "map_get m1 key \<in> {None, map_get m key}"
    using free_rows_get by (simp add: m1_def freeApiCacheSpace_def Let_def split_def)
  moreover obtain z where "freeApiCacheSpace (copy_chars env) text_stamp n m = (m1, z)"
    by (metis m1_def prod.collapse)
  ultimately show ?thesis
    using assms by (auto simp: write_copy_def setItem_def n_def [symmetric] Let_def map_get_set split: if_splits)
qed

lemma prune_get_local:
  assumes "c_local s = Some m"
  shows "\<exists>m'. c_local (prunePersistentCache env now n s) = Some m' \<and>
    map_get m' (persistentCacheKey k) \<in> {None, map_get m (persistentCacheKey k)}"
proof -
  have f: "map_get (fold map_delete ks m') j \<in> {None, map_get m' j}" for ks m' j
  proof (induction ks arbitrary: m')
    case (Cons x ks)
    from Cons.IH [of "map_delete x m'"] show ?case by (auto simp: map_get_delete split: if_splits)
  qed simp
  obtain okay ls' where a: "localStorageAvailable env (c_local s) = (okay, ls')" by force
  from available_result [OF a] assms obtain m1 where m1: "ls' = Some m1"
      "map_get m1 (persistentCacheKey k) = map_get m (persistentCacheKey k)"
    by (cases okay) (auto simp: map_get_delete)
  have "\<exists>ks ks'. c_local (prunePersistentCache env now n s) = Some (fold map_delete ks (fold map_delete ks' m1))"
  proof (cases "okay \<and> n \<noteq> 0 \<and> 60000 \<le> now - c_lastPruneAtMs s")
    case True
    then show ?thesis
      using m1 by (auto simp: prunePersistentCache_def a Let_def split: prod.split)
  next
    case False
    then have "c_local (prunePersistentCache env now n s) = Some (fold map_delete [] (fold map_delete [] m1))"
      using m1 by (auto simp: prunePersistentCache_def a Let_def split: bool.split)
    then show ?thesis by blast
  qed
  then obtain ks ks' where e: "c_local (prunePersistentCache env now n s) = Some (fold map_delete ks (fold map_delete ks' m1))"
    by blast
  have "map_get (fold map_delete ks (fold map_delete ks' m1)) (persistentCacheKey k) \<in> {None, map_get m (persistentCacheKey k)}"
    using f [of ks "fold map_delete ks' m1" "persistentCacheKey k"] f [of ks' m1 "persistentCacheKey k"] m1(2) by auto
  with e show ?thesis by simp
qed

lemma row_get_before:
  assumes "rows_before k now st"
  shows "case getDatabaseResponse k later st of (None, _) \<Rightarrow> True
     | (Some r, _) \<Rightarrow> row_response r \<noteq> None \<and> sr_storedAt r \<le> now - 1000"
proof (cases st)
  case (Some rows)
  with assms have "row_response r \<noteq> None \<and> sr_storedAt r \<le> now - 1000" if "map_get rows k = Some r" for r
    using that by (auto simp: rows_before_def map_get_set_iff)
  with Some show ?thesis by (auto simp: getDatabaseResponse_def split: option.split)
qed (simp add: getDatabaseResponse_def)

lemma getStored_before:
  assumes "rows_before k now (c_caches s)" and "rows_before k now (c_db s)"
  shows "\<exists>stored. fst (getStoredResponse env k later s) = Some stored \<and>
    (\<forall>r t. stored = Some (r, t) \<longrightarrow> t \<le> now - 1000)"
proof -
  have db: "\<exists>stored. fst (database_get k later t) = Some stored \<and> (\<forall>r u. stored = Some (r, u) \<longrightarrow> u \<le> now - 1000)"
    if "c_db t = c_db s" for t
    using row_get_before [OF assms(2), of later] that
    by (auto simp: database_get_def split: prod.splits option.splits)
  have cs: "row_response r \<noteq> None \<and> sr_storedAt r \<le> now - 1000" if "c_caches s = Some rows" "map_get rows k = Some r" for rows r
    using assms(1) that by (auto simp: rows_before_def map_get_set_iff)
  have "c_db (s\<lparr>c_caches := c\<rparr>) = c_db s" for c by simp
  with db cs show ?thesis
    by (auto simp: getStoredResponse_def split: option.splits)
qed

lemma putStored_mem: "putStoredResponse env k row now s = (x, s') \<Longrightarrow> mem_copy j s' = mem_copy j s"
  by (drule putStored_same) (simp add: mem_copy_def)

lemma newest_old:
  "\<lbrakk>\<And>t x. mem = Some (t, x) \<Longrightarrow> t \<le> n \<or> t = now \<and> x = r; \<And>t x. loc = Some (t, x) \<Longrightarrow> t \<le> n; n < now\<rbrakk> \<Longrightarrow>
     (\<forall>t x. newest mem loc = Some (t, x) \<longrightarrow> t \<le> n) \<or> newest mem loc = Some (now, r)"
  by (cases mem; cases loc) (auto simp: newest_def split: if_splits)

lemma local_copy_old:
  assumes "c_local s1 = None \<or> (\<exists>m1. c_local s1 = Some m1 \<and> (\<exists>m. c_local s = Some m \<and>
      map_get m1 (persistentCacheKey k) \<in> {None, map_get m (persistentCacheKey k)}))"
    and "copies_before k r now s" and "local_copy env k s1 = Some (t, x)"
  shows "t \<le> now - 1000"
proof -
  obtain okay ls' where a: "localStorageAvailable env (c_local s1) = (okay, ls')" by force
  from available_result [OF a] assms(3) a obtain m1 p where p: "c_local s1 = Some m1"
      "raw_copy (map_delete PROBE_KEY m1) k = Some (Copy p)" "t = nullish (pc_storedAtMs p) 0"
    by (auto simp: local_copy_def split: option.splits bool.splits copy_text.splits)
  then have "map_get m1 (persistentCacheKey k) = Some (Copy p)"
    by (auto simp: raw_copy_def map_get_delete split: option.splits copy_text.splits list.splits)
  with p(1) assms(1) obtain m where "c_local s = Some m" "map_get m (persistentCacheKey k) = Some (Copy p)" by auto
  then have "c_local s = Some m \<and> raw_copy m k = Some (Copy p)" by (simp add: raw_copy_def)
  with assms(2) p(3) show ?thesis unfolding copies_before_def by blast
qed

text \<open>A later state of the device in which nothing has changed, replaced or evicted a stored copy of the
  request; the copy in memory may be gone, as after a restart of the app.\<close>

definition same_copies :: "string \<Rightarrow> api_store \<Rightarrow> api_store \<Rightarrow> bool" where
  "same_copies k s u \<longleftrightarrow> map_get (c_mem u) k \<in> {None, map_get (c_mem s) k} \<and>
     map_option (\<lambda>m. map_get m (persistentCacheKey k)) (c_local u) =
       map_option (\<lambda>m. map_get m (persistentCacheKey k)) (c_local s) \<and>
     map_option (\<lambda>rows. map_get rows k) (c_caches u) = map_option (\<lambda>rows. map_get rows k) (c_caches s) \<and>
     map_option (\<lambda>rows. map_get rows k) (c_db u) = map_option (\<lambda>rows. map_get rows k) (c_db s) \<and>
     c_match_ok u = c_match_ok s"

lemma same_copies_refl: "same_copies k s s"
  by (simp add: same_copies_def)

lemma getDatabase_row: "fst (getDatabaseResponse k now db) =
    (case map_option (\<lambda>rows. map_get rows k) db of Some (Some r) \<Rightarrow>
       if sr_retainUntil r \<le> now then None else Some r | _ \<Rightarrow> None)"
  by (auto simp: getDatabaseResponse_def split: option.split)

lemma database_get_row: "fst (database_get k now s) = (case fst (getDatabaseResponse k now (c_db s)) of None \<Rightarrow> Some None
    | Some r \<Rightarrow> map_option (\<lambda>x. Some (x, sr_storedAt r)) (row_response r))"
  by (auto simp: database_get_def split: prod.split option.split)

lemma getStored_row: "fst (getStoredResponse env k now s) =
    (case (if e_native env \<or> \<not> c_match_ok s then None else map_option (\<lambda>rows. map_get rows k) (c_caches s)) of
       Some (Some r) \<Rightarrow> if sr_retainUntil r \<noteq> 0 \<and> sr_retainUntil r \<le> now then fst (database_get k now s)
         else Some (map_option (\<lambda>x. (x, sr_storedAt r)) (row_response r))
     | _ \<Rightarrow> fst (database_get k now s))"
  by (auto simp: getStoredResponse_def database_get_row split: option.split)

lemma getStored_copies: "same_copies k s u \<Longrightarrow> fst (getStoredResponse env k now u) = fst (getStoredResponse env k now s)"
  by (simp only: getStored_row database_get_row getDatabase_row same_copies_def)

lemma mem_copies_same: "same_copies k s u \<Longrightarrow> mem_copy k u = None \<or> mem_copy k u = mem_copy k s"
  by (auto simp: same_copies_def mem_copy_def)

lemma same_local:
  assumes "same_copies k s u"
  shows "c_local s = None \<and> c_local u = None \<or>
    (\<exists>m n. c_local s = Some m \<and> c_local u = Some n \<and> map_get n (persistentCacheKey k) = map_get m (persistentCacheKey k))"
  using assms by (cases "c_local s"; cases "c_local u") (simp_all add: same_copies_def)

text \<open>Where a write that reports success has put the copy: in the row stores, or in \<open>localStorage\<close>.  The
  copy of \<open>localStorage\<close> is not a newer one than before.\<close>

definition local_no_newer :: "string \<Rightarrow> api_store \<Rightarrow> api_store \<Rightarrow> bool" where
  "local_no_newer k s u \<longleftrightarrow> c_local u = None \<or> (\<exists>m1. c_local u = Some m1 \<and> (\<exists>m. c_local s = Some m \<and>
      map_get m1 (persistentCacheKey k) \<in> {None, map_get m (persistentCacheKey k)}))"

lemma write_went:
  assumes "writePersistentGetCache env k r ttl now s = (True, s1)"
  obtains s' t where "putStoredResponse env k (stored_copy r now (now + max ttl PERSIST_GET_CACHE_TTL_MS)) now s' = (True, t)"
      "c_db s' = c_db s" "c_caches s' = c_caches s" "c_put_ok s' = c_put_ok s" "c_mem s' = c_mem s"
      "s1 = t \<or> (\<exists>ls. s1 = t\<lparr>c_local := ls\<rparr>)" "local_no_newer k s s1"
  | m where "\<not> e_native env" "c_mem s1 = c_mem s" "c_caches s1 = c_caches s" "c_db s1 = c_db s" "c_local s1 = Some m"
      "map_get m (persistentCacheKey k) = Some (Copy (persistent_payload r now ttl (now + max ttl PERSIST_GET_CACHE_TTL_MS)))"
proof -
  define row where "row = stored_copy r now (now + max ttl PERSIST_GET_CACHE_TTL_MS)"
  define pay where "pay = persistent_payload r now ttl (now + max ttl PERSIST_GET_CACHE_TTL_MS)"
  note def = writePersistentGetCache_def [of env k r ttl now s, folded row_def pay_def]
  note R = that(1) [folded row_def] and L = that(2) [folded pay_def]
  have pos: "0 < ttl" using assms by (simp add: def split: if_splits)
  show thesis
  proof (cases "e_native env \<or> PERSIST_GET_CACHE_MAX_BODY_BYTES < length (response_text r)")
    case True
    obtain b t where p: "putStoredResponse env k row now s = (b, t)" by force
    have loc: "c_local t = c_local s" using putStored_same [OF p] by simp
    have b: "b" and t: "s1 = t \<or> s1 = t\<lparr>c_local := map_option (map_delete (persistentCacheKey k)) (c_local t)\<rparr>"
      using assms True pos p by (auto simp: def Let_def row_def pay_def split: if_splits)
    have "local_no_newer k s s1" using t loc by (cases "c_local s") (auto simp: local_no_newer_def map_get_delete)
    with R [of s t] p b t show thesis by auto
  next
    case False
    show thesis
    proof (cases "c_local s")
      case None
      with assms False pos have p: "putStoredResponse env k row now s = (True, s1)" by (simp add: def Let_def row_def pay_def)
      with None putStored_same [OF p] show thesis using R [OF p] by (simp add: local_no_newer_def)
    next
      case (Some m)
      obtain b m1 where c: "write_copy env (persistentCacheKey k) (Copy pay) m = (b, m1)" by force
      show thesis
      proof (cases b)
        case no: False
        then have p: "putStoredResponse env k row now (s\<lparr>c_local := Some m1\<rparr>) = (True, s1)"
          using assms False pos Some c by (simp add: def Let_def row_def pay_def)
        then show thesis
          using R [OF p] putStored_same [OF p] write_copy_get [OF c] no Some by (simp add: local_no_newer_def)
      next
        case True
        have s1: "s1 = prunePersistentCache env now (max 20 PERSIST_GET_CACHE_MAX_ENTRIES) (s\<lparr>c_local := Some m1\<rparr>)"
          and m: "case c_local s1 of None \<Rightarrow> False | Some m2 \<Rightarrow> map_get m2 (persistentCacheKey k) \<noteq> None"
          using assms False True pos Some c by (auto simp: def Let_def row_def pay_def)
        have "map_get m1 (persistentCacheKey k) = Some (Copy pay)" using write_copy_get [OF c] True by simp
        with m prune_get_local [of "s\<lparr>c_local := Some m1\<rparr>" m1 env now "max 20 PERSIST_GET_CACHE_MAX_ENTRIES" k]
        obtain m2 where m2: "c_local s1 = Some m2" "map_get m2 (persistentCacheKey k) = Some (Copy pay)"
          unfolding s1 by (auto split: option.splits)
        have "c_caches s1 = c_caches s" "c_db s1 = c_db s" "c_mem s1 = c_mem s"
          by (auto simp: s1 prunePersistentCache_def Let_def row_def pay_def split: prod.split bool.split option.split)
        with L m2 False show thesis by blast
      qed
    qed
  qed
qed

text \<open>The copies made of an answer give it back.\<close>

lemma copies_respond:
  assumes "rs_ok r" and "rs_status r \<notin> {204, 205}"
  shows "row_response (stored_copy r now T) = Some (r\<lparr>rs_body := Some (response_text r)\<rparr>)"
    "copy_response (persistent_payload r now ttl T) = Some (r\<lparr>rs_body := Some (response_text r)\<rparr>)"
  using assms
  by (auto simp: stored_copy_def persistent_payload_def row_response_def copy_response_def new_response_def rs_ok_def Let_def)

lemma fallback_gives:
  assumes "fst (getStoredResponse env k later u) = Some stored"
    and "pick_copy later (newest (mem_copy k u) (local_copy env k u)) stored \<in> {Some (r\<lparr>rs_body := Some (response_text r)\<rparr>), Some r}"
  shows "\<exists>x. fst (offlineStaleFallback env k later u) = Some (Some x) \<and> rs_status x = rs_status r \<and>
    rs_statusText x = rs_statusText r \<and> response_text x = response_text r \<and>
    map_get (rs_headers x) ''x-from-cache'' = Some ''offline-stale''"
proof -
  have "js_lower ''X-From-Cache'' = ''x-from-cache''" by code_simp
  then have "map_get (header_set ''X-From-Cache'' v hs) ''x-from-cache'' = Some v" for v hs
    by (simp add: header_set_def map_get_set)
  with assms show ?thesis by (auto simp: fallback_pick marked_def response_text_def)
qed

lemma memory_before:
  assumes "copies_before k r now s" and "same_copies k s1 u" and "mem_copy k s1 = mem_copy k s" and "mem_copy k u = Some (t, x)"
  shows "t \<le> now - 1000 \<or> t = now \<and> x = r"
proof -
  have "mem_copy k s = Some (t, x)" using mem_copies_same [OF assms(2)] assms(3,4) by auto
  then show ?thesis using assms(1) by (auto simp: mem_copy_def copies_before_def)
qed

text \<open>The pick among the copies when a row store holds the new one, and when \<open>localStorage\<close> does.\<close>

lemma pick_row:
  assumes "copies_before k r now s" and "same_copies k s1 u" and "mem_copy k s1 = mem_copy k s"
    and "local_no_newer k s s1" and "now \<le> later"
  shows "pick_copy later (newest (mem_copy k u) (local_copy env k u)) (Some (x0, now)) \<in> {Some x0, Some r}"
proof -
  have "c_local u = None \<or> (\<exists>m1. c_local u = Some m1 \<and> (\<exists>m. c_local s = Some m \<and>
      map_get m1 (persistentCacheKey k) \<in> {None, map_get m (persistentCacheKey k)}))"
    using same_local [OF assms(2)] assms(4) by (auto simp: local_no_newer_def)
  then have "(\<forall>t x. newest (mem_copy k u) (local_copy env k u) = Some (t, x) \<longrightarrow> t \<le> now - 1000) \<or>
      newest (mem_copy k u) (local_copy env k u) = Some (now, r)"
    using memory_before [OF assms(1-3)] local_copy_old [of u s k r now env] assms(1) by (intro newest_old) auto
  then show ?thesis
  proof
    assume "\<forall>t x. newest (mem_copy k u) (local_copy env k u) = Some (t, x) \<longrightarrow> t \<le> now - 1000"
    then show ?thesis using pick_stored [of _ now later x0] assms(5) by simp
  next
    assume "newest (mem_copy k u) (local_copy env k u) = Some (now, r)"
    then show ?thesis using pick_quick [OF assms(5), of "Some (x0, now)" r] by simp
  qed
qed

lemma pick_local:
  assumes "copies_before k r now s" and "same_copies k s1 u" and "mem_copy k s1 = mem_copy k s"
    and "local_copy env k u = Some (now, x0)" and "now \<le> later" and "\<And>x t. stored = Some (x, t) \<Longrightarrow> t \<le> now"
  shows "pick_copy later (newest (mem_copy k u) (local_copy env k u)) stored \<in> {Some x0, Some r}"
proof -
  have "newest (mem_copy k u) (local_copy env k u) \<in> {Some (now, x0), Some (now, r)}"
    using memory_before [OF assms(1-3)] assms(4) by (cases "mem_copy k u") (auto simp: newest_def)
  then show ?thesis using pick_quick [OF assms(5,6)] by auto
qed

text \<open>Claim C31: an answer saved for offline use is what the offline read finds.  If the client reports
  that it saved a successful answer, then until its retention ends, and as long as nothing the app does
  since changes or evicts a stored copy of that request (the one in memory may go, as in a restart), the
  fallback of the request gives that answer, marked as a saved one: from \<open>localStorage\<close>, Cache Storage or
  the database, whichever took it, and although older copies of it lie in the others.  The conditions: what the device held of the request before was
  saved at least a second earlier (the copy in memory may be this very answer), its stored rows make
  responses and those of other requests were saved before; in \<open>localStorage\<close> the answer is found if the
  probe of the read still fits; and a copy the database took because Cache Storage was full is found if
  Cache Storage has none of its own.  A later save of another request may evict the copy, by the budget
  or the row limits; then nothing is claimed.\<close>

theorem saved_answer_is_found_offline:
  assumes "writePersistentGetCache env k r ttl now s = (True, s1)"
    and "rs_ok r" and "rs_status r \<notin> {204, 205}" and "copies_before k r now s"
    and "now \<le> later" and "later < now + max ttl PERSIST_GET_CACHE_TTL_MS"
    and "same_copies k s1 u"
    and "e_native env \<or> fst (localStorageAvailable env (c_local u))"
    and "c_put_ok s \<or> (\<forall>rows. c_caches s = Some rows \<longrightarrow> map_get rows k = None)"
  shows "\<exists>x. fst (offlineStaleFallback env k later u) = Some (Some x) \<and> rs_status x = rs_status r \<and>
    rs_statusText x = rs_statusText r \<and> response_text x = response_text r \<and>
    map_get (rs_headers x) ''x-from-cache'' = Some ''offline-stale''"
  using assms(1)
proof (cases rule: write_went)
  case (1 s' t)
  have "rows_before k now (c_db s')" "rows_before k now (c_caches s')"
    "c_put_ok s' \<or> (\<forall>rows. c_caches s' = Some rows \<longrightarrow> map_get rows k = None)"
    using assms(4,9) 1(2-4) by (simp_all add: copies_before_def)
  then have "fst (getStoredResponse env k later t) = Some (Some (r\<lparr>rs_body := Some (response_text r)\<rparr>, now))"
    using assms(6) by (intro putStored_found [OF _ _ _ _ assms(5) copies_respond(1) [OF assms(2,3)] _ 1(1)])
      (simp_all add: stored_copy_def)
  then have "fst (getStoredResponse env k later u) = Some (Some (r\<lparr>rs_body := Some (response_text r)\<rparr>, now))"
    using 1(6) getStored_local getStored_copies [OF assms(7)] by auto
  moreover have "mem_copy k s1 = mem_copy k s"
    using putStored_mem [OF 1(1)] 1(5,6) by (auto simp: mem_copy_def)
  ultimately show ?thesis using pick_row [OF assms(4,7) _ 1(7) assms(5)] by (intro fallback_gives)
next
  case (2 m)
  let ?pay = "persistent_payload r now ttl (now + max ttl PERSIST_GET_CACHE_TTL_MS)"
  from same_local [OF assms(7)] 2(5,6) obtain n where n: "c_local u = Some n"
    "map_get n (persistentCacheKey k) = Some (Copy ?pay)" by auto
  obtain okay ls' where a: "localStorageAvailable env (c_local u) = (okay, ls')" by force
  have "okay" using assms(8) 2(1) a by simp
  then have l: "local_copy env k u = Some (now, r\<lparr>rs_body := Some (response_text r)\<rparr>)"
    using a available_result [OF a] n copies_respond(2) [OF assms(2,3)]
    by (simp add: local_copy_def raw_copy_def map_get_delete persistent_payload_def)
  have "rows_before k now (c_caches s1)" "rows_before k now (c_db s1)"
    using assms(4) 2(3,4) by (simp_all add: copies_before_def)
  from getStored_before [OF this, of env later] obtain stored
    where g: "fst (getStoredResponse env k later u) = Some stored" "\<And>x t. stored = Some (x, t) \<Longrightarrow> t \<le> now"
    using getStored_copies [OF assms(7)] by fastforce
  have "mem_copy k s1 = mem_copy k s" using 2(2) by (simp add: mem_copy_def)
  from fallback_gives [OF g(1) pick_local [OF assms(4,7) this l assms(5) g(2)]] show ?thesis .
qed

definition saved_store :: api_store where
  "saved_store = snd (writePersistentGetCache small_env ''GET:w0:/a'' (answer ''[1]'') 8000 5000 (empty_store []))"

definition saved_payload :: persistent_copy where
  "saved_payload = persistent_payload (answer ''[1]'') 5000 8000 345605000"

text \<open>A write into an empty \<open>localStorage\<close> with room, soon after the last pruning.\<close>

lemma write_empty:
  assumes "\<not> e_native env" and "0 < ttl" and "length (response_text r) \<le> PERSIST_GET_CACHE_MAX_BODY_BYTES"
    and "now < 60000" and "length (persistentCacheKey k) + e_chars env (persistent_payload r now ttl (now + max ttl PERSIST_GET_CACHE_TTL_MS)) \<le> e_quota env"
    and "e_quota env \<le> API_CACHE_BUDGET_CHARS"
  shows "fst (writePersistentGetCache env k r ttl now (empty_store [])) \<and>
    c_local (snd (writePersistentGetCache env k r ttl now (empty_store []))) =
      Some [(persistentCacheKey k, Copy (persistent_payload r now ttl (now + max ttl PERSIST_GET_CACHE_TTL_MS)))] \<and>
    c_mem (snd (writePersistentGetCache env k r ttl now (empty_store []))) = [] \<and>
    c_caches (snd (writePersistentGetCache env k r ttl now (empty_store []))) = Some [] \<and>
    c_db (snd (writePersistentGetCache env k r ttl now (empty_store []))) = Some []"
proof -
  define pay where "pay = Copy (persistent_payload r now ttl (now + max ttl PERSIST_GET_CACHE_TTL_MS))"
  have f: "freeApiCacheSpace len stamp t [] = ([], 0)" for len stamp t
    by (simp add: freeApiCacheSpace_def cacheRows_def)
  have c: "write_copy env (persistentCacheKey k) pay [] = (True, [(persistentCacheKey k, pay)])"
    using assms(5,6) by (simp add: write_copy_def f setItem_def total_chars_def copy_chars_def pay_def)
  have p: "prunePersistentCache env now n (empty_store []\<lparr>c_local := Some [(persistentCacheKey k, pay)]\<rparr>) =
      empty_store []\<lparr>c_local := Some [(persistentCacheKey k, pay)]\<rparr>" for n
  proof -
    obtain okay ls' where a: "localStorageAvailable env (Some [(persistentCacheKey k, pay)]) = (okay, ls')" by force
    have "ls' = Some [(persistentCacheKey k, pay)]" using available_result [OF a] by (simp add: map_delete_def)
    then show ?thesis using assms(4) a by (simp add: prunePersistentCache_def empty_store_def split: bool.split)
  qed
  show ?thesis
    using assms(1,2,3) c p
    by (simp add: writePersistentGetCache_def Let_def empty_store_def pay_def map_get_def)
qed

lemma saved_store_facts:
  "fst (writePersistentGetCache small_env ''GET:w0:/a'' (answer ''[1]'') 8000 5000 (empty_store [])) \<and>
   c_local saved_store = Some [(persistentCacheKey ''GET:w0:/a'', Copy saved_payload)]"
  using write_empty [of small_env 8000 "answer ''[1]''" 5000 "''GET:w0:/a''"]
  by (simp add: saved_store_def saved_payload_def small_env_def answer_def response_text_def PERSIST_GET_CACHE_MAX_BODY_BYTES_def
      PERSIST_GET_CACHE_TTL_MS_def API_CACHE_BUDGET_CHARS_def persistentCacheKey_def API_CACHE_PREFIX_def persistent_payload_def)

lemmas saved_store_local = saved_store_facts [THEN conjunct2]

lemma saved_store_eq:
  "writePersistentGetCache small_env ''GET:w0:/a'' (answer ''[1]'') 8000 5000 (empty_store []) = (True, saved_store)"
  using saved_store_facts by (simp add: saved_store_def prod_eq_iff)

lemma saved_answer_is_found_offline_witness:
  "\<exists>x. fst (offlineStaleFallback small_env ''GET:w0:/a'' 90000 saved_store) = Some (Some x) \<and> response_text x = ''[1]''"
proof -
  note w = saved_store_eq
  have o: "rs_ok (answer ''[1]'')" "rs_status (answer ''[1]'') \<notin> {204, 205}" by (simp_all add: rs_ok_def answer_def)
  have b: "copies_before ''GET:w0:/a'' (answer ''[1]'') 5000 (empty_store [])"
    by (simp add: copies_before_def empty_store_def raw_copy_def rows_before_def map_get_def)
  have t: "(5000 :: int) \<le> 90000" "(90000 :: int) < 5000 + max 8000 PERSIST_GET_CACHE_TTL_MS"
    by (simp_all add: PERSIST_GET_CACHE_TTL_MS_def)
  have "c_local saved_store = Some [(persistentCacheKey ''GET:w0:/a'', Copy saved_payload)]"
    using saved_store_local by simp
  then have a: "e_native small_env \<or> fst (localStorageAvailable small_env (c_local saved_store))"
    by (simp add: localStorageAvailable_def setItem_def total_chars_def copy_chars_def small_env_def PROBE_KEY_def
        persistentCacheKey_def API_CACHE_PREFIX_def saved_payload_def persistent_payload_def response_text_def answer_def)
  have p: "c_put_ok (empty_store []) \<or> (\<forall>rows. c_caches (empty_store []) = Some rows \<longrightarrow> map_get rows ''GET:w0:/a'' = None)"
    by (simp add: empty_store_def)
  show ?thesis
    using saved_answer_is_found_offline [OF w o b t same_copies_refl a p] by (auto simp: answer_def response_text_def)
qed

text \<open>In a storage without room for the probe the saved answer is there and is not read.\<close>

definition full_env :: api_env where
  "full_env = small_env\<lparr>e_quota := 136\<rparr>"

lemma full_storage_hides_the_copy:
  "fst (writePersistentGetCache full_env ''GET:w0:/a'' (answer ''[1]'') 8000 5000 (empty_store [])) \<and>
   fst (offlineStaleFallback full_env ''GET:w0:/a'' 90000
     (snd (writePersistentGetCache full_env ''GET:w0:/a'' (answer ''[1]'') 8000 5000 (empty_store [])))) = Some None"
proof -
  define s where "s = snd (writePersistentGetCache full_env ''GET:w0:/a'' (answer ''[1]'') 8000 5000 (empty_store []))"
  have f: "fst (writePersistentGetCache full_env ''GET:w0:/a'' (answer ''[1]'') 8000 5000 (empty_store []))"
    "c_local s = Some [(persistentCacheKey ''GET:w0:/a'', Copy saved_payload)]" "c_mem s = []" "c_caches s = Some []" "c_db s = Some []"
    using write_empty [of full_env 8000 "answer ''[1]''" 5000 "''GET:w0:/a''"]
    by (simp_all add: s_def saved_payload_def full_env_def small_env_def answer_def response_text_def PERSIST_GET_CACHE_MAX_BODY_BYTES_def
      PERSIST_GET_CACHE_TTL_MS_def API_CACHE_BUDGET_CHARS_def persistentCacheKey_def API_CACHE_PREFIX_def persistent_payload_def)
  have "\<not> fst (localStorageAvailable full_env (c_local s))"
    by (simp add: f(2) localStorageAvailable_def setItem_def total_chars_def copy_chars_def full_env_def small_env_def PROBE_KEY_def
        persistentCacheKey_def API_CACHE_PREFIX_def saved_payload_def persistent_payload_def response_text_def answer_def)
  then have "local_copy full_env ''GET:w0:/a'' s = None"
    by (auto simp: local_copy_def split: prod.split bool.split option.split)
  moreover have "fst (getStoredResponse full_env ''GET:w0:/a'' 90000 s) = Some None"
    by (simp add: getStoredResponse_def database_get_def getDatabaseResponse_def f map_get_def)
  ultimately have "fst (offlineStaleFallback full_env ''GET:w0:/a'' 90000 s) = Some None"
    by (simp add: fallback_pick mem_copy_def f map_get_def newest_def pick_copy_def)
  with f(1) show ?thesis by (simp add: s_def)
qed

end
