(* ===== verification/AccessTokens.thy ===== *)
theory AccessTokens
  imports JsValue
begin

text \<open>
  The tokens a tab holds besides its workspace session, from \<open>src/ScoutingApp/src/api.ts\<close>: the admin
  session, used only while admin mode is on, and one access token per room.  On the web they are in
  \<open>sessionStorage\<close>, in the native app in a map of the module.  A storage that throws is \<open>None\<close>; \<open>full\<close>
  says that \<open>setItem\<close> throws.  The clock and the expiry are in milliseconds and seconds.
\<close>

record token_store =
  tk_local :: "(string, string) jsmap option"
  tk_session :: "(string, string) jsmap option"
  tk_values :: "(string, string) jsmap"

definition ADMIN_SESSION_TOKEN_STORAGE :: string where
  "ADMIN_SESSION_TOKEN_STORAGE = ''scouting_admin_session_token_v1''"

definition ADMIN_SESSION_EXPIRES_AT_STORAGE :: string where
  "ADMIN_SESSION_EXPIRES_AT_STORAGE = ''scouting_admin_session_expires_at_v1''"

definition ADMIN_MODE_ENABLED_STORAGE :: string where
  "ADMIN_MODE_ENABLED_STORAGE = ''scouting_admin_mode_enabled''"

definition ROOM_ACCESS_TOKEN_STORAGE_PREFIX :: string where
  "ROOM_ACCESS_TOKEN_STORAGE_PREFIX = ''scouting_room_access_token_v1:''"

definition ROOM_ACCESS_EXPIRES_AT_STORAGE_PREFIX :: string where
  "ROOM_ACCESS_EXPIRES_AT_STORAGE_PREFIX = ''scouting_room_access_token_expires_v1:''"

section \<open>Storage\<close>

definition read_item :: "(string, string) jsmap option \<Rightarrow> string \<Rightarrow> string" where
  "read_item st key = (case st of None \<Rightarrow> [] | Some m \<Rightarrow> js_trim (nullish (map_get m key) []))"

definition write_item :: "bool \<Rightarrow> string \<Rightarrow> string \<Rightarrow> (string, string) jsmap option \<Rightarrow> (string, string) jsmap option" where
  "write_item full key v st = map_option (\<lambda>m. if v = [] then map_delete key m
     else if full then m else map_set key v m) st"

definition readStorageString :: "string \<Rightarrow> token_store \<Rightarrow> string" where
  "readStorageString key s = read_item (tk_local s) key"

definition writeStorageString :: "bool \<Rightarrow> string \<Rightarrow> string \<Rightarrow> token_store \<Rightarrow> token_store" where
  "writeStorageString full key v s = s\<lparr>tk_local := write_item full key v (tk_local s)\<rparr>"

definition readSessionString :: "bool \<Rightarrow> string \<Rightarrow> token_store \<Rightarrow> string" where
  "readSessionString native key s =
     (if native then nullish (map_get (tk_values s) key) [] else read_item (tk_session s) key)"

definition writeSessionString :: "bool \<Rightarrow> bool \<Rightarrow> string \<Rightarrow> string \<Rightarrow> token_store \<Rightarrow> token_store" where
  "writeSessionString native full key v s =
     (if native then s\<lparr>tk_values := (if v = [] then map_delete key (tk_values s) else map_set key v (tk_values s))\<rparr>
      else s\<lparr>tk_session := write_item full key v (tk_session s)\<rparr>)"

section \<open>Expiry\<close>

text \<open>\<open>Number(text || 0)\<close> is a positive finite time that has come.\<close>

definition time_up :: "real \<Rightarrow> string \<Rightarrow> bool" where
  "time_up now t = (case (if t = [] then Fin 0 else js_number t) of
     Fin x \<Rightarrow> x > 0 \<and> now \<ge> x * 1000 | _ \<Rightarrow> False)"

definition clear_expired :: "bool \<Rightarrow> string \<Rightarrow> string \<Rightarrow> real \<Rightarrow> token_store \<Rightarrow> token_store" where
  "clear_expired native tokenKey expiresKey now s =
     (if readSessionString native tokenKey s = [] \<or> \<not> time_up now (readSessionString native expiresKey s) then s
      else writeSessionString native False expiresKey [] (writeSessionString native False tokenKey [] s))"

text \<open>The value of an expiry: absent, not finite and not positive ones are removed.\<close>

definition expiry_text :: "num option \<Rightarrow> string" where
  "expiry_text e = (case e of Some (Fin x) \<Rightarrow> if x > 0 then int_str \<lfloor>x\<rfloor> else [] | _ \<Rightarrow> [])"

section \<open>Admin session\<close>

definition clearExpiredAdminSessionToken :: "bool \<Rightarrow> real \<Rightarrow> token_store \<Rightarrow> token_store" where
  "clearExpiredAdminSessionToken native now s =
     clear_expired native ADMIN_SESSION_TOKEN_STORAGE ADMIN_SESSION_EXPIRES_AT_STORAGE now s"

definition runtimeAdminModeEnabled :: "token_store \<Rightarrow> bool" where
  "runtimeAdminModeEnabled s \<longleftrightarrow> readStorageString ADMIN_MODE_ENABLED_STORAGE s = ''true''"

definition effectiveAdminSessionToken :: "bool \<Rightarrow> real \<Rightarrow> token_store \<Rightarrow> string \<times> token_store" where
  "effectiveAdminSessionToken native now s =
     (if \<not> runtimeAdminModeEnabled s then ([], s)
      else (let s1 = clearExpiredAdminSessionToken native now s
            in (readSessionString native ADMIN_SESSION_TOKEN_STORAGE s1, s1)))"

definition setStoredClientAdminSessionToken :: "bool \<Rightarrow> bool \<Rightarrow> string \<Rightarrow> num option \<Rightarrow> token_store \<Rightarrow> token_store" where
  "setStoredClientAdminSessionToken native full token expiresAtUnix s =
     writeSessionString native full ADMIN_SESSION_EXPIRES_AT_STORAGE (expiry_text expiresAtUnix)
       (writeSessionString native full ADMIN_SESSION_TOKEN_STORAGE (js_trim token) s)"

definition clearStoredClientAdminSessionToken :: "bool \<Rightarrow> token_store \<Rightarrow> token_store" where
  "clearStoredClientAdminSessionToken native s =
     writeSessionString native False ADMIN_SESSION_EXPIRES_AT_STORAGE []
       (writeSessionString native False ADMIN_SESSION_TOKEN_STORAGE [] s)"

definition setClientAdminModeEnabled :: "bool \<Rightarrow> bool \<Rightarrow> bool \<Rightarrow> token_store \<Rightarrow> token_store" where
  "setClientAdminModeEnabled native full enabled s =
     (let s1 = writeStorageString full ADMIN_MODE_ENABLED_STORAGE (if enabled then ''true'' else ''false'') s
      in if enabled then s1 else clearStoredClientAdminSessionToken native s1)"

definition clientAdminKeyAvailable :: "bool \<Rightarrow> real \<Rightarrow> token_store \<Rightarrow> bool" where
  "clientAdminKeyAvailable native now s \<longleftrightarrow> 0 < length (fst (effectiveAdminSessionToken native now s))"

definition getStoredClientAdminSessionExpiresAtUnix :: "bool \<Rightarrow> real \<Rightarrow> token_store \<Rightarrow> int option \<times> token_store" where
  "getStoredClientAdminSessionExpiresAtUnix native now s =
     (let s1 = clearExpiredAdminSessionToken native now s;
          t = readSessionString native ADMIN_SESSION_EXPIRES_AT_STORAGE s1
      in (case (if t = [] then Fin 0 else js_number t) of
            Fin x \<Rightarrow> if x \<le> 0 then None else Some \<lfloor>x\<rfloor> | _ \<Rightarrow> None, s1))"

section \<open>Room access\<close>

definition normalizeRoomKeyForStorage :: "string \<Rightarrow> string" where
  "normalizeRoomKeyForStorage roomKey = js_lower (js_trim roomKey)"

definition roomAccessStorageTokenKey :: "string \<Rightarrow> string" where
  "roomAccessStorageTokenKey roomKey = ROOM_ACCESS_TOKEN_STORAGE_PREFIX @ normalizeRoomKeyForStorage roomKey"

definition roomAccessStorageExpiresKey :: "string \<Rightarrow> string" where
  "roomAccessStorageExpiresKey roomKey = ROOM_ACCESS_EXPIRES_AT_STORAGE_PREFIX @ normalizeRoomKeyForStorage roomKey"

definition clearExpiredRoomAccessToken :: "bool \<Rightarrow> string \<Rightarrow> real \<Rightarrow> token_store \<Rightarrow> token_store" where
  "clearExpiredRoomAccessToken native roomKey now s =
     (let normalized = normalizeRoomKeyForStorage roomKey
      in if normalized = [] then s
         else clear_expired native (roomAccessStorageTokenKey normalized) (roomAccessStorageExpiresKey normalized) now s)"

definition getStoredRoomAccessToken :: "bool \<Rightarrow> string \<Rightarrow> real \<Rightarrow> token_store \<Rightarrow> string \<times> token_store" where
  "getStoredRoomAccessToken native roomKey now s =
     (let normalized = normalizeRoomKeyForStorage roomKey
      in if normalized = [] then ([], s)
         else (let s1 = clearExpiredRoomAccessToken native normalized now s
               in (readSessionString native (roomAccessStorageTokenKey normalized) s1, s1)))"

definition setStoredRoomAccessToken :: "bool \<Rightarrow> bool \<Rightarrow> string \<Rightarrow> string \<Rightarrow> num option \<Rightarrow> token_store \<Rightarrow> token_store" where
  "setStoredRoomAccessToken native full roomKey token expiresAtUnix s =
     (let normalized = normalizeRoomKeyForStorage roomKey
      in if normalized = [] then s
         else writeSessionString native full (roomAccessStorageExpiresKey normalized) (expiry_text expiresAtUnix)
           (writeSessionString native full (roomAccessStorageTokenKey normalized) (js_trim token) s))"

definition clearStoredRoomAccessToken :: "bool \<Rightarrow> string \<Rightarrow> token_store \<Rightarrow> token_store" where
  "clearStoredRoomAccessToken native roomKey s =
     (let normalized = normalizeRoomKeyForStorage roomKey
      in if normalized = [] then s
         else writeSessionString native False (roomAccessStorageExpiresKey normalized) []
           (writeSessionString native False (roomAccessStorageTokenKey normalized) [] s))"

section \<open>A room's token\<close>

definition tokens_readable :: "bool \<Rightarrow> token_store \<Rightarrow> bool" where
  "tokens_readable native s \<longleftrightarrow> native \<or> tk_session s \<noteq> None"

lemma write_readable: "tokens_readable native (writeSessionString native full k v s) \<longleftrightarrow> tokens_readable native s"
  by (auto simp: tokens_readable_def writeSessionString_def write_item_def)

lemma read_write:
  "\<lbrakk>tokens_readable native s; trimmed v\<rbrakk> \<Longrightarrow> readSessionString native k (writeSessionString native False j v s) =
     (if k = j then v else readSessionString native k s)"
  by (auto simp: tokens_readable_def readSessionString_def writeSessionString_def read_item_def write_item_def dict_simps trim_idle
      split: option.splits)

lemma trimmed_Nil [simp]: "trimmed []"
  by (simp add: trimmed_def)

lemma room_keys:
  "roomAccessStorageTokenKey r \<noteq> roomAccessStorageExpiresKey q"
  "roomAccessStorageTokenKey r = roomAccessStorageTokenKey q \<longleftrightarrow> normalizeRoomKeyForStorage r = normalizeRoomKeyForStorage q"
  "roomAccessStorageExpiresKey r = roomAccessStorageExpiresKey q \<longleftrightarrow> normalizeRoomKeyForStorage r = normalizeRoomKeyForStorage q"
  by (simp_all add: roomAccessStorageTokenKey_def roomAccessStorageExpiresKey_def ROOM_ACCESS_TOKEN_STORAGE_PREFIX_def
      ROOM_ACCESS_EXPIRES_AT_STORAGE_PREFIX_def)

lemma normalize_room_idem [simp]: "normalizeRoomKeyForStorage (normalizeRoomKeyForStorage r) = normalizeRoomKeyForStorage r"
  by (simp add: normalizeRoomKeyForStorage_def js_trim_lower)

lemma room_keys_norm [simp]:
  "roomAccessStorageTokenKey (normalizeRoomKeyForStorage r) = roomAccessStorageTokenKey r"
  "roomAccessStorageExpiresKey (normalizeRoomKeyForStorage r) = roomAccessStorageExpiresKey r"
  by (simp_all add: roomAccessStorageTokenKey_def roomAccessStorageExpiresKey_def)

lemma expiry_reads_back:
  assumes "1 \<le> e" and "e < 2 ^ 1000"
  shows "trimmed (expiry_text (Some (Fin e))) \<and>
    (time_up now (expiry_text (Some (Fin e))) \<longleftrightarrow> now \<ge> of_int \<lfloor>e\<rfloor> * 1000)"
proof -
  define n where "n = nat \<lfloor>e\<rfloor>"
  have f: "1 \<le> \<lfloor>e\<rfloor>" using assms(1) by (simp add: le_floor_iff)
  have r: "real n = of_int \<lfloor>e\<rfloor>" using f by (simp add: n_def)
  have "real n < 2 ^ 1000" unfolding r using assms(2) of_int_floor_le [of e] by linarith
  also have "(2 :: real) ^ 1000 \<le> 2 ^ 1024 - 2 ^ 970" by simp
  finally have small: "real n < 2 ^ 1024 - 2 ^ 970" .
  have t: "expiry_text (Some (Fin e)) = digits_of n"
    using assms(1) f by (simp add: expiry_text_def int_str_def n_def)
  have "0 < n" using f by (simp add: n_def)
  then show ?thesis
    by (simp add: t trimmed_digits_of time_up_def js_number_digits_of [OF small] flip: r)
qed

text \<open>a room's token ends on time.  What a tab stored for a room is handed out under every
  spelling of its key until the second it expires; from then on nothing is, not even if the clock is
  set back after the first refusal; and no other room's token changes.\<close>

theorem room_access_ends_on_time:
  assumes "tokens_readable native s" and "normalizeRoomKeyForStorage r \<noteq> []" and "1 \<le> e" and "e < 2 ^ 1000"
    and "s1 = setStoredRoomAccessToken native False r token (Some (Fin e)) s"
  shows "fst (getStoredRoomAccessToken native q now s1) =
      (if normalizeRoomKeyForStorage q \<noteq> normalizeRoomKeyForStorage r then fst (getStoredRoomAccessToken native q now s)
       else if now < of_int \<lfloor>e\<rfloor> * 1000 then js_trim token else []) \<and>
    (of_int \<lfloor>e\<rfloor> * 1000 \<le> now \<longrightarrow>
      fst (getStoredRoomAccessToken native r earlier (snd (getStoredRoomAccessToken native r now s1))) = [])"
proof -
  have s1: "s1 = writeSessionString native False (roomAccessStorageExpiresKey r) (expiry_text (Some (Fin e)))
      (writeSessionString native False (roomAccessStorageTokenKey r) (js_trim token) s)"
    using assms(2) by (simp add: assms(5) setStoredRoomAccessToken_def Let_def)
  note E = expiry_reads_back [OF assms(3,4)]
  have read: "readSessionString native (roomAccessStorageTokenKey q) s1 =
      (if normalizeRoomKeyForStorage q = normalizeRoomKeyForStorage r then js_trim token
       else readSessionString native (roomAccessStorageTokenKey q) s)"
    "readSessionString native (roomAccessStorageExpiresKey q) s1 =
      (if normalizeRoomKeyForStorage q = normalizeRoomKeyForStorage r then expiry_text (Some (Fin e))
       else readSessionString native (roomAccessStorageExpiresKey q) s)" for q
    using assms(1) E by (simp_all add: s1 read_write write_readable room_keys room_keys(1) [symmetric])
  have ok: "tokens_readable native s1" using assms(1) by (simp add: s1 write_readable)
  have get: "fst (getStoredRoomAccessToken native q n x) = (if normalizeRoomKeyForStorage q = [] then []
      else if time_up n (readSessionString native (roomAccessStorageExpiresKey q) x) then []
      else readSessionString native (roomAccessStorageTokenKey q) x)" if "tokens_readable native x" for q n x
    using that by (simp add: getStoredRoomAccessToken_def clearExpiredRoomAccessToken_def clear_expired_def Let_def
        read_write write_readable room_keys)
  have gone: "readSessionString native (roomAccessStorageTokenKey r) (snd (getStoredRoomAccessToken native r now s1)) = []"
    "tokens_readable native (snd (getStoredRoomAccessToken native r now s1))"
    if "time_up now (readSessionString native (roomAccessStorageExpiresKey r) s1)"
    using that ok assms(2) by (simp_all add: getStoredRoomAccessToken_def clearExpiredRoomAccessToken_def clear_expired_def Let_def
        read_write write_readable room_keys)
  show ?thesis
    using get [OF ok] get [OF assms(1)] E assms(2) read
      gone get [OF gone(2)]
    by (auto simp: not_less)
qed

lemma room_access_ends_on_time_witness:
  "fst (getStoredRoomAccessToken False '' Room7'' 1999
     (setStoredRoomAccessToken False False ''room7 '' ''t'' (Some (Fin 2)) \<lparr>tk_local = None, tk_session = Some [], tk_values = []\<rparr>)) = ''t''"
proof -
  have n: "normalizeRoomKeyForStorage ''room7 '' = ''room7''" "normalizeRoomKeyForStorage '' Room7'' = ''room7''"
    "js_trim ''t'' = ''t''" by code_simp+
  show ?thesis
    using room_access_ends_on_time [of False "\<lparr>tk_local = None, tk_session = Some [], tk_values = []\<rparr>" "''room7 ''" 2 _ "''t''" "'' Room7''" 1999, OF _ _ _ _ refl] n
    by (simp add: tokens_readable_def)
qed

end
