(* ===== verification/ApiFetch.thy ===== *)
theory ApiFetch
  imports ApiCache AccessTokens OfflineQueueRuns
begin

text \<open>
  One request of the API client: \<open>apiFetch\<close> of \<open>src/ScoutingApp/src/api.ts\<close>, with \<open>src/bootPrefetch.ts\<close>.
  An \<open>api_state\<close> is what the module and the modules under it keep: the saved copies, the workspace
  session, the tokens, the live versions, the requests under way, the running offline download, the
  requests the page started before the app, and the offline queue.  The function runs from one \<open>await\<close>
  to the next; a \<open>world\<close> says what it finds there: \<open>w_now i\<close> is the clock and \<open>w_online i\<close> is
  \<open>navigator.onLine\<close> at moment \<open>i\<close>, \<open>w_net\<close> how the network ended, \<open>w_slow\<close> whether it took longer than
  the weak-signal limit, and \<open>w_shared\<close> how the request under way that this one joins ended.  The
  moments: 0 the call, 1 a saved copy looked for, 2 the offline fallback, 3 the limit passed, 4 the
  network ended, 5 the last fallback.  \<open>w_others i\<close> is what everything else did to the state while the
  function waited: after 1 and 2, before 3, 4 and 5.  The state of a result is the one when everything
  the call started has ended.
\<close>

section \<open>State\<close>

datatype fetch_outcome = Answer response | Rejected js_error

text \<open>How \<open>fetch\<close> with its body ended: a response, whose status is 200 to 599, or an error with whether
  the timer had fired and the reason of the signal if it is aborted.\<close>

datatype net_end = Arrives response | Fails js_error bool "js_error option"

record audit_call =
  ac_id :: nat
  ac_audit :: nat
  ac_key :: string
  ac_url :: string
  ac_saved :: bool

record 'c api_state =
  f_store :: api_store
  f_session :: ws
  f_tokens :: token_store
  f_live :: live
  f_freshReadsUntilMs :: int
  f_inflight :: "string list"
  f_audit :: "(nat \<times> (string \<Rightarrow> bool)) option"
  f_nextAudit :: nat
  f_calls :: "audit_call list"
  f_nextCall :: nat
  f_boot :: "(string, net_end option) jsmap"
  f_device :: "'c device"
  f_dropped :: "dropped_info list"
  f_updated :: "string list"

record 'c fetch_env =
  v_api :: api_env
  v_base :: string
  v_nstr :: "real \<Rightarrow> string"
  v_query :: "string \<Rightarrow> string \<Rightarrow> string option"
  v_pathname :: "string \<Rightarrow> string option"
  v_queue :: "'c queue_env"

record 'c world =
  w_now :: "nat \<Rightarrow> int"
  w_online :: "nat \<Rightarrow> bool"
  w_others :: "nat \<Rightarrow> 'c api_state \<Rightarrow> 'c api_state"
  w_net :: net_end
  w_slow :: bool
  w_shared :: fetch_outcome
  w_full :: "string \<Rightarrow> bool"
  w_id :: string
  w_time :: string

text \<open>What a request is, once its URL and options are read.\<close>

record request =
  q_req_url :: string
  q_req_method :: string
  q_key :: string
  q_ttl :: int
  q_swr :: int
  q_audit :: "nat option"
  q_use_cache :: bool
  q_timeout :: int
  q_token :: string
  q_req_headers :: "(string \<times> string) list"

section \<open>Offline downloads and early requests\<close>

text \<open>A download has a number; its calls are those with it.  Only the running one can be stopped.\<close>

definition beginOfflineCacheAudit :: "(string \<Rightarrow> bool) \<Rightarrow> 'c api_state \<Rightarrow> (nat \<times> 'c api_state) option" where
  "beginOfflineCacheAudit accepts s =
     (if f_audit s \<noteq> None then None
      else Some (f_nextAudit s, s\<lparr>f_audit := Some (f_nextAudit s, accepts), f_nextAudit := Suc (f_nextAudit s)\<rparr>))"

definition stopOfflineCacheAudit :: "nat \<Rightarrow> 'c api_state \<Rightarrow> 'c api_state" where
  "stopOfflineCacheAudit n s =
     (case f_audit s of None \<Rightarrow> s | Some (k, _) \<Rightarrow> if k = n then s\<lparr>f_audit := None\<rparr> else s)"

definition audit_calls :: "nat \<Rightarrow> 'c api_state \<Rightarrow> audit_call list" where
  "audit_calls n s = filter (\<lambda>c. ac_audit c = n) (f_calls s)"

definition takeBootFetch :: "string \<Rightarrow> 'c api_state \<Rightarrow> net_end option option \<times> 'c api_state" where
  "takeBootFetch url s = (map_get (f_boot s) url, s\<lparr>f_boot := map_delete url (f_boot s)\<rparr>)"

definition notifyApiUpdated :: "string \<Rightarrow> 'c api_state \<Rightarrow> 'c api_state" where
  "notifyApiUpdated url s = s\<lparr>f_updated := f_updated s @ [url]\<rparr>"

definition on_store :: "(api_store \<Rightarrow> 'b \<times> api_store) \<Rightarrow> 'c api_state \<Rightarrow> 'b \<times> 'c api_state" where
  "on_store op s = (case op (f_store s) of (x, st) \<Rightarrow> (x, s\<lparr>f_store := st\<rparr>))"

section \<open>The request on the network\<close>

text \<open>The body is read whole; a status that has none gives a response without one.\<close>

definition whole_response :: "response \<Rightarrow> response" where
  "whole_response r = r\<lparr>rs_body := (if rs_status r \<in> {101, 204, 205, 304} then None else Some (response_text r))\<rparr>"

text \<open>401 means the workspace access is gone, if the token is still the one the request carried.\<close>

definition revoke_sent :: "bool \<Rightarrow> (string \<Rightarrow> bool) \<Rightarrow> real \<Rightarrow> string \<Rightarrow> response \<Rightarrow> ws \<Rightarrow> ws" where
  "revoke_sent native full now sent r st =
     (if rs_status r \<noteq> 401 \<or> sent = [] then st
      else (case getWorkspaceToken native full now st of (token, st1) \<Rightarrow>
        if sent = token then clearWorkspaceSession native full Revoked st1 else st1))"

definition mark_saved :: "nat \<Rightarrow> bool \<Rightarrow> audit_call list \<Rightarrow> audit_call list" where
  "mark_saved i saved = map (\<lambda>c. if ac_id c = i then c\<lparr>ac_saved := saved\<rparr> else c)"

text \<open>What a response does to the caches.\<close>

definition keep_response :: "api_env \<Rightarrow> request \<Rightarrow> bool \<Rightarrow> int \<Rightarrow> response \<Rightarrow> 'c api_state \<Rightarrow> 'c api_state" where
  "keep_response env q liveOnly now r s =
     (case (if rs_ok r then q_audit q else None) of
        Some i \<Rightarrow> (case on_store (writePersistentGetCache env (q_key q) r (max 1 (q_ttl q)) now) s of
          (saved, s1) \<Rightarrow> s1\<lparr>f_calls := mark_saved i saved (f_calls s1)\<rparr>)
      | None \<Rightarrow>
         if q_use_cache q \<and> rs_ok r
         then snd (on_store (writePersistentGetCache env (q_key q) r (q_ttl q) now)
           (s\<lparr>f_store := f_store s\<lparr>c_mem := cacheResponse now (q_key q)
              \<lparr>cr_storedAtMs = now, cr_expiresAtMs = now + q_ttl q, cr_response = r\<rparr> (c_mem (f_store s))\<rparr>\<rparr>))
         else if q_req_method q = ''GET'' \<and> rs_ok r \<and> \<not> js_includes (q_req_url q) ''refresh=true'' \<and> \<not> liveOnly
         then (case on_store (writePersistentGetCache env (q_key q) r 1 now) s of
           (_, s1) \<Rightarrow> s1\<lparr>f_store := f_store s1\<lparr>c_mem := map_delete (q_key q) (c_mem (f_store s1))\<rparr>\<rparr>)
         else s)"

text \<open>\<open>run\<close> from the end of the network on: the early request is used if it went well.  One that failed or
  stalled is \<open>None\<close>, one whose body broke after a good head ends the request.\<close>

definition run_ends :: "'c fetch_env \<Rightarrow> 'c world \<Rightarrow> request \<Rightarrow> bool \<Rightarrow> net_end option option \<Rightarrow> 'c api_state \<Rightarrow>
    fetch_outcome \<times> 'c api_state" where
  "run_ends env w q liveOnly boot s =
     (case (case boot of Some (Some (Arrives r)) \<Rightarrow> if rs_ok r then Arrives r else w_net w
        | Some (Some broken) \<Rightarrow> broken | _ \<Rightarrow> w_net w) of
        Fails e timedOut reason \<Rightarrow> (Rejected (normalizeApiFetchError e (q_timeout q) timedOut reason), s)
      | Arrives raw \<Rightarrow>
          (let r = whole_response raw; now = w_now w 4;
               s1 = s\<lparr>f_session := revoke_sent (e_native (v_api env)) (w_full w) (of_int now) (q_token q) r (f_session s)\<rparr>
           in (Answer r, keep_response (v_api env) q liveOnly now r s1)))"

text \<open>\<open>run\<close>: the early request of the URL is taken at its start.\<close>

definition run_request :: "'c fetch_env \<Rightarrow> 'c world \<Rightarrow> request \<Rightarrow> bool \<Rightarrow> 'c api_state \<Rightarrow> fetch_outcome \<times> 'c api_state" where
  "run_request env w q liveOnly s =
     (case (if q_req_method q = ''GET'' then takeBootFetch (q_req_url q) s else (None, s)) of
        (boot, s1) \<Rightarrow> run_ends env w q liveOnly boot (w_others w 4 s1))"

section \<open>Saved copies instead of failures\<close>

definition fall_back :: "'c fetch_env \<Rightarrow> string \<Rightarrow> int \<Rightarrow> 'c api_state \<Rightarrow> response option option \<times> 'c api_state" where
  "fall_back env key now s = on_store (offlineStaleFallback (v_api env) key now) s"

text \<open>The exception of a row that makes no response.\<close>

definition bad_row :: js_error where
  "bad_row = TypeErr ''Failed to construct Response''"

text \<open>The network ended: a failure or a server in trouble gives way to the last saved copy.\<close>

definition settle :: "'c fetch_env \<Rightarrow> 'c world \<Rightarrow> request \<Rightarrow> fetch_outcome \<times> 'c api_state \<Rightarrow> fetch_outcome \<times> 'c api_state" where
  "settle env w q ended = (case ended of (res, s) \<Rightarrow>
     (if (case res of Answer r \<Rightarrow> \<not> serverTrouble r | Rejected _ \<Rightarrow> False) then (res, s)
      else (case fall_back env (q_key q) (w_now w 5) (w_others w 5 s) of
          (Some (Some saved), s1) \<Rightarrow> (Answer saved, s1)
        | (Some None, s1) \<Rightarrow> (res, s1)
        | (None, s1) \<Rightarrow> (Rejected bad_row, s1))))"

text \<open>A request of one's own: if the network is slow the saved copy is shown and the request goes on.
  \<open>land\<close> is what happens when it ends.\<close>

definition wait_for_network :: "'c fetch_env \<Rightarrow> 'c world \<Rightarrow> request \<Rightarrow> ('c api_state \<Rightarrow> fetch_outcome \<times> 'c api_state) \<Rightarrow>
    'c api_state \<Rightarrow> fetch_outcome \<times> 'c api_state" where
  "wait_for_network env w q land s =
     (if w_slow w
      then (case fall_back env (q_key q) (w_now w 3) (w_others w 3 s) of
          (Some (Some saved), s1) \<Rightarrow> (Answer saved, snd (land s1))
        | (Some None, s1) \<Rightarrow> settle env w q (land s1)
        | (None, s1) \<Rightarrow> (Rejected bad_row, snd (land s1)))
      else settle env w q (land s))"

text \<open>Without a network the last saved copy is the answer, if there is one.\<close>

definition offline_answer :: "'c fetch_env \<Rightarrow> 'c world \<Rightarrow> request \<Rightarrow> 'c api_state \<Rightarrow> fetch_outcome option \<times> 'c api_state" where
  "offline_answer env w q s =
     (if w_online w 2 then (None, s)
      else (case fall_back env (q_key q) (w_now w 2) s of
          (Some (Some saved), s1) \<Rightarrow> (Some (Answer saved), s1)
        | (None, s1) \<Rightarrow> (Some (Rejected bad_row), s1)
        | (Some None, s1) \<Rightarrow> (None, w_others w 2 s1)))"

section \<open>Reads past the caches\<close>

definition live_fetch :: "'c fetch_env \<Rightarrow> 'c world \<Rightarrow> request \<Rightarrow> bool \<Rightarrow> 'c api_state \<Rightarrow> fetch_outcome \<times> 'c api_state" where
  "live_fetch env w q liveOnly s =
     (if liveOnly then run_request env w q liveOnly s
      else (case offline_answer env w q s of
          (Some res, s1) \<Rightarrow> (res, s1)
        | (None, s1) \<Rightarrow>
            (case takeBootFetch (q_req_url q) s1 of (boot, s2) \<Rightarrow>
              wait_for_network env w q (\<lambda>s. run_ends env w q liveOnly boot (w_others w 4 s)) s2)))"

section \<open>Writes\<close>

definition frc_key :: "string \<Rightarrow> bool" where
  "frc_key k \<longleftrightarrow> starts_with (js_lower k) ''frc'' \<and> drop 3 k \<noteq> [] \<and> list_all is_digit (drop 3 k)"

definition team_of_body :: "(real \<Rightarrow> string) \<Rightarrow> jtext option \<Rightarrow> string" where
  "team_of_body nstr body = (case body of None \<Rightarrow> []
     | Some t \<Rightarrow> (case json_parse t of None \<Rightarrow> []
         | Some v \<Rightarrow>
            (let payload = asRecord v;
                 key = js_string nstr (js_or (jget_opt payload ''team_key'')
                   (js_or (jget_opt (asRecord (jget_opt payload ''entry'')) ''team_key'') (JStr [])))
             in if frc_key key then '' for Team '' @ drop 3 key else [])))"

definition queue_label :: "(real \<Rightarrow> string) \<Rightarrow> string \<Rightarrow> jtext option \<Rightarrow> string" where
  "queue_label nstr path body =
     (let team = team_of_body nstr body
      in if js_includes path ''pit-scouting'' then ''Pit notes'' @ team
         else if js_includes path ''picklist'' then ''Picklist changes''
         else if js_includes path ''assignment'' then ''Scouting assignments''
         else ''Scouting report'' @ team)"

text \<open>\<open>Headers.forEach\<close> goes over the names in order.\<close>

definition header_entries :: "(string \<times> string) list \<Rightarrow> (string \<times> string) list" where
  "header_entries hs = js_sort (\<lambda>a b. if js_less (fst a) (fst b) then - 1 else if fst a = fst b then 0 else 1) hs"

definition queued_mutation :: "'c fetch_env \<Rightarrow> 'c world \<Rightarrow> request \<Rightarrow> string \<Rightarrow> jtext option \<Rightarrow> mutation" where
  "queued_mutation env w q path body = \<lparr>q_id = w_id w, q_queuedAt = w_time w, q_url = q_req_url q, q_method = q_req_method q,
     q_body = body, q_headers = header_entries (q_req_headers q), q_attempts = 0,
     q_label = Some (queue_label (v_nstr env) path body), q_failure = None\<rparr>"

definition OFFLINE_MESSAGE :: string where
  "OFFLINE_MESSAGE = ''You are offline. The request has been queued and will be sent when you reconnect.''"

definition DROPPED_MESSAGE :: string where
  "DROPPED_MESSAGE = ''The connection dropped. This was queued and will be sent automatically.''"

definition should_queue :: "'c fetch_env \<Rightarrow> 'c world \<Rightarrow> request \<Rightarrow> js_error \<Rightarrow> bool" where
  "should_queue env w q e \<longleftrightarrow> q_req_method q \<noteq> ''GET'' \<and>
     isReplaySafeWrite (v_pathname env) (q_req_method q) (q_req_url q) \<and> (\<not> w_online w 4 \<or> isConnectionFailure e)"

text \<open>\<open>new URL\<close> throws for a URL without a path; the queue rejects when it could not keep the edit.\<close>

definition write_fetch :: "'c fetch_env \<Rightarrow> 'c world \<Rightarrow> request \<Rightarrow> api_init \<Rightarrow> 'c api_state \<Rightarrow> fetch_outcome \<times> 'c api_state" where
  "write_fetch env w q init s = (case run_request env w q (i_liveOnly init) s of
       (Answer r, s1) \<Rightarrow> (Answer r, s1)
     | (Rejected e, s1) \<Rightarrow>
        if \<not> should_queue env w q e then (Rejected e, s1)
        else (case v_pathname env (q_req_url q) of
            None \<Rightarrow> (Rejected (TypeErr ''Invalid URL''), s1)
          | Some path \<Rightarrow>
              (case enqueue (v_queue env) (queued_mutation env w q path (i_body init)) (f_device s1) of
                 (okay, dropped, d) \<Rightarrow>
                   (if okay then Rejected (QueuedErr (if \<not> w_online w 4 then OFFLINE_MESSAGE else DROPPED_MESSAGE))
                    else Rejected (Err ''Offline queue failed''),
                    s1\<lparr>f_device := d, f_dropped := f_dropped s1 @ dropped\<rparr>))))"

section \<open>The request\<close>

definition ADMIN_SESSION_HEADER :: string where
  "ADMIN_SESSION_HEADER = ''X-Admin-Session''"

definition WORKSPACE_ACCESS_HEADER :: string where
  "WORKSPACE_ACCESS_HEADER = ''X-Workspace-Access''"

definition header_get :: "string \<Rightarrow> (string \<times> string) list \<Rightarrow> string option" where
  "header_get name hs = map_get hs (js_lower name)"

definition header_append :: "string \<Rightarrow> string \<Rightarrow> (string \<times> string) list \<Rightarrow> (string \<times> string) list" where
  "header_append name v hs = header_set name (case header_get name hs of None \<Rightarrow> v | Some u \<Rightarrow> u @ '', '' @ v) hs"

definition header_default :: "string \<Rightarrow> string \<Rightarrow> (string \<times> string) list \<Rightarrow> (string \<times> string) list" where
  "header_default name v hs = (if v \<noteq> [] \<and> header_get name hs = None then header_set name v hs else hs)"

text \<open>The headers of the caller (valid names and values without white space around them), and the tokens
  of this device where the caller gave none.\<close>

definition send_headers :: "'c fetch_env \<Rightarrow> 'c world \<Rightarrow> int \<Rightarrow> api_init \<Rightarrow> request \<Rightarrow> 'c api_state \<Rightarrow> request \<times> 'c api_state" where
  "send_headers env w now init q s =
     (case effectiveAdminSessionToken (e_native (v_api env)) (of_int now) (f_tokens s) of (admin, tokens) \<Rightarrow>
       (case getWorkspaceToken (e_native (v_api env)) (w_full w) (of_int now) (f_session s) of (token, session) \<Rightarrow>
         (let given = fold (\<lambda>(n, v). header_append n v) (i_headers init) [];
              headers = header_default WORKSPACE_ACCESS_HEADER token (header_default ADMIN_SESSION_HEADER admin
                (header_default ''Accept'' ''application/json'' given))
          in (q\<lparr>q_req_headers := headers, q_token := nullish (header_get WORKSPACE_ACCESS_HEADER headers) []\<rparr>,
              s\<lparr>f_tokens := tokens, f_session := session\<rparr>))))"

text \<open>What the URL and the options say, up to the first read of a cache; \<open>None\<close> refuses a path with a
  dot segment.  A time limit is a finite number.\<close>

definition plan_request :: "'c fetch_env \<Rightarrow> 'c world \<Rightarrow> string \<Rightarrow> api_init \<Rightarrow> 'c api_state \<Rightarrow> (request \<times> 'c api_state) option" where
  "plan_request env w input init s =
     (let url = request_url (v_base env) input; now = w_now w 0; meth = normalizeMethod (i_method init);
          bypass = shouldBypassCache (v_query env) (f_live s) (f_freshReadsUntilMs s) url init now;
          ttl = (if bypass then 0 else cacheValueInt (i_cacheTtlMs init) DEFAULT_GET_CACHE_TTL_MS);
          swr = (if bypass then 0 else cacheValueInt (i_staleWhileRevalidateMs init) DEFAULT_GET_STALE_WHILE_REVALIDATE_MS)
      in if hasDotSegment url then None
         else (case getWorkspaceSession (e_native (v_api env)) (w_full w) (of_int now) (f_session s) of (session, ws) \<Rightarrow>
           (let key = cacheKeyFor (v_nstr env) (case session of None \<Rightarrow> 0 | Some x \<Rightarrow> ws_workspace x) url (i_method init);
                audit = (if meth = ''GET'' then (case f_audit s of None \<Rightarrow> None
                  | Some (n, accepts) \<Rightarrow> if accepts url then Some n else None) else None);
                s1 = s\<lparr>f_session := ws\<rparr>;
                s2 = (case audit of None \<Rightarrow> s1 | Some n \<Rightarrow> s1\<lparr>f_nextCall := Suc (f_nextCall s), f_calls := f_calls s @
                  [\<lparr>ac_id = f_nextCall s, ac_audit = n, ac_key = key, ac_url = url, ac_saved = False\<rparr>]\<rparr>)
            in Some (\<lparr>q_req_url = url, q_req_method = meth, q_key = key, q_ttl = ttl, q_swr = swr,
                 q_audit = map_option (\<lambda>_. f_nextCall s) audit, q_use_cache = (meth = ''GET'' \<and> ttl > 0 \<and> audit = None),
                 q_timeout = (case i_timeoutMs init of Some (Fin x) \<Rightarrow> max 2000 \<lfloor>x\<rfloor> | _ \<Rightarrow> max 2000 REQUEST_TIMEOUT_MS),
                 q_token = [], q_req_headers = []\<rparr>, s2))))"

section \<open>Reads from the caches\<close>

text \<open>A fresh copy is the answer (\<open>Inl\<close>); a stale one is a candidate, that of memory first.  A copy read
  from \<open>localStorage\<close> comes into memory, a fresh one for a whole new time to live.\<close>

definition saved_lookup :: "'c fetch_env \<Rightarrow> int \<Rightarrow> request \<Rightarrow> 'c api_state \<Rightarrow> (response + cache_lookup option) \<times> 'c api_state" where
  "saved_lookup env now q s =
     (case readMemoryGetCache (q_key q) now (q_swr q) (c_mem (f_store s)) of (hit, mem) \<Rightarrow>
        if (case hit of None \<Rightarrow> False | Some h \<Rightarrow> lk_fresh h)
        then (Inl (lk_response (the hit)), s\<lparr>f_store := f_store s\<lparr>c_mem := mem\<rparr>\<rparr>)
        else (case readPersistentGetCache (v_api env) (q_key q) now (q_swr q) (c_local (f_store s)) of
            (None, ls) \<Rightarrow> (Inr hit, s\<lparr>f_store := f_store s\<lparr>c_mem := mem, c_local := ls\<rparr>\<rparr>)
          | (Some p, ls) \<Rightarrow>
             (if lk_fresh p then Inl (lk_response p) else Inr (case hit of None \<Rightarrow> Some p | Some h \<Rightarrow> Some h),
              s\<lparr>f_store := f_store s\<lparr>c_local := ls, c_mem := cacheResponse now (q_key q)
                 \<lparr>cr_storedAtMs = max 0 (now - lk_ageSec p * 1000),
                  cr_expiresAtMs = (if lk_fresh p then now + q_ttl q else now - 1), cr_response = lk_response p\<rparr> mem\<rparr>\<rparr>)))"

definition add_inflight :: "string \<Rightarrow> 'c api_state \<Rightarrow> 'c api_state" where
  "add_inflight key s = s\<lparr>f_inflight := List.insert key (f_inflight s)\<rparr>"

definition end_inflight :: "string \<Rightarrow> 'c api_state \<Rightarrow> 'c api_state" where
  "end_inflight key s = s\<lparr>f_inflight := removeAll key (f_inflight s)\<rparr>"

text \<open>The refresh behind a stale answer: the pages are told if it brought something else.\<close>

definition refresh_ends :: "'c fetch_env \<Rightarrow> 'c world \<Rightarrow> request \<Rightarrow> response \<Rightarrow> 'c api_state \<Rightarrow> 'c api_state" where
  "refresh_ends env w q shown s = (case run_ends env w q False None (w_others w 4 s) of
       (Answer fresh, s1) \<Rightarrow> end_inflight (q_key q)
          (if rs_ok fresh \<and> response_text fresh \<noteq> [] \<and> response_text shown \<noteq> response_text fresh
           then notifyApiUpdated (q_req_url q) s1 else s1)
     | (Rejected _, s1) \<Rightarrow> end_inflight (q_key q) s1)"

definition own_read :: "'c fetch_env \<Rightarrow> 'c world \<Rightarrow> request \<Rightarrow> 'c api_state \<Rightarrow> fetch_outcome \<times> 'c api_state" where
  "own_read env w q s = (case takeBootFetch (q_req_url q) s of (boot, s1) \<Rightarrow>
     wait_for_network env w q
       (\<lambda>s. case run_ends env w q False boot (w_others w 4 s) of (res, s2) \<Rightarrow> (res, end_inflight (q_key q) s2))
       (add_inflight (q_key q) s1))"

definition cached_fetch :: "'c fetch_env \<Rightarrow> 'c world \<Rightarrow> request \<Rightarrow> api_init \<Rightarrow> 'c api_state \<Rightarrow> fetch_outcome \<times> 'c api_state" where
  "cached_fetch env w q init s = (case saved_lookup env (w_now w 0) q s of
       (Inl r, s1) \<Rightarrow> (Answer r, s1)
     | (Inr found, s1) \<Rightarrow>
        (let showSaved = cacheValueInt (i_showSavedMaxAgeMs init) 0
         in case (if found = None \<and> showSaved > 0
                  then (case on_store (savedCopyWithin (v_api env) (q_key q) showSaved (w_now w 1)) s1 of
                    (c, s2) \<Rightarrow> (c, w_others w 1 s2))
                  else (found, s1)) of
              (Some c, s2) \<Rightarrow>
                if q_key q \<in> set (f_inflight s2) then (Answer (lk_response c), s2)
                else (case send_headers env w (w_now w 2) init q s2 of (q', s3) \<Rightarrow>
                  (Answer (lk_response c), refresh_ends env w q' (lk_response c) (add_inflight (q_key q) s3)))
            | (None, s2) \<Rightarrow>
                if q_key q \<in> set (f_inflight s2) then (w_shared w, w_others w 2 s2)
                else (case offline_answer env w q s2 of
                    (Some res, s3) \<Rightarrow> (res, s3)
                  | (None, s3) \<Rightarrow> (case send_headers env w (w_now w 2) init q s3 of (q', s4) \<Rightarrow> own_read env w q' s4))))"

section \<open>apiFetch\<close>

definition DOT_MESSAGE :: string where
  "DOT_MESSAGE = ''Refused an API path with a dot segment.''"

definition apiFetch :: "'c fetch_env \<Rightarrow> 'c world \<Rightarrow> string \<Rightarrow> api_init \<Rightarrow> 'c api_state \<Rightarrow> fetch_outcome \<times> 'c api_state" where
  "apiFetch env w input init s = (case plan_request env w input init s of
       None \<Rightarrow> (Rejected (Err DOT_MESSAGE), s)
     | Some (q, s1) \<Rightarrow>
         if q_use_cache q then cached_fetch env w q init s1
         else (case send_headers env w (w_now w 0) init q s1 of (q', s2) \<Rightarrow>
           if q_req_method q' = ''GET'' then live_fetch env w q' (i_liveOnly init) s2
           else write_fetch env w q' init s2))"

end
