(* ===== verification/ApiOffline.thy ===== *)
theory ApiOffline
  imports ApiFetch
begin

text \<open>
  What \<open>apiFetch\<close> of \<open>src/ScoutingApp/src/api.ts\<close> promises: an event saved for offline use is there without
  a network, a write the connection loses is on the phone, a refusal ends only the session it was given
  for, and an old answer shown at once is replaced.  What everything else does meanwhile is free as long
  as it keeps what a promise needs: a property is \<open>stable\<close> in a world that does so.
\<close>

definition stable :: "('c api_state \<Rightarrow> bool) \<Rightarrow> 'c world \<Rightarrow> bool" where
  "stable P w \<longleftrightarrow> (\<forall>i s. P s \<longrightarrow> P (w_others w i s))"

lemma stableD: "\<lbrakk>stable P w; P s\<rbrakk> \<Longrightarrow> P (w_others w i s)"
  by (simp add: stable_def)

section \<open>The copies of one request\<close>

text \<open>All copies of a request have the given text and are kept until \<open>T\<close>, and one can be read.\<close>

definition row_copy :: "api_env \<Rightarrow> string \<Rightarrow> api_store \<Rightarrow> stored_row option" where
  "row_copy env k s =
     (let db = (case c_db s of None \<Rightarrow> None | Some rows \<Rightarrow> map_get rows k)
      in case (if e_native env then None else c_caches s) of None \<Rightarrow> db
         | Some rows \<Rightarrow> if \<not> c_match_ok s then db
             else (case map_get rows k of None \<Rightarrow> db | Some r \<Rightarrow> Some r))"

definition rows_keep :: "string \<Rightarrow> string \<Rightarrow> int \<Rightarrow> (string, stored_row) jsmap option \<Rightarrow> bool" where
  "rows_keep k txt T st \<longleftrightarrow> (\<forall>rows r. st = Some rows \<and> map_get rows k = Some r \<longrightarrow>
     T \<le> sr_retainUntil r \<and> (\<exists>x. row_response r = Some x \<and> response_text x = txt))"

definition local_keep :: "string \<Rightarrow> string \<Rightarrow> int \<Rightarrow> copy_text storage option \<Rightarrow> bool" where
  "local_keep k txt T ls \<longleftrightarrow> (\<forall>m t. ls = Some m \<and> raw_copy m k = Some t \<longrightarrow>
     (\<exists>p x. t = Copy p \<and> copy_response p = Some x \<and> response_text x = txt \<and> T \<le> nullish (pc_retainUntilMs p) 0))"

definition readable_copy :: "api_env \<Rightarrow> string \<Rightarrow> api_store \<Rightarrow> bool" where
  "readable_copy env k s \<longleftrightarrow> row_copy env k s \<noteq> None \<or>
     fst (localStorageAvailable env (c_local s)) \<and> (\<exists>m. c_local s = Some m \<and> raw_copy m k \<noteq> None)"

definition kept :: "api_env \<Rightarrow> string \<Rightarrow> string \<Rightarrow> int \<Rightarrow> api_store \<Rightarrow> bool" where
  "kept env k txt T s \<longleftrightarrow> (\<forall>c. map_get (c_mem s) k = Some c \<longrightarrow> response_text (cr_response c) = txt) \<and>
     local_keep k txt T (c_local s) \<and> rows_keep k txt T (c_caches s) \<and> rows_keep k txt T (c_db s) \<and> readable_copy env k s"

lemma row_copy_local [simp]:
  "row_copy env k (s\<lparr>c_local := ls\<rparr>) = row_copy env k s" "row_copy env k (s\<lparr>c_mem := mm\<rparr>) = row_copy env k s"
  "row_copy env k (s\<lparr>c_notices := n\<rparr>) = row_copy env k s"
  by (simp_all add: row_copy_def cong: option.case_cong)

lemma map_set_delete: "map_set k v (map_delete k m) = map_delete k m @ [(k, v)]"
  by (induction m) (auto simp: map_delete_def)

lemma total_set_delete: "total_chars len (map_set k v (map_delete k m)) \<le> total_chars len (map_set k v m)"
proof (induction m)
  case (Cons kv m)
  obtain j u where kv: "kv = (j, u)" by force
  show ?case
  proof (cases "j = k")
    case True
    have "map_delete k ((k, u) # m) = map_delete k m" by (simp add: map_delete_def)
    moreover note map_set_delete [of k v m]
    ultimately show ?thesis using total_delete [of len k m] by (simp add: kv True total_chars_def)
  next
    case False
    then have "map_delete k ((j, u) # m) = (j, u) # map_delete k m" by (simp add: map_delete_def)
    with False Cons.IH show ?thesis by (simp add: kv total_chars_def)
  qed
qed (simp add: map_delete_def)

text \<open>After the probe, another probe comes out the same.\<close>

lemma available_again:
  assumes "localStorageAvailable env ls = (okay, ls')"
  shows "localStorageAvailable env ls' = (okay, ls')"
proof (cases okay)
  case True
  with available_result [OF assms] obtain m where m: "ls = Some m" "ls' = Some (map_delete PROBE_KEY m)" by auto
  with assms True have "total_chars (copy_chars env) (map_set PROBE_KEY (Text ''1'') m) \<le> e_quota env"
    by (simp add: localStorageAvailable_def setItem_def split: if_splits)
  then have "total_chars (copy_chars env) (map_set PROBE_KEY (Text ''1'') (map_delete PROBE_KEY m)) \<le> e_quota env"
    by (rule le_trans [OF total_set_delete])
  moreover have "map_delete PROBE_KEY (map_delete PROBE_KEY m) = map_delete PROBE_KEY m" by (simp add: map_delete_def)
  ultimately show ?thesis using True m(2) by (simp add: localStorageAvailable_def setItem_def delete_set)
next
  case False
  with available_result [OF assms] have "ls' = ls" by simp
  with assms show ?thesis by simp
qed

lemma raw_copy_probe: "raw_copy (map_delete PROBE_KEY m) k = raw_copy m k"
  by (simp add: raw_copy_def map_get_delete)

lemma kept_probe:
  assumes "kept env k txt T s"
  shows "kept env k txt T (s\<lparr>c_local := snd (localStorageAvailable env (c_local s))\<rparr>)"
proof -
  obtain okay ls' where a: "localStorageAvailable env (c_local s) = (okay, ls')" by force
  note r = available_result [OF a]
  have "local_keep k txt T (c_local s)" using assms by (simp add: kept_def)
  then have "local_keep k txt T ls'" using r by (auto simp: local_keep_def raw_copy_probe)
  moreover have "readable_copy env k (s\<lparr>c_local := ls'\<rparr>)"
    using assms r a available_again [OF a] by (auto simp: kept_def readable_copy_def raw_copy_probe split: if_splits)
  ultimately show ?thesis using assms by (simp add: kept_def a)
qed

lemma getStored_kept:
  assumes "kept env k txt T s" and "now < T"
  shows "getStoredResponse env k now s =
    (Some (case row_copy env k s of None \<Rightarrow> None | Some r \<Rightarrow> Some (the (row_response r), sr_storedAt r)), s) \<and>
    (\<forall>r. row_copy env k s = Some r \<longrightarrow> response_text (the (row_response r)) = txt)"
proof -
  define db where "db = (case c_db s of None \<Rightarrow> None | Some rows \<Rightarrow> map_get rows k)"
  have good: "T \<le> sr_retainUntil r \<and> row_response r = Some (the (row_response r)) \<and> response_text (the (row_response r)) = txt"
    if "c_db s = Some rows \<or> c_caches s = Some rows" "map_get rows k = Some r" for rows r
    using assms(1) that by (fastforce simp: kept_def rows_keep_def)
  have "getDatabaseResponse k now (c_db s) = (db, c_db s)"
    using good assms(2) by (fastforce simp: getDatabaseResponse_def db_def split: option.split)
  moreover have resp: "row_response r = Some (the (row_response r)) \<and> response_text (the (row_response r)) = txt" if "db = Some r" for r
    using that good by (auto simp: db_def split: option.splits)
  ultimately have D: "database_get k now s = (Some (case db of None \<Rightarrow> None | Some r \<Rightarrow> Some (the (row_response r), sr_storedAt r)), s)"
    by (cases db) (auto simp: database_get_def)
  show ?thesis
  proof (cases "\<exists>rows r. (if e_native env then None else c_caches s) = Some rows \<and> c_match_ok s \<and> map_get rows k = Some r")
    case True
    then obtain rows r where r: "\<not> e_native env" "c_caches s = Some rows" "c_match_ok s" "map_get rows k = Some r"
      by (auto split: if_splits)
    with good [of rows r] assms(2) have "\<not> sr_retainUntil r \<le> now" "row_response r = Some (the (row_response r))"
        "response_text (the (row_response r)) = txt" by auto
    moreover from this(2) obtain x where "row_response r = Some x" by blast
    ultimately show ?thesis using r by (simp add: getStoredResponse_def row_copy_def)
  next
    case False
    then have "getStoredResponse env k now s = database_get k now s" "row_copy env k s = db"
      by (auto simp: getStoredResponse_def row_copy_def db_def Let_def split: option.split)
    with D resp show ?thesis by simp
  qed
qed

lemma kept_mem:
  "\<lbrakk>kept env k txt T s; \<And>c. map_get mem k = Some c \<Longrightarrow> response_text (cr_response c) = txt\<rbrakk> \<Longrightarrow> kept env k txt T (s\<lparr>c_mem := mem\<rparr>)"
  by (simp add: kept_def readable_copy_def)

lemma kept_notices: "kept env k txt T s \<Longrightarrow> kept env k txt T (s\<lparr>c_notices := n\<rparr>)"
  by (simp add: kept_def readable_copy_def)

lemma readMemory_kept:
  assumes "kept env k txt T s" and "readMemoryGetCache k now swr (c_mem s) = (hit, mem)"
  shows "kept env k txt T (s\<lparr>c_mem := mem\<rparr>) \<and> (\<forall>h. hit = Some h \<longrightarrow> response_text (lk_response h) = txt)"
proof -
  have "\<forall>c. map_get mem k = Some c \<longrightarrow> map_get (c_mem s) k = Some c"
    using assms(2) by (auto simp: readMemoryGetCache_def map_get_delete Let_def split: option.splits if_splits)
  with assms(1) have "kept env k txt T (s\<lparr>c_mem := mem\<rparr>)" by (intro kept_mem) (auto simp: kept_def)
  moreover have "\<forall>h. hit = Some h \<longrightarrow> response_text (lk_response h) = txt"
    using assms by (auto simp: readMemoryGetCache_def kept_def Let_def split: option.splits if_splits)
  ultimately show ?thesis by simp
qed

lemma readPersistent_kept:
  assumes "kept env k txt T s" and "now < T" and "readPersistentGetCache env k now swr (c_local s) = (hit, ls)"
  shows "kept env k txt T (s\<lparr>c_local := ls\<rparr>) \<and> (\<forall>h. hit = Some h \<longrightarrow> response_text (lk_response h) = txt)"
proof -
  obtain okay ls' where a: "localStorageAvailable env (c_local s) = (okay, ls')" by force
  note probe = kept_probe [OF assms(1), unfolded a snd_conv]
  have "ls = ls' \<and> (\<forall>h. hit = Some h \<longrightarrow> response_text (lk_response h) = txt)"
  proof (cases "\<exists>m t. okay \<and> ls' = Some m \<and> raw_copy m k = Some t")
    case True
    then obtain m t where m: "okay" "ls' = Some m" "raw_copy m k = Some t" by auto
    with probe obtain p x where "t = Copy p" "copy_response p = Some x" "response_text x = txt" "T \<le> nullish (pc_retainUntilMs p) 0"
      by (auto simp: kept_def local_keep_def)
    with m a assms(2,3) show ?thesis
      by (auto simp: readPersistentGetCache_def Let_def split: if_splits)
  next
    case False
    with a assms(3) show ?thesis
      by (cases okay; cases ls') (auto simp: readPersistentGetCache_def Let_def)
  qed
  with probe show ?thesis by simp
qed

lemma cacheResponse_get: "map_get (cacheResponse now k e mem) k = Some c \<Longrightarrow> c = e"
proof -
  assume g: "map_get (cacheResponse now k e mem) k = Some c"
  have "c = e" if "(k, c) \<in> set (drop n (map_set k e (map_delete k m)))" for n m
    using in_set_dropD [OF that] unfolding map_set_delete by (auto simp: map_delete_def)
  with map_of_SomeD [OF g [unfolded map_get_def cacheResponse_def Let_def]] show ?thesis by blast
qed

lemma quick_kept:
  assumes "kept env k txt T s" and "newest (mem_copy k s) (local_copy env k s) = Some (t, x)"
  shows "response_text x = txt"
proof -
  have "response_text x = txt" if "local_copy env k s = Some (t, x)" for t x
  proof -
    obtain okay ls' where a: "localStorageAvailable env (c_local s) = (okay, ls')" by force
    with that obtain m p where "okay" "ls' = Some m" "raw_copy m k = Some (Copy p)" "copy_response p = Some x"
      by (auto simp: local_copy_def split: bool.splits option.splits copy_text.splits)
    with kept_probe [OF assms(1), unfolded a snd_conv] show ?thesis by (fastforce simp: kept_def local_keep_def)
  qed
  moreover have "response_text x = txt" if "mem_copy k s = Some (t, x)" for t x
    using that assms(1) by (auto simp: kept_def mem_copy_def)
  ultimately show ?thesis using assms(2) by (auto simp: newest_def split: option.splits if_splits prod.splits)
qed

lemma readable_kept:
  assumes "kept env k txt T s"
  shows "local_copy env k s \<noteq> None \<or> row_copy env k s \<noteq> None"
proof -
  obtain okay ls' where a: "localStorageAvailable env (c_local s) = (okay, ls')" by force
  note probe = kept_probe [OF assms, unfolded a snd_conv]
  have "local_copy env k s \<noteq> None" if "okay" "c_local s = Some m" "raw_copy m k = Some t" for m t
  proof -
    have m: "ls' = Some (map_delete PROBE_KEY m)" "raw_copy (map_delete PROBE_KEY m) k = Some t"
      using available_result [OF a] that by (simp_all add: raw_copy_probe)
    with probe obtain p x where "t = Copy p" "copy_response p = Some x" by (fastforce simp: kept_def local_keep_def)
    with m that(1) show ?thesis by (simp add: local_copy_def a)
  qed
  with assms a show ?thesis by (auto simp: kept_def readable_copy_def)
qed

lemma anyAge_kept:
  assumes "kept env k txt T s" and "readCacheAnyAge env k now s = (q, s1)"
  shows "kept env k txt T s1 \<and> (\<forall>h. q = Some h \<longrightarrow> response_text (lk_response h) = txt) \<and>
    (q = None \<longleftrightarrow> newest (mem_copy k s) (local_copy env k s) = None)"
proof -
  have q: "q = map_option (\<lambda>(t, r). \<lparr>lk_fresh = False, lk_response = r, lk_ageSec = age_sec now t\<rparr>)
      (newest (mem_copy k s) (local_copy env k s))"
    using readCacheAnyAge_newest [of env k now s] assms(2) by simp
  moreover have "response_text (lk_response h) = txt" if "q = Some h" for h
  proof (cases "newest (mem_copy k s) (local_copy env k s)")
    case (Some tx)
    with quick_kept [OF assms(1), of "fst tx" "snd tx"] that q show ?thesis by (auto split: prod.splits)
  qed (use that q in simp)
  ultimately show ?thesis using kept_probe [OF assms(1)] readCacheAnyAge_state [OF assms(2)] by auto
qed

lemma fallback_kept:
  assumes "kept env k txt T s" and "now < T"
  shows "\<exists>x s'. offlineStaleFallback env k now s = (Some (Some x), s') \<and> response_text x = txt \<and>
    map_get (rs_headers x) ''x-from-cache'' = Some ''offline-stale'' \<and> kept env k txt T s'"
proof -
  obtain q s1 where a: "readCacheAnyAge env k now s = (q, s1)" by force
  note A = anyAge_kept [OF assms(1) a]
  then have k1: "kept env k txt T s1" by simp
  obtain g where b: "getStoredResponse env k now s1 = (Some g, s1)" "g = None \<longleftrightarrow> row_copy env k s1 = None"
      "\<And>x t. g = Some (x, t) \<Longrightarrow> response_text x = txt"
    using getStored_kept [OF k1 assms(2)] by (auto split: option.splits)
  have "q \<noteq> None \<or> g \<noteq> None"
    using readable_kept [OF assms(1)] b(2) readCacheAnyAge_state [OF a] A by (auto simp: newest_def split: option.splits prod.splits)
  moreover define hit where "hit = (case g of
       Some (r, storedAt) \<Rightarrow>
         if (case q of None \<Rightarrow> True | Some h \<Rightarrow> storedAt > now - lk_ageSec h * 1000) then Some r else map_option lk_response q
     | None \<Rightarrow> map_option lk_response q)"
  ultimately obtain r where h: "hit = Some r" "response_text r = txt"
    using A b(3) by (cases g; cases q) (auto split: if_splits)
  then have r: "offlineStaleFallback env k now s =
      (Some (Some (r\<lparr>rs_headers := header_set ''X-From-Cache'' ''offline-stale'' (rs_headers r)\<rparr>)), s1\<lparr>c_notices := Suc (c_notices s1)\<rparr>)"
    by (simp add: offlineStaleFallback_def a b(1) Let_def hit_def)
  have "js_lower ''X-From-Cache'' = ''x-from-cache''" by code_simp
  with r h(2) k1 show ?thesis by (simp add: header_set_def map_get_set kept_notices response_text_def)
qed

lemma within_kept:
  assumes "kept env k txt T s" and "now < T" and "savedCopyWithin env k maxAge now s = (c, s')"
  shows "kept env k txt T s' \<and> (\<forall>h. c = Some h \<longrightarrow> response_text (lk_response h) = txt)"
proof -
  obtain q s1 where a: "readCacheAnyAge env k now s = (q, s1)" by force
  note A = anyAge_kept [OF assms(1) a]
  then have k1: "kept env k txt T s1" by simp
  obtain g where b: "getStoredResponse env k now s1 = (Some g, s1)"
      "\<And>x t. g = Some (x, t) \<Longrightarrow> response_text x = txt"
    using getStored_kept [OF k1 assms(2)] by (auto split: option.splits)
  with assms(3) k1 A show ?thesis
    by (auto simp: savedCopyWithin_def a split: option.splits if_splits)
qed

lemma lookup_kept:
  assumes "kept (v_api env) (q_key q) txt T (f_store s)" and "now < T" and "saved_lookup env now q s = (res, s')"
  shows "kept (v_api env) (q_key q) txt T (f_store s') \<and> (\<forall>r. res = Inl r \<longrightarrow> response_text r = txt) \<and>
    (\<forall>h. res = Inr (Some h) \<longrightarrow> response_text (lk_response h) = txt)"
proof -
  obtain hit mem where a: "readMemoryGetCache (q_key q) now (q_swr q) (c_mem (f_store s)) = (hit, mem)" by force
  obtain p ls where b: "readPersistentGetCache (v_api env) (q_key q) now (q_swr q) (c_local (f_store s)) = (p, ls)" by force
  note A = readMemory_kept [OF assms(1) a]
  have "readPersistentGetCache (v_api env) (q_key q) now (q_swr q) (c_local (f_store s\<lparr>c_mem := mem\<rparr>)) = (p, ls)" using b by simp
  note B = readPersistent_kept [OF A [THEN conjunct1] assms(2) this]
  have B1: "kept (v_api env) (q_key q) txt T (f_store s\<lparr>c_mem := mem, c_local := ls\<rparr>)" using B by simp
  have C: "kept (v_api env) (q_key q) txt T (f_store s\<lparr>c_local := ls, c_mem := cacheResponse now (q_key q) e mem\<rparr>)"
    if "response_text (cr_response e) = txt" for e
    using kept_mem [OF B1, of "cacheResponse now (q_key q) e mem"] cacheResponse_get that by force
  show ?thesis
    using assms(3) A B B1 C by (auto simp: saved_lookup_def a b split: if_splits option.splits)
qed

section \<open>A first copy is saved\<close>

definition no_copies :: "string \<Rightarrow> api_store \<Rightarrow> bool" where
  "no_copies k s \<longleftrightarrow> map_get (c_mem s) k = None \<and> (\<forall>m. c_local s = Some m \<longrightarrow> map_get m (persistentCacheKey k) = None) \<and>
     (\<forall>rows. c_caches s = Some rows \<or> c_db s = Some rows \<longrightarrow> map_get rows k = None)"

lemma no_copies_read:
  assumes "no_copies k s"
  shows "\<exists>ls. offlineStaleFallback env k now s = (Some None, s\<lparr>c_local := ls\<rparr>) \<and> no_copies k (s\<lparr>c_local := ls\<rparr>)"
proof -
  obtain okay ls where a: "localStorageAvailable env (c_local s) = (okay, ls)" by force
  note r = available_result [OF a]
  have n: "no_copies k (s\<lparr>c_local := ls\<rparr>)"
    using assms r by (auto simp: no_copies_def map_get_delete)
  have "newest (mem_copy k s) (local_copy env k s) = None"
    using assms n by (auto simp: newest_def mem_copy_def local_copy_def no_copies_def raw_copy_def a split: option.splits bool.splits)
  moreover obtain h s1 where h: "readCacheAnyAge env k now s = (h, s1)" by force
  ultimately have q: "readCacheAnyAge env k now s = (None, s\<lparr>c_local := ls\<rparr>)"
    using readCacheAnyAge_newest [of env k now s] readCacheAnyAge_state [OF h] a by simp
  have "getStoredResponse env k now (s\<lparr>c_local := ls\<rparr>) = (Some None, s\<lparr>c_local := ls\<rparr>)"
    using n by (auto simp: no_copies_def getStoredResponse_def database_get_def getDatabaseResponse_def split: option.split)
  with q n show ?thesis by (auto simp: offlineStaleFallback_def)
qed

lemma prune_rows_get: "\<lbrakk>map_ok rows; map_get (prune_rows now n gone rows) k = Some r\<rbrakk> \<Longrightarrow> map_get rows k = Some r"
  using prune_rows_sub [of now n gone rows] prune_rows_ok [of rows now n gone] by (auto simp: map_get_set_iff)

text \<open>After a row is put where no copy was, the row is the only one of its key.\<close>

lemma put_rows:
  assumes "no_copies k s" and "rows_before k now (c_caches s)" and "rows_before k now (c_db s)"
    and "putStoredResponse env k row now s = (okay, t)"
    and "c_caches t = Some rows \<or> c_db t = Some rows" and "map_get rows k = Some r"
  shows "r = row"
proof -
  have none: "map_get rows k = None" if "c_caches s = Some rows \<or> c_db s = Some rows" for rows
    using that assms(1) by (auto simp: no_copies_def)
  define only where "only = (\<lambda>st :: (string, stored_row) jsmap option.
    \<forall>rows r. st = Some rows \<longrightarrow> map_ok rows \<and> (map_get rows k = Some r \<longrightarrow> r = row))"
  have old: "only (c_caches s)" "only (c_db s)"
    using none assms(2,3) by (auto simp: only_def rows_before_def)
  have prune: "only (c_caches (pruneStoredResponses now u)) \<and> only (c_db (pruneStoredResponses now u))"
    if "only (c_caches u)" "only (c_db u)" for u
  proof -
    have "only (pruneDatabaseResponses now MAX_ENTRIES (c_db u))"
      unfolding only_def
    proof (intro allI impI)
      fix rows r
      assume "pruneDatabaseResponses now MAX_ENTRIES (c_db u) = Some rows"
      then obtain old where o: "c_db u = Some old"
        "rows = prune_rows now MAX_ENTRIES (\<lambda>(_, r). sr_retainUntil r \<le> now) (js_sort by_key old)"
        by (auto simp: pruneDatabaseResponses_def)
      with that(2) have "map_ok (js_sort by_key old)" "map_get (js_sort by_key old) k = Some r \<longrightarrow> r = row"
        by (auto simp: only_def map_ok_sort map_get_set_iff)
      with o(2) show "map_ok rows \<and> (map_get rows k = Some r \<longrightarrow> r = row)"
        by (auto simp: prune_rows_ok dest: prune_rows_get)
    qed
    moreover have "only (map_option (prune_rows now MAX_ENTRIES gone) (c_caches u))" for gone
      using that(1) by (auto simp: only_def prune_rows_ok dest: prune_rows_get)
    ultimately show ?thesis using that by (simp add: store_prune_fields)
  qed
  have db: "only (c_caches u') \<and> only (c_db u')" if "only (c_caches u)" "only (c_db u)" "database_put k row now u = (b, u')" for u u' b
  proof (cases "c_db u")
    case (Some rows)
    then have "only (Some (map_set k row rows))" using that(2) by (auto simp: only_def map_get_set map_ok_set)
    with that Some show ?thesis
      using prune [of "u\<lparr>c_db := Some (map_set k row rows)\<rparr>"] by (auto simp: database_put_def putDatabaseResponse_def)
  qed (use that in \<open>auto simp: database_put_def putDatabaseResponse_def\<close>)
  have new: "only (Some (map_delete k rows @ [(k, row)]))" if "only (Some rows)" for rows
    using that map_set_delete [of k row rows] map_ok_set [OF map_ok_delete, of rows k row k]
    by (auto simp: only_def map_get_set simp flip: map_set_delete)
  have "only (c_caches t) \<and> only (c_db t)"
  proof (cases "if e_native env then None else c_caches s")
    case None
    then show ?thesis using db [OF old] assms(4) by (simp add: putStoredResponse_def)
  next
    case (Some rows)
    then have c: "c_caches s = Some rows" by (simp split: if_splits)
    define u where "u = s\<lparr>c_caches := Some (map_delete k rows @ [(k, row)])\<rparr>"
    have u: "only (c_caches u)" "only (c_db u)" using new old c by (simp_all add: u_def)
    have "database_put k row now s = (okay, t) \<or> t = pruneStoredResponses now u \<or>
        database_put k row now (pruneStoredResponses now u) = (okay, t)"
      using assms(4) Some by (auto simp: putStoredResponse_def u_def Let_def split: if_splits)
    then show ?thesis using db [OF old] prune [OF u] db by blast
  qed
  with assms(5,6) show ?thesis by (auto simp: only_def)
qed

lemma no_row: "row_copy env k s = None \<Longrightarrow> fst (getStoredResponse env k now s) = Some None"
  by (auto simp: row_copy_def getStoredResponse_def database_get_def getDatabaseResponse_def Let_def split: option.splits if_splits)

lemma put_kept:
  assumes "no_copies k s" and "rows_before k now (c_caches s)" and "rows_before k now (c_db s)"
    and "putStoredResponse env k row now s = (True, t)"
    and "sr_storedAt row = now" and "now < sr_retainUntil row" and "row_response row = Some x"
    and "\<And>m. ls = Some m \<Longrightarrow> map_get m (persistentCacheKey k) = None"
  shows "kept env k (response_text x) (sr_retainUntil row) (t\<lparr>c_local := ls\<rparr>)"
proof -
  have same: "c_mem t = c_mem s" using putStored_same [OF assms(4)] by simp
  have none: "\<forall>rows. c_caches s = Some rows \<longrightarrow> map_get rows k = None" using assms(1) by (simp add: no_copies_def)
  have "fst (getStoredResponse env k now t) = Some (Some (x, now))"
    using putStored_found [OF assms(3,2,5,6) _ assms(7) _ assms(4)] none by simp
  then have found: "row_copy env k t \<noteq> None" using no_row [of env k t now] by auto
  have only: "r = row" if "c_caches t = Some rows \<or> c_db t = Some rows" "map_get rows k = Some r" for rows r
    using put_rows [OF assms(1-4) that] .
  then have "rows_keep k (response_text x) (sr_retainUntil row) (c_caches t)" "rows_keep k (response_text x) (sr_retainUntil row) (c_db t)"
    using assms(7) by (auto simp: rows_keep_def)
  moreover have "local_keep k (response_text x) (sr_retainUntil row) ls"
    using assms(8) by (auto simp: local_keep_def raw_copy_def)
  ultimately show ?thesis
    using found assms(1) by (simp add: kept_def readable_copy_def same no_copies_def)
qed

lemma write_kept:
  assumes "writePersistentGetCache env k r ttl now s = (True, s1)"
    and "rs_ok r" and "rs_status r \<notin> {204, 205}" and "no_copies k s"
    and "rows_before k now (c_caches s)" and "rows_before k now (c_db s)"
    and "e_native env \<or> fst (localStorageAvailable env (c_local s1))"
  shows "kept env k (response_text r) (now + max ttl PERSIST_GET_CACHE_TTL_MS) s1"
proof -
  define T where "T = now + max ttl PERSIST_GET_CACHE_TTL_MS"
  define row where "row = stored_copy r now T"
  define pay where "pay = persistent_payload r now ttl T"
  define x0 where "x0 = r\<lparr>rs_body := Some (response_text r)\<rparr>"
  note def = writePersistentGetCache_def [of env k r ttl now s, folded T_def, folded row_def pay_def]
  have resp: "row_response row = Some x0" "copy_response pay = Some x0"
    using assms(2,3)
    by (auto simp: row_def pay_def x0_def stored_copy_def persistent_payload_def row_response_def copy_response_def
        new_response_def rs_ok_def Let_def)
  have body: "response_text x0 = response_text r" by (simp add: x0_def response_text_def)
  have row: "sr_storedAt row = now" "sr_retainUntil row = T" "now < sr_retainUntil row"
    by (simp_all add: row_def stored_copy_def T_def PERSIST_GET_CACHE_TTL_MS_def less_max_iff_disj)
  have pos: "0 < ttl" using assms(1) by (simp add: def split: if_splits)
  have put: ?thesis if p: "putStoredResponse env k row now s' = (True, t)"
    and s': "no_copies k s'" "c_db s' = c_db s" "c_caches s' = c_caches s"
    and l: "\<And>m. ls = Some m \<Longrightarrow> map_get m (persistentCacheKey k) = None" and t: "s1 = t\<lparr>c_local := ls\<rparr>" for s' t ls
    using put_kept [OF s'(1) _ _ p row(1,3) resp(1) l, of ls] assms(5,6) s'(2,3) t by (simp add: body row(2) T_def)
  have old: "map_get m (persistentCacheKey k) = None" if "c_local s = Some m" for m
    using that assms(4) by (simp add: no_copies_def)
  show ?thesis
  proof (cases "e_native env \<or> PERSIST_GET_CACHE_MAX_BODY_BYTES < length (response_text r)")
    case True
    obtain b t where p: "putStoredResponse env k row now s = (b, t)" by force
    have loc: "c_local t = c_local s" using putStored_same [OF p] by simp
    have b: "b" and t: "s1 = t\<lparr>c_local := c_local t\<rparr> \<or> s1 = t\<lparr>c_local := map_option (map_delete (persistentCacheKey k)) (c_local t)\<rparr>"
      using assms(1) True pos p by (auto simp: def Let_def T_def [symmetric] row_def pay_def split: if_splits)
    have d: "map_get m (persistentCacheKey k) = None" if "map_option (map_delete (persistentCacheKey k)) (c_local t) = Some m" for m
      using that by (auto simp: map_get_delete)
    note put' = put [OF p [unfolded b [THEN eqTrueI]] assms(4) HOL.refl HOL.refl]
    from t show ?thesis
    proof
      assume "s1 = t\<lparr>c_local := c_local t\<rparr>"
      from put' [OF _ this] old show ?thesis by (simp add: loc)
    next
      assume "s1 = t\<lparr>c_local := map_option (map_delete (persistentCacheKey k)) (c_local t)\<rparr>"
      from put' [OF d this] show ?thesis .
    qed
  next
    case False
    show ?thesis
    proof (cases "c_local s")
      case None
      with assms(1) False pos have p: "putStoredResponse env k row now s = (True, s1)" by (simp add: def Let_def row_def pay_def)
      then show ?thesis using put [OF p assms(4), of None] putStored_same [OF p] None by simp
    next
      case (Some m)
      obtain b m1 where c: "write_copy env (persistentCacheKey k) (Copy pay) m = (b, m1)" by force
      show ?thesis
      proof (cases b)
        case no: False
        then have p: "putStoredResponse env k row now (s\<lparr>c_local := Some m1\<rparr>) = (True, s1)"
          using assms(1) False pos Some c by (simp add: def Let_def row_def pay_def)
        have m1: "map_get m1 (persistentCacheKey k) = None" using write_copy_get [OF c] no old [OF Some] by simp
        then have "no_copies k (s\<lparr>c_local := Some m1\<rparr>)" using assms(4) by (simp add: no_copies_def)
        from put [OF p this, of "Some m1"] putStored_same [OF p] m1 show ?thesis by simp
      next
        case True
        have s1: "s1 = prunePersistentCache env now (max 20 PERSIST_GET_CACHE_MAX_ENTRIES) (s\<lparr>c_local := Some m1\<rparr>)"
          and m: "case c_local s1 of None \<Rightarrow> False | Some m2 \<Rightarrow> map_get m2 (persistentCacheKey k) \<noteq> None"
          using assms(1) False True pos Some c by (auto simp: def Let_def row_def pay_def)
        have "map_get m1 (persistentCacheKey k) = Some (Copy pay)" using write_copy_get [OF c] True by simp
        with m prune_get_local [of "s\<lparr>c_local := Some m1\<rparr>" m1 env now "max 20 PERSIST_GET_CACHE_MAX_ENTRIES" k]
        obtain m2 where m2: "c_local s1 = Some m2" "map_get m2 (persistentCacheKey k) = Some (Copy pay)"
          unfolding s1 by (auto split: option.splits)
        have same: "c_caches s1 = c_caches s" "c_db s1 = c_db s" "c_mem s1 = c_mem s"
          by (auto simp: s1 prunePersistentCache_def Let_def split: prod.split bool.split option.split)
        have raw: "raw_copy m2 k = Some (Copy pay)" using m2 by (simp add: raw_copy_def)
        then have "local_keep k (response_text r) T (c_local s1)" "readable_copy env k s1"
          using m2(1) resp(2) body assms(7) False
          by (auto simp: local_keep_def readable_copy_def pay_def persistent_payload_def)
        moreover have "rows_keep k (response_text r) T (c_caches s)" "rows_keep k (response_text r) T (c_db s)"
          using assms(4) by (auto simp: rows_keep_def no_copies_def)
        ultimately show ?thesis using assms(4) by (simp add: kept_def same no_copies_def T_def)
      qed
    qed
  qed
qed

section \<open>Reads without a good answer\<close>

text \<open>The network fails, or the server is in trouble.\<close>

definition no_good_answer :: "'c world \<Rightarrow> bool" where
  "no_good_answer w \<longleftrightarrow> (case w_net w of Arrives r \<Rightarrow> serverTrouble r | Fails _ _ _ \<Rightarrow> True)"

definition holds_copy :: "'c fetch_env \<Rightarrow> string \<Rightarrow> string \<Rightarrow> int \<Rightarrow> 'c api_state \<Rightarrow> bool" where
  "holds_copy env k txt T s \<longleftrightarrow> kept (v_api env) k txt T (f_store s)"

text \<open>Nothing reads the URL right now, neither the app nor the page before it.\<close>

definition not_reading :: "string \<Rightarrow> string \<Rightarrow> 'c api_state \<Rightarrow> bool" where
  "not_reading k url s \<longleftrightarrow> k \<notin> set (f_inflight s) \<and> map_get (f_boot s) url = None"

definition undisturbed :: "'c fetch_env \<Rightarrow> string \<Rightarrow> string \<Rightarrow> string \<Rightarrow> int \<Rightarrow> 'c world \<Rightarrow> bool" where
  "undisturbed env k url txt T w \<longleftrightarrow> stable (holds_copy env k txt T) w \<and> stable (not_reading k url) w \<and> (\<forall>i. w_now w i < T)"

lemma holds_cong: "f_store s = f_store s' \<Longrightarrow> holds_copy env k txt T s = holds_copy env k txt T s'"
  by (simp add: holds_copy_def)

lemma whole_simps [simp]: "rs_status (whole_response r) = rs_status r" "rs_ok (whole_response r) = rs_ok r"
  "serverTrouble (whole_response r) = serverTrouble r"
  by (simp_all add: whole_response_def rs_ok_def serverTrouble_def)

lemma trouble_not_ok: "serverTrouble r \<Longrightarrow> \<not> rs_ok r \<and> rs_status r \<noteq> 401"
  by (auto simp: serverTrouble_def rs_ok_def)

lemma run_ends_bad:
  assumes "no_good_answer w"
  shows "\<exists>res. run_ends env w q lo None s = (res, s) \<and> (case res of Answer r \<Rightarrow> serverTrouble r | Rejected _ \<Rightarrow> True)"
proof (cases "w_net w")
  case (Arrives r)
  with assms have "serverTrouble r" by (simp add: no_good_answer_def)
  with Arrives trouble_not_ok [OF this] show ?thesis
    by (simp add: run_ends_def revoke_sent_def keep_response_def Let_def)
qed (simp add: run_ends_def)

lemma fall_back_holds:
  assumes "holds_copy env k txt T s" and "now < T"
  shows "\<exists>x s'. fall_back env k now s = (Some (Some x), s') \<and> response_text x = txt \<and> holds_copy env k txt T s' \<and>
    f_inflight s' = f_inflight s \<and> f_boot s' = f_boot s"
  using fallback_kept [OF assms(1) [unfolded holds_copy_def] assms(2)]
  by (auto simp: fall_back_def on_store_def holds_copy_def)

lemma settle_holds:
  assumes "holds_copy env (q_key q) txt T s" and "stable (holds_copy env (q_key q) txt T) w" and "\<forall>i. w_now w i < T"
    and "case res of Answer r \<Rightarrow> serverTrouble r | Rejected _ \<Rightarrow> True"
  shows "\<exists>x s'. settle env w q (res, s) = (Answer x, s') \<and> response_text x = txt"
proof -
  from fall_back_holds [OF stableD [OF assms(2,1)] assms(3) [rule_format]]
  obtain x s' where "fall_back env (q_key q) (w_now w 5) (w_others w 5 s) = (Some (Some x), s')" "response_text x = txt" by blast
  with assms(4) show ?thesis by (cases res) (auto simp: settle_def)
qed

lemma wait_holds:
  assumes "holds_copy env (q_key q) txt T s" and "stable (holds_copy env (q_key q) txt T) w" and "\<forall>i. w_now w i < T"
    and "\<And>u. holds_copy env (q_key q) txt T u \<Longrightarrow> \<exists>res u'. land u = (res, u') \<and> holds_copy env (q_key q) txt T u' \<and>
      (case res of Answer r \<Rightarrow> serverTrouble r | Rejected _ \<Rightarrow> True)"
  shows "\<exists>x s'. wait_for_network env w q land s = (Answer x, s') \<and> response_text x = txt"
proof (cases "w_slow w")
  case True
  from fall_back_holds [OF stableD [OF assms(2,1)] assms(3) [rule_format]]
  obtain x s' where "fall_back env (q_key q) (w_now w 3) (w_others w 3 s) = (Some (Some x), s')" "response_text x = txt" by blast
  with True show ?thesis by (simp add: wait_for_network_def)
next
  case False
  from assms(4) [OF assms(1)] obtain res u' where "land s = (res, u')" "holds_copy env (q_key q) txt T u'"
    "case res of Answer r \<Rightarrow> serverTrouble r | Rejected _ \<Rightarrow> True" by blast
  with False settle_holds [OF this(2) assms(2,3) this(3)] show ?thesis by (simp add: wait_for_network_def)
qed

lemma offline_holds:
  assumes "holds_copy env (q_key q) txt T s" and "\<forall>i. w_now w i < T"
  shows "(\<exists>x s'. offline_answer env w q s = (Some (Answer x), s') \<and> response_text x = txt) \<or> offline_answer env w q s = (None, s)"
  using fall_back_holds [OF assms(1) assms(2) [rule_format, of 2]] by (auto simp: offline_answer_def)

lemma send_headers_result:
  assumes "send_headers env w now init q s = (q', s')"
  shows "f_store s' = f_store s \<and> f_inflight s' = f_inflight s \<and> f_boot s' = f_boot s \<and> f_calls s' = f_calls s \<and>
    f_device s' = f_device s \<and> f_dropped s' = f_dropped s \<and> q_key q' = q_key q \<and> q_req_url q' = q_req_url q \<and> q_req_method q' = q_req_method q \<and>
    q_audit q' = q_audit q \<and> q_use_cache q' = q_use_cache q \<and> q_ttl q' = q_ttl q"
  using assms by (auto simp: send_headers_def Let_def split: prod.splits)

lemma own_read_holds:
  assumes "holds_copy env (q_key q) txt T s" and "map_get (f_boot s) (q_req_url q) = None"
    and "stable (holds_copy env (q_key q) txt T) w" and "\<forall>i. w_now w i < T" and "no_good_answer w"
  shows "\<exists>x s'. own_read env w q s = (Answer x, s') \<and> response_text x = txt"
proof -
  have h: "holds_copy env (q_key q) txt T (add_inflight (q_key q) (s\<lparr>f_boot := map_delete (q_req_url q) (f_boot s)\<rparr>))"
    using assms(1) by (simp add: holds_copy_def add_inflight_def)
  have l: "\<exists>res u'. (case run_ends env w q False None (w_others w 4 u) of (res, s2) \<Rightarrow> (res, end_inflight (q_key q) s2)) = (res, u') \<and>
      holds_copy env (q_key q) txt T u' \<and> (case res of Answer r \<Rightarrow> serverTrouble r | Rejected _ \<Rightarrow> True)"
    if "holds_copy env (q_key q) txt T u" for u
    using run_ends_bad [OF assms(5), of env q False "w_others w 4 u"] stableD [OF assms(3) that, of 4]
    by (auto simp: holds_copy_def end_inflight_def)
  show ?thesis
    using wait_holds [OF h assms(3,4) l] by (simp add: own_read_def takeBootFetch_def assms(2))
qed

lemma live_read_holds:
  assumes "holds_copy env (q_key q) txt T s" and "map_get (f_boot s) (q_req_url q) = None"
    and "stable (holds_copy env (q_key q) txt T) w" and "\<forall>i. w_now w i < T" and "no_good_answer w"
  shows "\<exists>x s'. live_fetch env w q False s = (Answer x, s') \<and> response_text x = txt"
proof -
  have h: "holds_copy env (q_key q) txt T (s\<lparr>f_boot := map_delete (q_req_url q) (f_boot s)\<rparr>)"
    using assms(1) by (simp add: holds_copy_def)
  have l: "\<exists>res u'. run_ends env w q False None (w_others w 4 u) = (res, u') \<and>
      holds_copy env (q_key q) txt T u' \<and> (case res of Answer r \<Rightarrow> serverTrouble r | Rejected _ \<Rightarrow> True)"
    if "holds_copy env (q_key q) txt T u" for u
    using run_ends_bad [OF assms(5), of env q False "w_others w 4 u"] stableD [OF assms(3) that, of 4] by auto
  from offline_holds [OF assms(1,4)] show ?thesis
  proof
    assume "offline_answer env w q s = (None, s)"
    then show ?thesis
      using wait_holds [OF h assms(3,4) l] by (simp add: live_fetch_def takeBootFetch_def assms(2))
  qed (auto simp: live_fetch_def)
qed

lemma lookup_frame:
  "saved_lookup env now q s = (res, s') \<Longrightarrow> f_inflight s' = f_inflight s \<and> f_boot s' = f_boot s \<and> f_calls s' = f_calls s \<and>
     f_device s' = f_device s \<and> f_dropped s' = f_dropped s \<and> f_session s' = f_session s \<and> f_updated s' = f_updated s"
  by (auto simp: saved_lookup_def split: prod.splits if_splits option.splits)

lemma on_store_frame:
  "on_store f s = (x, s') \<Longrightarrow> f_inflight s' = f_inflight s \<and> f_boot s' = f_boot s \<and> f_calls s' = f_calls s \<and>
     f_device s' = f_device s \<and> f_dropped s' = f_dropped s \<and> f_session s' = f_session s \<and> f_updated s' = f_updated s \<and>
     f (f_store s) = (x, f_store s')"
  by (auto simp: on_store_def split: prod.splits)

lemma not_reading_cong:
  "\<lbrakk>f_inflight s' = f_inflight s; f_boot s' = f_boot s\<rbrakk> \<Longrightarrow> not_reading k url s' = not_reading k url s"
  by (simp add: not_reading_def)

lemma cached_read_holds:
  assumes "holds_copy env (q_key q) txt T s" and "not_reading (q_key q) (q_req_url q) s"
    and "undisturbed env (q_key q) (q_req_url q) txt T w" and "no_good_answer w"
  shows "\<exists>x s'. cached_fetch env w q init s = (Answer x, s') \<and> response_text x = txt"
proof -
  have st: "stable (holds_copy env (q_key q) txt T) w" "stable (not_reading (q_key q) (q_req_url q)) w" "\<forall>i. w_now w i < T"
    using assms(3) by (simp_all add: undisturbed_def)
  obtain found s1 where a: "saved_lookup env (w_now w 0) q s = (found, s1)" by force
  note A = lookup_kept [OF assms(1) [unfolded holds_copy_def] st(3) [rule_format] a]
  show ?thesis
  proof (cases found)
    case (Inl r)
    with A show ?thesis by (simp add: cached_fetch_def a)
  next
    case (Inr hit)
    define step where "step = (if hit = None \<and> cacheValueInt (i_showSavedMaxAgeMs init) 0 > 0
      then (case on_store (savedCopyWithin (v_api env) (q_key q) (cacheValueInt (i_showSavedMaxAgeMs init) 0) (w_now w 1)) s1 of
        (c, s2) \<Rightarrow> (c, w_others w 1 s2)) else (hit, s1))"
    obtain c s2 where b: "step = (c, s2)" by force
    have R1: "holds_copy env (q_key q) txt T s1" "not_reading (q_key q) (q_req_url q) s1"
      using A assms(2) lookup_frame [OF a] by (simp_all add: holds_copy_def not_reading_def)
    have B: "holds_copy env (q_key q) txt T s2 \<and> not_reading (q_key q) (q_req_url q) s2 \<and>
        (\<forall>h. c = Some h \<longrightarrow> response_text (lk_response h) = txt)"
    proof (cases "hit = None \<and> cacheValueInt (i_showSavedMaxAgeMs init) 0 > 0")
      case True
      obtain s' where o: "on_store (savedCopyWithin (v_api env) (q_key q) (cacheValueInt (i_showSavedMaxAgeMs init) 0) (w_now w 1)) s1 = (c, s')"
          "s2 = w_others w 1 s'"
        using b True by (auto simp: step_def split: prod.splits)
      note F = on_store_frame [OF o(1)]
      have "holds_copy env (q_key q) txt T s' \<and> (\<forall>h. c = Some h \<longrightarrow> response_text (lk_response h) = txt)"
        using within_kept [OF R1(1) [unfolded holds_copy_def] st(3) [rule_format]] F unfolding holds_copy_def by blast
      moreover have "not_reading (q_key q) (q_req_url q) s'" using R1(2) F by (simp add: not_reading_def)
      ultimately show ?thesis using o(2) stableD [OF st(1)] stableD [OF st(2)] by simp
    next
      case False
      with b have "c = hit \<and> s2 = s1" by (auto simp: step_def)
      with A Inr R1 show ?thesis by simp
    qed
    note fetch = cached_fetch_def [of env w q init s, unfolded a Inr Let_def prod.case sum.case, folded step_def, unfolded b prod.case]
    have free: "q_key q \<notin> set (f_inflight s2)" using B by (simp add: not_reading_def)
    show ?thesis
    proof (cases c)
      case (Some h)
      with B free show ?thesis by (simp add: fetch split: prod.split)
    next
      case None
      from B offline_holds [OF _ st(3)] consider x s' where "offline_answer env w q s2 = (Some (Answer x), s')" "response_text x = txt"
        | "offline_answer env w q s2 = (None, s2)" by blast
      then show ?thesis
      proof cases
        case 1
        with None free show ?thesis by (simp add: fetch)
      next
        case 2
        obtain q' s4 where h: "send_headers env w (w_now w 2) init q s2 = (q', s4)" by force
        note H = send_headers_result [OF h]
        have "\<exists>x s'. own_read env w q' s4 = (Answer x, s') \<and> response_text x = txt"
          by (rule own_read_holds [where T = T]) (use B H st assms(4) in \<open>simp_all add: holds_copy_def not_reading_def\<close>)
        with 2 None free h show ?thesis by (simp add: fetch)
      qed
    qed
  qed
qed

lemma plan_result:
  assumes "plan_request env w input init s = Some (q, s')"
  shows "f_store s' = f_store s \<and> f_inflight s' = f_inflight s \<and> f_boot s' = f_boot s \<and> f_device s' = f_device s \<and>
    f_dropped s' = f_dropped s \<and> q_req_url q = request_url (v_base env) input \<and> q_req_method q = normalizeMethod (i_method init) \<and>
    (q_use_cache q \<longrightarrow> q_req_method q = ''GET'' \<and> q_audit q = None) \<and>
    (\<forall>i. q_audit q = Some i \<longrightarrow> i = f_nextCall s \<and> q_req_method q = ''GET'' \<and> \<not> q_use_cache q \<and>
       (\<exists>c. f_calls s' = f_calls s @ [c] \<and> \<not> ac_saved c))"
proof (cases "hasDotSegment (request_url (v_base env) input)")
  case False
  obtain session ws where g: "getWorkspaceSession (e_native (v_api env)) (w_full w) (of_int (w_now w 0)) (f_session s) = (session, ws)"
    by force
  define audit where "audit = (if normalizeMethod (i_method init) = ''GET'' then (case f_audit s of None \<Rightarrow> None
    | Some (n, accepts) \<Rightarrow> if accepts (request_url (v_base env) input) then Some n else None) else None)"
  have get: "audit \<noteq> None \<longrightarrow> normalizeMethod (i_method init) = ''GET''" by (simp add: audit_def)
  show ?thesis
  proof (cases audit)
    case None
    with assms False g show ?thesis
      unfolding plan_request_def Let_def audit_def [symmetric] by auto
  next
    case (Some n)
    with assms False g get show ?thesis
      unfolding plan_request_def Let_def audit_def [symmetric] by auto
  qed
qed (use assms in \<open>simp add: plan_request_def\<close>)

lemma read_holds:
  assumes "plan_request env w input init s = Some (q, s0)" and "q_req_method q = ''GET''" and "\<not> i_liveOnly init"
    and "holds_copy env (q_key q) txt T s" and "not_reading (q_key q) (q_req_url q) s"
    and "undisturbed env (q_key q) (q_req_url q) txt T w" and "no_good_answer w"
  shows "\<exists>x s'. apiFetch env w input init s = (Answer x, s') \<and> response_text x = txt"
proof -
  note P = plan_result [OF assms(1)]
  have R: "holds_copy env (q_key q) txt T s0" "not_reading (q_key q) (q_req_url q) s0"
    using P assms(4,5) by (simp_all add: holds_copy_def not_reading_def)
  show ?thesis
  proof (cases "q_use_cache q")
    case True
    with cached_read_holds [OF R assms(6,7), of init] show ?thesis by (simp add: apiFetch_def assms(1))
  next
    case False
    obtain q' s2 where h: "send_headers env w (w_now w 0) init q s0 = (q', s2)" by force
    note H = send_headers_result [OF h]
    have "\<exists>x s'. live_fetch env w q' False s2 = (Answer x, s') \<and> response_text x = txt"
      by (rule live_read_holds [where T = T])
        (use R H assms(6,7) in \<open>simp_all add: holds_copy_def not_reading_def undisturbed_def\<close>)
    with False h H assms(2,3) show ?thesis by (simp add: apiFetch_def assms(1))
  qed
qed

section \<open>A read of an offline download\<close>

text \<open>Call \<open>i\<close> of an offline download is under way for the key: there is no copy yet and it is not marked.\<close>

definition first_copy :: "string \<Rightarrow> nat \<Rightarrow> int \<Rightarrow> 'c api_state \<Rightarrow> bool" where
  "first_copy k i now s \<longleftrightarrow> no_copies k (f_store s) \<and> rows_before k now (c_caches (f_store s)) \<and> rows_before k now (c_db (f_store s)) \<and>
     (\<forall>c \<in> set (f_calls s). ac_id c = i \<longrightarrow> \<not> ac_saved c)"

definition call_saved :: "nat \<Rightarrow> 'c api_state \<Rightarrow> bool" where
  "call_saved i s \<longleftrightarrow> (\<exists>c \<in> set (f_calls s). ac_id c = i \<and> ac_saved c)"

definition wrote :: "'c fetch_env \<Rightarrow> request \<Rightarrow> int \<Rightarrow> fetch_outcome \<Rightarrow> 'c api_state \<Rightarrow> bool" where
  "wrote env q now res s \<longleftrightarrow> (\<exists>r st. res = Answer r \<and> rs_ok r \<and> no_copies (q_key q) st \<and>
     rows_before (q_key q) now (c_caches st) \<and> rows_before (q_key q) now (c_db st) \<and>
     writePersistentGetCache (v_api env) (q_key q) r (max 1 (q_ttl q)) now st = (True, f_store s))"

lemma first_not_saved: "first_copy k i now s \<Longrightarrow> \<not> call_saved i s"
  by (auto simp: first_copy_def call_saved_def)

lemma fall_back_none:
  assumes "first_copy k i now s"
  shows "\<exists>s'. fall_back env k t s = (Some None, s') \<and> first_copy k i now s' \<and> f_boot s' = f_boot s"
proof -
  obtain ls where "offlineStaleFallback (v_api env) k t (f_store s) = (Some None, (f_store s)\<lparr>c_local := ls\<rparr>)"
      "no_copies k ((f_store s)\<lparr>c_local := ls\<rparr>)"
    using no_copies_read assms unfolding first_copy_def by blast
  with assms show ?thesis by (auto simp: fall_back_def on_store_def first_copy_def)
qed

lemma mark_unsaved:
  assumes "c \<in> set (mark_saved i False cs)" and "ac_id c = i"
  shows "\<not> ac_saved c"
proof -
  define mark where "mark = (\<lambda>d :: audit_call. if ac_id d = i then d\<lparr>ac_saved := False\<rparr> else d)"
  have m: "ac_id (mark d) = i \<longrightarrow> \<not> ac_saved (mark d)" for d
    by (cases "ac_id d = i") (simp_all add: mark_def)
  from assms(1) obtain d where "c = mark d" unfolding mark_saved_def mark_def [symmetric] by (metis image_iff list.set_map)
  with assms(2) m show ?thesis by blast
qed

lemma run_ends_first:
  assumes "first_copy (q_key q) i (w_now w 4) s" and "q_audit q = Some i" and "run_ends env w q lo boot s = (res, s')"
  shows "first_copy (q_key q) i (w_now w 4) s' \<or>
    (\<exists>r. res = Answer r \<and> \<not> serverTrouble r) \<and> (call_saved i s' \<longrightarrow> wrote env q (w_now w 4) res s')"
proof (cases res)
  case (Rejected e)
  with assms show ?thesis by (auto simp: run_ends_def Let_def split: net_end.splits)
next
  case (Answer r)
  define s1 where "s1 = s\<lparr>f_session := revoke_sent (e_native (v_api env)) (w_full w) (of_int (w_now w 4)) (q_token q) r (f_session s)\<rparr>"
  have s': "s' = keep_response (v_api env) q lo (w_now w 4) r s1"
    using assms(3) Answer by (auto simp: run_ends_def Let_def s1_def split: net_end.splits)
  have f1: "first_copy (q_key q) i (w_now w 4) s1" using assms(1) by (simp add: first_copy_def s1_def)
  show ?thesis
  proof (cases "rs_ok r")
    case True
    obtain b st where w: "writePersistentGetCache (v_api env) (q_key q) r (max 1 (q_ttl q)) (w_now w 4) (f_store s1) = (b, st)" by force
    have e: "s' = s1\<lparr>f_store := st, f_calls := mark_saved i b (f_calls s1)\<rparr>"
      using True assms(2) w by (simp add: s' keep_response_def on_store_def)
    have "\<not> call_saved i (s1\<lparr>f_store := st, f_calls := mark_saved i False (f_calls s1)\<rparr>)"
      using mark_unsaved by (auto simp: call_saved_def)
    then have saved: "b" if "call_saved i s'"
      using that e by (cases b) auto
    have "wrote env q (w_now w 4) res s'" if "call_saved i s'"
      using w f1 True saved [OF that] by (simp add: wrote_def Answer first_copy_def e) blast
    with Answer trouble_not_ok [of r] True show ?thesis by blast
  next
    case False
    with f1 show ?thesis by (simp add: s' keep_response_def assms(2))
  qed
qed

lemma settle_first:
  assumes "first_copy (q_key q) i now s \<or> (\<exists>r. res = Answer r \<and> \<not> serverTrouble r) \<and> (call_saved i s \<longrightarrow> wrote env q now res s)"
    and "stable (first_copy (q_key q) i now) w" and "settle env w q (res, s) = (out, s')" and "call_saved i s'"
  shows "wrote env q now out s'"
  using assms(1)
proof
  assume f: "first_copy (q_key q) i now s"
  obtain u where "fall_back env (q_key q) (w_now w 5) (w_others w 5 s) = (Some None, u)" "first_copy (q_key q) i now u"
    using fall_back_none [OF stableD [OF assms(2) f]] by blast
  with f assms(3) have "first_copy (q_key q) i now s'" by (auto simp: settle_def split: if_splits)
  with assms(4) first_not_saved show ?thesis by blast
next
  assume "(\<exists>r. res = Answer r \<and> \<not> serverTrouble r) \<and> (call_saved i s \<longrightarrow> wrote env q now res s)"
  with assms(3,4) show ?thesis by (auto simp: settle_def)
qed

lemma wait_first:
  assumes "first_copy (q_key q) i now s" and "stable (first_copy (q_key q) i now) w"
    and "\<And>u res u'. \<lbrakk>first_copy (q_key q) i now u; land u = (res, u')\<rbrakk> \<Longrightarrow> first_copy (q_key q) i now u' \<or>
      (\<exists>r. res = Answer r \<and> \<not> serverTrouble r) \<and> (call_saved i u' \<longrightarrow> wrote env q now res u')"
    and "wait_for_network env w q land s = (out, s')" and "call_saved i s'"
  shows "wrote env q now out s'"
proof -
  obtain u where u: "first_copy (q_key q) i now u" "wait_for_network env w q land s = settle env w q (land u)"
  proof (cases "w_slow w")
    case True
    obtain u where "fall_back env (q_key q) (w_now w 3) (w_others w 3 s) = (Some None, u)" "first_copy (q_key q) i now u"
      using fall_back_none [OF stableD [OF assms(2,1)]] by blast
    with that True show ?thesis by (simp add: wait_for_network_def)
  qed (use that assms(1) in \<open>auto simp: wait_for_network_def\<close>)
  obtain res u' where l: "land u = (res, u')" by force
  from settle_first [OF assms(3) [OF u(1) l] assms(2) _ assms(5)] u(2) l assms(4) show ?thesis by simp
qed

lemma download_read:
  assumes "plan_request env w input init s = Some (q, s0)" and "q_audit q = Some i"
    and "first_copy (q_key q) i (w_now w 4) s" and "stable (first_copy (q_key q) i (w_now w 4)) w"
    and "apiFetch env w input init s = (out, s')" and "call_saved i s'"
  shows "wrote env q (w_now w 4) out s'"
proof -
  note P = plan_result [OF assms(1)]
  have first0: "first_copy (q_key q) i (w_now w 4) s0" using P assms(2,3) by (auto simp: first_copy_def)
  obtain q' s2 where h: "send_headers env w (w_now w 0) init q s0 = (q', s2)" by force
  note H = send_headers_result [OF h]
  then have first2: "first_copy (q_key q') i (w_now w 4) s2" using first0 by (simp add: first_copy_def)
  have q': "q_audit q' = Some i" "stable (first_copy (q_key q') i (w_now w 4)) w" using H assms(2,4) by simp_all
  have fetch: "live_fetch env w q' (i_liveOnly init) s2 = (out, s')"
    using P H assms(2,5) h by (auto simp: apiFetch_def assms(1))
  have ends: "first_copy (q_key q') i (w_now w 4) u' \<or>
      (\<exists>r. res = Answer r \<and> \<not> serverTrouble r) \<and> (call_saved i u' \<longrightarrow> wrote env q' (w_now w 4) res u')"
    if "first_copy (q_key q') i (w_now w 4) u" "run_ends env w q' lo boot (w_others w 4 u) = (res, u')" for u res u' lo boot
    using run_ends_first [OF stableD [OF q'(2) that(1)] q'(1) that(2)] .
  have boot: "first_copy (q_key q') i (w_now w 4) (u\<lparr>f_boot := b\<rparr>) = first_copy (q_key q') i (w_now w 4) u" for u b
    by (simp add: first_copy_def)
  have "wrote env q' (w_now w 4) out s'"
  proof (cases "i_liveOnly init")
    case True
    with fetch obtain b u where "first_copy (q_key q') i (w_now w 4) u" "run_ends env w q' True b (w_others w 4 u) = (out, s')"
      using boot [THEN iffD2, OF first2] first2 by (auto simp: live_fetch_def run_request_def takeBootFetch_def split: if_splits)
    from ends [OF this] assms(6) first_not_saved show ?thesis by blast
  next
    case False
    obtain u where u: "first_copy (q_key q') i (w_now w 4) u" "offline_answer env w q' s2 = (None, u)"
    proof (cases "w_online w 2")
      case off: False
      from fall_back_none [OF first2] obtain u where "fall_back env (q_key q') (w_now w 2) s2 = (Some None, u)"
        "first_copy (q_key q') i (w_now w 4) u" by blast
      with off that stableD [OF q'(2)] show ?thesis by (auto simp: offline_answer_def)
    qed (use that first2 in \<open>auto simp: offline_answer_def\<close>)
    with fetch False obtain b where
      "wait_for_network env w q' (\<lambda>s. run_ends env w q' False b (w_others w 4 s)) (u\<lparr>f_boot := map_delete (q_req_url q') (f_boot u)\<rparr>) = (out, s')"
      by (auto simp: live_fetch_def takeBootFetch_def)
    then show ?thesis
      by (rule wait_first [OF _ q'(2) _ _ assms(6), rotated 2]) (use u(1) boot ends in auto)
  qed
  with H show ?thesis by (simp add: wrote_def)
qed

lemma kept_sooner: "\<lbrakk>kept env k txt T s; T' \<le> T\<rbrakk> \<Longrightarrow> kept env k txt T' s"
  by (fastforce simp: kept_def rows_keep_def local_keep_def)

lemma wrote_holds:
  assumes "wrote env q now (Answer r) s" and "rs_status r \<notin> {204, 205}"
    and "e_native (v_api env) \<or> fst (localStorageAvailable (v_api env) (c_local (f_store s)))"
  shows "holds_copy env (q_key q) (response_text r) (now + PERSIST_GET_CACHE_TTL_MS) s"
proof -
  from assms(1) obtain st where "rs_ok r" "no_copies (q_key q) st"
    "rows_before (q_key q) now (c_caches st)" "rows_before (q_key q) now (c_db st)"
    "writePersistentGetCache (v_api env) (q_key q) r (max 1 (q_ttl q)) now st = (True, f_store s)"
    by (auto simp: wrote_def)
  from write_kept [OF this(5,1) assms(2) this(2-4) assms(3)] show ?thesis
    unfolding holds_copy_def by (rule kept_sooner) simp
qed

text \<open>The copies left alone are still what they were.\<close>

lemma kept_same_copies:
  assumes "kept env k txt T s" and "same_copies k s u" and "e_native env \<or> fst (localStorageAvailable env (c_local u))"
    and "e_native env \<longrightarrow> row_copy env k s \<noteq> None"
  shows "kept env k txt T u"
proof -
  have rows: "rows_keep k txt T d' = rows_keep k txt T d" if "map_option (\<lambda>rows. map_get rows k) d' = map_option (\<lambda>rows. map_get rows k) d" for d d'
    using that by (cases d; cases d') (auto simp: rows_keep_def)
  have db: "(case d of None \<Rightarrow> None | Some rows \<Rightarrow> map_get rows k) = (case map_option (\<lambda>rows. map_get rows k) d of None \<Rightarrow> None | Some x \<Rightarrow> x)" for d
    by (cases d) simp_all
  have row: "row_copy env k u = row_copy env k s"
    using assms(2) by (cases "c_caches u"; cases "c_caches s") (auto simp: row_copy_def db same_copies_def)
  have raw: "c_local s = None \<and> c_local u = None \<or>
      (\<exists>m n. c_local s = Some m \<and> c_local u = Some n \<and> raw_copy n k = raw_copy m k)"
    using same_local [OF assms(2)] by (auto simp: raw_copy_def)
  then have "local_keep k txt T (c_local u) = local_keep k txt T (c_local s)" by (auto simp: local_keep_def)
  moreover have "readable_copy env k u"
    using assms(1,3,4) raw row by (auto simp: kept_def readable_copy_def)
  moreover have "\<forall>c. map_get (c_mem u) k = Some c \<longrightarrow> response_text (cr_response c) = txt"
    using assms(1,2) by (auto simp: kept_def same_copies_def)
  ultimately show ?thesis
    using assms(1,2) rows [of "c_caches u" "c_caches s"] rows [of "c_db u" "c_db s"] by (simp add: kept_def same_copies_def)
qed

text \<open>The native app keeps no copy in \<open>localStorage\<close>.\<close>

lemma native_write_local:
  assumes "writePersistentGetCache env k r ttl now s = (True, s1)" and "e_native env" and "no_copies k s" and "c_local s1 = Some m"
  shows "raw_copy m k = None"
proof -
  define row where "row = stored_copy r now (now + max ttl PERSIST_GET_CACHE_TTL_MS)"
  obtain b t where p: "putStoredResponse env k row now s = (b, t)" by force
  have "c_local t = c_local s" using putStored_same [OF p] by simp
  moreover have "s1 = t \<or> s1 = t\<lparr>c_local := map_option (map_delete (persistentCacheKey k)) (c_local t)\<rparr>"
    using assms(1,2) p by (auto simp: writePersistentGetCache_def Let_def row_def split: if_splits)
  ultimately have "map_get m (persistentCacheKey k) = None"
    using assms(3,4) by (auto simp: no_copies_def map_get_delete)
  then show ?thesis by (simp add: raw_copy_def)
qed

text \<open>Claim C33: what an offline download reports as saved is there without a network.  Suppose a read of
  the download was answered (not with 204 or 205) and its call is marked saved, where the device had no
  copy of that resource before, the rest of the app made none meanwhile, and the rows stored for other
  requests make responses and are older.  Take any later state of the
  app in which no stored copy of it was changed or evicted, no read of the URL is under way, and, on the
  web, \<open>localStorage\<close> has room for the probe, as it had when the read of the download ended.  Then for four
  days a GET of that resource in the same workspace that is not live-only, whatever its other options and
  through every source
  (memory, \<open>localStorage\<close>, Cache Storage or the database), answers with that text offline, on a failing
  or a slow network and with the server in trouble, provided that while it runs the rest of the app
  leaves the copies alone and starts no read of the URL.  The conditions matter: a read that joins
  one under way shares its failure (\<open>joined_read_shares_the_failure\<close>), and a full storage hides the copy
  (\<open>full_storage_hides_the_copy\<close>).\<close>

theorem downloaded_is_there_offline:
  assumes "plan_request env w input init s = Some (q, s0)" and "q_audit q = Some i"
    and "first_copy (q_key q) i (w_now w 4) s" and "stable (first_copy (q_key q) i (w_now w 4)) w"
    and "apiFetch env w input init s = (Answer r, s1)" and "call_saved i s1" and "rs_status r \<notin> {204, 205}"
    and "e_native (v_api env) \<or> fst (localStorageAvailable (v_api env) (c_local (f_store s1)))"
    and "same_copies (q_key q) (f_store s1) (f_store u)"
    and "e_native (v_api env) \<or> fst (localStorageAvailable (v_api env) (c_local (f_store u)))"
    and "plan_request env w' input' init' u = Some (q', s2)"
    and "q_key q' = q_key q" and "q_req_method q' = ''GET''" and "\<not> i_liveOnly init'"
    and "not_reading (q_key q) (q_req_url q') u"
    and "undisturbed env (q_key q) (q_req_url q') (response_text r) (w_now w 4 + PERSIST_GET_CACHE_TTL_MS) w'"
    and "no_good_answer w'"
  shows "\<exists>x s3. apiFetch env w' input' init' u = (Answer x, s3) \<and> response_text x = response_text r"
proof -
  let ?T = "w_now w 4 + PERSIST_GET_CACHE_TTL_MS"
  have w: "wrote env q (w_now w 4) (Answer r) s1" by (rule download_read [OF assms(1-6)])
  have k: "kept (v_api env) (q_key q) (response_text r) ?T (f_store s1)"
    using wrote_holds [OF w assms(7,8)] by (simp add: holds_copy_def)
  have "\<forall>m. c_local (f_store s1) = Some m \<longrightarrow> raw_copy m (q_key q) = None" if "e_native (v_api env)"
    using w that native_write_local by (fastforce simp: wrote_def)
  then have "e_native (v_api env) \<longrightarrow> row_copy (v_api env) (q_key q) (f_store s1) \<noteq> None"
    using k by (auto simp: kept_def readable_copy_def)
  from kept_same_copies [OF k assms(9,10) this]
  have "holds_copy env (q_key q) (response_text r) ?T u" by (simp add: holds_copy_def)
  then show ?thesis
    using read_holds [OF assms(11,13,14), unfolded assms(12)] assms(15-17) by blast
qed

section \<open>A sample device\<close>

definition app_env :: "mutation fetch_env" where
  "app_env = \<lparr>v_api = small_env, v_base = ''/api'', v_nstr = (\<lambda>_. ''0''), v_query = (\<lambda>_ _. None), v_pathname = Some,
     v_queue = web_env\<rparr>"

definition app_world :: "int \<Rightarrow> bool \<Rightarrow> net_end \<Rightarrow> mutation world" where
  "app_world now online net = \<lparr>w_now = (\<lambda>_. now), w_online = (\<lambda>_. online), w_others = (\<lambda>_ s. s), w_net = net, w_slow = False,
     w_shared = Rejected (Err ''503''), w_full = (\<lambda>_. False), w_id = ''1'', w_time = ''t''\<rparr>"

definition app_state :: "(nat \<times> (string \<Rightarrow> bool)) option \<Rightarrow> mutation api_state" where
  "app_state audit = \<lparr>f_store = empty_store [], f_session = first_start\<lparr>w_cached := Some None\<rparr>,
     f_tokens = \<lparr>tk_local = None, tk_session = None, tk_values = []\<rparr>, f_live = resetLiveVersionsForTests,
     f_freshReadsUntilMs = 0, f_inflight = [], f_audit = audit, f_nextAudit = 1, f_calls = [], f_nextCall = 0,
     f_boot = [], f_device = fresh_device, f_dropped = [], f_updated = []\<rparr>"

definition get_init :: api_init where
  "get_init = \<lparr>i_method = None, i_headers = [], i_body = None, i_cacheTtlMs = None, i_staleWhileRevalidateMs = None,
     i_bypassCache = False, i_timeoutMs = None, i_liveOnly = False, i_showSavedMaxAgeMs = None\<rparr>"

definition get_request :: "nat option \<Rightarrow> request" where
  "get_request audit = \<lparr>q_req_url = ''/a'', q_req_method = ''GET'', q_key = ''GET:w0:/a'', q_ttl = 8000, q_swr = 45000,
     q_audit = audit, q_use_cache = (audit = None), q_timeout = 12000, q_token = [], q_req_headers = []\<rparr>"

lemma sample_simps [simp]:
  "w_now (app_world now online net) = (\<lambda>_. now)" "w_online (app_world now online net) = (\<lambda>_. online)"
  "w_others (app_world now online net) = (\<lambda>_ s. s)" "w_net (app_world now online net) = net"
  "\<not> w_slow (app_world now online net)" "w_shared (app_world now online net) = Rejected (Err ''503'')"
  "w_full (app_world now online net) = (\<lambda>_. False)" "w_id (app_world now online net) = ''1''" "w_time (app_world now online net) = ''t''"
  "v_api app_env = small_env" "v_base app_env = ''/api''" "v_nstr app_env = (\<lambda>_. ''0'')" "v_pathname app_env = Some" "v_queue app_env = web_env"
  "\<not> e_native small_env" "i_liveOnly get_init = False" "i_headers get_init = []" "i_body get_init = None" "i_showSavedMaxAgeMs get_init = None"
  by (simp_all add: app_world_def app_env_def small_env_def get_init_def)

lemma app_state_simps [simp]:
  "f_store (app_state a) = empty_store []" "w_cached (f_session (app_state a)) = Some None" "tk_local (f_tokens (app_state a)) = None"
  "f_freshReadsUntilMs (app_state a) = 0" "f_inflight (app_state a) = []" "f_audit (app_state a) = a" "f_calls (app_state a) = []"
  "f_nextCall (app_state a) = 0" "f_boot (app_state a) = []" "f_device (app_state a) = fresh_device" "f_dropped (app_state a) = []"
  "f_updated (app_state a) = []" "(app_state a)\<lparr>f_boot := []\<rparr> = app_state a" "(app_state a)\<lparr>f_session := f_session (app_state a)\<rparr> = app_state a"
  by (simp_all add: app_state_def)

lemma get_request_simps [simp]:
  "q_req_url (get_request a) = ''/a''" "q_req_method (get_request a) = ''GET''" "q_key (get_request a) = ''GET:w0:/a''" "q_ttl (get_request a) = 8000"
  "q_audit (get_request a) = a" "q_use_cache (get_request a) = (a = None)"
  by (simp_all add: get_request_def)

lemma get_facts:
  "request_url ''/api'' ''/a'' = ''/a''" "\<not> hasDotSegment ''/a''" "normalizeMethod None = ''GET''"
  "cacheKeyFor (\<lambda>_. ''0'') 0 ''/a'' None = ''GET:w0:/a''" "\<not> js_includes ''/a'' ''refresh=true''"
  "\<not> js_includes ''/a'' ''onlyModifiedSince=''" "\<not> js_includes ''/a'' ''lv=''"
  by code_simp+

lemma no_session: "w_cached ws = Some None \<Longrightarrow> getWorkspaceSession native full now ws = (None, ws)"
  by (simp add: getWorkspaceSession_def)

lemma plan_get:
  assumes "w_cached (f_session s) = Some None" and "f_freshReadsUntilMs s = 0" and "0 \<le> now"
  shows "plan_request app_env (app_world now online net) ''/a'' get_init s = Some (case f_audit s of
       None \<Rightarrow> (get_request None, s)
     | Some (n, accepts) \<Rightarrow> if accepts ''/a'' then (get_request (Some (f_nextCall s)),
         s\<lparr>f_nextCall := Suc (f_nextCall s), f_calls := f_calls s @
           [\<lparr>ac_id = f_nextCall s, ac_audit = n, ac_key = ''GET:w0:/a'', ac_url = ''/a'', ac_saved = False\<rparr>]\<rparr>)
         else (get_request None, s))"
  using assms
  by (auto simp: plan_request_def Let_def app_env_def app_world_def get_init_def get_request_def shouldBypassCache_def get_facts
      liveFreshRead_def no_session cacheValueInt_def DEFAULT_GET_CACHE_TTL_MS_def DEFAULT_GET_STALE_WHILE_REVALIDATE_MS_def
      REQUEST_TIMEOUT_MS_def split: option.split)

definition downloading :: "mutation api_state" where
  "downloading = app_state (Some (0, \<lambda>_. True))"

definition downloaded :: "mutation api_state" where
  "downloaded = downloading\<lparr>f_store := saved_store, f_nextCall := 1,
     f_calls := [\<lparr>ac_id = 0, ac_audit = 0, ac_key = ''GET:w0:/a'', ac_url = ''/a'', ac_saved = True\<rparr>]\<rparr>"

definition sent_headers :: "(string \<times> string) list" where
  "sent_headers = header_default ''Accept'' ''application/json'' []"

lemma send_get:
  assumes "w_cached (f_session s) = Some None" and "tk_local (f_tokens s) = None" and "i_headers init = []"
  shows "send_headers app_env w now init q s = (q\<lparr>q_req_headers := sent_headers, q_token := []\<rparr>, s)"
proof -
  have "header_get WORKSPACE_ACCESS_HEADER sent_headers = None"
    by code_simp
  moreover have "effectiveAdminSessionToken native t (f_tokens s) = ([], f_tokens s)" for native t
    using assms(2) by (simp add: effectiveAdminSessionToken_def runtimeAdminModeEnabled_def readStorageString_def read_item_def)
  moreover have "getWorkspaceToken native full t (f_session s) = ([], f_session s)" for native full t
    using assms(1) by (simp add: getWorkspaceToken_def no_session)
  ultimately show ?thesis
    by (simp add: send_headers_def assms(3) header_default_def [of _ "[]"] sent_headers_def Let_def)
qed

lemma download_runs:
  "apiFetch app_env (app_world 5000 True (Arrives (answer ''[1]''))) ''/a'' get_init downloading = (Answer (answer ''[1]''), downloaded)"
proof -
  define s0 where "s0 = downloading\<lparr>f_nextCall := Suc 0,
     f_calls := [\<lparr>ac_id = 0, ac_audit = 0, ac_key = ''GET:w0:/a'', ac_url = ''/a'', ac_saved = False\<rparr>]\<rparr>"
  have P: "plan_request app_env (app_world 5000 True (Arrives (answer ''[1]''))) ''/a'' get_init downloading = Some (get_request (Some 0), s0)"
    by (simp add: plan_get downloading_def s0_def)
  have s0: "w_cached (f_session s0) = Some None" "tk_local (f_tokens s0) = None" "f_boot s0 = []" "f_store s0 = empty_store []"
    "s0\<lparr>f_boot := []\<rparr> = s0" "s0\<lparr>f_session := f_session s0\<rparr> = s0"
    by (simp_all add: s0_def downloading_def)
  have w: "whole_response (answer ''[1]'') = answer ''[1]''" "rs_ok (answer ''[1]'')" "rs_status (answer ''[1]'') = 200"
    "\<not> serverTrouble (answer ''[1]'')"
    by (simp_all add: answer_def whole_response_def response_text_def rs_ok_def serverTrouble_def)
  show ?thesis
    by (simp add: apiFetch_def P send_get s0 live_fetch_def offline_answer_def takeBootFetch_def wait_for_network_def run_ends_def
        settle_def w revoke_sent_def keep_response_def on_store_def saved_store_eq mark_saved_def map_get_def map_delete_def Let_def)
      (simp add: s0_def downloaded_def)
qed

lemma stable_sample [simp]: "stable P (app_world now online net)"
  by (simp add: stable_def)

lemma saved_store_available: "fst (localStorageAvailable small_env (c_local saved_store))"
  by (simp add: saved_store_local localStorageAvailable_def setItem_def total_chars_def copy_chars_def small_env_def PROBE_KEY_def
      persistentCacheKey_def API_CACHE_PREFIX_def saved_payload_def persistent_payload_def response_text_def answer_def)

lemma first_copy_empty: "f_calls s = [] \<Longrightarrow> f_store s = empty_store [] \<Longrightarrow> first_copy k i now s"
  by (simp add: first_copy_def no_copies_def empty_store_def rows_before_def map_get_def map_ok_def)

lemma sample_saved: "call_saved 0 downloaded"
proof -
  have "f_calls downloaded = [\<lparr>ac_id = 0, ac_audit = 0, ac_key = ''GET:w0:/a'', ac_url = ''/a'', ac_saved = True\<rparr>]"
    by (simp add: downloaded_def)
  then show ?thesis by (simp add: call_saved_def)
qed

lemma downloaded_is_there_offline_witness:
  "\<exists>x s3. apiFetch app_env (app_world 90000 False (Fails (TypeErr ''Failed to fetch'') False None)) ''/a'' get_init
     (stopOfflineCacheAudit 0 downloaded) = (Answer x, s3) \<and> response_text x = ''[1]''"
proof -
  obtain s0 where p: "plan_request app_env (app_world 5000 True (Arrives (answer ''[1]''))) ''/a'' get_init downloading =
      Some (get_request (Some 0), s0)"
    by (simp add: plan_get downloading_def)
  define off where "off = app_world 90000 False (Fails (TypeErr ''Failed to fetch'') False None)"
  obtain s2 where later: "plan_request app_env off ''/a'' get_init (stopOfflineCacheAudit 0 downloaded) = Some (get_request None, s2)"
    by (simp add: off_def plan_get stopOfflineCacheAudit_def downloaded_def downloading_def)
  have "\<exists>x s3. apiFetch app_env off ''/a'' get_init (stopOfflineCacheAudit 0 downloaded) = (Answer x, s3) \<and>
      response_text x = response_text (answer ''[1]'')"
    by (rule downloaded_is_there_offline [OF p _ _ _ download_runs _ _ _ _ _ later])
      (use saved_store_available sample_saved in \<open>simp_all add: same_copies_refl stopOfflineCacheAudit_def first_copy_empty downloading_def downloaded_def answer_def
        not_reading_def map_get_def undisturbed_def no_good_answer_def PERSIST_GET_CACHE_TTL_MS_def off_def response_text_def\<close>)
  then show ?thesis by (simp add: off_def answer_def response_text_def)
qed

end
