(* ===== verification/ApiWrites.thy ===== *)
theory ApiWrites
  imports ApiOffline
begin

text \<open>
  More of what \<open>apiFetch\<close> of \<open>src/ScoutingApp/src/api.ts\<close> promises: a write that the connection loses is in
  the offline queue when the caller is told so; a refusal ends only the session it was given for; an old
  answer shown at once is replaced by the new one.
\<close>

section \<open>Writes\<close>

lemma normalize_queued:
  "normalizeApiFetchError e t d z = QueuedErr msg \<Longrightarrow> e = QueuedErr msg \<or> z = Some (QueuedErr msg)"
  by (cases e; cases z) (auto simp: normalizeApiFetchError_def Let_def split: if_splits js_error.splits)

lemma keep_response_frame [simp]:
  "f_device (keep_response env q lo now r s) = f_device s" "f_session (keep_response env q lo now r s) = f_session s"
  "f_inflight (keep_response env q lo now r s) = f_inflight s" "f_updated (keep_response env q lo now r s) = f_updated s"
  by (auto simp: keep_response_def on_store_def Let_def split: option.split prod.split)

lemma run_ends_frame:
  "run_ends env w q lo boot s = (res, s') \<Longrightarrow> f_device s' = f_device s \<and> f_inflight s' = f_inflight s \<and> f_updated s' = f_updated s"
  by (auto simp: run_ends_def Let_def split: net_end.splits)

definition plain_errors :: "'c world \<Rightarrow> bool" where
  "plain_errors w \<longleftrightarrow> (\<forall>e b z msg. w_net w = Fails e b z \<longrightarrow> e \<noteq> QueuedErr msg \<and> z \<noteq> Some (QueuedErr msg))"

lemma run_ends_plain: "\<lbrakk>plain_errors w; run_ends env w q lo None s = (Rejected e, s')\<rbrakk> \<Longrightarrow> e \<noteq> QueuedErr msg"
  by (auto simp: run_ends_def plain_errors_def Let_def split: net_end.splits dest!: normalize_queued)

text \<open>The network's own errors are never the error of a queued write (\<open>plain_errors\<close>), and the id is new.\<close>

text \<open>Claim C34: a write is in the queue when the caller is told so.  If a request that is no read ends with
  the error of a queued write, it is one that may be sent twice, and the phone holds it with its URL,
  method and body among the edits it held before.  A request that is answered, or one that may not be
  sent twice, leaves the queue alone.\<close>

theorem queued_write_is_on_the_phone:
  assumes "apiFetch env w input init s = (res, s')" and "normalizeMethod (i_method init) \<noteq> ''GET''"
    and "plain_errors w" and "stable (\<lambda>u. f_device u = f_device s) w"
    and "device_ok (v_queue env) (f_device s)" and "ids_agree (on_phone (v_queue env) (f_device s))"
    and "\<forall>x \<in> on_phone (v_queue env) (f_device s). q_id x \<noteq> w_id w"
  shows "((\<exists>msg. res = Rejected (QueuedErr msg)) \<longrightarrow>
      isReplaySafeWrite (v_pathname env) (normalizeMethod (i_method init)) (request_url (v_base env) input) \<and>
      (\<exists>m. q_id m = w_id w \<and> q_url m = request_url (v_base env) input \<and> q_method m = normalizeMethod (i_method init) \<and>
         q_body m = i_body init \<and> covers (insert m (on_phone (v_queue env) (f_device s))) (on_phone (v_queue env) (f_device s')))) \<and>
    ((\<exists>r. res = Answer r) \<or> \<not> isReplaySafeWrite (v_pathname env) (normalizeMethod (i_method init)) (request_url (v_base env) input)
       \<longrightarrow> f_device s' = f_device s)"
proof (cases "plan_request env w input init s")
  case None
  with assms(1) show ?thesis by (auto simp: apiFetch_def)
next
  case (Some qs)
  then obtain q s0 where p: "plan_request env w input init s = Some (q, s0)" by (cases qs) simp
  note P = plan_result [OF p]
  obtain q' s2 where h: "send_headers env w (w_now w 0) init q s0 = (q', s2)" by force
  note H = send_headers_result [OF h]
  have meth: "q_req_method q' = normalizeMethod (i_method init)" "q_req_url q' = request_url (v_base env) input"
    using P H by simp_all
  have wf: "write_fetch env w q' init s2 = (res, s')"
    using assms(1,2) P h meth by (auto simp: apiFetch_def p)
  obtain out s3 where run: "run_ends env w q' (i_liveOnly init) None (w_others w 4 s2) = (out, s3)" by force
  have req: "run_request env w q' (i_liveOnly init) s2 = (out, s3)"
    using meth(1) assms(2) by (simp add: run_request_def run)
  have "f_device s2 = f_device s" using P H by simp
  then have dev: "f_device s3 = f_device s"
    using run_ends_frame [OF run] stableD [OF assms(4), of s2] by simp
  show ?thesis
  proof (cases out)
    case (Answer r)
    with wf req dev show ?thesis by (auto simp: write_fetch_def)
  next
    case (Rejected e)
    have e: "e \<noteq> QueuedErr msg" for msg using run_ends_plain [OF assms(3)] run Rejected by blast
    show ?thesis
    proof (cases "should_queue env w q' e \<and> v_pathname env (q_req_url q') \<noteq> None")
      case False
      with wf req Rejected dev e show ?thesis by (auto simp: write_fetch_def split: if_splits)
    next
      case True
      then obtain path where path: "v_pathname env (q_req_url q') = Some path" by blast
      define m where "m = queued_mutation env w q' path (i_body init)"
      have m: "q_id m = w_id w" "q_url m = request_url (v_base env) input" "q_method m = normalizeMethod (i_method init)"
        "q_body m = i_body init" using meth by (simp_all add: m_def queued_mutation_def)
      obtain okay drp d where en: "enqueue (v_queue env) m (f_device s) = (okay, drp, d)" by (cases "enqueue (v_queue env) m (f_device s)")
      have s': "res = Rejected (if okay then QueuedErr (if \<not> w_online w 4 then OFFLINE_MESSAGE else DROPPED_MESSAGE)
            else Err ''Offline queue failed'')" "f_device s' = d"
        using wf req Rejected True path en by (auto simp: write_fetch_def m_def dev split: if_splits)
      have safe: "isReplaySafeWrite (v_pathname env) (normalizeMethod (i_method init)) (request_url (v_base env) input)"
        using True meth by (simp add: should_queue_def)
      have "ids_agree (insert m (on_phone (v_queue env) (f_device s)))"
        using assms(6,7) m(1) unfolding ids_agree_def by (metis insert_iff)
      note E = enqueue_result [OF assms(5) this en]
      have "covers (on_phone (v_queue env) (f_device s)) (on_phone (v_queue env) d)"
        using E by (rule conjunct1 [OF conjunct2])
      moreover have "okay \<longrightarrow> covers {m} (on_phone (v_queue env) d)"
        using E by blast
      ultimately have "okay \<longrightarrow> covers (insert m (on_phone (v_queue env) (f_device s))) (on_phone (v_queue env) d)"
        using covers_Un [of "{m}" "on_phone (v_queue env) (f_device s)"] by (metis insert_is_Un)
      with s' m safe show ?thesis by (cases okay) auto
    qed
  qed
qed

lemma enqueue_any: "fst (enqueue web_env m fresh_device)"
  by (cases m) (code_simp)

definition post_init :: api_init where
  "post_init = get_init\<lparr>i_method := Some ''post''\<rparr>"

definition post_request :: request where
  "post_request = \<lparr>q_req_url = ''/scouting/rooms/r1/entries'', q_req_method = ''POST'', q_key = ''POST:w0:/scouting/rooms/r1/entries'',
     q_ttl = 0, q_swr = 0, q_audit = None, q_use_cache = False, q_timeout = 12000, q_token = [], q_req_headers = []\<rparr>"

lemma plan_post:
  "plan_request app_env (app_world now online net) ''/scouting/rooms/r1/entries'' post_init (app_state None) = Some (post_request, app_state None)"
proof -
  have f: "request_url ''/api'' ''/scouting/rooms/r1/entries'' = ''/scouting/rooms/r1/entries''"
    "\<not> hasDotSegment ''/scouting/rooms/r1/entries''" "normalizeMethod (Some ''post'') = ''POST''"
    "cacheKeyFor (\<lambda>_. ''0'') 0 ''/scouting/rooms/r1/entries'' (Some ''post'') = ''POST:w0:/scouting/rooms/r1/entries''"
    by code_simp+
  show ?thesis
    by (simp add: plan_request_def f post_init_def get_init_def shouldBypassCache_def no_session post_request_def REQUEST_TIMEOUT_MS_def Let_def)
qed

lemma post_offline:
  "\<exists>s'. apiFetch app_env (app_world 5000 False (Fails (TypeErr ''Failed to fetch'') False None)) ''/scouting/rooms/r1/entries'' post_init
     (app_state None) = (Rejected (QueuedErr OFFLINE_MESSAGE), s')"
proof -
  define q where "q = post_request\<lparr>q_req_headers := sent_headers, q_token := []\<rparr>"
  have q: "q_req_method q = ''POST''" "q_req_url q = ''/scouting/rooms/r1/entries''" "\<not> q_use_cache post_request"
    by (simp_all add: q_def post_request_def)
  have safe: "isReplaySafeWrite Some ''POST'' ''/scouting/rooms/r1/entries''"
    "normalizeApiFetchError (TypeErr ''Failed to fetch'') t False None = TypeErr ''Failed to fetch''" for t
    by (code_simp, simp add: normalizeApiFetchError_def isAbortLikeMessage_def, code_simp)
  have h: "send_headers app_env w now post_init post_request (app_state None) = (q, app_state None)" for w now
    by (simp add: send_get post_init_def q_def)
  have wf: "apiFetch app_env w ''/scouting/rooms/r1/entries'' post_init (app_state None) = write_fetch app_env w q post_init (app_state None)"
    if "w = app_world 5000 False net" for w net
    by (simp add: apiFetch_def that plan_post h q)
  have e: "enqueue web_env m fresh_device = (True, fst (snd (enqueue web_env m fresh_device)), snd (snd (enqueue web_env m fresh_device)))" for m
    by (simp add: prod_eq_iff enqueue_any)
  show ?thesis
    unfolding wf [OF HOL.refl]
    by (subst write_fetch_def) (simp add: run_request_def run_ends_def should_queue_def q safe, subst e, simp split: prod.split)
qed

lemma queued_write_is_on_the_phone_witness:
  "\<exists>s' m. fst (apiFetch app_env (app_world 5000 False (Fails (TypeErr ''Failed to fetch'') False None)) ''/scouting/rooms/r1/entries''
     post_init (app_state None)) = Rejected (QueuedErr OFFLINE_MESSAGE) \<and> q_url m = ''/scouting/rooms/r1/entries'' \<and>
     covers {m} (on_phone web_env s')"
proof -
  obtain s' where e: "apiFetch app_env (app_world 5000 False (Fails (TypeErr ''Failed to fetch'') False None)) ''/scouting/rooms/r1/entries''
     post_init (app_state None) = (Rejected (QueuedErr OFFLINE_MESSAGE), s')"
    using post_offline by blast
  have f: "normalizeMethod (i_method post_init) \<noteq> ''GET''" "request_url ''/api'' ''/scouting/rooms/r1/entries'' = ''/scouting/rooms/r1/entries''"
    by code_simp+
  have d: "device_ok web_env fresh_device" "on_phone web_env fresh_device = {}"
    by (simp_all add: device_ok_def on_phone_def idb_items_def fresh_device_def map_ok_def web_env_def)
  from queued_write_is_on_the_phone [OF e f(1)] show ?thesis
    by (auto simp: plain_errors_def d ids_agree_def e f(2))
qed

section \<open>Sessions\<close>

definition session_left :: "'c world \<Rightarrow> bool" where
  "session_left w \<longleftrightarrow> (\<forall>i u. f_session (w_others w i u) = f_session u)"

lemma held_session:
  "\<lbrakk>w_cached ws = Some (Some x); \<not> expired_at now x\<rbrakk> \<Longrightarrow> getWorkspaceToken native full now ws = (ws_token x, ws)"
  "\<lbrakk>w_cached ws = Some (Some x); \<not> expired_at now x\<rbrakk> \<Longrightarrow> getWorkspaceSession native full now ws = (Some x, ws)"
  by (simp_all add: getWorkspaceToken_def getWorkspaceSession_def)

lemma fall_back_frame:
  "fall_back env k now s = (x, s') \<Longrightarrow> f_session s' = f_session s \<and> f_inflight s' = f_inflight s \<and> f_updated s' = f_updated s \<and> f_device s' = f_device s"
  using on_store_frame by (fastforce simp: fall_back_def)

lemma settle_session: "session_left w \<Longrightarrow> f_session (snd (settle env w q (res, s))) = f_session s"
  by (cases "fall_back env (q_key q) (w_now w 5) (w_others w 5 s)")
     (auto simp: settle_def session_left_def dest!: fall_back_frame split: option.split)

lemma wait_session:
  assumes "session_left w" and "\<And>u. f_session u = f_session s \<Longrightarrow> P (f_session (snd (land u)))"
  shows "P (f_session (snd (wait_for_network env w q land s)))"
proof -
  obtain x u where f: "fall_back env (q_key q) (w_now w 3) (w_others w 3 s) = (x, u)" by force
  have u: "f_session u = f_session s" using fall_back_frame [OF f] assms(1) by (simp add: session_left_def)
  have "f_session (snd (settle env w q (land v))) = f_session (snd (land v))" for v
    using settle_session [OF assms(1), of env q "fst (land v)" "snd (land v)"] by simp
  with assms(2) [OF u] assms(2) [OF HOL.refl] f show ?thesis
    by (auto simp: wait_for_network_def split: option.split)
qed

text \<open>How the session comes out of a request.\<close>

definition refused :: "'c fetch_env \<Rightarrow> 'c world \<Rightarrow> request \<Rightarrow> workspace_session \<Rightarrow> ws \<Rightarrow> ws \<Rightarrow> bool" where
  "refused env w q x st st' \<longleftrightarrow> st' = st \<or> (\<exists>r. w_net w = Arrives r \<and> rs_status r = 401) \<and> q_token q = ws_token x \<and>
     st' = clearWorkspaceSession (e_native (v_api env)) (w_full w) Revoked st"

lemma run_ends_session:
  assumes "w_cached (f_session s) = Some (Some x)" and "\<not> expired_at (of_int (w_now w 4)) x"
  shows "refused env w q x (f_session s) (f_session (snd (run_ends env w q lo boot s)))"
proof (cases "case boot of Some (Some (Arrives r)) \<Rightarrow> if rs_ok r then Arrives r else w_net w | Some (Some broken) \<Rightarrow> broken | _ \<Rightarrow> w_net w")
  case (Arrives r)
  then have "rs_status r = 401 \<longrightarrow> w_net w = Arrives r"
    by (auto simp: rs_ok_def split: option.splits net_end.splits if_splits)
  with Arrives show ?thesis
    by (auto simp: run_ends_def refused_def Let_def revoke_sent_def held_session [OF assms])
qed (simp add: run_ends_def refused_def)

definition given_headers :: "api_init \<Rightarrow> (string \<times> string) list" where
  "given_headers init = fold (\<lambda>(n, v). header_append n v) (i_headers init) []"

lemma send_headers_held:
  assumes "w_cached (f_session s) = Some (Some x)" and "\<not> expired_at (of_int now) x" and "send_headers env w now init q s = (q', s')"
  shows "f_session s' = f_session s \<and> q_token q' = nullish (header_get WORKSPACE_ACCESS_HEADER (given_headers init)) (ws_token x)"
proof -
  have l: "js_lower WORKSPACE_ACCESS_HEADER = ''x-workspace-access''" "js_lower ADMIN_SESSION_HEADER = ''x-admin-session''"
    "js_lower ''Accept'' = ''accept''" by code_simp+
  have "header_get WORKSPACE_ACCESS_HEADER (header_default ADMIN_SESSION_HEADER v hs) = header_get WORKSPACE_ACCESS_HEADER hs"
    "header_get WORKSPACE_ACCESS_HEADER (header_default ''Accept'' v hs) = header_get WORKSPACE_ACCESS_HEADER hs"
    "nullish (header_get WORKSPACE_ACCESS_HEADER (header_default WORKSPACE_ACCESS_HEADER v hs)) [] =
      nullish (header_get WORKSPACE_ACCESS_HEADER hs) v" for v hs
    by (simp_all add: header_default_def header_get_def header_set_def l map_get_set nullish_def split: option.split)
  with assms(3) show ?thesis
    by (auto simp: send_headers_def held_session [OF assms(1,2)] Let_def given_headers_def split: prod.splits)
qed

lemma offline_answer_session: "session_left w \<Longrightarrow> offline_answer env w q s = (x, s') \<Longrightarrow> f_session s' = f_session s"
  by (auto simp: offline_answer_def session_left_def dest!: fall_back_frame split: if_splits prod.splits option.splits)

lemma plan_session:
  assumes "w_cached (f_session s) = Some (Some x)" and "\<not> expired_at (of_int (w_now w 0)) x"
    and "plan_request env w input init s = Some (q, s')"
  shows "f_session s' = f_session s"
  using assms(3) unfolding plan_request_def held_session(2) [OF assms(1,2)] Let_def
  by (auto split: if_splits option.splits)

lemma read_session:
  assumes "session_left w" and "w_cached (f_session s) = Some (Some x)" and "\<not> expired_at (of_int (w_now w 4)) x"
  shows "refused env w q x (f_session s) (f_session (snd (own_read env w q s)))"
    and "refused env w q x (f_session s) (f_session (snd (live_fetch env w q lo s)))"
    and "refused env w q x (f_session s) (f_session (refresh_ends env w q shown s))"
    and "refused env w q x (f_session s) (f_session (snd (run_request env w q lo s)))"
proof -
  have ends: "refused env w q x (f_session s) (f_session (snd (run_ends env w q lo boot (w_others w 4 u))))"
    if "f_session u = f_session s" for u boot lo
    using run_ends_session [of "w_others w 4 u" x w env q lo boot] assms that by (simp add: session_left_def)
  have wait: "refused env w q x (f_session s) (f_session (snd (wait_for_network env w q land u)))"
    if "f_session u = f_session s"
      "\<And>v. f_session v = f_session u \<Longrightarrow> refused env w q x (f_session s) (f_session (snd (land v)))" for land u
    using wait_session [OF assms(1), of u "refused env w q x (f_session s)"] that by blast
  obtain boot u where b: "takeBootFetch (q_req_url q) s = (boot, u)" "f_session u = f_session s"
    by (auto simp: takeBootFetch_def)
  show "refused env w q x (f_session s) (f_session (snd (own_read env w q s)))"
    unfolding own_read_def b prod.case
    by (rule wait) (use ends b in \<open>auto simp: add_inflight_def end_inflight_def split: prod.split dest!: arg_cong [of _ _ snd]\<close>)
  show req: "refused env w q x (f_session s) (f_session (snd (run_request env w q lo s)))" for lo
    using ends [OF HOL.refl] ends [OF b(2)] b by (simp add: run_request_def)
  obtain a v where o: "offline_answer env w q s = (a, v)" by force
  have v: "f_session v = f_session s" using offline_answer_session [OF assms(1) o] .
  have "refused env w q x (f_session s) (f_session (snd (wait_for_network env w q
      (\<lambda>s. run_ends env w q lo z (w_others w 4 s)) (v\<lparr>f_boot := y\<rparr>))))" for z y
    by (rule wait) (use ends v in simp_all)
  moreover have "refused env w q x (f_session s) (f_session v)" by (simp add: v refused_def)
  ultimately show "refused env w q x (f_session s) (f_session (snd (live_fetch env w q lo s)))"
    using req [of lo] o by (cases a; cases lo) (simp_all add: live_fetch_def takeBootFetch_def)
  show "refused env w q x (f_session s) (f_session (refresh_ends env w q shown s))"
    using ends [OF HOL.refl, of False None]
    by (auto simp: refresh_ends_def end_inflight_def notifyApiUpdated_def split: prod.splits fetch_outcome.splits)
qed

lemma cached_session:
  assumes "session_left w" and "w_cached (f_session s) = Some (Some x)" and "\<forall>i. \<not> expired_at (of_int (w_now w i)) x"
  shows "\<exists>q'. q_token q' = nullish (header_get WORKSPACE_ACCESS_HEADER (given_headers init)) (ws_token x) \<and>
    refused env w q' x (f_session s) (f_session (snd (cached_fetch env w q init s)))"
proof -
  define Q where "Q = (\<lambda>st. \<exists>q'. q_token q' = nullish (header_get WORKSPACE_ACCESS_HEADER (given_headers init)) (ws_token x) \<and>
    refused env w q' x (f_session s) st)"
  have stay: "Q st" if "st = f_session s" for st
    unfolding Q_def using that
    by (intro exI [of _ "q\<lparr>q_token := nullish (header_get WORKSPACE_ACCESS_HEADER (given_headers init)) (ws_token x)\<rparr>"])
       (simp add: refused_def)
  obtain found s1 where a: "saved_lookup env (w_now w 0) q s = (found, s1)" by force
  have s1: "f_session s1 = f_session s" using lookup_frame [OF a] by simp
  have "Q (f_session (snd (cached_fetch env w q init s)))"
  proof (cases found)
    case (Inl r)
    then show ?thesis by (simp add: cached_fetch_def a stay s1)
  next
    case (Inr hit)
    define probe where "probe = on_store (savedCopyWithin (v_api env) (q_key q) (cacheValueInt (i_showSavedMaxAgeMs init) 0) (w_now w 1)) s1"
    obtain c s2 where b: "(if hit = None \<and> cacheValueInt (i_showSavedMaxAgeMs init) 0 > 0
        then (case probe of (c, s2) \<Rightarrow> (c, w_others w 1 s2)) else (hit, s1)) = (c, s2)" by force
    obtain c' s' where wi: "probe = (c', s')" by force
    have "f_session s' = f_session s" using on_store_frame [OF wi [unfolded probe_def]] s1 by simp
    then have s2: "f_session s2 = f_session s" using b wi s1 assms(1) by (auto simp: session_left_def split: if_splits)
    note fetch = cached_fetch_def [of env w q init s, unfolded a Inr Let_def prod.case sum.case, folded probe_def, unfolded b prod.case]
    have go: "Q (f_session (snd (own_read env w q' u'))) \<and> Q (f_session (refresh_ends env w q' shown (add_inflight k u')))"
      if "send_headers env w (w_now w 2) init q u = (q', u')" "f_session u = f_session s" for u q' u' shown k
    proof -
      have h: "w_cached (f_session u) = Some (Some x)" using that assms(2) by simp
      note H = send_headers_held [OF h assms(3) [rule_format] that(1)]
      have u': "w_cached (f_session u') = Some (Some x)" "f_session (add_inflight k u') = f_session s" "f_session u' = f_session s"
        using H h that(2) by (simp_all add: add_inflight_def)
      have "w_cached (f_session (add_inflight k u')) = Some (Some x)" using u' assms(2) by simp
      from read_session(1) [OF assms(1) u'(1) assms(3) [rule_format], of env q'] read_session(3) [OF assms(1) this assms(3) [rule_format], of env q' shown]
      show ?thesis using H u'(2,3) by (auto simp: Q_def)
    qed
    obtain z u where o: "offline_answer env w q s2 = (z, u)" by force
    have u: "f_session u = f_session s" using offline_answer_session [OF assms(1) o] s2 by simp
    obtain q2 t2 where h2: "send_headers env w (w_now w 2) init q s2 = (q2, t2)" by force
    obtain q3 t3 where h3: "send_headers env w (w_now w 2) init q u = (q3, t3)" by force
    have "f_session (w_others w 2 s2) = f_session s" using s2 assms(1) by (simp add: session_left_def)
    then show ?thesis
      using go [OF h2 s2] go [OF h3 u] s2 u stay by (cases c; cases z) (simp_all add: fetch o h2 h3)
  qed
  then show ?thesis by (simp add: Q_def)
qed

lemma write_session:
  assumes "f_session (snd (run_request env w q (i_liveOnly init) s)) = st"
  shows "f_session (snd (write_fetch env w q init s)) = st"
proof -
  obtain out s1 where r: "run_request env w q (i_liveOnly init) s = (out, s1)" by force
  with assms show ?thesis by (auto simp: write_fetch_def split: fetch_outcome.split option.split prod.split)
qed

text \<open>Claim C35: only a refusal of its own token signs a device out.  Where a session is held and does not
  end meanwhile, a request leaves it as it was, however it ends: offline, with a timeout, refused for
  another reason, answered from a saved copy.  It is ended (as revoked) only if the network answered
  401 and the request carried the session's token, not one of the caller's own.\<close>

theorem only_a_refused_token_signs_out:
  assumes "session_left w" and "w_cached (f_session s) = Some (Some x)" and "\<forall>i. \<not> expired_at (of_int (w_now w i)) x"
    and "apiFetch env w input init s = (res, s')"
  shows "f_session s' = f_session s \<or> (\<exists>r. w_net w = Arrives r \<and> rs_status r = 401) \<and>
    nullish (header_get WORKSPACE_ACCESS_HEADER (given_headers init)) (ws_token x) = ws_token x \<and>
    f_session s' = clearWorkspaceSession (e_native (v_api env)) (w_full w) Revoked (f_session s)"
proof (cases "plan_request env w input init s")
  case None
  with assms(4) show ?thesis by (simp add: apiFetch_def)
next
  case (Some qs)
  then obtain q s0 where p: "plan_request env w input init s = Some (q, s0)" by (cases qs) simp
  have s0: "f_session s0 = f_session s" by (rule plan_session [OF assms(2) assms(3) [rule_format] p])
  then have h0: "w_cached (f_session s0) = Some (Some x)" using assms(2) by simp
  obtain q' s2 where h: "send_headers env w (w_now w 0) init q s0 = (q', s2)" by force
  note H = send_headers_held [OF h0 assms(3) [rule_format] h]
  then have h2: "w_cached (f_session s2) = Some (Some x)" "f_session s2 = f_session s" using h0 s0 by simp_all
  note R = read_session(2,4) [OF assms(1) h2(1) assms(3) [rule_format]]
  have "\<exists>q''. q_token q'' = nullish (header_get WORKSPACE_ACCESS_HEADER (given_headers init)) (ws_token x) \<and>
      refused env w q'' x (f_session s) (f_session s')"
  proof (cases "q_use_cache q")
    case True
    with cached_session [OF assms(1) h0 assms(3), of init env q] s0 assms(4) show ?thesis by (simp add: apiFetch_def p)
  next
    case False
    have "refused env w q' x (f_session s) (f_session (snd (write_fetch env w q' init s2)))"
      using R(2) [of env q' "i_liveOnly init"] write_session [OF HOL.refl] h2(2) by metis
    with False R(1) [of env q' "i_liveOnly init"] h2(2) assms(4) h
    have "refused env w q' x (f_session s) (f_session s')" by (auto simp: apiFetch_def p split: if_splits)
    with H show ?thesis by blast
  qed
  then show ?thesis by (auto simp: refused_def)
qed

definition signed_in_state :: "mutation api_state" where
  "signed_in_state = app_state None\<lparr>f_session := first_start\<lparr>w_cached := Some (Some team_604)\<rparr>\<rparr>"

lemma only_a_refused_token_signs_out_witness:
  "f_session (snd (apiFetch app_env (app_world 5000 True (Fails (TypeErr ''Failed to fetch'') False None)) ''/a'' get_init signed_in_state)) =
     f_session signed_in_state"
proof -
  have "w_cached (f_session signed_in_state) = Some (Some team_604)" by (simp add: signed_in_state_def)
  from only_a_refused_token_signs_out [of "app_world 5000 True (Fails (TypeErr ''Failed to fetch'') False None)", OF _ this _ surjective_pairing,
      of app_env "''/a''" get_init] show ?thesis
    by (simp add: session_left_def expired_at_def team_604_def)
qed

section \<open>Stale answers\<close>

lemma cacheResponse_newest: "map_get (cacheResponse now k e mem) k = Some e"
proof -
  define m where "m = map_delete k (filter (\<lambda>(_, v). \<not> cr_expiresAtMs v \<le> now) mem)"
  have "k \<notin> set (map fst m)" by (auto simp: m_def map_delete_def)
  then have "map_of (drop n m) k = None" for n by (auto simp: map_of_eq_None_iff dest: in_set_dropD)
  moreover have "cacheResponse now k e mem = drop (Suc (length m) - MAX_RESPONSE_CACHE_ENTRIES) (m @ [(k, e)])"
    using map_set_delete [of k e "filter (\<lambda>(_, v). \<not> cr_expiresAtMs v \<le> now) mem"] by (simp add: cacheResponse_def Let_def m_def)
  ultimately show ?thesis
    by (simp add: map_get_def map_add_def MAX_RESPONSE_CACHE_ENTRIES_def split: option.split)
qed

lemma write_mem: "writePersistentGetCache env k r ttl now s = (x, s') \<Longrightarrow> c_mem s' = c_mem s"
  by (auto simp: writePersistentGetCache_def prunePersistentCache_def Let_def dest!: putStored_same
      split: if_splits prod.splits option.splits bool.splits)

lemma keep_fresh:
  assumes "rs_ok r" and "q_use_cache q" and "q_audit q = None" and "t < now + q_ttl q"
  shows "fst (saved_lookup env t q (keep_response (v_api env) q lo now r s)) = Inl r"
proof -
  define e where "e = \<lparr>cr_storedAtMs = now, cr_expiresAtMs = now + q_ttl q, cr_response = r\<rparr>"
  obtain b st where w: "writePersistentGetCache (v_api env) (q_key q) r (q_ttl q) now
      ((f_store s)\<lparr>c_mem := cacheResponse now (q_key q) e (c_mem (f_store s))\<rparr>) = (b, st)" by force
  have "map_get (c_mem st) (q_key q) = Some e" using write_mem [OF w] cacheResponse_newest by simp
  moreover have "f_store (keep_response (v_api env) q lo now r s) = st"
    using assms(1-3) w by (simp add: keep_response_def on_store_def e_def)
  ultimately show ?thesis
    using assms(4) by (simp add: saved_lookup_def readMemoryGetCache_def e_def Let_def)
qed

text \<open>Claim C36: an old answer shown at once is replaced.  A read that finds a stale copy, while no other
  read of it is under way, answers with it and asks the network; when a good answer arrives, every later
  read within its time to live has that answer at once, the pages are told exactly if its text is another
  one, and the way is free for the next read.\<close>

theorem stale_answer_is_replaced:
  assumes "saved_lookup env (w_now w 0) q s = (Inr (Some c), s1)" and "q_key q \<notin> set (f_inflight s)"
    and "q_use_cache q" and "q_audit q = None" and "w_net w = Arrives r" and "rs_ok r"
    and "\<forall>u. f_updated (w_others w 4 u) = f_updated u" and "cached_fetch env w q init s = (res, s')"
    and "t < w_now w 4 + q_ttl q"
  shows "res = Answer (lk_response c) \<and> fst (saved_lookup env t q s') = Inl (whole_response r) \<and> q_key q \<notin> set (f_inflight s') \<and>
    f_updated s' = f_updated s @ (if response_text r \<noteq> [] \<and> response_text r \<noteq> response_text (lk_response c) \<and>
      rs_status r \<notin> {204, 205} then [q_req_url q] else [])"
proof -
  note L = lookup_frame [OF assms(1)]
  obtain q' s2 where h: "send_headers env w (w_now w 2) init q s1 = (q', s2)" by force
  note H = send_headers_result [OF h]
  have up: "f_updated s2 = f_updated s" using h L by (auto simp: send_headers_def Let_def split: prod.splits)
  define u where "u = (let u = w_others w 4 (add_inflight (q_key q) s2) in
    u\<lparr>f_session := revoke_sent (e_native (v_api env)) (w_full w) (of_int (w_now w 4)) (q_token q') (whole_response r) (f_session u)\<rparr>)"
  define k where "k = keep_response (v_api env) q' False (w_now w 4) (whole_response r) u"
  have run: "run_ends env w q' False None (w_others w 4 (add_inflight (q_key q) s2)) = (Answer (whole_response r), k)"
    by (simp add: run_ends_def assms(5) k_def u_def Let_def)
  have "fst (saved_lookup env t q' k) = Inl (whole_response r)"
    unfolding k_def using keep_fresh [of "whole_response r" q' t "w_now w 4"] H assms(3,4,6,9) by simp
  moreover have "fst (saved_lookup env t q v) = fst (saved_lookup env t q' k)" if "f_store v = f_store k" "q_swr q = q_swr q'" for v
    using that H by (auto simp: saved_lookup_def split: prod.split option.split)
  moreover have swr: "q_swr q = q_swr q'" using h by (auto simp: send_headers_def Let_def split: prod.splits)
  ultimately have look: "fst (saved_lookup env t q v) = Inl (whole_response r)" if "f_store v = f_store k" for v
    using that by simp
  have body: "response_text (whole_response r) = (if rs_status r \<in> {204, 205} then [] else response_text r)"
    using assms(6) by (auto simp: whole_response_def response_text_def rs_ok_def)
  have ku: "f_updated k = f_updated s" using assms(7) up by (simp add: k_def u_def add_inflight_def Let_def)
  have "cached_fetch env w q init s = (Answer (lk_response c), refresh_ends env w q' (lk_response c) (add_inflight (q_key q) s2))"
    using assms(2) L h by (simp add: cached_fetch_def assms(1))
  with assms(8) have "res = Answer (lk_response c)" "s' = refresh_ends env w q' (lk_response c) (add_inflight (q_key q) s2)" by simp_all
  moreover have "refresh_ends env w q' (lk_response c) (add_inflight (q_key q) s2) = end_inflight (q_key q)
      (if response_text (whole_response r) \<noteq> [] \<and> response_text (lk_response c) \<noteq> response_text (whole_response r)
       then notifyApiUpdated (q_req_url q) k else k)"
    using H assms(6) by (simp add: refresh_ends_def run)
  ultimately show ?thesis
    using look ku body by (auto simp: end_inflight_def notifyApiUpdated_def)
qed

definition stale_copy :: cached_response where
  "stale_copy = \<lparr>cr_storedAtMs = 1000, cr_expiresAtMs = 9000, cr_response = answer ''[1]''\<rparr>"

definition stale_state :: "mutation api_state" where
  "stale_state = app_state None\<lparr>f_store := (empty_store [])\<lparr>c_local := None, c_mem := [(''GET:w0:/a'', stale_copy)]\<rparr>\<rparr>"

lemma stale_answer_is_replaced_witness:
  "f_updated (snd (cached_fetch app_env (app_world 20000 True (Arrives (answer ''[2]''))) (get_request None) get_init stale_state)) = [''/a'']"
proof -
  have swr: "q_swr (get_request None) = 45000" by (simp add: get_request_def)
  obtain s1 where l: "saved_lookup app_env 20000 (get_request None) stale_state =
      (Inr (Some \<lparr>lk_fresh = False, lk_response = answer ''[1]'', lk_ageSec = 19\<rparr>), s1)"
    by (simp add: saved_lookup_def stale_state_def stale_copy_def readMemoryGetCache_def readPersistentGetCache_def
        localStorageAvailable_def map_get_def age_sec_def swr Let_def)
  obtain res s' where r: "cached_fetch app_env (app_world 20000 True (Arrives (answer ''[2]''))) (get_request None) get_init stale_state = (res, s')"
    by force
  have "saved_lookup app_env (w_now (app_world 20000 True (Arrives (answer ''[2]''))) 0) (get_request None) stale_state =
      (Inr (Some \<lparr>lk_fresh = False, lk_response = answer ''[1]'', lk_ageSec = 19\<rparr>), s1)"
    using l by simp
  from stale_answer_is_replaced [OF this _ _ _ _ _ _ r, of "answer ''[2]''" 20000] r
  show ?thesis by (simp add: stale_state_def rs_ok_def answer_def response_text_def)
qed

section \<open>What modelling showed\<close>

text \<open>A read that joins one under way shares its failure, although a saved copy could be shown: only the
  first reader falls back to it.\<close>

definition joining :: "mutation api_state" where
  "joining = (app_state None)\<lparr>f_store := saved_store, f_inflight := [''GET:w0:/a'']\<rparr>"

lemma saved_store_kept: "kept small_env ''GET:w0:/a'' ''[1]'' (5000 + PERSIST_GET_CACHE_TTL_MS) saved_store"
proof -
  have "kept small_env ''GET:w0:/a'' (response_text (answer ''[1]'')) (5000 + max 8000 PERSIST_GET_CACHE_TTL_MS) saved_store"
    by (rule write_kept [OF saved_store_eq])
       (use saved_store_available in \<open>simp_all add: rs_ok_def answer_def no_copies_def empty_store_def map_get_def rows_before_def map_ok_def\<close>)
  then show ?thesis by (simp add: answer_def response_text_def PERSIST_GET_CACHE_TTL_MS_def)
qed

lemma joined_read_shares_the_failure:
  "fst (apiFetch app_env (app_world 90000 True net) ''/a'' get_init joining) = Rejected (Err ''503'') \<and>
   (\<exists>x. fst (fall_back app_env ''GET:w0:/a'' 90000 joining) = Some (Some x) \<and> response_text x = ''[1]'')"
proof
  have "\<exists>x s'. offlineStaleFallback small_env ''GET:w0:/a'' 90000 saved_store = (Some (Some x), s') \<and> response_text x = ''[1]''"
    using fallback_kept [OF saved_store_kept, of 90000] by (auto simp: PERSIST_GET_CACHE_TTL_MS_def)
  then show "\<exists>x. fst (fall_back app_env ''GET:w0:/a'' 90000 joining) = Some (Some x) \<and> response_text x = ''[1]''"
    by (auto simp: fall_back_def on_store_def joining_def)
next
  have m: "c_mem saved_store = []"
    using write_mem [OF saved_store_eq] by (simp add: empty_store_def)
  obtain okay ls where a: "localStorageAvailable small_env (c_local saved_store) = (okay, ls)" by force
  have r: "raw_copy (map_delete PROBE_KEY [(persistentCacheKey ''GET:w0:/a'', Copy saved_payload)]) ''GET:w0:/a'' = Some (Copy saved_payload)"
    unfolding raw_copy_probe by (simp add: raw_copy_def map_get_def)
  have e: "pc_expiresAtMs saved_payload = Some 13000" "pc_retainUntilMs saved_payload = Some 345605000"
    by (simp_all add: saved_payload_def persistent_payload_def)
  have "\<exists>ls. readPersistentGetCache small_env ''GET:w0:/a'' 90000 45000 (c_local saved_store) = (None, ls)"
    using available_result [OF a] a by (cases okay) (auto simp: readPersistentGetCache_def saved_store_local r e Let_def)
  then obtain ls' where p: "readPersistentGetCache small_env ''GET:w0:/a'' 90000 45000 (c_local saved_store) = (None, ls')" by blast
  have swr: "q_swr (get_request None) = 45000" by (simp add: get_request_def)
  have l: "\<exists>s1. saved_lookup app_env 90000 (get_request None) joining = (Inr None, s1) \<and> f_inflight s1 = [''GET:w0:/a'']"
    by (simp add: saved_lookup_def joining_def swr m readMemoryGetCache_def map_get_def p)
  then obtain s1 where l: "saved_lookup app_env 90000 (get_request None) joining = (Inr None, s1)" "f_inflight s1 = [''GET:w0:/a'']"
    by blast
  have pl: "plan_request app_env (app_world 90000 True net) ''/a'' get_init joining = Some (get_request None, joining)"
    by (simp add: plan_get joining_def)
  show "fst (apiFetch app_env (app_world 90000 True net) ''/a'' get_init joining) = Rejected (Err ''503'')"
    by (simp add: apiFetch_def pl cached_fetch_def l cacheValueInt_def)
qed

end
