(* ===== verification/Polling.thy ===== *)
theory Polling
  imports JsValue
begin

text \<open>
  \<open>hooks/useSingleFlightPolling.ts\<close>: the poll a page runs while it is on screen.  A \<open>polling\<close> is the closure
  of one effect: the timer that is set (with its delay), whether a run is under way, the refresh that
  waits for it, the next delay, whether the debounce of \<open>api:updated\<close> is set, and a record of the runs
  started and ended.  The effect exists only while the poll is enabled and visible; a change of the
  options disposes it and starts another one.  \<open>poll_runs\<close> is everything that can happen to it.
\<close>

section \<open>State\<close>

datatype poll_reason = Initial | Poll | Manual | Resume | Update

record poll_env =
  pv_interval :: num
  pv_multiplier :: real
  pv_maxBackoffMs :: real
  pv_minBackoffMs :: real

record polling =
  po_disposed :: bool
  po_timer :: "int option"
  po_flight :: bool
  po_shown :: bool
  po_pending :: "poll_reason option"
  po_delay :: int
  po_update :: bool
  po_runs :: "poll_reason list"
  po_ended :: nat

definition REFRESH_WAIT_LIMIT_MS :: int where
  "REFRESH_WAIT_LIMIT_MS = 15000"

definition normalizedIntervalMs :: "num \<Rightarrow> int" where
  "normalizedIntervalMs raw = (case raw of Fin x \<Rightarrow> max 1000 \<lfloor>x\<rfloor> | _ \<Rightarrow> 10000)"

section \<open>Operations\<close>

definition clear_timer :: "polling \<Rightarrow> polling" where
  "clear_timer s = s\<lparr>po_timer := None\<rparr>"

definition schedule_poll :: "int \<Rightarrow> polling \<Rightarrow> polling" where
  "schedule_poll delayMs s = (if po_disposed s then s else s\<lparr>po_timer := Some (max 300 delayMs)\<rparr>)"

text \<open>Up to the first \<open>await\<close>: the run has begun.\<close>

definition execute_poll :: "poll_reason \<Rightarrow> polling \<Rightarrow> polling" where
  "execute_poll reason s =
     (if po_disposed s then s
      else if po_flight s
      then (if reason \<noteq> Poll then s\<lparr>po_pending := Some reason\<rparr> else schedule_poll (po_delay s) s)
      else s\<lparr>po_flight := True, po_shown := True, po_runs := po_runs s @ [reason]\<rparr>)"

definition next_delay :: "poll_env \<Rightarrow> bool \<Rightarrow> int \<Rightarrow> int" where
  "next_delay env successful delay =
     (let safe = normalizedIntervalMs (pv_interval env);
          lowerBoundMs = max \<lfloor>pv_minBackoffMs env\<rfloor> safe;
          upperBoundMs = max lowerBoundMs \<lfloor>pv_maxBackoffMs env\<rfloor>;
          stepped = math_round (of_int delay * max (11 / 10) (pv_multiplier env))
      in if successful then safe else max lowerBoundMs (min upperBoundMs stepped))"

text \<open>The end of the run; a rejection and the answer \<open>false\<close> are failures.\<close>

definition poll_ends :: "poll_env \<Rightarrow> bool \<Rightarrow> polling \<Rightarrow> polling" where
  "poll_ends env successful s =
     (let s1 = s\<lparr>po_flight := False, po_ended := Suc (po_ended s)\<rparr>
      in if po_disposed s then clear_timer s1
         else (let s2 = s1\<lparr>po_shown := False, po_delay := next_delay env successful (po_delay s)\<rparr>
               in case po_pending s2 of
                    Some queued \<Rightarrow> execute_poll queued (s2\<lparr>po_pending := None\<rparr>)
                  | None \<Rightarrow> schedule_poll (po_delay s2) s2))"

definition poll_timer_fires :: "polling \<Rightarrow> polling" where
  "poll_timer_fires s = execute_poll Poll (clear_timer s)"

definition trigger_now :: "poll_reason \<Rightarrow> polling \<Rightarrow> polling" where
  "trigger_now reason s = (if po_disposed s then s else execute_poll reason (clear_timer s))"

text \<open>Pull-to-refresh, after its wait for the run under way.\<close>

definition refresh_now :: "polling \<Rightarrow> polling" where
  "refresh_now s = (if po_disposed s then s else execute_poll Manual (clear_timer s))"

definition on_updated :: "polling \<Rightarrow> polling" where
  "on_updated s = (if po_disposed s then s else s\<lparr>po_update := True\<rparr>)"

definition update_fires :: "polling \<Rightarrow> polling" where
  "update_fires s = execute_poll Update (s\<lparr>po_update := False\<rparr>)"

definition dispose_poll :: "polling \<Rightarrow> polling" where
  "dispose_poll s = (clear_timer s)\<lparr>po_disposed := True, po_update := False\<rparr>"

definition start_polling :: "poll_env \<Rightarrow> polling" where
  "start_polling env = execute_poll Initial \<lparr>po_disposed = False, po_timer = None, po_flight = False, po_shown = False,
     po_pending = None, po_delay = normalizedIntervalMs (pv_interval env), po_update = False, po_runs = [], po_ended = 0\<rparr>"

section \<open>Runs\<close>

inductive poll_step :: "poll_env \<Rightarrow> polling \<Rightarrow> polling \<Rightarrow> bool" for env where
  Fires: "po_timer s \<noteq> None \<Longrightarrow> poll_step env s (poll_timer_fires s)"
| Ends: "po_flight s \<Longrightarrow> poll_step env s (poll_ends env successful s)"
| Trigger: "poll_step env s (trigger_now reason s)"
| Refresh: "\<not> po_flight s \<or> REFRESH_WAIT_LIMIT_MS \<le> waited \<Longrightarrow> poll_step env s (refresh_now s)"
| Updated: "poll_step env s (on_updated s)"
| UpdateFires: "po_update s \<Longrightarrow> poll_step env s (update_fires s)"
| Dispose: "poll_step env s (dispose_poll s)"

inductive poll_runs :: "poll_env \<Rightarrow> polling \<Rightarrow> polling \<Rightarrow> bool" for env where
  Here: "poll_runs env s s"
| Then: "\<lbrakk>poll_runs env s t; poll_step env t u\<rbrakk> \<Longrightarrow> poll_runs env s u"

inductive_cases poll_stepE: "poll_step env s t"

named_theorems poll_defs

lemmas [poll_defs] = clear_timer_def schedule_poll_def execute_poll_def poll_ends_def poll_timer_fires_def trigger_now_def refresh_now_def
  on_updated_def update_fires_def dispose_poll_def

section \<open>A poll never stalls\<close>

definition longest_wait :: "poll_env \<Rightarrow> int" where
  "longest_wait env = max (max \<lfloor>pv_minBackoffMs env\<rfloor> (normalizedIntervalMs (pv_interval env))) \<lfloor>pv_maxBackoffMs env\<rfloor>"

definition poll_ok :: "poll_env \<Rightarrow> polling \<Rightarrow> bool" where
  "poll_ok env s \<longleftrightarrow> length (po_runs s) = po_ended s + (if po_flight s then 1 else 0) \<and>
     normalizedIntervalMs (pv_interval env) \<le> po_delay s \<and> po_delay s \<le> longest_wait env \<and>
     (\<forall>d. po_timer s = Some d \<longrightarrow> d \<le> longest_wait env) \<and>
     (\<not> po_disposed s \<longrightarrow> (po_flight s \<or> po_timer s \<noteq> None) \<and> (po_shown s \<longleftrightarrow> po_flight s) \<and> (po_pending s \<noteq> None \<longrightarrow> po_flight s))"

lemma interval_pos: "1000 \<le> normalizedIntervalMs i"
  by (auto simp: normalizedIntervalMs_def split: num.split)

lemma longest_wait_least: "normalizedIntervalMs (pv_interval env) \<le> longest_wait env"
  by (simp add: longest_wait_def)

lemma next_delay_bounds:
  "normalizedIntervalMs (pv_interval env) \<le> next_delay env okay d \<and> next_delay env okay d \<le> longest_wait env"
  by (auto simp: next_delay_def longest_wait_def Let_def)

lemma bounded_wait: "300 \<le> longest_wait env" "d \<le> longest_wait env \<Longrightarrow> max 300 d \<le> longest_wait env"
  using interval_pos [of "pv_interval env"] longest_wait_least [of env] by simp_all

lemma poll_ok_step:
  assumes "poll_step env s t" and "poll_ok env s"
  shows "poll_ok env t"
  using assms(1)
proof cases
  case (Ends successful)
  with assms(2) next_delay_bounds [of env successful "po_delay s"] show ?thesis
    by (auto simp: poll_defs poll_ok_def Let_def bounded_wait split: option.split)
qed (use assms(2) bounded_wait in \<open>auto simp: poll_defs poll_ok_def split: if_splits\<close>)

lemma poll_ok_start: "poll_ok env (start_polling env)"
  by (simp add: start_polling_def poll_defs poll_ok_def longest_wait_least)

lemma poll_ok_runs: "\<lbrakk>poll_runs env s t; poll_ok env s\<rbrakk> \<Longrightarrow> poll_ok env t"
  by (induction rule: poll_runs.induct) (auto intro: poll_ok_step)

text \<open>Claim C37: a poll never stalls and never doubles.  From its start, over any mix of answers, failures,
  timers, updates, manual refreshes and pulls, the runs started are the runs ended and at most one more;
  while the poll is on screen a run is under way or a timer is set for one, within the longest wait; a
  refresh that waits has a run to wait for, and the page shows a request exactly while one is under way.\<close>

theorem polling_never_stalls:
  assumes "poll_runs env (start_polling env) s"
  shows "length (po_runs s) = po_ended s + (if po_flight s then 1 else 0) \<and>
    (po_disposed s \<or> (po_flight s \<or> (\<exists>d \<le> longest_wait env. po_timer s = Some d)) \<and> (po_shown s \<longleftrightarrow> po_flight s) \<and>
       (po_pending s = None \<or> po_flight s))"
  using poll_ok_runs [OF assms poll_ok_start] by (auto simp: poll_ok_def)

definition page_poll :: poll_env where
  "page_poll = \<lparr>pv_interval = Fin 30000, pv_multiplier = 7 / 4, pv_maxBackoffMs = 120000, pv_minBackoffMs = 2000\<rparr>"

lemma polling_never_stalls_witness:
  "po_flight (trigger_now Manual (poll_ends page_poll True (start_polling page_poll))) \<or>
     (\<exists>d. po_timer (trigger_now Manual (poll_ends page_poll True (start_polling page_poll))) = Some d)"
proof -
  have "po_flight (start_polling page_poll)" by (simp add: start_polling_def poll_defs)
  then have "poll_runs page_poll (start_polling page_poll) (trigger_now Manual (poll_ends page_poll True (start_polling page_poll)))"
    using poll_runs.Then [OF poll_runs.Then [OF poll_runs.Here poll_step.Ends] poll_step.Trigger] by blast
  from polling_never_stalls [OF this] show ?thesis
    by (auto simp: start_polling_def poll_defs Let_def)
qed

section \<open>What is asked for is run\<close>

lemma clamped: "d + 1 \<le> (x :: int) \<Longrightarrow> d < max lo (min (max lo hi) x) \<or> max lo (min (max lo hi) x) = max lo hi"
  by (auto simp: max_def min_def)

text \<open>Steps while the run goes on and the poll stays on screen.\<close>

inductive meanwhile :: "poll_env \<Rightarrow> polling \<Rightarrow> polling \<Rightarrow> bool" for env where
  Now: "meanwhile env s s"
| Next: "\<lbrakk>meanwhile env s t; poll_step env t u; po_ended u = po_ended t; \<not> po_disposed u\<rbrakk> \<Longrightarrow> meanwhile env s u"

definition waiting :: "polling \<Rightarrow> bool" where
  "waiting s \<longleftrightarrow> po_flight s \<and> \<not> po_disposed s \<and> (\<exists>r. po_pending s = Some r \<and> r \<noteq> Poll)"

lemma waiting_step: "\<lbrakk>poll_step env s t; waiting s; po_ended t = po_ended s; \<not> po_disposed t\<rbrakk> \<Longrightarrow> waiting t \<and> po_runs t = po_runs s"
  by (erule poll_stepE) (auto simp: poll_defs waiting_def Let_def split: if_splits option.splits)

lemma meanwhile_waiting: "\<lbrakk>meanwhile env s t; waiting s\<rbrakk> \<Longrightarrow> waiting t \<and> po_runs t = po_runs s"
  by (induction rule: meanwhile.induct) (auto dest: waiting_step)

text \<open>Claim C38: a refresh asked for while a run is under way starts the moment that run ends, however it
  ends and whatever happens until then, and not an interval later.  The failures before it only lengthen
  the wait: a failed run waits longer than the last one did or the longest time there is, and an answer
  brings the wait back to the interval.\<close>

theorem refresh_asked_for_is_run:
  assumes "poll_runs env (start_polling env) s" and "po_flight s" and "\<not> po_disposed s" and "reason \<noteq> Poll"
    and "meanwhile env (trigger_now reason s) t"
  shows "(\<exists>r. r \<noteq> Poll \<and> po_runs (poll_ends env successful t) = po_runs s @ [r]) \<and> po_flight (poll_ends env successful t) \<and>
    (if successful then po_delay (poll_ends env successful t) = normalizedIntervalMs (pv_interval env)
     else po_delay t < po_delay (poll_ends env successful t) \<or> po_delay (poll_ends env successful t) = longest_wait env)"
proof -
  have w: "waiting (trigger_now reason s)" "po_runs (trigger_now reason s) = po_runs s"
    using assms(2-4) by (simp_all add: poll_defs waiting_def)
  have t: "waiting t" "po_runs t = po_runs s" using meanwhile_waiting [OF assms(5) w(1)] w(2) by simp_all
  have ok: "poll_ok env t"
  proof -
    have "poll_ok env (trigger_now reason s)"
      using poll_ok_step [OF poll_step.Trigger] poll_ok_runs [OF assms(1) poll_ok_start] .
    with assms(5) show ?thesis by (induction rule: meanwhile.induct) (auto intro: poll_ok_step)
  qed
  have d: "po_delay (poll_ends env successful t) = next_delay env successful (po_delay t)"
    using t(1) by (auto simp: poll_defs waiting_def Let_def)
  have "po_delay t < next_delay env False (po_delay t) \<or> next_delay env False (po_delay t) = longest_wait env"
  proof -
    have pos: "1000 \<le> po_delay t" using ok interval_pos [of "pv_interval env"] by (simp add: poll_ok_def)
    have "real_of_int (po_delay t + 1) \<le> of_int (po_delay t) * (11 / 10)" using pos by simp
    also have "\<dots> \<le> of_int (po_delay t) * max (11 / 10) (pv_multiplier env)"
      using pos by (intro mult_left_mono) simp_all
    finally have "po_delay t + 1 \<le> math_round (of_int (po_delay t) * max (11 / 10) (pv_multiplier env))"
      using math_round_mono math_round_of_int by metis
    then show ?thesis using clamped [of "po_delay t"] by (simp add: next_delay_def longest_wait_def Let_def)
  qed
  moreover have "next_delay env True (po_delay t) = normalizedIntervalMs (pv_interval env)" by (simp add: next_delay_def)
  moreover have "(\<exists>r. r \<noteq> Poll \<and> po_runs (poll_ends env successful t) = po_runs s @ [r]) \<and> po_flight (poll_ends env successful t)"
    using t by (auto simp: poll_defs waiting_def Let_def)
  ultimately show ?thesis unfolding d by (cases successful) simp_all
qed

lemma refresh_asked_for_is_run_witness:
  "\<exists>r. r \<noteq> Poll \<and> po_runs (poll_ends page_poll False (trigger_now Manual (start_polling page_poll))) = [Initial, r]"
proof -
  have s: "po_flight (start_polling page_poll)" "\<not> po_disposed (start_polling page_poll)" "po_runs (start_polling page_poll) = [Initial]"
    by (simp_all add: start_polling_def poll_defs)
  from refresh_asked_for_is_run [OF poll_runs.Here s(1,2) _ meanwhile.Now, of Manual False] show ?thesis
    by (simp add: s(3))
qed

end
