(* ===== verification/LiveResults.thy ===== *)
theory LiveResults
  imports ApiUrls
begin

text \<open>
  \<open>features/live/liveResults.ts\<close>: one socket per event in play that a page shows, which tells when its
  results change.  A \<open>live_results\<close> is what the module keeps (an entry per event, with the number of its
  object) and the sockets that are not closed yet; a closing one fires nothing but its end.  An entry's
  timer is the delay it was set with.  The clock, \<open>navigator.onLine\<close>, the random part of a delay and
  whether a \<open>WebSocket\<close> can be made are arguments.
\<close>

section \<open>State\<close>

definition MAX_SOCKETS :: nat where
  "MAX_SOCKETS = 6"

definition IDLE_MS :: int where
  "IDLE_MS = 90000"

definition MAX_RETRY_MS :: nat where
  "MAX_RETRY_MS = 60000"

record live_entry =
  le_id :: nat
  le_socket :: "nat option"
  le_lastInterestMs :: int
  le_retries :: nat
  le_timer :: "real option"
  le_ping :: bool
  le_refused :: bool

record live_socket =
  so_key :: string
  so_entry :: nat
  so_closing :: bool

record live_results =
  lr_started :: bool
  lr_listening :: bool
  lr_sweeper :: bool
  lr_entries :: "(string, live_entry) jsmap"
  lr_sockets :: "(nat, live_socket) jsmap"
  lr_next :: nat
  lr_live :: live
  lr_updates :: "string list"

section \<open>Operations\<close>

definition idle_entry :: "live_entry \<Rightarrow> int \<Rightarrow> bool" where
  "idle_entry e nowMs \<longleftrightarrow> nowMs - le_lastInterestMs e > IDLE_MS"

definition close_live :: "string \<Rightarrow> live_results \<Rightarrow> live_results" where
  "close_live key s = (case map_get (lr_entries s) key of None \<Rightarrow> s
     | Some e \<Rightarrow> s\<lparr>lr_entries := map_delete key (lr_entries s),
         lr_sockets := (case le_socket e of None \<Rightarrow> lr_sockets s
           | Some i \<Rightarrow> (case map_get (lr_sockets s) i of None \<Rightarrow> lr_sockets s
               | Some so \<Rightarrow> map_set i (so\<lparr>so_closing := True\<rparr>) (lr_sockets s)))\<rparr>)"

text \<open>\<open>connect\<close> for the entry object \<open>n\<close>: nothing if the event has another entry by now.\<close>

definition connect_live :: "bool \<Rightarrow> string \<Rightarrow> nat \<Rightarrow> live_results \<Rightarrow> live_results" where
  "connect_live works key n s = (case map_get (lr_entries s) key of None \<Rightarrow> s
     | Some e \<Rightarrow> if le_id e \<noteq> n then s
         else if le_refused e \<or> \<not> works then s\<lparr>lr_entries := map_set key (e\<lparr>le_timer := None\<rparr>) (lr_entries s)\<rparr>
         else s\<lparr>lr_entries := map_set key (e\<lparr>le_timer := None, le_socket := Some (lr_next s)\<rparr>) (lr_entries s),
           lr_sockets := map_set (lr_next s) \<lparr>so_key = key, so_entry = n, so_closing = False\<rparr> (lr_sockets s),
           lr_next := Suc (lr_next s)\<rparr>)"

text \<open>The entry of a socket, if the event still has it.\<close>

definition own_entry :: "live_socket \<Rightarrow> live_results \<Rightarrow> live_entry option" where
  "own_entry so s = (case map_get (lr_entries s) (so_key so) of None \<Rightarrow> None
     | Some e \<Rightarrow> if le_id e = so_entry so then Some e else None)"

definition socket_opens :: "nat \<Rightarrow> live_results \<Rightarrow> live_results" where
  "socket_opens i s = (case map_get (lr_sockets s) i of None \<Rightarrow> s
     | Some so \<Rightarrow> if so_closing so then s
         else (case own_entry so s of None \<Rightarrow> s
           | Some e \<Rightarrow> s\<lparr>lr_entries := map_set (so_key so) (e\<lparr>le_retries := 0, le_ping := True\<rparr>) (lr_entries s)\<rparr>))"

definition socket_message :: "nat \<Rightarrow> jtext \<Rightarrow> int \<Rightarrow> live_results \<Rightarrow> live_results" where
  "socket_message i data nowMs s = (case map_get (lr_sockets s) i of None \<Rightarrow> s
     | Some so \<Rightarrow> if so_closing so then s
         else (case json_parse data of None \<Rightarrow> s
           | Some payload \<Rightarrow> (case jget_opt (asRecord payload) ''version'' of
                 JStr version \<Rightarrow>
                   if jget_opt (asRecord payload) ''type'' \<noteq> JStr ''results'' then s
                   else (case applyLiveVersion (so_key so) version nowMs (lr_live s) of (news, l) \<Rightarrow>
                     s\<lparr>lr_live := l, lr_updates := (if news then lr_updates s @ [so_key so] else lr_updates s)\<rparr>)
               | _ \<Rightarrow> s)))"

definition retry_delay :: "nat \<Rightarrow> real \<Rightarrow> real" where
  "retry_delay retries r = real (min MAX_RETRY_MS (2000 * 2 ^ retries)) * (8 / 10 + r * (4 / 10))"

definition socket_closes :: "nat \<Rightarrow> nat \<Rightarrow> int \<Rightarrow> real \<Rightarrow> live_results \<Rightarrow> live_results" where
  "socket_closes i code nowMs r s = (case map_get (lr_sockets s) i of None \<Rightarrow> s
     | Some so \<Rightarrow>
        (let s1 = s\<lparr>lr_sockets := map_delete i (lr_sockets s)\<rparr>
         in case own_entry so s1 of None \<Rightarrow> s1
            | Some e \<Rightarrow>
               (let e1 = e\<lparr>le_ping := False, le_socket := None\<rparr>;
                    put = (\<lambda>e. s1\<lparr>lr_entries := map_set (so_key so) e (lr_entries s1)\<rparr>)
                in if code = 4400 then put (e1\<lparr>le_refused := True\<rparr>)
                   else if idle_entry e nowMs then close_live (so_key so) (put e1)
                   else put (e1\<lparr>le_retries := Suc (le_retries e), le_timer := Some (retry_delay (le_retries e) r)\<rparr>))))"

definition reconnect :: "bool \<Rightarrow> string \<Rightarrow> live_results \<Rightarrow> live_results" where
  "reconnect works key s = (case map_get (lr_entries s) key of None \<Rightarrow> s
     | Some e \<Rightarrow> if le_timer e = None then s else connect_live works key (le_id e) s)"

definition on_interest :: "bool \<Rightarrow> bool \<Rightarrow> int \<Rightarrow> string \<Rightarrow> live_results \<Rightarrow> live_results" where
  "on_interest online works nowMs key s =
     (case map_get (lr_entries s) key of
        Some e \<Rightarrow> s\<lparr>lr_entries := map_set key (e\<lparr>le_lastInterestMs := nowMs\<rparr>) (lr_entries s)\<rparr>
      | None \<Rightarrow>
         if \<not> online then s
         else (let n = lr_next s;
                   entry = \<lparr>le_id = n, le_socket = None, le_lastInterestMs = nowMs, le_retries = 0, le_timer = None,
                     le_ping = False, le_refused = False\<rparr>;
                   s1 = s\<lparr>lr_next := Suc n, lr_entries := map_set key entry (lr_entries s)\<rparr>;
                   s2 = (if length (lr_entries s1) > MAX_SOCKETS
                     then (case js_sort (\<lambda>a b. le_lastInterestMs (snd a) - le_lastInterestMs (snd b)) (lr_entries s1) of
                       [] \<Rightarrow> s1 | (oldest, _) # _ \<Rightarrow> close_live oldest s1)
                     else s1)
               in connect_live works key n s2))"

definition sweep_live :: "int \<Rightarrow> live_results \<Rightarrow> live_results" where
  "sweep_live nowMs s = fold (\<lambda>(key, e) s. if idle_entry e nowMs then close_live key s else s) (lr_entries s) s"

definition startLiveResults :: "live_results \<Rightarrow> bool \<times> live_results" where
  "startLiveResults s = (if lr_started s then (False, s)
     else (True, s\<lparr>lr_started := True, lr_listening := True, lr_sweeper := True\<rparr>))"

text \<open>What the start that began it returns.\<close>

definition stop_live :: "live_results \<Rightarrow> live_results" where
  "stop_live s = fold close_live (map_keys (lr_entries s)) (s\<lparr>lr_started := False, lr_listening := False, lr_sweeper := False\<rparr>)"

definition liveSocketCount :: "live_results \<Rightarrow> nat" where
  "liveSocketCount s = length (lr_entries s)"

definition no_live_results :: live_results where
  "no_live_results = \<lparr>lr_started = False, lr_listening = False, lr_sweeper = False, lr_entries = [], lr_sockets = [], lr_next = 0,
     lr_live = resetLiveVersionsForTests, lr_updates = []\<rparr>"

section \<open>Steps\<close>

inductive live_step :: "live_results \<Rightarrow> live_results \<Rightarrow> bool" where
  Start: "startLiveResults s = (b, t) \<Longrightarrow> live_step s t"
| Interest: "lr_listening s \<Longrightarrow> live_step s (on_interest online works nowMs key s)"
| Opens: "live_step s (socket_opens i s)"
| Message: "live_step s (socket_message i data nowMs s)"
| Closes: "live_step s (socket_closes i code nowMs r s)"
| Timer: "live_step s (reconnect works key s)"
| Sweep: "lr_sweeper s \<Longrightarrow> live_step s (sweep_live nowMs s)"
| Stop: "live_step s (stop_live s)"

inductive live_run :: "live_results \<Rightarrow> bool" where
  Begin: "live_run no_live_results"
| Go: "\<lbrakk>live_run s; live_step s t\<rbrakk> \<Longrightarrow> live_run t"

inductive_cases live_stepE: "live_step s t"

section \<open>Sockets and entries belong together\<close>

definition live_wf :: "live_results \<Rightarrow> bool" where
  "live_wf s \<longleftrightarrow> map_ok (lr_entries s) \<and> map_ok (lr_sockets s) \<and>
     (\<forall>i so. map_get (lr_sockets s) i = Some so \<longrightarrow> i < lr_next s \<and> so_entry so < lr_next s \<and>
        (if so_closing so then own_entry so s = None
         else \<exists>e. map_get (lr_entries s) (so_key so) = Some e \<and> le_id e = so_entry so \<and> le_socket e = Some i)) \<and>
     (\<forall>k e. map_get (lr_entries s) k = Some e \<longrightarrow> le_id e < lr_next s \<and> (le_ping e \<longrightarrow> le_socket e \<noteq> None) \<and>
        (\<forall>i. le_socket e = Some i \<longrightarrow> le_timer e = None \<and> \<not> le_refused e \<and>
           (\<exists>so. map_get (lr_sockets s) i = Some so \<and> so_key so = k \<and> so_entry so = le_id e \<and> \<not> so_closing so)))"

lemma live_wfD:
  assumes "live_wf s"
  shows "map_ok (lr_entries s)" and "map_ok (lr_sockets s)"
    and "map_get (lr_sockets s) i = Some so \<Longrightarrow> i < lr_next s \<and> so_entry so < lr_next s"
    and "\<lbrakk>map_get (lr_sockets s) i = Some so; so_closing so\<rbrakk> \<Longrightarrow> own_entry so s = None"
    and "\<lbrakk>map_get (lr_sockets s) i = Some so; \<not> so_closing so\<rbrakk> \<Longrightarrow>
      \<exists>e. map_get (lr_entries s) (so_key so) = Some e \<and> le_id e = so_entry so \<and> le_socket e = Some i"
    and "map_get (lr_entries s) k = Some e \<Longrightarrow> le_id e < lr_next s \<and> (le_ping e \<longrightarrow> le_socket e \<noteq> None)"
    and "\<lbrakk>map_get (lr_entries s) k = Some e; le_socket e = Some i\<rbrakk> \<Longrightarrow> le_timer e = None \<and> \<not> le_refused e \<and>
      (\<exists>so. map_get (lr_sockets s) i = Some so \<and> so_key so = k \<and> so_entry so = le_id e \<and> \<not> so_closing so)"
  using assms unfolding live_wf_def by (blast, blast, blast, presburger, presburger, blast, blast)

text \<open>A change of an entry that leaves its number and its socket.\<close>

lemma put_entry_wf:
  assumes "live_wf s" and "map_get (lr_entries s) k = Some e" and "le_id e' = le_id e" and "le_socket e' = le_socket e"
    and "le_ping e' \<longrightarrow> le_socket e' \<noteq> None" and "le_socket e \<noteq> None \<longrightarrow> le_timer e' = None \<and> \<not> le_refused e'"
  shows "live_wf (s\<lparr>lr_entries := map_set k e' (lr_entries s)\<rparr>)"
proof -
  have own: "own_entry so (s\<lparr>lr_entries := map_set k e' (lr_entries s)\<rparr>) = None" if "own_entry so s = None" for so
    using that assms(2,3) by (auto simp: own_entry_def map_get_set split: option.splits if_splits)
  note D = live_wfD [OF assms(1)]
  have so: "if so_closing so then own_entry so (s\<lparr>lr_entries := map_set k e' (lr_entries s)\<rparr>) = None
      else \<exists>e. map_get (map_set k e' (lr_entries s)) (so_key so) = Some e \<and> le_id e = so_entry so \<and> le_socket e = Some i"
    if "map_get (lr_sockets s) i = Some so" for i so
    using D(4,5) [OF that] own [of so] assms(2-4) by (auto simp: map_get_set)
  have en: "le_id f < lr_next s \<and> (le_ping f \<longrightarrow> le_socket f \<noteq> None) \<and> (\<forall>i. le_socket f = Some i \<longrightarrow> le_timer f = None \<and> \<not> le_refused f \<and>
      (\<exists>so. map_get (lr_sockets s) i = Some so \<and> so_key so = j \<and> so_entry so = le_id f \<and> \<not> so_closing so))"
    if "map_get (map_set k e' (lr_entries s)) j = Some f" for j f
  proof (cases "j = k")
    case True
    with that have "f = e'" by (simp add: map_get_set)
    with True D(6,7) [OF assms(2)] assms(3-6) show ?thesis by (auto simp del: not_None_eq)
  next
    case False
    with that have "map_get (lr_entries s) j = Some f" by (simp add: map_get_set)
    with D(6,7) [OF this] show ?thesis by blast
  qed
  show ?thesis
    using so en D(1-3) by (simp add: live_wf_def map_ok_set)
qed

lemma close_wf:
  assumes "live_wf s"
  shows "live_wf (close_live key s)"
proof (cases "map_get (lr_entries s) key")
  case (Some e)
  note D = live_wfD [OF assms]
  define t where "t = close_live key s"
  have en: "lr_entries t = map_delete key (lr_entries s)" "lr_next t = lr_next s"
    by (simp_all add: t_def close_live_def Some)
  have get: "map_get (lr_sockets t) j = (if le_socket e = Some j then map_option (\<lambda>so. so\<lparr>so_closing := True\<rparr>) (map_get (lr_sockets s) j)
      else map_get (lr_sockets s) j)" for j
    by (auto simp: t_def close_live_def Some map_get_set split: option.split)
  have ok: "map_ok (lr_entries t)" "map_ok (lr_sockets t)"
    using D(1,2) by (auto simp: en map_ok_delete) (auto simp: t_def close_live_def Some map_ok_set split: option.split)
  have gone: "own_entry so t = None" if "own_entry so s = None \<or> so_key so = key" for so
    using that by (auto simp: own_entry_def en map_get_delete split: option.splits if_splits)
  have so: "j < lr_next t \<and> so_entry so < lr_next t \<and> (if so_closing so then own_entry so t = None
      else \<exists>e. map_get (lr_entries t) (so_key so) = Some e \<and> le_id e = so_entry so \<and> le_socket e = Some j)"
    if g: "map_get (lr_sockets t) j = Some so" for j so
  proof (cases "le_socket e = Some j")
    case True
    from D(7) [OF Some True] obtain u where u: "map_get (lr_sockets s) j = Some u" "so_key u = key" by blast
    with g True get have "so = u\<lparr>so_closing := True\<rparr>" by simp
    with u D(3) [OF u(1)] gone show ?thesis by (simp add: en)
  next
    case False
    with g get have h: "map_get (lr_sockets s) j = Some so" by simp
    have "so_key so \<noteq> key" if "\<not> so_closing so" using D(5) [OF h that] Some False by auto
    with D(3-5) [OF h] gone show ?thesis by (auto simp: en map_get_delete)
  qed
  have fs: "le_id f < lr_next t \<and> (le_ping f \<longrightarrow> le_socket f \<noteq> None) \<and> (\<forall>i. le_socket f = Some i \<longrightarrow> le_timer f = None \<and> \<not> le_refused f \<and>
      (\<exists>so. map_get (lr_sockets t) i = Some so \<and> so_key so = k \<and> so_entry so = le_id f \<and> \<not> so_closing so))"
    if "map_get (lr_entries t) k = Some f" for k f
  proof -
    from that have k: "k \<noteq> key" "map_get (lr_entries s) k = Some f" by (auto simp: en map_get_delete split: if_splits)
    have "le_socket e \<noteq> Some i" if "le_socket f = Some i" for i
      using D(7) [OF k(2) that] D(7) [OF Some, of i] k(1) by auto
    with D(6,7) [OF k(2)] show ?thesis by (simp add: get en)
  qed
  from ok so fs show ?thesis unfolding t_def [symmetric] live_wf_def by blast
qed (use assms in \<open>simp add: close_live_def\<close>)

lemma connect_wf:
  assumes "live_wf s" and "\<And>e. map_get (lr_entries s) key = Some e \<Longrightarrow> le_id e = n \<Longrightarrow> le_socket e = None"
  shows "live_wf (connect_live works key n s)"
proof (cases "map_get (lr_entries s) key")
  case (Some e)
  note D = live_wfD [OF assms(1)]
  show ?thesis
  proof (cases "le_id e = n")
    case n: True
    have none: "le_socket e = None" using assms(2) Some n by simp
    show ?thesis
    proof (cases "le_refused e \<or> \<not> works")
      case True
      have "live_wf (s\<lparr>lr_entries := map_set key (e\<lparr>le_timer := None\<rparr>) (lr_entries s)\<rparr>)"
        by (rule put_entry_wf [OF assms(1) Some]) (use none D(6) [OF Some] in auto)
      with True Some n show ?thesis by (simp add: connect_live_def)
    next
      case False
      define t where "t = connect_live works key n s"
      have t: "lr_entries t = map_set key (e\<lparr>le_timer := None, le_socket := Some (lr_next s)\<rparr>) (lr_entries s)"
        "lr_sockets t = map_set (lr_next s) \<lparr>so_key = key, so_entry = n, so_closing = False\<rparr> (lr_sockets s)" "lr_next t = Suc (lr_next s)"
        using False Some n by (simp_all add: t_def connect_live_def)
      have own: "own_entry so t = None" if "own_entry so s = None" for so
        using that Some by (auto simp: own_entry_def t map_get_set split: option.splits if_splits)
      have so: "j < lr_next t \<and> so_entry so < lr_next t \<and> (if so_closing so then own_entry so t = None
          else \<exists>e. map_get (lr_entries t) (so_key so) = Some e \<and> le_id e = so_entry so \<and> le_socket e = Some j)"
        if g: "map_get (lr_sockets t) j = Some so" for j so
      proof (cases "j = lr_next s")
        case True
        with g have "so = \<lparr>so_key = key, so_entry = n, so_closing = False\<rparr>" by (simp add: t map_get_set)
        with True n D(6) [OF Some] show ?thesis by (simp add: t map_get_set)
      next
        case False
        with g have h: "map_get (lr_sockets s) j = Some so" by (simp add: t map_get_set)
        have "so_key so \<noteq> key" if "\<not> so_closing so" using D(5) [OF h that] Some none by auto
        with D(3-5) [OF h] own show ?thesis by (auto simp: t map_get_set)
      qed
      have fs: "le_id f < lr_next t \<and> (le_ping f \<longrightarrow> le_socket f \<noteq> None) \<and> (\<forall>i. le_socket f = Some i \<longrightarrow> le_timer f = None \<and> \<not> le_refused f \<and>
          (\<exists>so. map_get (lr_sockets t) i = Some so \<and> so_key so = k \<and> so_entry so = le_id f \<and> \<not> so_closing so))"
        if "map_get (lr_entries t) k = Some f" for k f
      proof (cases "k = key")
        case True
        with that have "f = e\<lparr>le_timer := None, le_socket := Some (lr_next s)\<rparr>" by (simp add: t map_get_set)
        with True False n D(6) [OF Some] show ?thesis by (simp add: t map_get_set)
      next
        case other: False
        with that have h: "map_get (lr_entries s) k = Some f" by (simp add: t map_get_set)
        have "i \<noteq> lr_next s" if "le_socket f = Some i" for i using D(7) [OF h that] D(3) by fastforce
        with D(6,7) [OF h] show ?thesis by (auto simp: t map_get_set)
      qed
      have "map_ok (lr_entries t)" "map_ok (lr_sockets t)" using D(1,2) by (simp_all add: t map_ok_set)
      with so fs show ?thesis unfolding t_def [symmetric] live_wf_def by blast
    qed
  qed (use assms(1) Some in \<open>simp add: connect_live_def\<close>)
qed (use assms(1) in \<open>simp add: connect_live_def\<close>)

lemma drop_socket_wf:
  assumes "live_wf s" and "map_get (lr_sockets s) i = Some so"
  shows "own_entry so s = None \<Longrightarrow> live_wf (s\<lparr>lr_sockets := map_delete i (lr_sockets s)\<rparr>)"
    and "\<lbrakk>own_entry so s = Some e; le_id e' = le_id e; le_socket e' = None; \<not> le_ping e'\<rbrakk> \<Longrightarrow>
      live_wf (s\<lparr>lr_sockets := map_delete i (lr_sockets s), lr_entries := map_set (so_key so) e' (lr_entries s)\<rparr>)"
proof -
  note D = live_wfD [OF assms(1)]
  {
    assume none: "own_entry so s = None"
    have "so_closing so"
    proof (rule ccontr)
      assume "\<not> so_closing so"
      from D(5) [OF assms(2) this] none show False by (auto simp: own_entry_def)
    qed
    then have other: "j \<noteq> i" if "map_get (lr_entries s) k = Some f" "le_socket f = Some j" for k f j
      using D(7) [OF that] assms(2) by auto
    have "own_entry u (s\<lparr>lr_sockets := x\<rparr>) = own_entry u s" for u x by (simp add: own_entry_def)
    with D(1-6) D(7) other show "live_wf (s\<lparr>lr_sockets := map_delete i (lr_sockets s)\<rparr>)"
      unfolding live_wf_def by (simp add: map_ok_delete map_get_delete)
  next
    assume own: "own_entry so s = Some e" and e': "le_id e' = le_id e" "le_socket e' = None" "\<not> le_ping e'"
    then have e: "map_get (lr_entries s) (so_key so) = Some e" "le_id e = so_entry so"
      by (auto simp: own_entry_def split: option.splits if_splits)
    have live: "\<not> so_closing so" using D(4) [OF assms(2)] own by auto
    with D(5) [OF assms(2)] e have sock: "le_socket e = Some i" by simp
    define t where "t = s\<lparr>lr_sockets := map_delete i (lr_sockets s), lr_entries := map_set (so_key so) e' (lr_entries s)\<rparr>"
    have t: "lr_entries t = map_set (so_key so) e' (lr_entries s)" "lr_sockets t = map_delete i (lr_sockets s)" "lr_next t = lr_next s"
      by (simp_all add: t_def)
    have gone: "own_entry u t = None" if "own_entry u s = None" for u
      using that e e'(1) by (auto simp: own_entry_def t map_get_set split: option.splits if_splits)
    have so: "j < lr_next t \<and> so_entry u < lr_next t \<and> (if so_closing u then own_entry u t = None
        else \<exists>e. map_get (lr_entries t) (so_key u) = Some e \<and> le_id e = so_entry u \<and> le_socket e = Some j)"
      if g: "map_get (lr_sockets t) j = Some u" for j u
    proof -
      from g have h: "j \<noteq> i" "map_get (lr_sockets s) j = Some u" by (auto simp: t map_get_delete split: if_splits)
      have "so_key u \<noteq> so_key so" if "\<not> so_closing u" using D(5) [OF h(2) that] e sock h(1) by auto
      with D(3-5) [OF h(2)] gone show ?thesis by (auto simp: t map_get_set)
    qed
    have fs: "le_id f < lr_next t \<and> (le_ping f \<longrightarrow> le_socket f \<noteq> None) \<and> (\<forall>i. le_socket f = Some i \<longrightarrow> le_timer f = None \<and> \<not> le_refused f \<and>
        (\<exists>so. map_get (lr_sockets t) i = Some so \<and> so_key so = k \<and> so_entry so = le_id f \<and> \<not> so_closing so))"
      if "map_get (lr_entries t) k = Some f" for k f
    proof (cases "k = so_key so")
      case True
      with that have "f = e'" by (simp add: t map_get_set)
      with e' D(6) [OF e(1)] show ?thesis by (simp add: t)
    next
      case False
      with that have h: "map_get (lr_entries s) k = Some f" by (simp add: t map_get_set)
      have "j \<noteq> i" if "le_socket f = Some j" for j using D(7) [OF h that] assms(2) False by auto
      with D(6,7) [OF h] show ?thesis by (auto simp: t map_get_delete)
    qed
    have "map_ok (lr_entries t)" "map_ok (lr_sockets t)" using D(1,2) by (simp_all add: t map_ok_set map_ok_delete)
    with so fs show "live_wf (s\<lparr>lr_sockets := map_delete i (lr_sockets s), lr_entries := map_set (so_key so) e' (lr_entries s)\<rparr>)"
      unfolding t_def [symmetric] live_wf_def by blast
  }
qed

lemma length_set_old: "map_get m k \<noteq> None \<Longrightarrow> length (map_set k v m) = length m"
  by (induction k v m rule: map_set.induct) (auto simp: map_get_def split: if_splits)

lemma length_set_le: "length (map_set k v m) \<le> Suc (length m)"
  by (induction k v m rule: map_set.induct) auto

lemma length_delete: "length (map_delete k m) \<le> length m" "map_get m k \<noteq> None \<Longrightarrow> length (map_delete k m) < length m"
proof -
  show "length (map_delete k m) \<le> length m" by (simp add: map_delete_def)
  assume "map_get m k \<noteq> None"
  then have "\<exists>x \<in> set m. \<not> (case x of (j, _) \<Rightarrow> j \<noteq> k)" by (auto simp: map_get_def dest: map_of_SomeD)
  then show "length (map_delete k m) < length m" unfolding map_delete_def by (rule bexE) (rule length_filter_less)
qed

definition live_ok :: "live_results \<Rightarrow> bool" where
  "live_ok s \<longleftrightarrow> live_wf s \<and> length (lr_entries s) \<le> MAX_SOCKETS \<and> lr_listening s = lr_started s \<and> lr_sweeper s = lr_started s \<and>
     (lr_started s \<or> lr_entries s = [])"

lemma close_frame:
  "length (lr_entries (close_live k s)) \<le> length (lr_entries s)" "lr_started (close_live k s) = lr_started s"
  "lr_listening (close_live k s) = lr_listening s" "lr_sweeper (close_live k s) = lr_sweeper s"
  "map_get (lr_entries s) k \<noteq> None \<Longrightarrow> length (lr_entries (close_live k s)) < length (lr_entries s)"
  "lr_entries (close_live k s) = map_delete k (lr_entries s)"
proof -
  show e: "lr_entries (close_live k s) = map_delete k (lr_entries s)"
  proof (cases "map_get (lr_entries s) k")
    case None
    then have "\<forall>x \<in> set (lr_entries s). fst x \<noteq> k" by (auto simp: map_get_def map_of_eq_None_iff)
    then have "map_delete k (lr_entries s) = lr_entries s" by (auto simp: map_delete_def filter_id_conv)
    with None show ?thesis by (simp add: close_live_def)
  qed (simp add: close_live_def)
  show "length (lr_entries (close_live k s)) \<le> length (lr_entries s)"
    "map_get (lr_entries s) k \<noteq> None \<Longrightarrow> length (lr_entries (close_live k s)) < length (lr_entries s)"
    unfolding e by (rule length_delete)+
qed (simp_all add: close_live_def split: option.split)

lemma connect_frame:
  "length (lr_entries (connect_live works k n s)) = length (lr_entries s)" "lr_started (connect_live works k n s) = lr_started s"
  "lr_listening (connect_live works k n s) = lr_listening s" "lr_sweeper (connect_live works k n s) = lr_sweeper s"
  by (simp_all add: connect_live_def length_set_old split: option.split)

lemma fold_close:
  assumes "live_wf s"
  shows "live_wf (fold close_live ks s) \<and> length (lr_entries (fold close_live ks s)) \<le> length (lr_entries s) \<and>
    lr_started (fold close_live ks s) = lr_started s \<and> lr_listening (fold close_live ks s) = lr_listening s \<and>
    lr_sweeper (fold close_live ks s) = lr_sweeper s \<and>
    lr_entries (fold close_live ks s) = filter (\<lambda>(k, _). k \<notin> set ks) (lr_entries s)"
  using assms
proof (induction ks arbitrary: s)
  case (Cons k ks)
  from Cons.IH [OF close_wf [OF Cons.prems, of k]] close_frame [where k = k and s = s] show ?case
    by (auto simp: map_delete_def intro: filter_cong)
qed simp

lemma wf_cong:
  "\<lbrakk>lr_entries t = lr_entries s; lr_sockets t = lr_sockets s; lr_next t = lr_next s\<rbrakk> \<Longrightarrow> live_wf t = live_wf s"
  by (simp add: live_wf_def own_entry_def)

lemma interest_ok:
  assumes "live_ok s" and "lr_listening s"
  shows "live_ok (on_interest online works nowMs key s)"
proof (cases "map_get (lr_entries s) key")
  case (Some e)
  have wf: "live_wf s" using assms(1) by (simp add: live_ok_def)
  have "live_wf (s\<lparr>lr_entries := map_set key (e\<lparr>le_lastInterestMs := nowMs\<rparr>) (lr_entries s)\<rparr>)"
    by (rule put_entry_wf [OF wf Some]) (use live_wfD(6,7) [OF wf Some] in auto)
  with assms Some show ?thesis by (simp add: live_ok_def on_interest_def length_set_old)
next
  case None
  define n where "n = lr_next s"
  define entry where "entry = \<lparr>le_id = n, le_socket = None, le_lastInterestMs = nowMs, le_retries = 0, le_timer = None,
    le_ping = False, le_refused = False\<rparr>"
  define s1 where "s1 = s\<lparr>lr_next := Suc n, lr_entries := map_set key entry (lr_entries s)\<rparr>"
  define s2 where "s2 = (if length (lr_entries s1) > MAX_SOCKETS
    then (case js_sort (\<lambda>a b. le_lastInterestMs (snd a) - le_lastInterestMs (snd b)) (lr_entries s1) of
      [] \<Rightarrow> s1 | (oldest, _) # _ \<Rightarrow> close_live oldest s1) else s1)"
  have wf: "live_wf s" and len: "length (lr_entries s) \<le> MAX_SOCKETS" using assms(1) by (simp_all add: live_ok_def)
  note D = live_wfD [OF wf]
  have own: "own_entry so s1 = None" if "own_entry so s = None" "so_entry so < n" for so
    using that by (auto simp: own_entry_def s1_def map_get_set entry_def split: option.splits if_splits)
  have wf1: "live_wf s1"
  proof -
    have so: "j < lr_next s1 \<and> so_entry so < lr_next s1 \<and> (if so_closing so then own_entry so s1 = None
        else \<exists>e. map_get (lr_entries s1) (so_key so) = Some e \<and> le_id e = so_entry so \<and> le_socket e = Some j)"
      if g: "map_get (lr_sockets s1) j = Some so" for j so
    proof -
      from g have h: "map_get (lr_sockets s) j = Some so" by (simp add: s1_def)
      have "so_key so \<noteq> key" if "\<not> so_closing so" using D(5) [OF h that] None by auto
      with D(3-5) [OF h] own [of so] show ?thesis by (auto simp: s1_def map_get_set n_def)
    qed
    have fs: "le_id f < lr_next s1 \<and> (le_ping f \<longrightarrow> le_socket f \<noteq> None) \<and> (\<forall>i. le_socket f = Some i \<longrightarrow> le_timer f = None \<and> \<not> le_refused f \<and>
        (\<exists>so. map_get (lr_sockets s1) i = Some so \<and> so_key so = k \<and> so_entry so = le_id f \<and> \<not> so_closing so))"
      if "map_get (lr_entries s1) k = Some f" for k f
    proof (cases "k = key")
      case True
      with that have "f = entry" by (simp add: s1_def map_get_set)
      then show ?thesis by (simp add: entry_def s1_def)
    next
      case False
      with that have h: "map_get (lr_entries s) k = Some f" by (simp add: s1_def map_get_set)
      from D(6,7) [OF h] show ?thesis by (auto simp: s1_def n_def)
    qed
    have "map_ok (lr_entries s1)" "map_ok (lr_sockets s1)" using D(1,2) by (simp_all add: s1_def map_ok_set)
    with so fs show ?thesis unfolding live_wf_def by blast
  qed
  have s2: "live_wf s2 \<and> length (lr_entries s2) \<le> MAX_SOCKETS \<and> lr_started s2 = lr_started s \<and> lr_listening s2 = lr_listening s \<and>
      lr_sweeper s2 = lr_sweeper s \<and> (\<forall>e. map_get (lr_entries s2) key = Some e \<longrightarrow> e = entry)"
  proof (cases "length (lr_entries s1) > MAX_SOCKETS")
    case True
    define rows where "rows = js_sort (\<lambda>a b. le_lastInterestMs (snd a) - le_lastInterestMs (snd b)) (lr_entries s1)"
    have "set rows = set (lr_entries s1)" by (simp add: rows_def)
    with True obtain oldest e rest where r: "rows = (oldest, e) # rest" "(oldest, e) \<in> set (lr_entries s1)"
      by (cases rows) force+
    then have s2: "s2 = close_live oldest s1" using True by (simp add: s2_def rows_def)
    have "map_get (lr_entries s1) oldest = Some e"
      using r(2) live_wfD(1) [OF wf1] by (simp add: map_get_def map_ok_def)
    then have "length (lr_entries s2) < length (lr_entries s1)" using close_frame(5) [of s1 oldest] by (simp add: s2)
    moreover have "length (lr_entries s1) \<le> Suc MAX_SOCKETS"
      using length_set_le [of key entry "lr_entries s"] len by (simp add: s1_def)
    ultimately show ?thesis
      using close_wf [OF wf1] by (auto simp: s2 close_frame s1_def map_get_delete map_get_set)
  next
    case False
    with wf1 show ?thesis by (simp add: s2_def s1_def map_get_set)
  qed
  show ?thesis
  proof (cases online)
    case False
    with assms(1) None show ?thesis by (simp add: on_interest_def)
  next
    case True
    then have "on_interest online works nowMs key s = connect_live works key n s2"
      unfolding on_interest_def None Let_def s2_def s1_def entry_def n_def by simp
    moreover have "live_wf (connect_live works key n s2)"
      by (rule connect_wf) (use s2 in \<open>auto simp: entry_def\<close>)
    ultimately show ?thesis using s2 assms by (simp add: live_ok_def connect_frame)
  qed
qed

lemma socket_closes_ok:
  assumes "live_ok s"
  shows "live_ok (socket_closes i code nowMs r s)"
proof (cases "map_get (lr_sockets s) i")
  case (Some so)
  have wf: "live_wf s" using assms by (simp add: live_ok_def)
  define s1 where "s1 = s\<lparr>lr_sockets := map_delete i (lr_sockets s)\<rparr>"
  have own: "own_entry so s1 = own_entry so s" by (simp add: own_entry_def s1_def)
  show ?thesis
  proof (cases "own_entry so s")
    case None
    with Some own drop_socket_wf(1) [OF wf Some] assms show ?thesis
      by (simp add: socket_closes_def Let_def s1_def live_ok_def)
  next
    case e: (Some e)
    then have old: "map_get (lr_entries s) (so_key so) = Some e" by (auto simp: own_entry_def split: option.splits if_splits)
    then have run: "lr_started s" using assms by (auto simp: live_ok_def map_get_def)
    define put where "put = (\<lambda>e. s1\<lparr>lr_entries := map_set (so_key so) e (lr_entries s1)\<rparr>)"
    have ok: "live_ok (put e')" if "le_id e' = le_id e" "le_socket e' = None" "\<not> le_ping e'" for e'
      using drop_socket_wf(2) [OF wf Some e that] assms old run
      by (simp add: put_def s1_def live_ok_def length_set_old)
    have "live_ok (close_live k (put e'))" if "le_id e' = le_id e" "le_socket e' = None" "\<not> le_ping e'" for e' k
    proof -
      have "lr_started (put e')" using run by (simp add: put_def s1_def)
      with ok [OF that] show ?thesis using close_wf [of "put e'" k] close_frame(1) [of k "put e'"] by (auto simp: live_ok_def close_frame(2-4))
    qed
    with ok show ?thesis
      using own e by (simp add: socket_closes_def Some Let_def put_def s1_def)
  qed
qed (use assms in \<open>simp add: socket_closes_def\<close>)

lemma sweep_ok:
  assumes "live_ok s" and "lr_started s"
  shows "live_ok (sweep_live now s)"
proof -
  have "live_ok (fold (\<lambda>(k, e) s. if idle_entry e now then close_live k s else s) es s) \<and>
      lr_started (fold (\<lambda>(k, e) s. if idle_entry e now then close_live k s else s) es s)" for es
    using assms
  proof (induction es arbitrary: s)
    case (Cons p es)
    obtain k e where p: "p = (k, e)" by force
    have "live_ok (close_live k s)" "lr_started (close_live k s)"
      using Cons.prems close_wf [of s k] close_frame(1) [of k s] by (auto simp: live_ok_def close_frame(2-4))
    with Cons p show ?case by simp
  qed simp
  then show ?thesis by (simp add: sweep_live_def)
qed

lemma live_ok_step:
  assumes "live_step s t" and "live_ok s"
  shows "live_ok t"
  using assms(1)
proof cases
  case (Start b)
  with assms(2) wf_cong [of t s] show ?thesis by (auto simp: startLiveResults_def live_ok_def split: if_splits)
next
  case (Interest online works nowMs key)
  with interest_ok [OF assms(2)] show ?thesis by simp
next
  case (Opens i)
  show ?thesis
  proof (cases "\<exists>so e. map_get (lr_sockets s) i = Some so \<and> \<not> so_closing so \<and> own_entry so s = Some e")
    case True
    then obtain so e where so: "map_get (lr_sockets s) i = Some so" "\<not> so_closing so" "own_entry so s = Some e" by blast
    then have e: "map_get (lr_entries s) (so_key so) = Some e" by (auto simp: own_entry_def split: option.splits if_splits)
    have wf: "live_wf s" using assms(2) by (simp add: live_ok_def)
    from live_wfD(5) [OF wf so(1,2)] e have sock: "le_socket e = Some i" by simp
    have "live_wf (s\<lparr>lr_entries := map_set (so_key so) (e\<lparr>le_retries := 0, le_ping := True\<rparr>) (lr_entries s)\<rparr>)"
      by (rule put_entry_wf [OF wf e]) (use sock live_wfD(7) [OF wf e sock] in auto)
    moreover have "lr_started s" using assms(2) e by (auto simp: live_ok_def map_get_def)
    ultimately show ?thesis using assms(2) e Opens so by (simp add: live_ok_def socket_opens_def length_set_old)
  next
    case False
    then have "t = s" using Opens by (auto simp: socket_opens_def split: option.split)
    with assms(2) show ?thesis by simp
  qed
next
  case (Message i data nowMs)
  then have "lr_entries t = lr_entries s" "lr_sockets t = lr_sockets s" "lr_next t = lr_next s" "lr_started t = lr_started s"
    "lr_listening t = lr_listening s" "lr_sweeper t = lr_sweeper s"
    by (auto simp: socket_message_def split: option.split jsval.split prod.split)
  with assms(2) wf_cong [of t s] show ?thesis by (simp add: live_ok_def)
next
  case (Closes i code nowMs r)
  with socket_closes_ok [OF assms(2)] show ?thesis by simp
next
  case (Timer works key)
  have wf: "live_wf s" using assms(2) by (simp add: live_ok_def)
  show ?thesis
  proof (cases "\<exists>e. map_get (lr_entries s) key = Some e \<and> le_timer e \<noteq> None")
    case True
    then obtain e where e: "map_get (lr_entries s) key = Some e" "le_timer e \<noteq> None" by blast
    then have "le_socket e = None" using live_wfD(7) [OF wf e(1)] by (cases "le_socket e") auto
    then have "live_wf (connect_live works key (le_id e) s)" using e by (intro connect_wf [OF wf]) simp
    moreover have "lr_started s" using assms(2) e(1) by (auto simp: live_ok_def map_get_def)
    ultimately show ?thesis using assms(2) e Timer by (simp add: live_ok_def reconnect_def connect_frame)
  next
    case False
    then have "t = s" using Timer by (auto simp: reconnect_def split: option.split)
    with assms(2) show ?thesis by simp
  qed
next
  case (Sweep nowMs)
  with sweep_ok [OF assms(2)] assms(2) show ?thesis by (simp add: live_ok_def)
next
  case Stop
  define u where "u = s\<lparr>lr_started := False, lr_listening := False, lr_sweeper := False\<rparr>"
  have "live_wf u" using assms(2) wf_cong [of u s] by (simp add: live_ok_def u_def)
  from fold_close [OF this, of "map_keys (lr_entries s)"] Stop
  have "live_wf t" "lr_started t = False" "lr_listening t = False" "lr_sweeper t = False"
    "lr_entries t = filter (\<lambda>(k, _). k \<notin> set (map_keys (lr_entries s))) (lr_entries s)"
    by (simp_all add: stop_live_def u_def)
  moreover have "filter (\<lambda>(k, _). k \<notin> set (map_keys (lr_entries s))) (lr_entries s) = []"
    by (force simp: filter_empty_conv map_keys_def)
  ultimately show ?thesis by (simp add: live_ok_def)
qed

lemma live_ok_run: "live_run s \<Longrightarrow> live_ok s"
proof (induction rule: live_run.induct)
  case Begin
  show ?case by (simp add: live_ok_def live_wf_def no_live_results_def map_get_def map_ok_def)
qed (rule live_ok_step)

section \<open>What a run shows\<close>

text \<open>The sockets that are not being closed.\<close>

definition live_sockets :: "live_results \<Rightarrow> (nat \<times> live_socket) list" where
  "live_sockets s = filter (\<lambda>(_, so). \<not> so_closing so) (lr_sockets s)"

lemma live_socket_keys:
  assumes "live_wf s"
  shows "distinct (map (so_key \<circ> snd) (live_sockets s)) \<and> set (map (so_key \<circ> snd) (live_sockets s)) \<subseteq> set (map_keys (lr_entries s))"
proof -
  note D = live_wfD [OF assms]
  have get: "map_get (lr_sockets s) i = Some so \<and> \<not> so_closing so" if "(i, so) \<in> set (live_sockets s)" for i so
    using that D(2) by (auto simp: live_sockets_def map_get_def map_ok_def)
  have inj: "inj_on (so_key \<circ> snd) (set (live_sockets s))"
  proof (rule inj_onI)
    fix a b assume ab: "a \<in> set (live_sockets s)" "b \<in> set (live_sockets s)" "(so_key \<circ> snd) a = (so_key \<circ> snd) b"
    obtain i x j y where p: "a = (i, x)" "b = (j, y)" by (cases a; cases b) auto
    from get ab(1) p have "map_get (lr_sockets s) i = Some x" "\<not> so_closing x" by auto
    note x = this D(5) [OF this]
    from get ab(2) p have "map_get (lr_sockets s) j = Some y" "\<not> so_closing y" by auto
    note y = this D(5) [OF this]
    have "i = j" using x(3) y(3) ab(3) p by auto
    with x y p show "a = b" by simp
  qed
  have "distinct (map fst (live_sockets s))"
    using D(2) by (auto simp: live_sockets_def map_ok_def intro: distinct_map_filter)
  then have "distinct (live_sockets s)" by (simp add: distinct_map)
  with inj have "distinct (map (so_key \<circ> snd) (live_sockets s))" by (simp add: distinct_map)
  moreover have "so_key so \<in> set (map_keys (lr_entries s))" if "(i, so) \<in> set (live_sockets s)" for i so
    using D(5) [of i so] get [OF that] by (force simp: map_keys_def map_get_def dest: map_of_SomeD)
  ultimately show ?thesis by auto
qed

text \<open>Claim C39: the sockets stay few and none is forgotten.  Over any run of interests, openings, messages,
  losses, timers, sweeps, stops and starts, at most six sockets are open and at most one for an event; each
  belongs to an event that is still followed, which then waits for no other; and once stopped, no socket
  is open and no timer can open one.\<close>

theorem sockets_stay_few:
  assumes "live_run s"
  shows "length (live_sockets s) \<le> MAX_SOCKETS \<and> distinct (map (so_key \<circ> snd) (live_sockets s)) \<and>
    (\<forall>i so. map_get (lr_sockets s) i = Some so \<longrightarrow> so_closing so \<or>
      (\<exists>e. map_get (lr_entries s) (so_key so) = Some e \<and> le_socket e = Some i \<and> le_timer e = None)) \<and>
    (lr_started s \<or> live_sockets s = [] \<and> lr_entries s = [])"
proof -
  have ok: "live_ok s" by (rule live_ok_run [OF assms])
  then have wf: "live_wf s" and len: "length (lr_entries s) \<le> MAX_SOCKETS" by (simp_all add: live_ok_def)
  note K = live_socket_keys [OF wf]
  have "length (live_sockets s) = card (set (map (so_key \<circ> snd) (live_sockets s)))"
    using K distinct_card by fastforce
  also have "\<dots> \<le> card (set (map_keys (lr_entries s)))" using K by (intro card_mono) auto
  also have "\<dots> \<le> length (lr_entries s)" using card_length [of "map_keys (lr_entries s)"] by (simp add: map_keys_def)
  finally have few: "length (live_sockets s) \<le> length (lr_entries s)" .
  have own: "\<exists>e. map_get (lr_entries s) (so_key so) = Some e \<and> le_socket e = Some i \<and> le_timer e = None"
    if "map_get (lr_sockets s) i = Some so" "\<not> so_closing so" for i so
    using live_wfD(5) [OF wf that] live_wfD(7) [OF wf] by blast
  show ?thesis using few len K own ok by (auto simp: live_ok_def)
qed

definition one_event :: live_results where
  "one_event = on_interest True True 5000 ''2026miket'' (snd (startLiveResults no_live_results))"

lemma one_event_run: "live_run one_event"
proof -
  have "live_step no_live_results (snd (startLiveResults no_live_results))" by (rule live_step.Start [OF surjective_pairing])
  moreover have "lr_listening (snd (startLiveResults no_live_results))" by (simp add: startLiveResults_def no_live_results_def)
  ultimately show ?thesis
    unfolding one_event_def by (blast intro: live_run.intros live_step.Interest)
qed

lemma sockets_stay_few_witness:
  "length (live_sockets one_event) \<le> MAX_SOCKETS \<and> live_sockets (stop_live one_event) = []"
proof -
  have "live_run (stop_live one_event)" by (rule live_run.Go [OF one_event_run live_step.Stop])
  moreover have "\<not> lr_started (stop_live one_event)" by code_simp
  ultimately show ?thesis using sockets_stay_few [OF one_event_run] sockets_stay_few [of "stop_live one_event"] by blast
qed

section \<open>Lost sockets and news\<close>

lemma retry_delay_bounds:
  assumes "0 \<le> r" and "r < 1"
  shows "1600 \<le> retry_delay n r" and "retry_delay n r < 72000"
proof -
  have m: "2000 \<le> real (min MAX_RETRY_MS (2000 * 2 ^ n))" "real (min MAX_RETRY_MS (2000 * 2 ^ n)) \<le> 60000"
    using one_le_power [of "2 :: nat" n] by (simp_all add: MAX_RETRY_MS_def)
  have "2000 * (8 / 10) \<le> real (min MAX_RETRY_MS (2000 * 2 ^ n)) * (8 / 10 + r * (4 / 10))"
    by (rule mult_mono) (use m assms in simp_all)
  then show "1600 \<le> retry_delay n r" by (simp add: retry_delay_def)
  have "real (min MAX_RETRY_MS (2000 * 2 ^ n)) * (8 / 10 + r * (4 / 10)) \<le> 60000 * (8 / 10 + r * (4 / 10))"
    by (rule mult_right_mono) (use m assms in simp_all)
  also have "\<dots> < 72000" using assms(2) by simp
  finally show "retry_delay n r < 72000" by (simp add: retry_delay_def)
qed

text \<open>Claim C40: a lost socket comes back while its event is followed.  When the socket of an event that a
  page asked about within the last minute and a half is lost, for another reason than that the server does
  not know the event, the event waits between 1.6 and 72 seconds and then has a socket again.\<close>

theorem lost_socket_comes_back:
  assumes "live_run s" and "map_get (lr_sockets s) i = Some so" and "\<not> so_closing so"
    and "map_get (lr_entries s) (so_key so) = Some e" and "\<not> idle_entry e now" and "code \<noteq> 4400" and "0 \<le> r" and "r < 1"
    and "t = socket_closes i code now r s"
  shows "(\<exists>f d. map_get (lr_entries t) (so_key so) = Some f \<and> le_timer f = Some d \<and> 1600 \<le> d \<and> d < 72000 \<and> le_socket f = None) \<and>
    (\<exists>j new. map_get (lr_sockets (reconnect True (so_key so) t)) j = Some new \<and> so_key new = so_key so \<and> \<not> so_closing new)"
proof -
  have wf: "live_wf s" using live_ok_run [OF assms(1)] by (simp add: live_ok_def)
  from live_wfD(5) [OF wf assms(2,3)] assms(4) have id: "le_id e = so_entry so" "le_socket e = Some i" by simp_all
  from live_wfD(7) [OF wf assms(4) id(2)] have ref: "\<not> le_refused e" by simp
  define f where "f = e\<lparr>le_ping := False, le_socket := None, le_retries := Suc (le_retries e), le_timer := Some (retry_delay (le_retries e) r)\<rparr>"
  have t: "t = s\<lparr>lr_sockets := map_delete i (lr_sockets s), lr_entries := map_set (so_key so) f (lr_entries s)\<rparr>"
    using assms(2,4-6) id by (simp add: assms(9) socket_closes_def own_entry_def Let_def f_def)
  have "map_get (lr_entries t) (so_key so) = Some f" by (simp add: t map_get_set)
  moreover from this have "reconnect True (so_key so) t = connect_live True (so_key so) (le_id f) t"
    by (simp add: reconnect_def f_def)
  ultimately show ?thesis
    using ref retry_delay_bounds [OF assms(7,8), of "le_retries e"]
    by (auto simp: connect_live_def map_get_set f_def)
qed

lemma lost_socket_comes_back_witness:
  "\<exists>f d. map_get (lr_entries (socket_closes 1 1006 6000 0 one_event)) ''2026miket'' = Some f \<and> le_timer f = Some d \<and> d < 72000"
proof -
  define e where "e = \<lparr>le_id = 0, le_socket = Some 1, le_lastInterestMs = 5000, le_retries = 0, le_timer = None, le_ping = False, le_refused = False\<rparr>"
  have s: "map_get (lr_sockets one_event) 1 = Some \<lparr>so_key = ''2026miket'', so_entry = 0, so_closing = False\<rparr>"
    "map_get (lr_entries one_event) ''2026miket'' = Some e"
    by (simp_all add: one_event_def on_interest_def startLiveResults_def no_live_results_def connect_live_def map_get_def MAX_SOCKETS_def e_def Let_def)
  from lost_socket_comes_back [OF one_event_run s(1), of e 6000 1006 0] s(2) show ?thesis
    by (auto simp: idle_entry_def IDLE_MS_def e_def)
qed

text \<open>News on a socket tells the pages to read again, and their reads then go past the caches.\<close>

lemma news_updates_the_pages:
  assumes "map_get (lr_sockets s) i = Some so" and "\<not> so_closing so"
    and "map_get (lv_versions (lr_live s)) (live_key (so_key so)) = Some old" and "old \<noteq> version"
  shows "lr_updates (socket_message i (Json (JObj [(''type'', JStr ''results''), (''version'', JStr version)])) now s) = lr_updates s @ [so_key so] \<and>
    map_get (lv_freshUntil (lr_live (socket_message i (Json (JObj [(''type'', JStr ''results''), (''version'', JStr version)])) now s))) (live_key (so_key so)) =
      Some (now + FRESH_WINDOW_MS)"
  using assms by (simp add: socket_message_def json_parse_def asRecord_def jget_opt_def jget_def applyLiveVersion_def map_get_set Let_def)

section \<open>An event without a socket\<close>

text \<open>An event whose socket could not be made is left without a socket and without a timer, and further
  interest does not make one: it is followed again only after a minute and a half without interest.\<close>

lemma failed_socket_is_not_retried:
  "live_sockets (on_interest True True 20000 ''2026miket'' (reconnect True ''2026miket''
     (on_interest True False 5000 ''2026miket'' (snd (startLiveResults no_live_results))))) = []"
  by (simp add: on_interest_def startLiveResults_def no_live_results_def connect_live_def reconnect_def map_get_def MAX_SOCKETS_def
      live_sockets_def Let_def)

end
