(* ===== verification/Spec2Isabelle.thy ===== *)
theory Spec2Isabelle
  imports ScoutBoard OfflineQueueRuns QrCode PicklistEditor TeamAssignments EventSearch HomeFeed ApiWrites Polling LiveResults
begin

text \<open>
  The core of the FRC scouting app, \<open>src/ScoutingApp/src\<close> (TypeScript).  Scouts fill in a form for a team
  of a match; the app computes ratings, keeps the report in the storage of the phone, sends it to the
  workspace's server or queues it while offline, passes it to another phone as a QR code, and merges
  what the server and other tabs know.  A lead plans who scouts which team, finds events, and works on a
  shared picklist up to the alliance selection.  This library models those parts as functions and state
  machines and proves what each promises.

  \<^bold>\<open>The theories and the code\<close> (paths below \<open>src/ScoutingApp/src\<close>).
  \<^item> \<open>Prelude\<close>: the strings, rounding, stable sort with a comparator and insertion-ordered maps of JavaScript,
    with the locale \<open>js_dict\<close> of a map and its interpretation \<open>jm\<close>; \<open>JsValue\<close>: dynamic values, \<open>Number\<close> and
    \<open>String\<close>; \<open>JsonText\<close>: \<open>JSON.stringify\<close> and \<open>JSON.parse\<close>; \<open>ByteCodecs\<close>: UTF-8 and base64, the locale
    \<open>codec\<close> interpreted on both.
  \<^item> \<open>MatchInfo\<close>: \<open>pages/centerUtils.ts\<close>, \<open>pages/matchStatus.ts\<close>, \<open>config/season.ts\<close>, \<open>utils/matchLabel.ts\<close>,
    \<open>utils/eventKey.ts\<close>: the match clock, keys and labels.
  \<^item> \<open>ScoutTypes\<close>, \<open>ScoutForm\<close>, \<open>ScoutRatings\<close>, \<open>ScoutReaders\<close>, \<open>ScoutEntries\<close>, \<open>ScoutBoard\<close>:
    \<open>pages/scoutingPage.types.ts\<close> and \<open>pages/scoutingPage.helpers.ts\<close>, with \<open>features/scoutNotes\<close>,
    \<open>platform/safeStorage.ts\<close> and \<open>features/offline/syncReceipt.ts\<close>: the form, the ratings, reading and
    building a report, the lists of reports and how they merge, the timer and the drafts of the board.
  \<^item> \<open>LocalStorage\<close>: \<open>utils/apiCacheSpace.ts\<close> and \<open>features/offline/scoutRecovery.ts\<close>: a storage with a
    quota, making room for scouting work, and pending drafts.
  \<^item> \<open>OfflineQueue\<close>, \<open>OfflineQueueRuns\<close>: \<open>utils/offlineQueue.ts\<close>: the queue of unsent edits over two stores
    that can fail, and its runs as an inductive step relation.
  \<^item> \<open>QrCode\<close>: \<open>pages/qrUtils.ts\<close> and the import decision of \<open>pages/QrShareModals.tsx\<close>.
  \<^item> \<open>PicklistDraft\<close>: \<open>features/picklists/draft.ts\<close>, \<open>rankMove.ts\<close>: the board of the alliance selection;
    \<open>PicklistEditor\<close>: \<open>features/picklists/usePicklistEditor.ts\<close>: saving a shared list with conflicts.
  \<^item> \<open>TeamAssignments\<close>: \<open>features/workspace/teamAssignments.ts\<close>: who scouts what, and the planner.
  \<^item> \<open>EventSearch\<close>: \<open>utils/eventSearch.ts\<close>, \<open>utils/eventSearchIndex.ts\<close>, \<open>utils/mergeEventLists.ts\<close>,
    \<open>features/events/eventCatalog.ts\<close>: finding an event;
    \<open>HomeFeed\<close>: \<open>pages/homeFeed.ts\<close>: what the home page shows of the matches.
  \<^item> \<open>WorkspaceSession\<close>: \<open>features/workspace/workspaceSession.ts\<close>: the sign-in, over the storage of the tab or
    the vault of the phone; \<open>AccessTokens\<close>: the tokens of rooms and of the admin mode in \<open>api.ts\<close>.
  \<^item> \<open>ApiUrls\<close>: \<open>features/live/liveVersions.ts\<close> and the URLs, options and errors of \<open>api.ts\<close>, with the locale
    \<open>codec\<close> interpreted on \<open>encodeURIComponent\<close> (\<open>uri\<close>); \<open>ApiCache\<close>: the caches of \<open>api.ts\<close>,
    \<open>utils/apiResponseStore.ts\<close>, \<open>utils/apiResponseDatabase.ts\<close>; \<open>ApiFetch\<close>: \<open>apiFetch\<close> of \<open>api.ts\<close> from the URL to
    the answer, with \<open>bootPrefetch.ts\<close>, over the session, the tokens, the caches and the offline queue;
    \<open>ApiOffline\<close>, \<open>ApiWrites\<close>: what it promises, whatever else the app does meanwhile (\<open>stable\<close>).
  \<^item> \<open>Polling\<close>: \<open>hooks/useSingleFlightPolling.ts\<close>: the poll of a page, with its timers, failures and refreshes;
    \<open>LiveResults\<close>: \<open>features/live/liveResults.ts\<close>: the sockets of the events in play.

  \<^bold>\<open>How the code appears.\<close>  An interface of the code is a record, a union of literals a datatype, a
  \<open>Map\<close> or object used as one an association list in insertion order, an optional field an \<open>option\<close>.
  Finite numbers are exact (\<open>int\<close> for counts, times and match numbers, \<open>real\<close> for ratings and JSON
  numbers); \<open>NaN\<close> and the infinities are constructors of \<open>num\<close>.  Strings are lists of the code units 0
  to 255; a result outside is a branch of its own (\<open>Outside\<close>, \<open>Beyond\<close>).  The clock, random ids, the
  printing of numbers, \<open>localeCompare\<close> and the server's answers are arguments.  Storage that refuses a
  write, a rejected request and a thrown error are values.  An asynchronous operation is a request step and a
  reply step, with any other steps between.

  \<^bold>\<open>What the lemmas show.\<close>  No confirmed edit of the offline queue is lost and the edits of a record stay
  in order; a picklist edit stays on the device until it is shared, the page shows what is kept, and what
  a reload left stored is sent when its list is opened; a scanned report is the report; what a room snapshot
  makes of the reports, exactly, and that up to 600 rows none that is not acknowledged is lost; a form
  reads back as it was and one bad value costs at most its field; a draft is found under its own workspace,
  match and team; a write of scouting work makes room for itself; fouls never help and a blended rating is
  a compromise that follows the scout; the alliance selection runs serpentine, who is on the clock is read
  off the board, and a pick moves the board as the rules say; a plan books each scout once a match, evenly,
  with no slot left; a search returns the best events and its word distance is the least number of edits;
  the home feed loses no match and its counts are true; who signed out stays out if the marks of the
  sign-out fit in the storage, who signed in stays in, and only a refusal of its own token ends a session;
  a cache key tells workspaces, paths and parameters apart; a saved answer, and what an offline download
  saved, is there without a network as long as its stored copies are left alone and nothing else reads the
  URL; a write that the connection loses is in the queue when the caller is told so, an old answer shown
  at once is replaced; saved answers stay within their budget and never reach another workspace; a poll
  never stalls and never runs twice at once, and a refresh asked for is run; the sockets of live results
  stay few and a lost one comes back.

  \<^bold>\<open>Loops and fuel.\<close>  Loops are structural recursion or folds and total.  The JSON reader alone takes
  fuel; twice the length of the text plus one is proved enough for every text.  Runs of the queue, of the
  picklist editor, of a poll and of the sockets are of any length.

  \<^bold>\<open>Simplified.\<close>  Stored drafts and queue rows are values (\<open>Json\<close>) that \<open>JSON.parse\<close> gives back as they
  were written, except the drafts of \<open>ScoutBoard\<close> and the QR codes, which go through their text.  Settings of
  the build (\<open>VITE_*\<close>) have their defaults.  Removing a key of \<open>localStorage\<close> does not fail, a failed vault
  write leaves the vault unchanged, an entry just put into Cache Storage is found by the check after it, and
  pruning is one step.  An edit of a picklist always makes a new object, an event of the search index has
  the fields the search reads, and stopping live results clears the sweeper that is running.

  \<^bold>\<open>Not modelled.\<close>  The React pages and components (\<open>pages/*.tsx\<close>, \<open>components\<close>, \<open>layout\<close>, most
  \<open>hooks\<close>), which render and wire events; the some 150 endpoint functions of \<open>api.ts\<close>, which build a URL and
  a body for \<open>apiFetch\<close>, and the abort controllers under it; video and machine learning on the device (\<open>features/onDevice\<close>), which work on frames of
  floating-point data; the service worker, native shells, build scripts and tests; the backend, which is
  Python.  Floating-point rounding, texts beyond code unit 255 and the order of the engine's microtasks
  within one step are outside the model.
\<close>

end
